(* ===== verification/Prelude.thy ===== *)
theory Prelude
  imports Main
begin

text \<open>
  Shared vocabulary of the development. Go strings are byte sequences and are modelled as
  \<open>string\<close> (one \<open>char\<close> per byte). Go's \<open>int\<close> is 64 bits wide: integers are modelled as
  \<open>int\<close>, and the one place where the width shows (\<open>strconv.Atoi\<close>) writes the bound out.
  Durations are nanoseconds in \<open>int\<close>. A Go panic is \<open>None\<close>.

  The functions here are the parts of Go's standard library the source calls: \<open>strings.Split\<close>,
  \<open>Cut\<close>, \<open>Trim\<close>, \<open>TrimSpace\<close>, \<open>Contains\<close>, \<open>EqualFold\<close>, \<open>ToLower\<close>, and \<open>strconv.Itoa\<close> and
  \<open>Atoi\<close>; with them the list lemmas that more than one component uses.
\<close>

named_theorems go_simps "equations that evaluate the standard-library functions"

section \<open>Integers\<close>

definition max_int :: int where
  "max_int = 9223372036854775807"

text \<open>Go's integer division truncates towards zero.\<close>

definition go_div :: "int \<Rightarrow> int \<Rightarrow> int" where
  "go_div a b = sgn a * sgn b * (\<bar>a\<bar> div \<bar>b\<bar>)"

lemma go_div_nonneg: "0 \<le> a \<Longrightarrow> 0 < b \<Longrightarrow> go_div a b = a div b"
  by (cases "a = 0") (auto simp: go_div_def sgn_if)

section \<open>Errors\<close>

text \<open>An error value: a \<open>*url.Error\<close> with what it wraps, another wrapper, or a leaf.\<close>

datatype go_error = Leaf string | UrlError string "go_error option" | Wrapped string go_error

section \<open>Characters and strings\<close>

definition is_digit :: "char \<Rightarrow> bool" where
  "is_digit c \<longleftrightarrow> 48 \<le> (of_char c :: nat) \<and> (of_char c :: nat) \<le> 57"

definition digit_val :: "char \<Rightarrow> nat" where
  "digit_val c = (of_char c :: nat) - 48"

definition digit_char :: "nat \<Rightarrow> char" where
  "digit_char d = char_of (d + 48)"

lemma of_char_digit_char: "d < 10 \<Longrightarrow> (of_char (digit_char d) :: nat) = d + 48"
  by (simp add: digit_char_def)

lemma digit_char_is_digit [simp]: "d < 10 \<Longrightarrow> is_digit (digit_char d)"
  by (simp add: is_digit_def of_char_digit_char)

lemma digit_val_char [simp]: "d < 10 \<Longrightarrow> digit_val (digit_char d) = d"
  by (simp add: digit_val_def of_char_digit_char)

text \<open>\<open>strings.Split\<close> with a one-byte separator, and \<open>strings.Cut\<close>.\<close>

fun go_split :: "char \<Rightarrow> string \<Rightarrow> string list" where
  "go_split c [] = [[]]"
| "go_split c (x # xs) =
     (if x = c then [] # go_split c xs
      else case go_split c xs of [] \<Rightarrow> [[x]] | y # ys \<Rightarrow> (x # y) # ys)"

fun go_cut :: "char \<Rightarrow> string \<Rightarrow> string \<times> string \<times> bool" where
  "go_cut c [] = ([], [], False)"
| "go_cut c (x # xs) =
     (if x = c then ([], xs, True)
      else let (a, b, found) = go_cut c xs in (x # a, b, found))"

text \<open>\<open>strings.Trim\<close> with a set of bytes.\<close>

definition go_trim :: "(char \<Rightarrow> bool) \<Rightarrow> string \<Rightarrow> string" where
  "go_trim p s = rev (dropWhile p (rev (dropWhile p s)))"

text \<open>\<open>strings.Contains\<close>, and \<open>bytes.Contains\<close> alike.\<close>

fun starts_with :: "'a list \<Rightarrow> 'a list \<Rightarrow> bool" where
  "starts_with [] s = True"
| "starts_with (p # ps) [] = False"
| "starts_with (p # ps) (c # s) = (p = c \<and> starts_with ps s)"

fun go_contains :: "'a list \<Rightarrow> 'a list \<Rightarrow> bool" where
  "go_contains needle [] = (needle = [])"
| "go_contains needle (c # s) = (starts_with needle (c # s) \<or> go_contains needle s)"

lemma starts_with_iff: "starts_with p s \<longleftrightarrow> (\<exists>r. s = p @ r)"
  by (induction p s rule: starts_with.induct) auto

lemma go_contains_append: "go_contains needle (a @ needle @ b)"
proof (induction a)
  case Nil
  then show ?case
  proof (cases "needle @ b")
    case (Cons c s)
    then have "starts_with needle (c # s)" by (metis starts_with_iff)
    with Cons show ?thesis by simp
  qed simp
qed simp

lemma go_contains_iff: "go_contains needle s \<longleftrightarrow> (\<exists>a b. s = a @ needle @ b)"
proof
  show "go_contains needle s \<Longrightarrow> \<exists>a b. s = a @ needle @ b"
  proof (induction s)
    case (Cons c s)
    then consider "starts_with needle (c # s)" | "go_contains needle s" by auto
    then show ?case
    proof cases
      case 1
      then show ?thesis by (metis append_Nil starts_with_iff)
    next
      case 2
      with Cons.IH show ?thesis by (metis append_Cons)
    qed
  qed simp
qed (auto simp: go_contains_append)

text \<open>
  Case mapping. \<open>ascii_lower\<close> maps A-Z. \<open>strings.EqualFold\<close> compares by Unicode simple folding;
  against an ASCII name the only other runes that match are U+017F (as s) and U+212A (as k),
  which are the byte sequences below.
\<close>

definition ascii_lower :: "char \<Rightarrow> char" where
  "ascii_lower c =
     (let n = (of_char c :: nat) in if 65 \<le> n \<and> n \<le> 90 then char_of (n + 32) else c)"

definition go_lower :: "string \<Rightarrow> string" where
  "go_lower s = map ascii_lower s"

fun equal_fold :: "string \<Rightarrow> string \<Rightarrow> bool" where
  "equal_fold s [] = (s = [])"
| "equal_fold s (t # ts) =
     (case s of
        [] \<Rightarrow> False
      | c # cs \<Rightarrow>
          if ascii_lower c = ascii_lower t then equal_fold cs ts
          else if starts_with [CHR 0xC5, CHR 0xBF] s \<and> ascii_lower t = CHR ''s''
            then equal_fold (drop 2 s) ts
          else if starts_with [CHR 0xE2, CHR 0x84, CHR 0xAA] s \<and> ascii_lower t = CHR ''k''
            then equal_fold (drop 3 s) ts
          else False)"

declare equal_fold.simps [simp del]

lemma equal_fold_Nil [simp]: "equal_fold s [] \<longleftrightarrow> s = []"
  by (simp add: equal_fold.simps)

lemma equal_fold_Cons_lower:
  "ascii_lower c = ascii_lower t \<Longrightarrow> equal_fold (c # cs) (t # ts) = equal_fold cs ts"
  by (simp add: equal_fold.simps)

lemma equal_fold_lower: "go_lower s = go_lower t \<Longrightarrow> equal_fold s t"
proof (induction t arbitrary: s)
  case (Cons t ts)
  then obtain c cs where "s = c # cs" and "ascii_lower c = ascii_lower t" and "go_lower cs = go_lower ts"
    by (cases s) (auto simp: go_lower_def)
  then show ?case using Cons.IH by (simp add: equal_fold_Cons_lower)
qed (simp add: go_lower_def)

lemma equal_fold_refl [simp]: "equal_fold s s"
  by (rule equal_fold_lower) simp

section \<open>Decimal numbers\<close>

fun nat_str :: "nat \<Rightarrow> string" where
  "nat_str n = (if n < 10 then [digit_char n] else nat_str (n div 10) @ [digit_char (n mod 10)])"

declare nat_str.simps [simp del]

definition itoa :: "int \<Rightarrow> string" where
  "itoa i = (if i < 0 then CHR ''-'' # nat_str (nat (- i)) else nat_str (nat i))"

definition digits_val :: "string \<Rightarrow> nat" where
  "digits_val s = foldl (\<lambda>v c. 10 * v + digit_val c) 0 s"

text \<open>
  \<open>strconv.Atoi\<close> on a string of ASCII digits: an error (\<open>None\<close>) on the empty string and on a
  value that does not fit an \<open>int\<close>.
\<close>

definition atoi_digits :: "string \<Rightarrow> int option" where
  "atoi_digits s =
     (if s = [] \<or> \<not> list_all is_digit s then None
      else if int (digits_val s) > max_int then None
      else Some (int (digits_val s)))"

text \<open>\<open>strconv.Atoi\<close>: an optional sign, then digits.\<close>

definition atoi :: "string \<Rightarrow> int option" where
  "atoi s =
     (case s of
        [] \<Rightarrow> None
      | c # r \<Rightarrow>
          if c = CHR ''-'' then
            (if r = [] \<or> \<not> list_all is_digit r \<or> int (digits_val r) > max_int + 1 then None
             else Some (- int (digits_val r)))
          else if c = CHR ''+'' then atoi_digits r
          else atoi_digits s)"

lemma digits_val_snoc: "digits_val (s @ [c]) = 10 * digits_val s + digit_val c"
  by (simp add: digits_val_def)

lemma nat_str_nonempty [simp]: "nat_str n \<noteq> []"
  by (subst nat_str.simps) simp

lemma nat_str_digits: "list_all is_digit (nat_str n)"
proof (induction n rule: nat_str.induct)
  case (1 n)
  then show ?case by (subst nat_str.simps) auto
qed

lemma digits_val_nat_str [simp]: "digits_val (nat_str n) = n"
proof (induction n rule: nat_str.induct)
  case (1 n)
  show ?case
  proof (cases "n < 10")
    case True
    then show ?thesis by (subst nat_str.simps) (simp add: digits_val_def)
  next
    case False
    then have "digits_val (nat_str n) = 10 * (n div 10) + n mod 10"
      using 1 by (subst nat_str.simps) (simp add: digits_val_snoc)
    then show ?thesis by simp
  qed
qed

lemma itoa_nonneg_digits: "0 \<le> i \<Longrightarrow> list_all is_digit (itoa i)"
  by (simp add: itoa_def nat_str_digits)

lemma itoa_nonempty [simp]: "itoa i \<noteq> []"
  by (simp add: itoa_def)

lemma atoi_digits_itoa: "0 \<le> i \<Longrightarrow> i \<le> max_int \<Longrightarrow> atoi_digits (itoa i) = Some i"
  by (simp add: atoi_digits_def itoa_def nat_str_digits)

lemma inj_nat_str: "nat_str a = nat_str b \<Longrightarrow> a = b"
  by (metis digits_val_nat_str)

lemma itoa_inj: "0 \<le> a \<Longrightarrow> 0 \<le> b \<Longrightarrow> itoa a = itoa b \<Longrightarrow> a = b"
  by (auto simp: itoa_def dest: inj_nat_str)

section \<open>Lists\<close>

lemma go_split_nonempty [simp]: "go_split c s \<noteq> []"
  by (induction s) (auto split: list.splits)

lemma go_split_no_sep: "c \<notin> set s \<Longrightarrow> go_split c s = [s]"
  by (induction s) auto

lemma go_split_append: "c \<notin> set s \<Longrightarrow> go_split c (s @ c # t) = s # go_split c t"
  by (induction s) auto

lemma go_cut_absent: "c \<notin> set s \<Longrightarrow> go_cut c s = (s, [], False)"
  by (induction s) auto

lemma go_cut_found: "c \<notin> set s \<Longrightarrow> go_cut c (s @ c # t) = (s, t, True)"
  by (induction s) auto

lemma dropWhile_none: "list_all (\<lambda>x. \<not> p x) s \<Longrightarrow> dropWhile p s = s"
  by (cases s) auto

lemma go_trim_none: "list_all (\<lambda>c. \<not> p c) s \<Longrightarrow> go_trim p s = s"
  by (simp add: go_trim_def dropWhile_none)

lemma strict_sorted_unique:
  assumes "sorted_wrt (<) (xs :: 'a :: linorder list)" and "sorted_wrt (<) ys" and "set xs = set ys"
  shows "xs = ys"
  using assms by (simp add: strict_sorted_equal)

lemma strict_sorted_upto: "sorted_wrt (<) [a..b]"
  by (simp add: strict_sorted_iff)

end
