(* ===== verification/Pages.thy ===== *)
theory Pages
  imports Prelude
begin

text \<open>
  The page arithmetic of \<open>internal/pdfsplit\<close>: Azure's \<open>pages=\<close> grammar (\<open>pages.go\<close>: \<open>ParsePages\<close>,
  \<open>Select\<close>, \<open>FormatPages\<close>), the balanced plan and halving (\<open>plan.go\<close>), and PDF detection
  (\<open>detect.go\<close>).
\<close>

section \<open>The pages grammar (pages.go)\<close>

record page_range =
  First :: int
  Last :: int

definition is_blank :: "char \<Rightarrow> bool" where
  "is_blank c \<longleftrightarrow> c = CHR '' '' \<or> c = CHR 0x09"

definition pageNumber :: "string \<Rightarrow> int option" where
  "pageNumber s0 =
     (let s = go_trim is_blank s0 in
      if s = [] then None
      else if \<not> list_all is_digit s then None
      else case atoi_digits s of
             None \<Rightarrow> None
           | Some n \<Rightarrow> if n < 1 then None else Some n)"

definition parse_term :: "string \<Rightarrow> page_range option" where
  "parse_term t =
     (let (first, last, isRange) = go_cut (CHR ''-'') t in
      case pageNumber first of
        None \<Rightarrow> None
      | Some a \<Rightarrow>
          if isRange then
            (case pageNumber last of
               None \<Rightarrow> None
             | Some b \<Rightarrow> if b < a then None else Some \<lparr>First = a, Last = b\<rparr>)
          else Some \<lparr>First = a, Last = a\<rparr>)"

fun parse_terms :: "string list \<Rightarrow> page_range list option" where
  "parse_terms [] = Some []"
| "parse_terms (t # ts) =
     (case parse_term t of
        None \<Rightarrow> None
      | Some r \<Rightarrow> (case parse_terms ts of None \<Rightarrow> None | Some rs \<Rightarrow> Some (r # rs)))"

definition ParsePages :: "string \<Rightarrow> page_range list option" where
  "ParsePages spec = parse_terms (go_split (CHR '','') spec)"

text \<open>
  \<open>Select\<close> sorts the ranges by their first page (\<open>slices.SortFunc\<close>, which is not stable) and
  appends every page not selected yet. The loop is over the sorted ranges with \<open>next\<close>, the lowest
  page not selected yet.
\<close>

definition bad_range :: "int \<Rightarrow> page_range \<Rightarrow> bool" where
  "bad_range count r \<longleftrightarrow> First r < 1 \<or> First r > Last r \<or> Last r > count"

fun select_loop :: "int \<Rightarrow> page_range list \<Rightarrow> int list" where
  "select_loop nxt [] = []"
| "select_loop nxt (r # rs) =
     [max (First r) nxt..Last r] @ select_loop (max nxt (Last r + 1)) rs"

definition Select :: "page_range list \<Rightarrow> int \<Rightarrow> int list option" where
  "Select ranges count =
     (if ranges = [] then None
      else if list_ex (bad_range count) ranges then None
      else Some (select_loop 1 (sort_key First ranges)))"

text \<open>\<open>FormatPages\<close>: runs of consecutive pages, written \<open>a\<close> or \<open>a-b\<close>, separated by commas.\<close>

fun run_end :: "int \<Rightarrow> int list \<Rightarrow> int \<times> int list" where
  "run_end p [] = (p, [])"
| "run_end p (q # qs) = (if q = p + 1 then run_end q qs else (p, q # qs))"

lemma run_end_length: "run_end p qs = (l, rest) \<Longrightarrow> length rest \<le> length qs"
  by (induction p qs rule: run_end.induct) (auto split: if_splits)

function format_loop :: "string \<Rightarrow> int list \<Rightarrow> string" where
  "format_loop b [] = b"
| "format_loop b (p # ps) =
     (let (l, rest) = run_end p ps;
          b1 = (if b \<noteq> [] then b @ '','' else b);
          b2 = b1 @ itoa p;
          b3 = (if l > p then b2 @ ''-'' @ itoa l else b2)
      in format_loop b3 rest)"
  by pat_completeness auto
termination
  by (relation "measure (\<lambda>(b, ps). length ps)") (auto dest!: run_end_length [OF sym] simp: less_Suc_eq_le)

definition FormatPages :: "int list \<Rightarrow> string" where
  "FormatPages pages = format_loop [] pages"

section \<open>The plan (plan.go)\<close>

record part =
  Pages :: "int list"

definition Label :: "part \<Rightarrow> string" where
  "Label p = FormatPages (Pages p)"

text \<open>
  \<open>Plan\<close>'s loop makes part \<open>i\<close> from \<open>start\<close>, one page longer while \<open>i < extra\<close>. \<open>None\<close> is the
  panic on \<open>max < 1\<close>. The source divides by \<open>(n-1)/max + 1\<close>.
\<close>

function plan_loop :: "int list \<Rightarrow> nat \<Rightarrow> nat \<Rightarrow> nat \<Rightarrow> nat \<Rightarrow> nat \<Rightarrow> part list" where
  "plan_loop pages sz extra k i start =
     (if i < k then
        (let stop = start + sz + (if i < extra then 1 else 0)
         in \<lparr>Pages = take (stop - start) (drop start pages)\<rparr>
              # plan_loop pages sz extra k (i + 1) stop)
      else [])"
  by pat_completeness auto
termination
  by (relation "measure (\<lambda>(pages, sz, extra, k, i, start). k - i)") auto

declare plan_loop.simps [simp del]

definition Plan :: "int list \<Rightarrow> int \<Rightarrow> part list option" where
  "Plan pages max_pages =
     (if max_pages < 1 then None
      else if pages = [] then Some []
      else
        (let n = length pages;
             k = (n - 1) div nat max_pages + 1;
             sz = n div k;
             extra = n mod k
         in Some (plan_loop pages sz extra k 0 0)))"

definition Halve :: "part \<Rightarrow> (part \<times> part) option" where
  "Halve p =
     (let n = length (Pages p) in
      if n < 2 then None
      else let h = (n + 1) div 2
           in Some (\<lparr>Pages = take h (Pages p)\<rparr>, \<lparr>Pages = drop h (Pages p)\<rparr>))"

section \<open>PDF detection (detect.go)\<close>

definition headerWindow :: nat where
  "headerWindow = 1024"

definition pdfMarker :: string where
  "pdfMarker = ''%PDF-''"

definition IsPDF :: "string \<Rightarrow> bool" where
  "IsPDF head =
     go_contains pdfMarker (if length head > headerWindow then take headerWindow head else head)"

section \<open>Select: ascending, without duplicates, exactly the pages of the ranges\<close>

lemma select_loop_ge: "p \<in> set (select_loop nxt rs) \<Longrightarrow> nxt \<le> p"
  by (induction nxt rs rule: select_loop.induct) force+

lemma select_loop_sorted: "sorted_wrt (<) (select_loop nxt rs)"
proof (induction nxt rs rule: select_loop.induct)
  case (2 nxt r rs)
  then show ?case
    by (auto simp: sorted_wrt_append strict_sorted_upto dest!: select_loop_ge)
qed simp

lemma select_loop_set:
  "sorted (map First rs) \<Longrightarrow>
   set (select_loop nxt rs) = {p. nxt \<le> p \<and> (\<exists>r \<in> set rs. First r \<le> p \<and> p \<le> Last r)}"
proof (induction nxt rs rule: select_loop.induct)
  case (2 nxt r rs)
  then have IH: "set (select_loop (max nxt (Last r + 1)) rs) =
      {p. max nxt (Last r + 1) \<le> p \<and> (\<exists>r \<in> set rs. First r \<le> p \<and> p \<le> Last r)}"
    and le: "\<forall>r' \<in> set rs. First r \<le> First r'"
    by auto
  show ?case
    by (simp only: select_loop.simps set_append set_upto IH) (use le in force)
qed simp

text \<open>Whatever order the unstable sort leaves equal keys in, the selection is the same list.\<close>

lemma select_loop_any_sort:
  assumes "set rs = set rs'" and "sorted (map First rs)" and "sorted (map First rs')"
  shows "select_loop nxt rs = select_loop nxt rs'"
  by (rule strict_sorted_unique) (simp_all add: select_loop_sorted select_loop_set assms)

lemma Select_cases:
  "Select ranges count = None \<longleftrightarrow> ranges = [] \<or> (\<exists>r \<in> set ranges. bad_range count r)"
  by (auto simp: Select_def list_ex_iff)

lemma Select_sorted: "Select ranges count = Some pages \<Longrightarrow> sorted_wrt (<) pages"
  by (auto simp: Select_def select_loop_sorted split: if_splits)

lemma Select_set:
  assumes "Select ranges count = Some pages"
  shows "set pages = {p. \<exists>r \<in> set ranges. First r \<le> p \<and> p \<le> Last r}"
proof -
  from assms have "\<forall>r \<in> set ranges. 1 \<le> First r"
    and "pages = select_loop 1 (sort_key First ranges)"
    by (auto simp: Select_def list_ex_iff bad_range_def not_less split: if_splits)
  then show ?thesis by (auto simp: select_loop_set)
qed

lemma Select_bounds:
  assumes "Select ranges count = Some pages" and "p \<in> set pages"
  shows "1 \<le> p \<and> p \<le> count"
proof -
  from assms(1) have "\<forall>r \<in> set ranges. \<not> bad_range count r"
    by (auto simp: Select_def list_ex_iff split: if_splits)
  with assms Select_set [OF assms(1)] show ?thesis by (force simp: bad_range_def)
qed

lemma Select_nonempty:
  assumes "Select ranges count = Some pages"
  shows "pages \<noteq> []"
proof -
  from assms have "ranges \<noteq> []" and "\<forall>r \<in> set ranges. First r \<le> Last r"
    by (auto simp: Select_def bad_range_def list_ex_iff not_less split: if_splits)
  then obtain r where "r \<in> set ranges" and "First r \<le> Last r"
    by (metis list.set_sel(1))
  then have "First r \<in> set pages" by (auto simp: Select_set [OF assms])
  then show ?thesis by auto
qed

section \<open>FormatPages and ParsePages are inverse\<close>

function runs :: "int list \<Rightarrow> page_range list" where
  "runs [] = []"
| "runs (p # ps) = (let (l, rest) = run_end p ps in \<lparr>First = p, Last = l\<rparr> # runs rest)"
  by pat_completeness auto
termination
  by (relation "measure length") (auto dest!: run_end_length [OF sym] simp: less_Suc_eq_le)

definition render :: "page_range \<Rightarrow> string" where
  "render r = itoa (First r) @ (if Last r > First r then ''-'' @ itoa (Last r) else [])"

lemma run_end_upto: "run_end p qs = (l, rest) \<Longrightarrow> p \<le> l \<and> p # qs = [p..l] @ rest"
proof (induction p qs rule: run_end.induct)
  case (2 p q qs)
  show ?case
  proof (cases "q = p + 1")
    case True
    with 2 have "q \<le> l" and "q # qs = [q..l] @ rest" by auto
    with True show ?thesis by (simp add: upto_rec1)
  next
    case False
    with 2 show ?thesis by auto
  qed
qed auto

lemma runs_Cons: "run_end p ps = (l, rest) \<Longrightarrow> runs (p # ps) = \<lparr>First = p, Last = l\<rparr> # runs rest"
  by simp

declare runs.simps(2) [simp del]

lemma runs_concat_ordered:
  "concat (map (\<lambda>r. [First r..Last r]) (runs ps)) = ps \<and> (\<forall>r \<in> set (runs ps). First r \<le> Last r)"
proof (induction ps rule: runs.induct)
  case (2 p ps)
  obtain l rest where e: "run_end p ps = (l, rest)" by (cases "run_end p ps")
  have le: "p \<le> l" and eq: "p # ps = [p..l] @ rest" using run_end_upto [OF e] by auto
  from le 2 [OF e [symmetric] refl]
  have "concat (map (\<lambda>r. [First r..Last r]) (runs (p # ps))) = [p..l] @ rest"
    and "\<forall>r \<in> set (runs (p # ps)). First r \<le> Last r"
    by (simp_all add: runs_Cons [OF e])
  then show ?case by (simp add: eq [symmetric])
qed simp

lemmas runs_concat = runs_concat_ordered [THEN conjunct1]

lemma runs_ordered: "r \<in> set (runs ps) \<Longrightarrow> First r \<le> Last r"
  using runs_concat_ordered by blast

lemma runs_set: "set ps = {p. \<exists>r \<in> set (runs ps). First r \<le> p \<and> p \<le> Last r}"
  by (subst (1) runs_concat [symmetric]) auto

lemma runs_pages:
  assumes "r \<in> set (runs ps)"
  shows "First r \<in> set ps" and "Last r \<in> set ps" and "First r \<le> Last r"
  using runs_ordered [OF assms] assms by (auto simp: runs_set [of ps])

lemma runs_Nil_iff [simp]: "runs ps = [] \<longleftrightarrow> ps = []"
  using runs_concat [of ps] by auto

lemma format_loop_Cons:
  assumes "run_end p ps = (l, rest)"
  shows "format_loop b (p # ps) =
    format_loop ((if b \<noteq> [] then b @ '','' else b) @ render \<lparr>First = p, Last = l\<rparr>) rest"
  by (simp add: assms render_def Let_def)

declare format_loop.simps(2) [simp del]

lemma render_nonempty [simp]: "render r \<noteq> []"
  by (simp add: render_def)

lemma format_loop_tail:
  "b \<noteq> [] \<Longrightarrow> format_loop b ps = b @ concat (map (\<lambda>r. '','' @ render r) (runs ps))"
proof (induction ps arbitrary: b rule: runs.induct)
  case (2 p ps)
  obtain l rest where e: "run_end p ps = (l, rest)" by (cases "run_end p ps")
  from 2(2) show ?case
    by (simp add: format_loop_Cons [OF e] runs_Cons [OF e] 2(1) [OF e [symmetric] refl])
qed simp

lemma format_loop_runs:
  "runs ps = r # rs \<Longrightarrow>
   format_loop [] ps = render r @ concat (map (\<lambda>r. '','' @ render r) rs)"
proof (cases ps)
  case (Cons p ps')
  obtain l rest where e: "run_end p ps' = (l, rest)" by (cases "run_end p ps'")
  assume "runs ps = r # rs"
  with Cons show ?thesis
    by (auto simp: format_loop_Cons [OF e] runs_Cons [OF e] format_loop_tail)
qed simp

lemma digits_avoid:
  assumes "list_all is_digit s"
  shows "CHR '','' \<notin> set s" and "CHR ''-'' \<notin> set s" and "list_all (\<lambda>c. \<not> is_blank c) s"
  using assms by (auto simp: list_all_iff is_digit_def is_blank_def)

lemma pageNumber_itoa: "1 \<le> i \<Longrightarrow> i \<le> max_int \<Longrightarrow> pageNumber (itoa i) = Some i"
  by (simp add: pageNumber_def go_trim_none digits_avoid itoa_nonneg_digits atoi_digits_itoa)

lemma parse_term_render:
  assumes "1 \<le> First r" and "First r \<le> Last r" and "Last r \<le> max_int"
  shows "parse_term (render r) = Some r"
  using assms
  by (cases "First r = Last r")
    (auto simp: parse_term_def render_def go_cut_absent go_cut_found digits_avoid
      itoa_nonneg_digits pageNumber_itoa)

lemma render_no_comma:
  "1 \<le> First r \<Longrightarrow> First r \<le> Last r \<Longrightarrow> CHR '','' \<notin> set (render r)"
  by (auto simp: render_def digits_avoid itoa_nonneg_digits)

lemma go_split_render:
  "\<forall>r \<in> set (r0 # rs). 1 \<le> First r \<and> First r \<le> Last r \<Longrightarrow>
   go_split (CHR '','') (render r0 @ concat (map (\<lambda>r. '','' @ render r) rs)) = map render (r0 # rs)"
  by (induction rs arbitrary: r0) (auto simp: go_split_no_sep go_split_append render_no_comma)

lemma parse_terms_render:
  "\<forall>r \<in> set rs. 1 \<le> First r \<and> First r \<le> Last r \<and> Last r \<le> max_int \<Longrightarrow>
   parse_terms (map render rs) = Some rs"
  by (induction rs) (auto simp: parse_term_render)

lemma ParsePages_FormatPages:
  assumes "ps \<noteq> []" and "\<forall>p \<in> set ps. 1 \<le> p \<and> p \<le> max_int"
  shows "ParsePages (FormatPages ps) = Some (runs ps)"
proof -
  have ok: "\<forall>r \<in> set (runs ps). 1 \<le> First r \<and> First r \<le> Last r \<and> Last r \<le> max_int"
    using assms(2) runs_pages [of _ ps] by simp
  from assms(1) obtain r rs where r: "runs ps = r # rs"
    by (cases "runs ps") auto
  with ok have "go_split (CHR '','') (FormatPages ps) = map render (runs ps)"
    by (simp only: FormatPages_def format_loop_runs [OF r] r) (rule go_split_render, simp)
  with ok show ?thesis
    by (simp only: ParsePages_def parse_terms_render)
qed

lemma Select_runs:
  assumes "ps \<noteq> []" and "sorted_wrt (<) ps" and "\<forall>p \<in> set ps. 1 \<le> p \<and> p \<le> count"
  shows "Select (runs ps) count = Some ps"
proof -
  have "\<forall>r \<in> set (runs ps). \<not> bad_range count r"
    using assms(3) runs_pages [of _ ps] by (simp add: bad_range_def not_less)
  then obtain qs where q: "Select (runs ps) count = Some qs"
    using assms(1) by (auto simp: Select_def list_ex_iff)
  have "set qs = set ps"
    by (simp only: Select_set [OF q] runs_set [of ps])
  then have "qs = ps"
    using Select_sorted [OF q] assms(2) by (intro strict_sorted_unique)
  with q show ?thesis by simp
qed

lemma parse_term_wf:
  "parse_term t = Some r \<Longrightarrow> 1 \<le> First r \<and> First r \<le> Last r \<and> Last r \<le> max_int"
  by (auto simp: parse_term_def pageNumber_def atoi_digits_def Let_def
      split: prod.splits option.splits if_splits)

lemma parse_terms_wf:
  "parse_terms ts = Some rs \<Longrightarrow>
   rs \<noteq> [] = (ts \<noteq> []) \<and> (\<forall>r \<in> set rs. 1 \<le> First r \<and> First r \<le> Last r \<and> Last r \<le> max_int)"
  by (induction ts arbitrary: rs) (auto dest: parse_term_wf split: option.splits)

lemma ParsePages_wf:
  "ParsePages s = Some rs \<Longrightarrow>
   rs \<noteq> [] \<and> (\<forall>r \<in> set rs. 1 \<le> First r \<and> First r \<le> Last r \<and> Last r \<le> max_int)"
  by (auto simp: ParsePages_def dest: parse_terms_wf)

section \<open>Plan: the parts cover the pages, balanced\<close>

lemma div_ceil_bounds:
  fixes n m :: nat
  assumes "1 \<le> m" and "m < n"
  defines "k \<equiv> (n - 1) div m + 1"
  shows "2 \<le> k" and "n \<le> k * m" and "k * ((m + 1) div 2) \<le> n"
proof -
  have dm: "n - 1 = (k - 1) * m + (n - 1) mod m" by (simp add: k_def)
  have mm: "(n - 1) mod m < m" using assms(1) by simp
  have "m div m \<le> (n - 1) div m" by (rule div_le_mono) (use assms(2) in simp)
  then show k2: "2 \<le> k" using assms(1) by (simp add: k_def)
  then obtain j where j: "k = j + 2" by (metis le_Suc_ex add.commute)
  from dm mm assms(2) have "n \<le> (k - 1) * m + m" by linarith
  then show "n \<le> k * m" using j by (simp add: algebra_simps)
  have n: "(j + 1) * m + 1 \<le> n" using dm j assms(2) by simp
  obtain c where c: "m + 1 = 2 * c \<or> m = 2 * c" by (metis even_plus_one_iff evenE)
  have h: "(m + 1) div 2 = c" using c by auto
  have "j \<le> j * c" if "c \<noteq> 0" using that by simp
  have "k * c \<le> (j + 1) * m + 1"
  proof (cases "m = 2 * c")
    case True
    then show ?thesis using j by (simp add: algebra_simps)
  next
    case False
    with c have m: "m = 2 * c - 1" and "0 < c" using assms(1) by auto
    then obtain d where "c = d + 1" by (metis Suc_eq_plus1 gr0_implies_Suc)
    then show ?thesis using j m by (simp add: algebra_simps)
  qed
  then show "k * ((m + 1) div 2) \<le> n" using n h by simp
qed

definition part_len :: "nat \<Rightarrow> nat \<Rightarrow> nat \<Rightarrow> nat" where
  "part_len sz extra i = sz + (if i < extra then 1 else 0)"

lemma plan_loop_step:
  "i < k \<Longrightarrow> plan_loop pages sz extra k i start =
     \<lparr>Pages = take (part_len sz extra i) (drop start pages)\<rparr>
       # plan_loop pages sz extra k (i + 1) (start + part_len sz extra i)"
  by (subst plan_loop.simps) (simp add: part_len_def Let_def)

lemma plan_loop_done: "\<not> i < k \<Longrightarrow> plan_loop pages sz extra k i start = []"
  by (subst plan_loop.simps) simp

definition part_start :: "nat \<Rightarrow> nat \<Rightarrow> nat \<Rightarrow> nat" where
  "part_start sz extra i = i * sz + min i extra"

lemma part_start_Suc: "part_start sz extra i + part_len sz extra i = part_start sz extra (i + 1)"
  by (simp add: part_start_def part_len_def min_def)

lemma part_start_mono: "i \<le> j \<Longrightarrow> part_start sz extra i \<le> part_start sz extra j"
  unfolding part_start_def by (intro add_mono mult_le_mono1 min.mono) auto

lemma plan_loop_concat:
  assumes "part_start sz extra k = length pages" and "i \<le> k"
  shows "concat (map Pages (plan_loop pages sz extra k i (part_start sz extra i)))
      = drop (part_start sz extra i) pages"
  using assms(2)
proof (induction "k - i" arbitrary: i)
  case 0
  then show ?case using assms(1) by (simp add: plan_loop_done)
next
  case (Suc d)
  then have i: "i < k" and IH: "concat (map Pages (plan_loop pages sz extra k (i + 1)
      (part_start sz extra (i + 1)))) = drop (part_start sz extra (i + 1)) pages"
    by auto
  let ?s = "part_start sz extra i" and ?l = "part_len sz extra i"
  have "concat (map Pages (plan_loop pages sz extra k i ?s)) = take ?l (drop ?s pages) @ drop (?s + ?l) pages"
    using IH by (simp add: plan_loop_step [OF i] part_start_Suc)
  also have "\<dots> = drop ?s pages"
    by (metis add.commute append_take_drop_id drop_drop)
  finally show ?case .
qed

lemma plan_loop_lengths:
  assumes "part_start sz extra k = length pages" and "i \<le> k"
  shows "map (\<lambda>p. length (Pages p)) (plan_loop pages sz extra k i (part_start sz extra i))
      = map (part_len sz extra) [i..<k]"
  using assms(2)
proof (induction "k - i" arbitrary: i)
  case 0
  then show ?case by (simp add: plan_loop_done)
next
  case (Suc d)
  then have i: "i < k" and IH: "map (\<lambda>p. length (Pages p)) (plan_loop pages sz extra k (i + 1)
      (part_start sz extra (i + 1))) = map (part_len sz extra) [i + 1..<k]"
    by auto
  have "part_start sz extra (i + 1) \<le> length pages"
    using part_start_mono [of "i + 1" k sz extra] i assms(1) by simp
  then have "min (length pages - part_start sz extra i) (part_len sz extra i) = part_len sz extra i"
    using part_start_Suc [of sz extra i] by linarith
  then show ?case
    using IH by (simp add: plan_loop_step [OF i] part_start_Suc upt_conv_Cons [OF i])
qed

lemma part_start_total:
  fixes n k :: nat
  assumes "0 < k"
  shows "part_start (n div k) (n mod k) k = n"
proof -
  have "n mod k < k" using assms by simp
  then show ?thesis by (simp add: part_start_def min_def)
qed

lemma Plan_shape:
  assumes "1 \<le> m" and "pages \<noteq> []"
  defines "k \<equiv> (length pages - 1) div nat m + 1"
  defines "sz \<equiv> length pages div k" and "extra \<equiv> length pages mod k"
  obtains parts where "Plan pages m = Some parts" and "concat (map Pages parts) = pages"
    and "map (\<lambda>p. length (Pages p)) parts = map (part_len sz extra) [0..<k]"
proof
  have tot: "part_start sz extra k = length pages"
    by (simp add: sz_def extra_def part_start_total k_def)
  have s0: "part_start sz extra 0 = 0" by (simp add: part_start_def)
  let ?ps = "plan_loop pages sz extra k 0 0"
  show "Plan pages m = Some ?ps"
    using assms(1,2) by (simp add: Plan_def Let_def k_def sz_def extra_def)
  show "concat (map Pages ?ps) = pages"
    using plan_loop_concat [OF tot, of 0] by (simp add: s0)
  show "map (\<lambda>p. length (Pages p)) ?ps = map (part_len sz extra) [0..<k]"
    using plan_loop_lengths [OF tot, of 0] by (simp add: s0)
qed

text \<open>The parts of a plan of more than \<open>m\<close> pages: their lengths, and their bounds.\<close>

lemma part_len_bounds:
  fixes n m :: nat
  assumes "1 \<le> m" and "m < n"
  defines "k \<equiv> (n - 1) div m + 1"
  assumes "i < k"
  shows "(m + 1) div 2 \<le> part_len (n div k) (n mod k) i" and "part_len (n div k) (n mod k) i \<le> m"
proof -
  let ?sz = "n div k" and ?extra = "n mod k"
  have b: "2 \<le> k" "n \<le> k * m" "k * ((m + 1) div 2) \<le> n"
    using div_ceil_bounds [of m n] assms(1,2) by (simp_all add: k_def)
  have "(m + 1) div 2 \<le> ?sz"
    using b(1,3) by (simp add: less_eq_div_iff_mult_less_eq mult.commute)
  then show "(m + 1) div 2 \<le> part_len ?sz ?extra i"
    by (simp add: part_len_def)
  show "part_len ?sz ?extra i \<le> m"
  proof (cases "i < ?extra")
    case True
    have "?sz * k + ?extra = n" by simp
    moreover have "m * k = k * m" by (rule mult.commute)
    ultimately have "?sz * k < m * k" using True b(2) by linarith
    then have "?sz < m" by simp
    then show ?thesis using True by (simp add: part_len_def)
  next
    case False
    have "?sz \<le> m" using div_le_mono [OF b(2), of k] b(1) by simp
    then show ?thesis using False by (simp add: part_len_def)
  qed
qed

lemma Plan_lengths:
  assumes "1 \<le> m" and "m < int (length pages)"
  defines "k \<equiv> (length pages - 1) div nat m + 1"
  obtains parts where "Plan pages m = Some parts" and "concat (map Pages parts) = pages"
    and "length parts = k" and "2 \<le> k"
    and "\<forall>i < k. length (Pages (parts ! i)) = part_len (length pages div k) (length pages mod k) i"
proof -
  have "pages \<noteq> []" using assms(2) \<open>1 \<le> m\<close> by auto
  then obtain parts where P: "Plan pages m = Some parts" "concat (map Pages parts) = pages"
    and L: "map (\<lambda>p. length (Pages p)) parts =
      map (part_len (length pages div k) (length pages mod k)) [0..<k]"
    using Plan_shape [OF assms(1)] unfolding k_def by metis
  have len: "length parts = k" using arg_cong [OF L, of length] by simp
  have "\<forall>i < k. length (Pages (parts ! i)) = part_len (length pages div k) (length pages mod k) i"
    using arg_cong [OF L, of "\<lambda>xs. xs ! i" for i] len by (metis (no_types, lifting) L add_0 length_map length_upt diff_zero nth_map nth_upt)
  moreover have "2 \<le> k" using div_ceil_bounds [of "nat m" "length pages"] assms(1,2) by (simp add: k_def)
  ultimately show ?thesis using that P len by blast
qed

lemma Plan_parts:
  assumes "1 \<le> m" and "m < int (length pages)" and "Plan pages m = Some parts"
  shows "concat (map Pages parts) = pages \<and> 2 \<le> length parts
    \<and> (\<forall>p \<in> set parts. Pages p \<noteq> [] \<and> int (length (Pages p)) \<le> m)"
proof -
  define k where "k = (length pages - 1) div nat m + 1"
  obtain parts' where "Plan pages m = Some parts'" "concat (map Pages parts') = pages"
    and "length parts' = k" "2 \<le> k"
    and "\<forall>i < k. length (Pages (parts' ! i)) = part_len (length pages div k) (length pages mod k) i"
    using Plan_lengths [OF assms(1,2)] unfolding k_def by metis
  then have P: "concat (map Pages parts) = pages" "length parts = k" "2 \<le> k"
    and nth: "\<forall>i < k. length (Pages (parts ! i)) = part_len (length pages div k) (length pages mod k) i"
    using assms(3) by auto
  have "length (Pages (parts ! i)) > 0 \<and> int (length (Pages (parts ! i))) \<le> m" if "i < k" for i
  proof -
    have "1 \<le> nat m" "nat m < length pages" using assms(1,2) by auto
    from part_len_bounds [OF this, folded k_def, OF that]
    show ?thesis using nth that assms(1) by auto
  qed
  then have "\<forall>p \<in> set parts. Pages p \<noteq> [] \<and> int (length (Pages p)) \<le> m"
    using P(2) by (auto simp: in_set_conv_nth)
  then show ?thesis using P by simp
qed

lemma Halve_some:
  "2 \<le> length (Pages p) \<Longrightarrow>
   Halve p = Some (\<lparr>Pages = take ((length (Pages p) + 1) div 2) (Pages p)\<rparr>,
                   \<lparr>Pages = drop ((length (Pages p) + 1) div 2) (Pages p)\<rparr>)"
  by (simp add: Halve_def Let_def)

section \<open>Properties\<close>

text \<open>C33. A page list the engine formats for \<open>pages=\<close> is read back as itself: parsing and selecting
  what \<open>FormatPages\<close> wrote gives exactly the list, for every ascending non-empty page list within
  a document of \<open>count\<close> pages. A re-check therefore asks for exactly the pages of its part.\<close>

theorem pages_roundtrip:
  assumes "ps \<noteq> []" and "sorted_wrt (<) ps"
    and "\<forall>p \<in> set ps. 1 \<le> p \<and> p \<le> count" and "count \<le> max_int"
  shows "\<exists>rs. ParsePages (FormatPages ps) = Some rs \<and> Select rs count = Some ps"
proof -
  have "\<forall>p \<in> set ps. 1 \<le> p \<and> p \<le> max_int" using assms(3,4) by force
  then show ?thesis using ParsePages_FormatPages Select_runs assms by blast
qed

lemma pages_roundtrip_witness:
  "\<exists>rs. ParsePages (FormatPages [3, 4, 5, 9]) = Some rs \<and> Select rs 12 = Some [3, 4, 5, 9]"
  by (rule pages_roundtrip) (simp_all add: max_int_def)

text \<open>What a client's \<open>pages=\<close> selects: \<open>Select\<close> fails exactly when there is no range or a range
  is malformed or past the document; otherwise the pages are ascending without duplicates, are
  exactly the pages some range names, and all exist. The result does not depend on how the
  unstable sort orders ranges with the same first page.\<close>

theorem select_spec:
  "Select ranges count =
    (if ranges = [] \<or> (\<exists>r \<in> set ranges. First r < 1 \<or> First r > Last r \<or> Last r > count) then None
     else Some (sorted_list_of_set {p. \<exists>r \<in> set ranges. First r \<le> p \<and> p \<le> Last r}))
   \<and> (\<forall>rs. set rs = set ranges \<longrightarrow> sorted (map First rs) \<longrightarrow>
        select_loop 1 rs = select_loop 1 (sort_key First ranges))"
proof -
  let ?S = "{p. \<exists>r \<in> set ranges. First r \<le> p \<and> p \<le> Last r}"
  have "Select ranges count =
    (if ranges = [] \<or> (\<exists>r \<in> set ranges. First r < 1 \<or> First r > Last r \<or> Last r > count) then None
     else Some (sorted_list_of_set ?S))"
  proof (cases "Select ranges count")
    case None
    then show ?thesis using Select_cases [of ranges count] by (auto simp: bad_range_def)
  next
    case (Some pages)
    have "pages = sorted_list_of_set ?S"
      using Select_sorted [OF Some] Select_set [OF Some]
      by (metis List.finite_set sorted_list_of_set.idem_if_sorted_distinct strict_sorted_iff)
    moreover have "\<not> (ranges = [] \<or> (\<exists>r \<in> set ranges. bad_range count r))"
      using Select_cases [of ranges count] Some by simp
    ultimately show ?thesis using Some by (simp add: bad_range_def)
  qed
  moreover have "select_loop 1 rs = select_loop 1 (sort_key First ranges)"
    if "set rs = set ranges" and "sorted (map First rs)" for rs
    using that by (intro select_loop_any_sort) simp_all
  ultimately show ?thesis by blast
qed

lemma select_spec_witness:
  "select_loop 1 [\<lparr>First = 2, Last = 3\<rparr>, \<lparr>First = 2, Last = 5\<rparr>] =
   select_loop 1 (sort_key First [\<lparr>First = 2, Last = 5\<rparr>, \<lparr>First = 2, Last = 3\<rparr>])"
  by (rule select_spec [THEN conjunct2, rule_format]) auto

text \<open>C14. The plan of a split document: \<open>Plan\<close> succeeds, the parts in order are exactly the pages,
  there are \<open>ceil(n/max)\<close> of them, their sizes differ by at most one with the longer ones first, and
  every part has at most \<open>max\<close> and at least \<open>ceil(max/2)\<close> pages once the document has more than
  \<open>max\<close>.\<close>

theorem plan_balanced:
  assumes "1 \<le> m" and "m < int (length pages)"
  shows "\<exists>parts. Plan pages m = Some parts
    \<and> concat (map Pages parts) = pages
    \<and> length parts = (length pages - 1) div nat m + 1
    \<and> sorted_wrt (\<lambda>p q. length (Pages q) \<le> length (Pages p)
        \<and> length (Pages p) \<le> length (Pages q) + 1) parts
    \<and> (\<forall>p \<in> set parts. (nat m + 1) div 2 \<le> length (Pages p) \<and> length (Pages p) \<le> nat m)"
proof -
  define k where "k = (length pages - 1) div nat m + 1"
  obtain parts where P: "Plan pages m = Some parts" "concat (map Pages parts) = pages"
    and len: "length parts = k"
    and nth: "\<forall>i < k. length (Pages (parts ! i)) = part_len (length pages div k) (length pages mod k) i"
    using Plan_lengths [OF assms] unfolding k_def by metis
  have m: "1 \<le> nat m" "nat m < length pages" using assms by auto
  have "sorted_wrt (\<lambda>p q. length (Pages q) \<le> length (Pages p)
      \<and> length (Pages p) \<le> length (Pages q) + 1) parts"
    by (auto simp: sorted_wrt_iff_nth_less len nth part_len_def)
  moreover have "\<forall>p \<in> set parts. (nat m + 1) div 2 \<le> length (Pages p) \<and> length (Pages p) \<le> nat m"
    using part_len_bounds [OF m, folded k_def] nth len by (auto simp: in_set_conv_nth)
  ultimately show ?thesis using P len by (auto simp: k_def)
qed

lemma plan_balanced_witness:
  "\<exists>parts. Plan [1..11] 5 = Some parts \<and> concat (map Pages parts) = [1..11] \<and> length parts = 3"
  using plan_balanced [of 5 "[1..11]"] by auto

text \<open>Halving a part of at least two pages gives two non-empty parts that are its pages in order,
  the first one page longer when the number is odd; a single page or an empty part cannot be
  halved (the source panics).\<close>

theorem halve_spec:
  "(Halve p = None \<longleftrightarrow> length (Pages p) < 2) \<and>
   (\<forall>a b. Halve p = Some (a, b) \<longrightarrow>
      Pages a @ Pages b = Pages p \<and> Pages a \<noteq> [] \<and> Pages b \<noteq> []
      \<and> length (Pages b) \<le> length (Pages a) \<and> length (Pages a) \<le> length (Pages b) + 1)"
  by (auto simp: Halve_def Let_def split: if_splits)

lemma halve_spec_witness:
  "Halve \<lparr>Pages = [1, 2, 3, 4, 5]\<rparr> = Some (\<lparr>Pages = [1, 2, 3]\<rparr>, \<lparr>Pages = [4, 5]\<rparr>)
   \<and> Pages \<lparr>Pages = [1, 2, 3]\<rparr> @ Pages \<lparr>Pages = [4, 5]\<rparr> = [1, 2, 3, 4, 5 :: int]"
proof -
  have h: "Halve \<lparr>Pages = [1, 2, 3, 4, 5]\<rparr> = Some (\<lparr>Pages = [1, 2, 3]\<rparr>, \<lparr>Pages = [4, 5]\<rparr>)"
    by (simp add: Halve_def)
  from halve_spec [THEN conjunct2, rule_format, OF h] h show ?thesis by simp
qed

end
