(* ===== verification/Slots.thy ===== *)
theory Slots
  imports Prelude
begin

text \<open>
  Two interfaces the components rely on. \<open>slot_pool\<close> is a bounded pool of slots taken without
  blocking and given back: the splitter's semaphore, a runner's admission channel and its metadata
  lane are buffered Go channels of capacity \<open>n\<close> used this way. \<open>turn_queue\<close> is a queue of waiting
  callers in turn order: what the scheduler needs so that no waiting job is bypassed without bound.
  Both are interpreted on the model's own operations where those are defined.
\<close>

section \<open>Pools of slots\<close>

locale slot_pool =
  fixes cap :: "'s \<Rightarrow> nat"
    and used :: "'s \<Rightarrow> nat"
    and try_take :: "'s \<Rightarrow> 's option"
    and give :: "'s \<Rightarrow> 's"
  assumes take_none: "try_take s = None \<longleftrightarrow> cap s \<le> used s"
    and take_some: "try_take s = Some t \<Longrightarrow> used t = Suc (used s) \<and> cap t = cap s"
    and give_used: "used (give s) = used s - 1"
    and give_cap: "cap (give s) = cap s"
begin

text \<open>A client's history: \<open>True\<close> tries to take a slot, \<open>False\<close> gives back one it holds.\<close>

fun client :: "bool list \<Rightarrow> nat \<times> 's \<Rightarrow> nat \<times> 's" where
  "client [] x = x"
| "client (True # es) (held, s) =
     client es (case try_take s of None \<Rightarrow> (held, s) | Some t \<Rightarrow> (Suc held, t))"
| "client (False # es) (held, s) =
     client es (if 0 < held then (held - 1, give s) else (held, s))"

lemma client_inv:
  "client es (held, s) = (held', s') \<Longrightarrow> held = used s \<Longrightarrow> used s \<le> cap s \<Longrightarrow>
   held' = used s' \<and> used s' \<le> cap s \<and> cap s' = cap s"
proof (induction es arbitrary: held s)
  case (Cons e es)
  show ?case
  proof (cases e)
    case True
    show ?thesis
    proof (cases "try_take s")
      case None
      with Cons.prems Cons.IH [of held s] True show ?thesis by simp
    next
      case (Some t)
      moreover from Some have "used s < cap s" using take_none [of s] by force
      ultimately show ?thesis using Cons.prems Cons.IH [of "Suc held" t] True take_some [OF Some] by simp
    qed
  next
    case False
    show ?thesis
    proof (cases "0 < held")
      case True
      with Cons.prems Cons.IH [of "held - 1" "give s"] False show ?thesis
        by (simp add: give_used give_cap)
    next
      case no: False
      with Cons.prems Cons.IH [of held s] False show ?thesis by simp
    qed
  qed
qed simp

text \<open>A give makes room: the next take succeeds.\<close>

lemma take_after_give: "0 < used s \<Longrightarrow> used s \<le> cap s \<Longrightarrow> \<exists>t. try_take (give s) = Some t"
  using take_none [of "give s"] by (cases "try_take (give s)") (auto simp: give_used give_cap)

end

text \<open>A buffered Go channel of unit values used as a semaphore: its capacity and its length.\<close>

record chan =
  ch_cap :: nat
  ch_len :: nat

definition try_send :: "chan \<Rightarrow> chan option" where
  "try_send c = (if ch_len c < ch_cap c then Some (c\<lparr>ch_len := Suc (ch_len c)\<rparr>) else None)"

definition recv :: "chan \<Rightarrow> chan" where
  "recv c = c\<lparr>ch_len := ch_len c - 1\<rparr>"

interpretation sem: slot_pool ch_cap ch_len try_send recv
  by unfold_locales (auto simp: try_send_def recv_def split: if_splits)

section \<open>Queues served in turn\<close>

text \<open>
  \<open>turn q j\<close> is how many grants are ahead of job \<open>j\<close>; \<open>waits q j\<close> says that \<open>j\<close> has a caller
  waiting. The laws: a grant to another job brings \<open>j\<close> one turn closer, and neither a newcomer nor
  a caller that gives up puts anybody ahead of \<open>j\<close>.
\<close>

datatype ('j, 'w) turn_event = TGrant | TEnter 'j 'w | TLeave 'j 'w

locale turn_queue =
  fixes waits :: "'q \<Rightarrow> 'j \<Rightarrow> bool"
    and turn :: "'q \<Rightarrow> 'j \<Rightarrow> nat"
    and grant :: "'q \<Rightarrow> ('j \<times> 'w \<times> 'q) option"
    and enter :: "'j \<Rightarrow> 'w \<Rightarrow> 'q \<Rightarrow> 'q"
    and leave :: "'j \<Rightarrow> 'w \<Rightarrow> 'q \<Rightarrow> 'q"
    and ok :: "'q \<Rightarrow> bool"
  assumes grant_other: "ok q \<Longrightarrow> grant q = Some (i, w, q') \<Longrightarrow> waits q j \<Longrightarrow> i \<noteq> j \<Longrightarrow>
      waits q' j \<and> Suc (turn q' j) = turn q j"
    and grant_ok: "ok q \<Longrightarrow> grant q = Some (i, w, q') \<Longrightarrow> ok q'"
    and enter_keeps: "ok q \<Longrightarrow> waits q j \<Longrightarrow> waits (enter i w q) j \<and> turn (enter i w q) j \<le> turn q j"
    and enter_ok: "ok q \<Longrightarrow> ok (enter i w q)"
    and leave_keeps: "ok q \<Longrightarrow> waits q j \<Longrightarrow> waits (leave i w q) j \<Longrightarrow>
      turn (leave i w q) j \<le> turn q j"
    and leave_ok: "ok q \<Longrightarrow> ok (leave i w q)"
begin

text \<open>
  A history during which \<open>j\<close> keeps a caller waiting and is not served: it counts the grants made,
  \<open>None\<close> once \<open>j\<close> is served or waits no more.
\<close>

fun bypassed :: "'j \<Rightarrow> ('j, 'w) turn_event list \<Rightarrow> 'q \<Rightarrow> nat option" where
  "bypassed j [] q = (if waits q j then Some 0 else None)"
| "bypassed j (TGrant # es) q =
     (case grant q of
        None \<Rightarrow> bypassed j es q
      | Some (i, w, q') \<Rightarrow> if i = j then None else map_option Suc (bypassed j es q'))"
| "bypassed j (TEnter i w # es) q = bypassed j es (enter i w q)"
| "bypassed j (TLeave i w # es) q =
     (let q' = leave i w q in if waits q' j then bypassed j es q' else None)"

lemma bypassed_grant:
  "grant q = Some (i, w, q') \<Longrightarrow>
   bypassed j (TGrant # es) q = (if i = j then None else map_option Suc (bypassed j es q'))"
  by simp

lemma bypassed_bound:
  "ok q \<Longrightarrow> waits q j \<Longrightarrow> bypassed j es q = Some n \<Longrightarrow> n \<le> turn q j"
proof (induction es arbitrary: q n)
  case (Cons e es)
  show ?case
  proof (cases e)
    case TGrant
    show ?thesis
    proof (cases "grant q")
      case None
      with Cons TGrant show ?thesis by simp
    next
      case (Some r)
      obtain i w q' where "r = (i, w, q')" by (cases r)
      with Some have g: "grant q = Some (i, w, q')" by simp
      with Cons.prems(3) TGrant obtain n' where n: "i \<noteq> j" "n = Suc n'" "bypassed j es q' = Some n'"
        by (auto simp: bypassed_grant split: if_splits)
      with grant_other [OF Cons.prems(1) g Cons.prems(2)] grant_ok [OF Cons.prems(1) g]
        Cons.IH [of q' n'] show ?thesis by force
    qed
  next
    case (TEnter i w)
    with enter_keeps [OF Cons.prems(1,2), of i w] enter_ok [OF Cons.prems(1), of i w]
      Cons.prems(3) Cons.IH [of "enter i w q" n] show ?thesis by simp
  next
    case (TLeave i w)
    with Cons.prems(3) have "waits (leave i w q) j" and "bypassed j es (leave i w q) = Some n"
      by (auto simp: Let_def split: if_splits)
    with leave_keeps [OF Cons.prems(1,2), of i w] leave_ok [OF Cons.prems(1), of i w]
      Cons.IH [of "leave i w q" n] show ?thesis by simp
  qed
qed (simp split: if_splits)

end

end
