(* ===== verification/Sched.thy ===== *)
theory Sched
  imports Slots "HOL-Library.Multiset"
begin

text \<open>
  The fair slot scheduler of \<open>internal/sched/sched.go\<close>. \<open>sched\<close> is the struct under its mutex;
  each operation below is one critical section. A waiter is named by a number (the pointer's
  identity), and \<open>tokens\<close> is the set of waiters whose channel holds the one token a grant sends. A
  Go panic (an index out of range) is \<open>None\<close>.

  The second part is the world around it: the calls blocked in \<open>Acquire\<close>'s select, the release
  functions not called yet, and every way the critical sections of concurrent calls interleave.
\<close>

type_synonym job = string
type_synonym wid = nat

section \<open>The scheduler's state and its critical sections\<close>

record sched =
  limit :: int
  inUse :: int
  ring :: "job list"
  waiters :: "job \<rightharpoonup> wid list"
  waiting :: int
  tokens :: "wid set"

definition New :: "int \<Rightarrow> sched" where
  "New n = \<lparr>limit = (if n < 1 then 1 else n), inUse = 0, ring = [], waiters = Map.empty,
            waiting = 0, tokens = {}\<rparr>"

text \<open>\<open>s.waiters[job]\<close>: the nil slice when the job has none.\<close>

definition queue_at :: "(job \<rightharpoonup> wid list) \<Rightarrow> job \<Rightarrow> wid list" where
  "queue_at m j = (case m j of None \<Rightarrow> [] | Some q \<Rightarrow> q)"

abbreviation queue_of :: "sched \<Rightarrow> job \<Rightarrow> wid list" where
  "queue_of s \<equiv> queue_at (waiters s)"

text \<open>One turn of \<open>grantLocked\<close>'s loop: the first waiter of the first job gets a slot.\<close>

definition grant_one :: "sched \<Rightarrow> (job \<times> wid \<times> sched) option" where
  "grant_one s =
     (case ring s of
        [] \<Rightarrow> None
      | j # rest \<Rightarrow>
          (case queue_of s j of
             [] \<Rightarrow> None
           | w # q \<Rightarrow>
               (let s1 = s\<lparr>waiting := waiting s - 1, tokens := insert w (tokens s),
                           inUse := inUse s + 1\<rparr>
                in Some (j, w,
                     if q = [] then s1\<lparr>waiters := (waiters s)(j := None), ring := rest\<rparr>
                     else s1\<lparr>waiters := (waiters s)(j \<mapsto> q), ring := rest @ [j]\<rparr>))))"

lemma grant_one_inUse: "grant_one s = Some (j, w, t) \<Longrightarrow> inUse t = inUse s + 1 \<and> limit t = limit s"
  by (auto simp: grant_one_def Let_def split: list.splits if_splits)

function grantLocked :: "sched \<Rightarrow> sched option" where
  "grantLocked s =
     (if inUse s < limit s \<and> ring s \<noteq> [] then
        (case grant_one s of None \<Rightarrow> None | Some (j, w, t) \<Rightarrow> grantLocked t)
      else Some s)"
  by pat_completeness auto
termination
  by (relation "measure (\<lambda>s. nat (limit s - inUse s))") (auto dest!: grant_one_inUse)

declare grantLocked.simps [simp del]

definition freeLocked :: "sched \<Rightarrow> sched option" where
  "freeLocked s = grantLocked (if inUse s > 0 then s\<lparr>inUse := inUse s - 1\<rparr> else s)"

definition dequeueLocked :: "job \<Rightarrow> wid \<Rightarrow> sched \<Rightarrow> sched" where
  "dequeueLocked j w s =
     (let q = queue_of s j in
      if w \<notin> set q then s
      else
        (let s1 = s\<lparr>waiting := waiting s - 1\<rparr> in
         if length q = 1 then
           s1\<lparr>waiters := (waiters s)(j := None), ring := filter (\<lambda>i. i \<noteq> j) (ring s)\<rparr>
         else s1\<lparr>waiters := (waiters s)(j \<mapsto> remove1 w q)\<rparr>))"

text \<open>
  \<open>Acquire\<close> is three critical sections. \<open>acquire_enter\<close> runs up to the unlock before the select,
  \<open>acquire_wake\<close> is the select's \<open>w.ch\<close> case (\<open>ended\<close>: the context has ended by then) and
  \<open>acquire_give_up\<close> its \<open>ctx.Done()\<close> case.
\<close>

datatype acquired = AcqEnded | AcqGranted | AcqWaiting

definition enqueue :: "job \<Rightarrow> wid \<Rightarrow> sched \<Rightarrow> sched" where
  "enqueue j w s =
     s\<lparr>ring := (if queue_of s j = [] then ring s @ [j] else ring s),
       waiters := (waiters s)(j \<mapsto> queue_of s j @ [w]),
       waiting := waiting s + 1\<rparr>"

definition acquire_enter :: "bool \<Rightarrow> job \<Rightarrow> wid \<Rightarrow> sched \<Rightarrow> acquired \<times> sched" where
  "acquire_enter ended j w s =
     (if ended then (AcqEnded, s)
      else if inUse s < limit s \<and> waiting s = 0 then (AcqGranted, s\<lparr>inUse := inUse s + 1\<rparr>)
      else (AcqWaiting, enqueue j w s))"

definition acquire_wake :: "bool \<Rightarrow> wid \<Rightarrow> sched \<Rightarrow> (bool \<times> sched) option" where
  "acquire_wake ended w s =
     (let s1 = s\<lparr>tokens := tokens s - {w}\<rparr> in
      if \<not> ended then Some (True, s1)
      else map_option (Pair False) (freeLocked s1))"

definition acquire_give_up :: "job \<Rightarrow> wid \<Rightarrow> sched \<Rightarrow> sched option" where
  "acquire_give_up j w s =
     (if w \<in> tokens s then freeLocked (s\<lparr>tokens := tokens s - {w}\<rparr>)
      else Some (dequeueLocked j w s))"

definition TryAcquireIdle :: "sched \<Rightarrow> bool \<times> sched" where
  "TryAcquireIdle s =
     (if inUse s \<ge> limit s \<or> waiting s > 0 then (False, s)
      else (True, s\<lparr>inUse := inUse s + 1\<rparr>))"

text \<open>\<open>releaseFunc\<close>: \<open>sync.Once\<close> around \<open>release\<close>. The flag says whether it has run.\<close>

definition release_once :: "bool \<Rightarrow> sched \<Rightarrow> (bool \<times> sched) option" where
  "release_once done s = (if done then Some (True, s) else map_option (Pair True) (freeLocked s))"

record sched_stats =
  st_InUse :: int
  st_Waiting :: int
  st_Limit :: int

definition sched_Stats :: "sched \<Rightarrow> sched_stats" where
  "sched_Stats s = \<lparr>st_InUse = inUse s, st_Waiting = waiting s, st_Limit = limit s\<rparr>"

section \<open>The queue invariant, kept by every critical section\<close>

text \<open>Every waiting caller, in ring order.\<close>

definition callers :: "(job \<rightharpoonup> wid list) \<Rightarrow> job list \<Rightarrow> wid list" where
  "callers m r = concat (map (queue_at m) r)"

abbreviation all_waiters :: "sched \<Rightarrow> wid list" where
  "all_waiters s \<equiv> callers (waiters s) (ring s)"

definition queue_ok :: "sched \<Rightarrow> bool" where
  "queue_ok s \<longleftrightarrow>
     distinct (ring s) \<and> (\<forall>j. j \<in> set (ring s) \<longleftrightarrow> queue_of s j \<noteq> [])
     \<and> waiting s = int (length (all_waiters s))
     \<and> distinct (all_waiters s) \<and> finite (tokens s) \<and> set (all_waiters s) \<inter> tokens s = {}"

lemma queue_at_upd [simp]:
  "queue_at (m(j \<mapsto> q)) i = (if i = j then q else queue_at m i)"
  "queue_at (m(j := None)) i = (if i = j then [] else queue_at m i)"
  by (auto simp: queue_at_def)

lemma callers_simps [simp]:
  "callers m [] = []"
  "callers m (j # r) = queue_at m j @ callers m r"
  "callers m (r @ r') = callers m r @ callers m r'"
  by (auto simp: callers_def)

lemma callers_upd_other [simp]:
  "j \<notin> set r \<Longrightarrow> callers (m(j := v)) r = callers m r"
  by (induction r) (auto simp: queue_at_def)

lemma set_callers: "set (callers m r) = (\<Union>j \<in> set r. set (queue_at m j))"
  by (simp add: callers_def)

lemma queue_in_all: "queue_ok s \<Longrightarrow> w \<in> set (queue_of s j) \<Longrightarrow> w \<in> set (all_waiters s)"
  by (auto simp: set_callers queue_ok_def)

text \<open>
  What a critical section may do to the callers: \<open>gone\<close> left the queues, \<open>come\<close> joined, and each
  remaining queue only lost callers.
\<close>

lemma queue_ok_inUse [simp]: "queue_ok (s\<lparr>inUse := n\<rparr>) = queue_ok s"
  by (simp add: queue_ok_def)

lemma queue_ok_take_token: "queue_ok s \<Longrightarrow> queue_ok (s\<lparr>tokens := tokens s - {w}\<rparr>)"
  by (auto simp: queue_ok_def)

lemma queue_ok_New: "queue_ok (New n)"
  by (simp add: queue_ok_def New_def queue_at_def)

lemma grant_one_some:
  assumes ok: "queue_ok s" and ne: "ring s \<noteq> []"
  obtains j w t where "grant_one s = Some (j, w, t)"
proof -
  from ne obtain j rest where r: "ring s = j # rest" by (cases "ring s") auto
  then have "j \<in> set (ring s)" by simp
  with ok have "queue_of s j \<noteq> []" unfolding queue_ok_def by blast
  then obtain w q where "queue_of s j = w # q" by (cases "queue_of s j") auto
  with r that show ?thesis by (simp add: grant_one_def Let_def)
qed

lemma grant_one_effect:
  assumes ok: "queue_ok s" and g: "grant_one s = Some (j, w, t)"
  shows "queue_ok t" and "mset (all_waiters s) = add_mset w (mset (all_waiters t))"
    and "tokens t = insert w (tokens s)" and "w \<notin> tokens s"
    and "inUse t = inUse s + 1" and "limit t = limit s" and "waiting t = waiting s - 1"
    and "queue_of s j = w # queue_of t j" and "i \<noteq> j \<Longrightarrow> queue_of t i = queue_of s i"
    and "\<exists>rest. ring s = j # rest \<and> ring t = (if queue_of t j = [] then rest else rest @ [j])"
proof -
  from g obtain rest where r: "ring s = j # rest"
    by (auto simp: grant_one_def Let_def split: list.splits if_splits)
  from g r obtain q where q: "queue_of s j = w # q"
    by (auto simp: grant_one_def Let_def split: list.splits if_splits)
  have jr: "j \<notin> set rest" using ok r by (simp add: queue_ok_def)
  have t: "t = (if q = []
       then s\<lparr>waiting := waiting s - 1, tokens := insert w (tokens s), inUse := inUse s + 1,
              waiters := (waiters s)(j := None), ring := rest\<rparr>
       else s\<lparr>waiting := waiting s - 1, tokens := insert w (tokens s), inUse := inUse s + 1,
              waiters := (waiters s)(j \<mapsto> q), ring := rest @ [j]\<rparr>)"
    using g r q by (simp add: grant_one_def Let_def split: if_splits)
  have qt: "queue_of t j = q" and qi: "i \<noteq> j \<Longrightarrow> queue_of t i = queue_of s i" for i
    by (auto simp: t)
  show "queue_of s j = w # queue_of t j" using q qt by simp
  show "i \<noteq> j \<Longrightarrow> queue_of t i = queue_of s i" by (rule qi)
  show rt: "\<exists>rest. ring s = j # rest \<and> ring t = (if queue_of t j = [] then rest else rest @ [j])"
    using r qt by (auto simp: t)
  show m: "mset (all_waiters s) = add_mset w (mset (all_waiters t))"
    using r q jr by (simp add: t)
  show wt: "w \<notin> tokens s" using ok r q by (auto simp: queue_ok_def)
  show fields: "tokens t = insert w (tokens s)" "inUse t = inUse s + 1" "limit t = limit s"
    "waiting t = waiting s - 1" by (auto simp: t)
  have d: "distinct (all_waiters t)" "w \<notin> set (all_waiters t)"
    using ok r q jr by (auto simp: queue_ok_def t)
  have "set (all_waiters t) \<subseteq> set (all_waiters s)"
    using m by (metis set_mset_mset set_mset_add_mset_insert subset_insertI)
  moreover have "length (all_waiters s) = Suc (length (all_waiters t))"
    using arg_cong [OF m, of size] by simp
  moreover have "distinct (ring t)" using ok r jr by (auto simp: queue_ok_def t)
  moreover have "i \<in> set (ring t) \<longleftrightarrow> queue_of t i \<noteq> []" for i
    using ok r jr q qi [of i] qt by (cases "i = j") (auto simp: queue_ok_def t)
  ultimately show "queue_ok t" using ok d fields by (auto simp: queue_ok_def)
qed

text \<open>
  \<open>grantLocked\<close> never panics; it hands out slots until none is free or nobody waits, and only moves
  callers from the queues to the tokens.
\<close>

definition handed :: "sched \<Rightarrow> sched \<Rightarrow> bool" where
  "handed s t \<longleftrightarrow> queue_ok t \<and> limit t = limit s \<and> inUse s \<le> inUse t
     \<and> set (all_waiters t) \<union> tokens t = set (all_waiters s) \<union> tokens s
     \<and> inUse t - int (card (tokens t)) = inUse s - int (card (tokens s))
     \<and> (\<forall>j. set (queue_of t j) \<subseteq> set (queue_of s j))"

lemma handed_refl: "queue_ok s \<Longrightarrow> handed s s"
  by (simp add: handed_def)

lemma handed_trans:
  assumes "handed s t" and "handed t u"
  shows "handed s u"
proof -
  have "set (queue_of u j) \<subseteq> set (queue_of s j)" for j
    using assms by (meson handed_def subset_trans)
  with assms show ?thesis by (simp add: handed_def)
qed

lemma handed_grant_one:
  assumes ok: "queue_ok s" and g: "grant_one s = Some (j, w, t)"
  shows "handed s t"
proof -
  note e = grant_one_effect [OF ok g]
  have "finite (tokens s)" using ok by (simp add: queue_ok_def)
  then have "card (tokens t) = Suc (card (tokens s))" using e(3,4) by simp
  moreover have "set (all_waiters s) = insert w (set (all_waiters t))"
    using e(2) by (metis set_mset_add_mset_insert set_mset_mset)
  moreover have "set (queue_of t i) \<subseteq> set (queue_of s i)" for i
    using e(8,9) by (cases "i = j") auto
  ultimately show ?thesis using e(1,3,5,6) by (auto simp: handed_def)
qed

lemma grantLocked_effect:
  assumes "queue_ok s"
  shows "\<exists>t. grantLocked s = Some t \<and> handed s t \<and> (inUse t \<ge> limit t \<or> waiting t = 0)
     \<and> (inUse s \<le> limit s \<longrightarrow> inUse t \<le> limit t)"
  using assms
proof (induction s rule: grantLocked.induct)
  case (1 s)
  show ?case
  proof (cases "inUse s < limit s \<and> ring s \<noteq> []")
    case True
    with 1(2) obtain j w u where g: "grant_one s = Some (j, w, u)" using grant_one_some by blast
    note e = grant_one_effect [OF 1(2) g]
    from 1(1) [OF True g refl refl e(1)] obtain t where
      t: "grantLocked u = Some t" "handed u t" "inUse t \<ge> limit t \<or> waiting t = 0"
        "inUse u \<le> limit u \<longrightarrow> inUse t \<le> limit t" by blast
    moreover have "grantLocked s = grantLocked u"
      using True g by (subst grantLocked.simps) simp
    moreover have "inUse u \<le> limit u" using True e(5,6) by simp
    ultimately show ?thesis
      using handed_trans [OF handed_grant_one [OF 1(2) g]] by auto
  next
    case False
    then have "grantLocked s = Some s" by (subst grantLocked.simps) auto
    moreover have "ring s = [] \<Longrightarrow> waiting s = 0" using 1(2) by (simp add: queue_ok_def)
    ultimately show ?thesis using False handed_refl [OF 1(2)] by auto
  qed
qed

text \<open>Freeing one slot: either it goes to a waiting caller, or nobody waits.\<close>

lemma freeLocked_effect:
  assumes ok: "queue_ok s" and pos: "0 < inUse s" and le: "inUse s \<le> limit s"
  obtains t where "freeLocked s = Some t" and "handed (s\<lparr>inUse := inUse s - 1\<rparr>) t"
    and "0 < waiting t \<Longrightarrow> inUse t = limit t" and "inUse t \<le> limit t"
proof -
  have "queue_ok (s\<lparr>inUse := inUse s - 1\<rparr>)" using ok by simp
  from grantLocked_effect [OF this] obtain t where
    "grantLocked (s\<lparr>inUse := inUse s - 1\<rparr>) = Some t" "handed (s\<lparr>inUse := inUse s - 1\<rparr>) t"
    "inUse t \<ge> limit t \<or> waiting t = 0" "inUse t \<le> limit t" using le by force
  with that pos show ?thesis by (simp add: freeLocked_def) (metis order.antisym order_less_irrefl)
qed

lemma enqueue_effect:
  assumes ok: "queue_ok s" and new: "w \<notin> set (all_waiters s)" "w \<notin> tokens s"
  shows "queue_ok (enqueue j w s)"
    and "set (all_waiters (enqueue j w s)) = insert w (set (all_waiters s))"
    and "waiting (enqueue j w s) = waiting s + 1"
    and "queue_of (enqueue j w s) i = (if i = j then queue_of s j @ [w] else queue_of s i)"
    and "tokens (enqueue j w s) = tokens s" and "inUse (enqueue j w s) = inUse s"
    and "limit (enqueue j w s) = limit s"
proof -
  show q: "queue_of (enqueue j w s) i = (if i = j then queue_of s j @ [w] else queue_of s i)" for i
    by (simp add: enqueue_def)
  show f: "waiting (enqueue j w s) = waiting s + 1" "tokens (enqueue j w s) = tokens s"
    "inUse (enqueue j w s) = inUse s" "limit (enqueue j w s) = limit s"
    by (simp_all add: enqueue_def)
  have m: "mset (all_waiters (enqueue j w s)) = add_mset w (mset (all_waiters s))"
  proof (cases "j \<in> set (ring s)")
    case True
    then obtain a b where ab: "ring s = a @ j # b" by (meson split_list)
    with ok have "j \<notin> set a" "j \<notin> set b" by (auto simp: queue_ok_def)
    moreover have "queue_of s j \<noteq> []" using ok True by (simp add: queue_ok_def)
    ultimately show ?thesis using ab by (simp add: enqueue_def)
  next
    case False
    then have "queue_of s j = []" using ok by (simp add: queue_ok_def)
    with False show ?thesis by (simp add: enqueue_def)
  qed
  show s: "set (all_waiters (enqueue j w s)) = insert w (set (all_waiters s))"
    using m by (metis set_mset_add_mset_insert set_mset_mset)
  have "distinct (all_waiters (enqueue j w s))"
    using m ok new by (metis distinct.simps(2) mset.simps(2) mset_eq_imp_distinct_iff queue_ok_def)
  moreover have "length (all_waiters (enqueue j w s)) = Suc (length (all_waiters s))"
    using arg_cong [OF m, of size] by simp
  moreover have "distinct (ring (enqueue j w s))"
    using ok by (auto simp: enqueue_def queue_ok_def)
  moreover have "\<forall>i. i \<in> set (ring (enqueue j w s)) \<longleftrightarrow> queue_of (enqueue j w s) i \<noteq> []"
    using ok by (auto simp: enqueue_def queue_ok_def)
  ultimately show "queue_ok (enqueue j w s)"
    using ok new s f by (simp add: queue_ok_def)
qed

lemma remove1_single:
  assumes "w \<in> set q"
  shows "length q = 1 \<longleftrightarrow> remove1 w q = []"
proof -
  have "length (remove1 w q) = length q - 1" using assms by (simp add: length_remove1)
  moreover have "0 < length q" using assms by (auto simp: length_pos_if_in_set)
  moreover have "remove1 w q = [] \<longleftrightarrow> length (remove1 w q) = 0" by simp
  ultimately show ?thesis by linarith
qed

lemma dequeueLocked_effect:
  assumes ok: "queue_ok s" and w: "w \<in> set (queue_of s j)"
  shows "queue_ok (dequeueLocked j w s)"
    and "set (all_waiters (dequeueLocked j w s)) = set (all_waiters s) - {w}"
    and "waiting (dequeueLocked j w s) = waiting s - 1"
    and "queue_of (dequeueLocked j w s) i = (if i = j then remove1 w (queue_of s j) else queue_of s i)"
    and "tokens (dequeueLocked j w s) = tokens s" and "inUse (dequeueLocked j w s) = inUse s"
    and "limit (dequeueLocked j w s) = limit s"
proof -
  let ?t = "dequeueLocked j w s" and ?q = "queue_of s j"
  have one: "length ?q = 1 \<longleftrightarrow> remove1 w ?q = []"
    by (rule remove1_single [OF w])
  show q: "queue_of ?t i = (if i = j then remove1 w ?q else queue_of s i)" for i
    using w one by (simp add: dequeueLocked_def Let_def)
  show f: "waiting ?t = waiting s - 1" "tokens ?t = tokens s" "inUse ?t = inUse s" "limit ?t = limit s"
    using w by (simp_all add: dequeueLocked_def Let_def)
  from w have "j \<in> set (ring s)" using ok by (auto simp: queue_ok_def)
  then obtain a b where ab: "ring s = a @ j # b" by (meson split_list)
  with ok have ja: "j \<notin> set a" "j \<notin> set b" by (auto simp: queue_ok_def)
  then have fab: "filter (\<lambda>i. i \<noteq> j) a = a" "filter (\<lambda>i. i \<noteq> j) b = b"
    by (auto intro: filter_True)
  have "length ?q = 1 \<Longrightarrow> ?q = [w]" using w by (auto simp: length_Suc_conv)
  then have m: "mset (all_waiters s) = add_mset w (mset (all_waiters ?t))"
    using w ab ja fab by (cases "length ?q = 1") (auto simp: dequeueLocked_def Let_def)
  have d: "distinct (all_waiters ?t)" "w \<notin> set (all_waiters ?t)"
    using m ok by (metis distinct.simps(2) mset.simps(2) mset_eq_imp_distinct_iff queue_ok_def)+
  show s: "set (all_waiters ?t) = set (all_waiters s) - {w}"
    using m d(2) by (metis Diff_insert_absorb set_mset_add_mset_insert set_mset_mset)
  have "length (all_waiters s) = Suc (length (all_waiters ?t))"
    using arg_cong [OF m, of size] by simp
  moreover have "distinct (ring ?t)"
    using ok w by (simp add: dequeueLocked_def Let_def queue_ok_def)
  moreover have "\<forall>i. i \<in> set (ring ?t) \<longleftrightarrow> queue_of ?t i \<noteq> []"
    using ok w one by (auto simp: dequeueLocked_def Let_def queue_ok_def)
  ultimately show "queue_ok ?t"
    using ok d s f by (auto simp: queue_ok_def)
qed

section \<open>Turns: the scheduler's queue is a \<open>turn_queue\<close>\<close>

text \<open>How many jobs are served before \<open>j\<close>: its position in the ring.\<close>

definition ring_pos :: "sched \<Rightarrow> job \<Rightarrow> nat" where
  "ring_pos s j = length (takeWhile (\<lambda>i. i \<noteq> j) (ring s))"

definition job_waits :: "sched \<Rightarrow> job \<Rightarrow> bool" where
  "job_waits s j \<longleftrightarrow> j \<in> set (ring s)"

text \<open>A caller that enters is a new one; one already known to the scheduler cannot enter again.\<close>

definition enter_new :: "job \<Rightarrow> wid \<Rightarrow> sched \<Rightarrow> sched" where
  "enter_new j w s = (if w \<in> set (all_waiters s) \<union> tokens s then s else enqueue j w s)"

lemma takeWhile_append_in: "x \<in> set a \<Longrightarrow> takeWhile (\<lambda>i. i \<noteq> x) (a @ b) = takeWhile (\<lambda>i. i \<noteq> x) a"
  by (induction a) auto

lemma takeWhile_filter_le:
  "i \<noteq> j \<Longrightarrow> length (takeWhile (\<lambda>i. i \<noteq> j) (filter (\<lambda>x. x \<noteq> i) r))
     \<le> length (takeWhile (\<lambda>i. i \<noteq> j) r)"
  by (induction r) auto

interpretation turns: turn_queue job_waits ring_pos grant_one enter_new dequeueLocked queue_ok
proof
  fix s t :: sched and i j :: job and w :: wid
  assume ok: "queue_ok s"
  show "queue_ok t" if "grant_one s = Some (i, w, t)"
    by (rule grant_one_effect(1) [OF ok that])
  show "job_waits t j \<and> Suc (ring_pos t j) = ring_pos s j"
    if g: "grant_one s = Some (i, w, t)" and "job_waits s j" and "i \<noteq> j"
  proof -
    from grant_one_effect(10) [OF ok g] obtain rest where "ring s = i # rest"
      and "ring t = (if queue_of t i = [] then rest else rest @ [i])" by blast
    with that show ?thesis by (auto simp: job_waits_def ring_pos_def takeWhile_append_in)
  qed
  show "queue_ok (enter_new i w s)"
    using ok by (simp add: enter_new_def enqueue_effect(1))
  show "job_waits (enter_new i w s) j \<and> ring_pos (enter_new i w s) j \<le> ring_pos s j"
    if "job_waits s j"
    using that by (auto simp: enter_new_def enqueue_def job_waits_def ring_pos_def takeWhile_append_in)
  show "queue_ok (dequeueLocked i w s)"
    using ok dequeueLocked_effect(1) [OF ok] by (cases "w \<in> set (queue_of s i)") (auto simp: dequeueLocked_def)
  show "ring_pos (dequeueLocked i w s) j \<le> ring_pos s j"
    if "job_waits s j" and "job_waits (dequeueLocked i w s) j"
    using that takeWhile_filter_le [of i j "ring s"]
    by (auto simp: dequeueLocked_def job_waits_def ring_pos_def Let_def split: if_splits)
qed

section \<open>Concurrent calls\<close>

text \<open>
  The world: the scheduler, the granted calls whose release has not run (\<open>held\<close>), the calls blocked
  in \<open>Acquire\<close>'s select with their job, and every call made so far. Each rule is one critical
  section of some call; which call moves next, and when contexts end, is not determined.
\<close>

record world =
  sc :: sched
  held :: "wid set"
  blocked :: "wid \<rightharpoonup> job"
  seen :: "wid set"

definition start_world :: "int \<Rightarrow> world" where
  "start_world n = \<lparr>sc = New n, held = {}, blocked = Map.empty, seen = {}\<rparr>"

inductive wstep :: "world \<Rightarrow> world \<Rightarrow> bool" where
  acquire_ended: "c \<notin> seen W \<Longrightarrow> acquire_enter True j c (sc W) = (AcqEnded, s) \<Longrightarrow>
    wstep W (W\<lparr>sc := s, seen := insert c (seen W)\<rparr>)"
| acquire_free: "c \<notin> seen W \<Longrightarrow> acquire_enter False j c (sc W) = (AcqGranted, s) \<Longrightarrow>
    wstep W (W\<lparr>sc := s, held := insert c (held W), seen := insert c (seen W)\<rparr>)"
| acquire_wait: "c \<notin> seen W \<Longrightarrow> acquire_enter False j c (sc W) = (AcqWaiting, s) \<Longrightarrow>
    wstep W (W\<lparr>sc := s, blocked := (blocked W)(c \<mapsto> j), seen := insert c (seen W)\<rparr>)"
| wake_ok: "blocked W c = Some j \<Longrightarrow> c \<in> tokens (sc W) \<Longrightarrow>
    acquire_wake False c (sc W) = Some (True, s) \<Longrightarrow>
    wstep W (W\<lparr>sc := s, blocked := (blocked W)(c := None), held := insert c (held W)\<rparr>)"
| wake_ended: "blocked W c = Some j \<Longrightarrow> c \<in> tokens (sc W) \<Longrightarrow>
    acquire_wake True c (sc W) = Some (False, s) \<Longrightarrow>
    wstep W (W\<lparr>sc := s, blocked := (blocked W)(c := None)\<rparr>)"
| give_up: "blocked W c = Some j \<Longrightarrow> acquire_give_up j c (sc W) = Some s \<Longrightarrow>
    wstep W (W\<lparr>sc := s, blocked := (blocked W)(c := None)\<rparr>)"
| idle_ok: "c \<notin> seen W \<Longrightarrow> TryAcquireIdle (sc W) = (True, s) \<Longrightarrow>
    wstep W (W\<lparr>sc := s, held := insert c (held W), seen := insert c (seen W)\<rparr>)"
| release_first: "c \<in> held W \<Longrightarrow> release_once False (sc W) = Some (True, s) \<Longrightarrow>
    wstep W (W\<lparr>sc := s, held := held W - {c}\<rparr>)"
| release_again: "c \<in> seen W \<Longrightarrow> c \<notin> held W \<Longrightarrow> blocked W c = None \<Longrightarrow>
    release_once True (sc W) = Some (True, s) \<Longrightarrow> wstep W (W\<lparr>sc := s\<rparr>)"

inductive reachable :: "int \<Rightarrow> world \<Rightarrow> bool" for n where
  start: "reachable n (start_world n)"
| step: "reachable n W \<Longrightarrow> wstep W V \<Longrightarrow> reachable n V"

text \<open>
  The invariant: every slot in use is held by a call or sits in a waiter's channel, a call waits
  only while every slot is in use, and the blocked calls are exactly the queued and granted ones.
\<close>

definition world_ok :: "int \<Rightarrow> world \<Rightarrow> bool" where
  "world_ok n W \<longleftrightarrow>
     (let s = sc W in
      queue_ok s \<and> limit s = max 1 n \<and> inUse s \<le> limit s
      \<and> finite (held W) \<and> inUse s = int (card (held W)) + int (card (tokens s))
      \<and> (0 < waiting s \<longrightarrow> inUse s = limit s)
      \<and> dom (blocked W) = set (all_waiters s) \<union> tokens s
      \<and> (\<forall>j. \<forall>c \<in> set (queue_of s j). blocked W c = Some j)
      \<and> held W \<inter> dom (blocked W) = {} \<and> held W \<union> dom (blocked W) \<subseteq> seen W)"

lemma world_ok_start: "world_ok n (start_world n)"
  by (auto simp: world_ok_def start_world_def queue_ok_New) (auto simp: New_def queue_at_def max_def)

text \<open>Freeing a slot nobody holds any more restores the invariant, whoever gets the slot.\<close>

lemma world_ok_free:
  assumes ok: "queue_ok s" and lim: "limit s = max 1 n" and le: "inUse s \<le> limit s"
    and H: "finite H" and use: "inUse s = int (card H) + int (card (tokens s)) + 1"
    and B: "dom B = set (all_waiters s) \<union> tokens s"
    and Q: "\<And>j c. c \<in> set (queue_of s j) \<Longrightarrow> B c = Some j"
    and dis: "H \<inter> dom B = {}" and S: "H \<union> dom B \<subseteq> S"
  shows "\<exists>t. freeLocked s = Some t
    \<and> world_ok n \<lparr>sc = t, held = H, blocked = B, seen = S\<rparr>"
proof -
  have "0 < inUse s" using use by simp
  from freeLocked_effect [OF ok this le] obtain t where f: "freeLocked s = Some t"
    and h: "handed (s\<lparr>inUse := inUse s - 1\<rparr>) t"
    and busy: "0 < waiting t \<Longrightarrow> inUse t = limit t" and "inUse t \<le> limit t" by blast
  moreover have "inUse t = int (card H) + int (card (tokens t))"
    using h use by (simp add: handed_def)
  moreover have "dom B = set (all_waiters t) \<union> tokens t" using h B by (simp add: handed_def)
  moreover have "c \<in> set (queue_of t j) \<Longrightarrow> B c = Some j" for c j
    using h Q [of c j] by (auto simp: handed_def)
  ultimately show ?thesis using lim H dis S by (auto simp: world_ok_def handed_def)
qed

lemma card_without: "finite A \<Longrightarrow> c \<in> A \<Longrightarrow> int (card A) = int (card (A - {c})) + 1"
  using card_Suc_Diff1 [of A c] by simp

lemma token_freed:
  assumes ok: "world_ok n W" and b: "blocked W c = Some j" and c: "c \<in> tokens (sc W)"
  shows "\<exists>t. freeLocked (sc W\<lparr>tokens := tokens (sc W) - {c}\<rparr>) = Some t
    \<and> world_ok n (W\<lparr>sc := t, blocked := (blocked W)(c := None)\<rparr>)"
proof -
  let ?s = "sc W\<lparr>tokens := tokens (sc W) - {c}\<rparr>" and ?B = "(blocked W)(c := None)"
  have q: "queue_ok (sc W)" and f: "finite (tokens (sc W))" and nc: "c \<notin> set (all_waiters (sc W))"
    using ok c by (auto simp: world_ok_def Let_def queue_ok_def)
  have "inUse ?s = int (card (held W)) + int (card (tokens ?s)) + 1"
    using ok card_without [OF f c] by (simp add: world_ok_def Let_def)
  moreover have "?B x = Some i" if "x \<in> set (queue_of ?s i)" for x i
    using that nc ok queue_in_all [OF q] by (auto simp: world_ok_def Let_def)
  moreover have "dom ?B = set (all_waiters ?s) \<union> tokens ?s"
    using ok nc by (auto simp: world_ok_def Let_def)
  ultimately have "\<exists>t. freeLocked ?s = Some t
      \<and> world_ok n \<lparr>sc = t, held = held W, blocked = ?B, seen = seen W\<rparr>"
    using ok queue_ok_take_token [OF q]
    by (intro world_ok_free) (auto simp: world_ok_def Let_def)
  then show ?thesis by (cases W) simp
qed

lemma held_freed:
  assumes ok: "world_ok n W" and c: "c \<in> held W"
  shows "\<exists>t. freeLocked (sc W) = Some t \<and> world_ok n (W\<lparr>sc := t, held := held W - {c}\<rparr>)"
proof -
  have "finite (held W)" using ok by (simp add: world_ok_def Let_def)
  note card_without [OF this c]
  then have "\<exists>t. freeLocked (sc W) = Some t
      \<and> world_ok n \<lparr>sc = t, held = held W - {c}, blocked = blocked W, seen = seen W\<rparr>"
    using ok by (intro world_ok_free) (auto simp: world_ok_def Let_def)
  then show ?thesis by (cases W) simp
qed

lemma queued_left:
  assumes ok: "world_ok n W" and b: "blocked W c = Some j" and c: "c \<notin> tokens (sc W)"
  shows "world_ok n (W\<lparr>sc := dequeueLocked j c (sc W), blocked := (blocked W)(c := None)\<rparr>)"
proof -
  have q: "queue_ok (sc W)" using ok by (auto simp: world_ok_def Let_def)
  have "c \<in> set (all_waiters (sc W))" using ok b c by (auto simp: world_ok_def Let_def)
  then obtain i where i: "c \<in> set (queue_of (sc W) i)" by (auto simp: set_callers)
  then have "blocked W c = Some i" using ok by (auto simp: world_ok_def Let_def)
  with b i have c': "c \<in> set (queue_of (sc W) j)" by simp
  note e = dequeueLocked_effect [OF q c']
  let ?s = "dequeueLocked j c (sc W)"
  have "((blocked W)(c := None)) x = Some i" if x: "x \<in> set (queue_of ?s i)" for x i
  proof -
    have "x \<in> set (all_waiters ?s)" by (rule queue_in_all [OF e(1) x])
    with e(2) have "x \<noteq> c" by auto
    moreover have "x \<in> set (queue_of (sc W) i)"
      using x e(4) [of i] set_remove1_subset [of c "queue_of (sc W) j"] by (auto split: if_splits)
    ultimately show ?thesis using ok by (auto simp: world_ok_def Let_def)
  qed
  then show ?thesis using ok e c b by (auto simp: world_ok_def Let_def)
qed

lemma wstep_world_ok:
  assumes "wstep W V" and ok: "world_ok n W"
  shows "world_ok n V"
  using assms(1)
proof cases
  case (acquire_ended c j s)
  with ok show ?thesis by (auto simp: world_ok_def acquire_enter_def)
next
  case (acquire_free c j s)
  then have "c \<notin> held W" and "c \<notin> dom (blocked W)" and "s = sc W\<lparr>inUse := inUse (sc W) + 1\<rparr>"
    and "inUse (sc W) < limit (sc W)" and "waiting (sc W) = 0"
    using ok by (auto simp: world_ok_def acquire_enter_def Let_def split: if_splits)
  with acquire_free ok show ?thesis by (auto simp: world_ok_def Let_def)
next
  case (acquire_wait c j s)
  then have c: "c \<notin> held W" "c \<notin> dom (blocked W)" and s: "s = enqueue j c (sc W)"
    and full: "inUse (sc W) < limit (sc W) \<longrightarrow> waiting (sc W) \<noteq> 0"
    using ok by (auto simp: world_ok_def acquire_enter_def Let_def split: if_splits)
  from ok have q: "queue_ok (sc W)" and "0 < waiting (sc W) \<longrightarrow> inUse (sc W) = limit (sc W)"
    and "inUse (sc W) \<le> limit (sc W)" and "0 \<le> waiting (sc W)"
    by (auto simp: world_ok_def Let_def queue_ok_def)
  with full have "inUse (sc W) = limit (sc W)" by linarith
  moreover have new: "c \<notin> set (all_waiters (sc W))" "c \<notin> tokens (sc W)"
    using c ok by (auto simp: world_ok_def Let_def)
  moreover note e = enqueue_effect [OF q new, of j]
  moreover have "((blocked W)(c \<mapsto> j)) x = Some i" if "x \<in> set (queue_of s i)" for x i
    using that c e(4) [of i] s ok by (auto simp: world_ok_def Let_def split: if_splits)
  ultimately show ?thesis using acquire_wait(1) s ok c by (auto simp: world_ok_def Let_def)
next
  case (wake_ok c j s)
  then have c: "c \<notin> held W" "c \<notin> set (all_waiters (sc W))" and f: "finite (tokens (sc W))"
    using ok by (auto simp: world_ok_def Let_def queue_ok_def)
  have s: "s = sc W\<lparr>tokens := tokens (sc W) - {c}\<rparr>"
    using wake_ok by (simp add: acquire_wake_def Let_def)
  have "int (card (insert c (held W))) + int (card (tokens s)) = inUse (sc W)"
    using ok c card_without [OF f wake_ok(3)] s by (simp add: world_ok_def Let_def)
  moreover have "queue_ok s" using ok s by (auto simp: world_ok_def Let_def queue_ok_take_token)
  moreover have "x \<noteq> c" if "x \<in> set (queue_of (sc W) i)" for x i
    using that c queue_in_all ok by (auto simp: world_ok_def Let_def)
  ultimately show ?thesis using wake_ok(1) s ok c wake_ok(2,3) by (auto simp: world_ok_def Let_def)
next
  case (wake_ended c j s)
  let ?s = "sc W\<lparr>tokens := tokens (sc W) - {c}\<rparr>"
  have "freeLocked ?s = Some s" using wake_ended by (simp add: acquire_wake_def Let_def)
  then show ?thesis using token_freed [OF ok wake_ended(2,3)] wake_ended(1) by auto
next
  case (give_up c j s)
  then show ?thesis
    using token_freed [OF ok give_up(2)] queued_left [OF ok give_up(2)]
    by (cases "c \<in> tokens (sc W)") (auto simp: acquire_give_up_def)
next
  case (idle_ok c s)
  then have "c \<notin> held W" and "c \<notin> dom (blocked W)" and "s = sc W\<lparr>inUse := inUse (sc W) + 1\<rparr>"
    and "inUse (sc W) < limit (sc W)" and "\<not> 0 < waiting (sc W)"
    using ok by (auto simp: world_ok_def TryAcquireIdle_def Let_def split: if_splits)
  with idle_ok ok show ?thesis by (auto simp: world_ok_def Let_def)
next
  case (release_first c s)
  then show ?thesis using held_freed [OF ok release_first(2)] by (auto simp: release_once_def)
next
  case (release_again c s)
  with ok show ?thesis by (cases W) (simp add: release_once_def)
qed

lemma reachable_world_ok: "reachable n W \<Longrightarrow> world_ok n W"
  by (induction rule: reachable.induct) (auto intro: world_ok_start wstep_world_ok)

section \<open>Properties\<close>

text \<open>An example history: with one slot, call 0 of job a runs, call 1 of job a and call 2 of job b
  wait.\<close>

definition busy_world :: world where
  "busy_world = \<lparr>
     sc = enqueue ''b'' 2 (enqueue ''a'' 1 (New 1\<lparr>inUse := 1\<rparr>)),
     held = {0}, blocked = Map.empty(1 \<mapsto> ''a'', 2 \<mapsto> ''b''), seen = {2, 1, 0}\<rparr>"

lemma busy_world_reachable: "reachable 1 busy_world"
proof -
  let ?a = "start_world 1\<lparr>sc := New 1\<lparr>inUse := 1\<rparr>, held := {0}, seen := {0}\<rparr>"
  let ?b = "?a\<lparr>sc := enqueue ''a'' 1 (New 1\<lparr>inUse := 1\<rparr>), blocked := Map.empty(1 \<mapsto> ''a''),
    seen := {1, 0}\<rparr>"
  have "wstep (start_world 1) ?a"
    using acquire_free [of 0 "start_world 1" "''a''" "New 1\<lparr>inUse := 1\<rparr>"]
    by (simp add: start_world_def acquire_enter_def New_def)
  moreover have "wstep ?a ?b"
    using acquire_wait [of 1 ?a "''a''" "enqueue ''a'' 1 (New 1\<lparr>inUse := 1\<rparr>)"]
    by (simp add: start_world_def acquire_enter_def New_def)
  moreover have "wstep ?b busy_world"
    using acquire_wait [of 2 ?b "''b''" "enqueue ''b'' 2 (enqueue ''a'' 1 (New 1\<lparr>inUse := 1\<rparr>))"]
    by (simp add: start_world_def acquire_enter_def New_def busy_world_def enqueue_def)
  ultimately show ?thesis by (meson reachable.intros)
qed

text \<open>C10. The limit holds: however acquires, give-ups, hedges and releases interleave, the calls
  holding a slot never exceed the limit, and every slot counted in use is held by a call or sits in
  the channel of a waiter already granted it, so no slot leaks.\<close>

theorem sched_limit:
  assumes "reachable n W"
  shows "int (card (held W)) \<le> max 1 n
    \<and> inUse (sc W) = int (card (held W)) + int (card (tokens (sc W))) \<and> inUse (sc W) \<le> max 1 n"
  using reachable_world_ok [OF assms] by (auto simp: world_ok_def Let_def)

lemma sched_limit_witness: "int (card (held busy_world)) \<le> max 1 (1 :: int)"
  using sched_limit [OF busy_world_reachable] by simp

text \<open>C28. No call waits while a slot is free: a call blocked without a granted token means that all
  slots are in use; and an idle acquisition (a hedge's) succeeds exactly when a slot is free, in
  which case no call is waiting.\<close>

theorem sched_work_conserving:
  assumes "reachable n W"
  shows "(\<forall>c j. blocked W c = Some j \<longrightarrow> c \<notin> tokens (sc W) \<longrightarrow> inUse (sc W) = max 1 n)
    \<and> (fst (TryAcquireIdle (sc W)) \<longleftrightarrow> inUse (sc W) < max 1 n)
    \<and> (fst (TryAcquireIdle (sc W)) \<longrightarrow> (\<forall>c. blocked W c \<noteq> None \<longrightarrow> c \<in> tokens (sc W)))"
proof -
  note ok = reachable_world_ok [OF assms]
  have w: "waiting (sc W) = int (length (all_waiters (sc W)))"
    and lim: "limit (sc W) = max 1 n" and busy: "0 < waiting (sc W) \<longrightarrow> inUse (sc W) = limit (sc W)"
    and dom: "dom (blocked W) = set (all_waiters (sc W)) \<union> tokens (sc W)"
    using ok by (auto simp: world_ok_def Let_def queue_ok_def)
  have q: "0 < waiting (sc W)" if "blocked W c = Some j" and "c \<notin> tokens (sc W)" for c j
    using that dom w by (auto simp: length_pos_if_in_set)
  then have "blocked W c = Some j \<longrightarrow> c \<notin> tokens (sc W) \<longrightarrow> inUse (sc W) = max 1 n" for c j
    using busy lim by auto
  moreover have "fst (TryAcquireIdle (sc W)) \<longleftrightarrow> inUse (sc W) < max 1 n"
    using busy lim by (auto simp: TryAcquireIdle_def)
  moreover have "c \<in> tokens (sc W)" if "fst (TryAcquireIdle (sc W))" and "blocked W c \<noteq> None" for c
    using that q [of c] by (auto simp: TryAcquireIdle_def split: if_splits)
  ultimately show ?thesis by blast
qed

lemma sched_work_conserving_witness:
  "blocked busy_world 1 = Some ''a'' \<and> inUse (sc busy_world) = 1
   \<and> \<not> fst (TryAcquireIdle (sc busy_world))"
proof -
  have b: "blocked busy_world 1 = Some ''a''" "1 \<notin> tokens (sc busy_world)"
    by (simp_all add: busy_world_def enqueue_def New_def)
  from sched_work_conserving [OF busy_world_reachable] b
  have "inUse (sc busy_world) = max 1 1" by blast
  moreover have "fst (TryAcquireIdle (sc busy_world)) \<longleftrightarrow> inUse (sc busy_world) < max 1 1"
    using sched_work_conserving [OF busy_world_reachable] by blast
  ultimately show ?thesis using b(1) by simp
qed



text \<open>No critical section panics and no grant is lost: in every reachable state the release of a
  held slot returns, a waiter granted a token can take it, and a waiter that gives up leaves whether
  or not it was granted meanwhile; and a second call of the same release function changes nothing.\<close>

theorem sched_sections_return:
  assumes "reachable n W"
  shows "(\<forall>c \<in> held W. \<exists>s. release_once False (sc W) = Some (True, s))
    \<and> (\<forall>c j. blocked W c = Some j \<longrightarrow> (\<exists>s. acquire_give_up j c (sc W) = Some s))
    \<and> (\<forall>c \<in> tokens (sc W). blocked W c \<noteq> None \<and> (\<exists>s. acquire_wake True c (sc W) = Some (False, s))
         \<and> (\<exists>s. acquire_wake False c (sc W) = Some (True, s)))
    \<and> release_once True (sc W) = Some (True, sc W)"
proof -
  note ok = reachable_world_ok [OF assms]
  have "\<exists>s. release_once False (sc W) = Some (True, s)" if "c \<in> held W" for c
    using held_freed [OF ok that] by (auto simp: release_once_def)
  moreover have "\<exists>s. acquire_give_up j c (sc W) = Some s" if "blocked W c = Some j" for c j
    using token_freed [OF ok that] by (auto simp: acquire_give_up_def)
  moreover have "blocked W c \<noteq> None \<and> (\<exists>s. acquire_wake True c (sc W) = Some (False, s))
      \<and> (\<exists>s. acquire_wake False c (sc W) = Some (True, s))" if "c \<in> tokens (sc W)" for c
  proof -
    from that ok have "c \<in> dom (blocked W)" by (simp add: world_ok_def Let_def)
    then obtain j where "blocked W c = Some j" by blast
    with token_freed [OF ok this that] show ?thesis by (auto simp: acquire_wake_def Let_def)
  qed
  ultimately show ?thesis by (auto simp: release_once_def)
qed

lemma sched_sections_return_witness: "\<exists>s. release_once False (sc busy_world) = Some (True, s)"
proof -
  have "0 \<in> held busy_world" by (simp add: busy_world_def)
  with sched_sections_return [OF busy_world_reachable] show ?thesis by blast
qed

end
