(* ===== verification/GoJson.thy ===== *)
theory GoJson
  imports Prelude
begin

text \<open>
  The parts of Go's \<open>unicode/utf8\<close> and \<open>encoding/json\<close> the source uses: decoding one rune of a
  byte string (an invalid byte is U+FFFD of size 1), and \<open>json.Marshal\<close> of strings and objects
  with the encoder's default HTML escaping. The second part is the standard library's code, not the
  repository's, so it has no map entry.
\<close>

section \<open>UTF-8\<close>

definition byte :: "char \<Rightarrow> nat" where
  "byte c = of_char c"

definition is_cont :: "nat \<Rightarrow> bool" where
  "is_cont b \<longleftrightarrow> 128 \<le> b \<and> b \<le> 191"

definition rune_error :: nat where
  "rune_error = 65533"

text \<open>\<open>utf8.DecodeRune\<close> on a non-empty list of bytes: the rune and its size.\<close>

definition decode_rune :: "nat list \<Rightarrow> nat \<times> nat" where
  "decode_rune bs =
     (case bs of
        [] \<Rightarrow> (rune_error, 0)
      | b0 # r \<Rightarrow>
          if b0 < 128 then (b0, 1)
          else if 194 \<le> b0 \<and> b0 \<le> 223 then
            (case r of
               b1 # _ \<Rightarrow> if is_cont b1 then ((b0 - 192) * 64 + (b1 - 128), 2) else (rune_error, 1)
             | [] \<Rightarrow> (rune_error, 1))
          else if 224 \<le> b0 \<and> b0 \<le> 239 then
            (case r of
               b1 # b2 # _ \<Rightarrow>
                 if (if b0 = 224 then 160 else 128) \<le> b1 \<and> b1 \<le> (if b0 = 237 then 159 else 191)
                    \<and> is_cont b2
                 then ((b0 - 224) * 4096 + (b1 - 128) * 64 + (b2 - 128), 3) else (rune_error, 1)
             | _ \<Rightarrow> (rune_error, 1))
          else if 240 \<le> b0 \<and> b0 \<le> 244 then
            (case r of
               b1 # b2 # b3 # _ \<Rightarrow>
                 if (if b0 = 240 then 144 else 128) \<le> b1 \<and> b1 \<le> (if b0 = 244 then 143 else 191)
                    \<and> is_cont b2 \<and> is_cont b3
                 then ((b0 - 240) * 262144 + (b1 - 128) * 4096 + (b2 - 128) * 64 + (b3 - 128), 4)
                 else (rune_error, 1)
             | _ \<Rightarrow> (rune_error, 1))
          else (rune_error, 1))"

lemma decode_rune_size: "bs \<noteq> [] \<Longrightarrow> 1 \<le> snd (decode_rune bs) \<and> snd (decode_rune bs) \<le> length bs"
  by (auto simp: decode_rune_def split: list.splits)

text \<open>The runes of a byte string, as \<open>for _, r := range s\<close> visits them.\<close>

function runes :: "nat list \<Rightarrow> nat list" where
  "runes bs = (if bs = [] then []
     else let (r, n) = decode_rune bs in r # runes (drop n bs))"
  by pat_completeness auto
termination
proof (relation "measure length")
  fix bs :: "nat list" and x r n
  assume "bs \<noteq> []" and "x = decode_rune bs" and "(r, n) = x"
  then have "1 \<le> n" and "n \<le> length bs" using decode_rune_size [of bs] by (metis snd_conv)+
  then show "(drop n bs, bs) \<in> measure length" by simp
qed simp

declare runes.simps [simp del]

lemma runes_Nil [simp]: "runes [] = []"
  by (simp add: runes.simps)

lemma runes_ascii_Cons: "b < 128 \<Longrightarrow> runes (b # bs) = b # runes bs"
  by (subst runes.simps) (simp add: decode_rune_def)

lemma runes_ascii: "list_all (\<lambda>b. b < 128) bs \<Longrightarrow> runes bs = bs"
  by (induction bs) (auto simp: runes_ascii_Cons)

text \<open>\<open>strings.TrimSpace\<close>: the encodings of the runes \<open>unicode.IsSpace\<close> holds for.\<close>

definition space_seqs :: "string list" where
  "space_seqs = map (\<lambda>c. [c]) [CHR 0x09, CHR 0x0A, CHR 0x0B, CHR 0x0C, CHR 0x0D, CHR 0x20]
     @ [[CHR 0xC2, CHR 0x85], [CHR 0xC2, CHR 0xA0], [CHR 0xE1, CHR 0x9A, CHR 0x80]]
     @ map (\<lambda>d. [CHR 0xE2, CHR 0x80, char_of d]) ([128..<139] @ [168, 169, 175 :: nat])
     @ [[CHR 0xE2, CHR 0x81, CHR 0x9F], [CHR 0xE3, CHR 0x80, CHR 0x80]]"

function trim_seqs :: "string list \<Rightarrow> string \<Rightarrow> string" where
  "trim_seqs seqs s =
     (case find (\<lambda>p. p \<noteq> [] \<and> starts_with p s) seqs of
        None \<Rightarrow> s
      | Some p \<Rightarrow> trim_seqs seqs (drop (length p) s))"
  by pat_completeness auto
termination
proof (relation "measure (\<lambda>(q, s). length s)")
  fix seqs and s p :: string
  assume "find (\<lambda>p. p \<noteq> [] \<and> starts_with p s) seqs = Some p"
  then have "p \<noteq> []" and "starts_with p s" by (auto simp: find_Some_iff)
  then show "((seqs, drop (length p) s), seqs, s) \<in> measure (\<lambda>(q, s). length s)"
    by (auto simp: starts_with_iff)
qed simp

declare trim_seqs.simps [simp del]

definition go_trim_space :: "string \<Rightarrow> string" where
  "go_trim_space s = rev (trim_seqs (map rev space_seqs) (rev (trim_seqs space_seqs s)))"

lemma trim_seqs_id: "(\<And>p. p \<in> set seqs \<Longrightarrow> p \<noteq> [] \<Longrightarrow> \<not> starts_with p s) \<Longrightarrow> trim_seqs seqs s = s"
proof -
  assume a: "\<And>p. p \<in> set seqs \<Longrightarrow> p \<noteq> [] \<Longrightarrow> \<not> starts_with p s"
  then have "find (\<lambda>p. p \<noteq> [] \<and> starts_with p s) seqs = None" by (auto simp: find_None_iff)
  then show ?thesis by (subst trim_seqs.simps) simp
qed

section \<open>Encoding\<close>

definition hex_digit :: "nat \<Rightarrow> char" where
  "hex_digit d = (if d < 10 then char_of (48 + d) else char_of (87 + d))"

definition escape :: "string \<Rightarrow> string" where
  "escape s = CHR 0x5C # s"

definition esc_u00 :: "nat \<Rightarrow> string" where
  "esc_u00 b = escape (''u00'' @ [hex_digit (b div 16), hex_digit (b mod 16)])"

definition encode_ascii :: "nat \<Rightarrow> string" where
  "encode_ascii b =
     (if b = 34 then [CHR 0x5C, CHR 0x22]
      else if b = 92 then [CHR 0x5C, CHR 0x5C]
      else if b = 8 then escape ''b''
      else if b = 12 then escape ''f''
      else if b = 10 then escape ''n''
      else if b = 13 then escape ''r''
      else if b = 9 then escape ''t''
      else if b < 32 \<or> b = 60 \<or> b = 62 \<or> b = 38 then esc_u00 b
      else [char_of b])"

function encode_body :: "nat list \<Rightarrow> string" where
  "encode_body bs =
     (if bs = [] then []
      else let (r, n) = decode_rune bs in
        (if hd bs < 128 then encode_ascii (hd bs)
         else if r = rune_error \<and> n = 1 then escape ''ufffd''
         else if r = 8232 then escape ''u2028''
         else if r = 8233 then escape ''u2029''
         else map char_of (take n bs))
        @ encode_body (drop n bs))"
  by pat_completeness auto
termination
proof (relation "measure length")
  fix bs :: "nat list" and x r n
  assume "bs \<noteq> []" and "x = decode_rune bs" and "(r, n) = x"
  then have "1 \<le> n" and "n \<le> length bs" using decode_rune_size [of bs] by (metis snd_conv)+
  then show "(drop n bs, bs) \<in> measure length" by simp
qed simp

declare encode_body.simps [simp del]

definition json_string :: "string \<Rightarrow> string" where
  "json_string s = [CHR 0x22] @ encode_body (map byte s) @ [CHR 0x22]"

text \<open>A value as \<open>json.Marshal\<close> writes it: strings, arrays and objects with members in order.\<close>

datatype wire = WStr string | WArr "wire list" | WObj "(string \<times> wire) list"

fun join_comma :: "string list \<Rightarrow> string" where
  "join_comma [] = []"
| "join_comma [s] = s"
| "join_comma (s # t # r) = s @ '','' @ join_comma (t # r)"

fun marshal :: "wire \<Rightarrow> string" where
  "marshal (WStr s) = json_string s"
| "marshal (WArr vs) = ''['' @ join_comma (map marshal vs) @ '']''"
| "marshal (WObj ms) =
     ''{'' @ join_comma (map (\<lambda>m. json_string (fst m) @ '':'' @ marshal (snd m)) ms) @ ''}''"

end
