(* ===== verification/Azerr.thy ===== *)
theory Azerr
  imports GoJson
begin

text \<open>
  The error contract of \<open>internal/azerr/azerr.go\<close>: the two surfaces, the error value every
  component passes on (\<open>api_error\<close>, the source's \<open>APIError\<close>), its rendering in the containers' wrapped
  and flat shapes, the constructors the gateway uses, and \<open>ParseUpstream\<close>, which takes
  \<open>json.Unmarshal\<close> into its struct as an argument. \<open>ModelNotFound\<close> (which quotes with \<open>%q\<close>) is
  not modelled.
\<close>

section \<open>Surfaces and error values\<close>

datatype surface = SurfaceDI | SurfaceRead

definition surface_String :: "surface \<Rightarrow> string" where
  "surface_String s = (if s = SurfaceRead then ''read'' else ''di'')"

datatype inner_error =
  InnerError (in_Code: string) (in_Message: string) (in_Inner: "inner_error option")

datatype az_error =
  AzError (er_Code: string) (er_Message: string) (er_Target: string) (er_Details: "az_error list")
    (er_Inner: "inner_error option")

record api_error =
  err_Status :: int
  err_Code :: string
  err_Message :: string
  err_Target :: string
  err_InnerCode :: string
  err_InnerMsg :: string
  err_Details :: "az_error list"
  err_RequestID :: string
  err_RetryAfter :: int
  err_flat :: bool
  err_synthesised :: bool
  err_bare :: bool

definition api_error0 :: api_error where
  "api_error0 = \<lparr>err_Status = 0, err_Code = [], err_Message = [], err_Target = [],
     err_InnerCode = [], err_InnerMsg = [], err_Details = [], err_RequestID = [],
     err_RetryAfter = 0, err_flat = False, err_synthesised = False, err_bare = False\<rparr>"

text \<open>A literal \<open>&APIError{Status, Code, Message}\<close>.\<close>

definition mk_error :: "int \<Rightarrow> string \<Rightarrow> string \<Rightarrow> api_error" where
  "mk_error status code msg = api_error0\<lparr>err_Status := status, err_Code := code, err_Message := msg\<rparr>"

section \<open>Canonical messages and statuses\<close>

definition canonical_messages :: "(string \<times> string) list" where
  "canonical_messages = [
     (''InvalidRequest'', ''Invalid request.''),
     (''InvalidArgument'', ''Invalid argument.''),
     (''Unauthorized'', ''Access denied due to invalid subscription key.''),
     (''Forbidden'', ''Access forbidden due to policy or other configuration.''),
     (''NotFound'', ''Resource not found.''),
     (''MethodNotAllowed'', ''The requested HTTP method isn'' @ [CHR 0x27] @ ''t allowed.''),
     (''Conflict'', ''The request couldn'' @ [CHR 0x27] @ ''t be completed due to a conflict.''),
     (''UnsupportedMediaType'', ''Request content type isn'' @ [CHR 0x27] @ ''t supported.''),
     (''InternalServerError'', ''An unexpected error occurred.''),
     (''ServiceUnavailable'', ''A transient error occurred. Try again.'')]"

definition canonical_inner_messages :: "(string \<times> string) list" where
  "canonical_inner_messages = [
     (''InvalidContent'', ''The file is corrupted or format is unsupported. Refer to documentation for the list of supported formats.''),
     (''InvalidContentLength'', ''The input image is too large. Refer to documentation for the maximum file size.''),
     (''InvalidContentDimensions'', ''The input image dimensions are out of range. Refer to documentation for supported image dimensions.''),
     (''OperationNotFound'', ''The requested operation wasn'' @ [CHR 0x27] @ ''t found. The identifier is invalid or the operation is expired.''),
     (''ModelNotFound'', ''The requested model wasn'' @ [CHR 0x27] @ ''t found. It was deleted or still building.''),
     (''ContentSourceTimeout'', ''Timeout while receiving the file from client.''),
     (''Unknown'', ''Unknown error.'')]"

text \<open>Indexing a Go map gives the zero value for a missing key.\<close>

definition lookup0 :: "(string \<times> string) list \<Rightarrow> string \<Rightarrow> string" where
  "lookup0 m k = (case map_of m k of None \<Rightarrow> [] | Some v \<Rightarrow> v)"

definition CanonicalMessage :: "string \<Rightarrow> string" where
  "CanonicalMessage code = lookup0 canonical_messages code"

definition status_for_code :: "(string \<times> int) list" where
  "status_for_code = [
     (''InvalidRequest'', 400), (''InvalidArgument'', 400), (''Unauthorized'', 401),
     (''Forbidden'', 403), (''NotFound'', 404), (''MethodNotAllowed'', 405), (''Conflict'', 409),
     (''UnsupportedMediaType'', 415), (''InternalServerError'', 500), (''ServiceUnavailable'', 503)]"

definition StatusForCode :: "string \<Rightarrow> int" where
  "StatusForCode code = (case map_of status_for_code code of Some s \<Rightarrow> s | None \<Rightarrow> 500)"

section \<open>Building errors\<close>

definition err_New :: "int \<Rightarrow> string \<Rightarrow> string \<Rightarrow> api_error" where
  "err_New status code msg =
     mk_error status code (if msg = [] then lookup0 canonical_messages code else msg)"

definition WithInner :: "string \<Rightarrow> string \<Rightarrow> api_error \<Rightarrow> api_error" where
  "WithInner code msg e =
     e\<lparr>err_InnerCode := code,
       err_InnerMsg := (if msg = [] then lookup0 canonical_inner_messages code else msg)\<rparr>"

definition WithRetryAfter :: "int \<Rightarrow> api_error \<Rightarrow> api_error" where
  "WithRetryAfter seconds e = e\<lparr>err_RetryAfter := seconds\<rparr>"

definition retriable :: "int \<Rightarrow> bool" where
  "retriable status \<longleftrightarrow> status = 408 \<or> status = 429 \<or> status = 500 \<or> status = 502 \<or> status = 503 \<or> status = 504"

section \<open>Rendering\<close>

datatype err_body =
  FlatBody string string string  \<comment> \<open>\<open>ReadError\<close>: code, message, requestId\<close>
| WrappedBody az_error           \<comment> \<open>\<open>Response\<close>\<close>

definition inner_of :: "api_error \<Rightarrow> inner_error option" where
  "inner_of e =
     (if err_InnerCode e \<noteq> [] \<or> err_InnerMsg e \<noteq> []
      then Some (InnerError (err_InnerCode e) (err_InnerMsg e) None) else None)"

definition err_Body :: "api_error \<Rightarrow> surface \<Rightarrow> err_body" where
  "err_Body e s =
     (if err_flat e then FlatBody (err_Code e) (err_Message e) (err_RequestID e)
      else WrappedBody (AzError (err_Code e) (err_Message e) (err_Target e) (err_Details e) (inner_of e)))"

definition OperationError :: "api_error \<Rightarrow> az_error" where
  "OperationError e =
     AzError (err_Code e) (err_Message e) (err_Target e) (err_Details e) (inner_of e)"

text \<open>The struct tags: \<open>omitempty\<close> drops an empty string, slice or pointer.\<close>

definition opt_str :: "string \<Rightarrow> string \<Rightarrow> (string \<times> wire) list" where
  "opt_str k v = (if v = [] then [] else [(k, WStr v)])"

fun wire_inner :: "inner_error \<Rightarrow> wire" where
  "wire_inner (InnerError c m i) =
     WObj (opt_str ''code'' c @ opt_str ''message'' m
       @ (case i of None \<Rightarrow> [] | Some j \<Rightarrow> [(''innererror'', wire_inner j)]))"

fun wire_error :: "az_error \<Rightarrow> wire" where
  "wire_error (AzError c m t ds i) =
     WObj ([(''code'', WStr c), (''message'', WStr m)] @ opt_str ''target'' t
       @ (if ds = [] then [] else [(''details'', WArr (map wire_error ds))])
       @ (case i of None \<Rightarrow> [] | Some j \<Rightarrow> [(''innererror'', wire_inner j)]))"

fun wire_body :: "err_body \<Rightarrow> wire" where
  "wire_body (FlatBody c m r) =
     WObj ([(''code'', WStr c), (''message'', WStr m)] @ opt_str ''requestId'' r)"
| "wire_body (WrappedBody e) = WObj [(''error'', wire_error e)]"

text \<open>What \<open>WriteTo\<close> puts on the wire. Marshalling these types cannot fail.\<close>

record http_response =
  rsp_status :: int
  rsp_content_type :: "string option"
  rsp_content_length :: int
  rsp_retry_after :: "int option"
  rsp_body :: string

definition WriteTo :: "api_error \<Rightarrow> surface \<Rightarrow> http_response" where
  "WriteTo e s =
     (let ra = (if err_RetryAfter e > 0 \<and> retriable (err_Status e) then Some (err_RetryAfter e) else None)
      in if err_bare e then
           \<lparr>rsp_status = err_Status e, rsp_content_type = None, rsp_content_length = 0,
            rsp_retry_after = ra, rsp_body = []\<rparr>
         else
           (let body = marshal (wire_body (err_Body e s)) in
            \<lparr>rsp_status = err_Status e,
             rsp_content_type = Some ''application/json; charset=utf-8'',
             rsp_content_length = int (length body), rsp_retry_after = ra, rsp_body = body\<rparr>))"

section \<open>The errors the gateway emits\<close>

definition err_NotFound :: "surface \<Rightarrow> api_error" where
  "err_NotFound s =
     (if s = SurfaceRead then mk_error 404 ''BadArgument''
        ''Operation ID is invalid, expired or the results matching this operationId have been deleted.''
      else (err_New 404 ''NotFound'' ''Analyze result does not exist.'')\<lparr>err_flat := True\<rparr>)"

definition Unrouted :: "surface \<Rightarrow> api_error" where
  "Unrouted s = (mk_error 404 ''NotFound'' [])\<lparr>err_bare := True\<rparr>"

definition BadRequest :: "surface \<Rightarrow> string \<Rightarrow> api_error" where
  "BadRequest s msg =
     (if s = SurfaceRead then mk_error 400 ''BadArgument'' msg else err_New 400 ''InvalidRequest'' msg)"

definition InvalidParameter :: "surface \<Rightarrow> string \<Rightarrow> string \<Rightarrow> api_error" where
  "InvalidParameter s nm detail =
     (let text = ''The parameter '' @ nm @ '' is invalid: '' @ detail in
      if s = SurfaceRead then mk_error 400 ''BadArgument'' text
      else WithInner ''InvalidParameter'' text (err_New 400 ''InvalidArgument'' []))"

definition ContentTooLarge :: "surface \<Rightarrow> api_error" where
  "ContentTooLarge s =
     (if s = SurfaceRead then mk_error 400 ''InvalidImageSize'' ''The input image is too large.''
      else WithInner ''InvalidContentLength'' [] (err_New 400 ''InvalidRequest'' []))"

definition UnsupportedMediaType :: "surface \<Rightarrow> api_error" where
  "UnsupportedMediaType s =
     (if s = SurfaceRead then mk_error 415 ''UnsupportedMediaType''
        (''Request content type isn'' @ [CHR 0x27] @ ''t supported.'')
      else err_New 415 ''UnsupportedMediaType'' [])"

definition MethodNotAllowed :: "surface \<Rightarrow> api_error" where
  "MethodNotAllowed s =
     (if s = SurfaceRead then mk_error 405 ''InvalidRequest''
        (''The requested HTTP method isn'' @ [CHR 0x27] @ ''t allowed.'')
      else err_New 405 ''MethodNotAllowed'' [])"

definition TooBusy :: "surface \<Rightarrow> int \<Rightarrow> api_error" where
  "TooBusy s retryAfter =
     (let text = ''Too many requests in progress. Retry after the indicated interval.'' in
      if s = SurfaceRead then WithRetryAfter retryAfter (mk_error 429 ''InvalidRequest'' text)
      else WithRetryAfter retryAfter (err_New 429 ''ServiceUnavailable'' text))"

definition Unavailable :: "surface \<Rightarrow> string \<Rightarrow> int \<Rightarrow> api_error" where
  "Unavailable s msg retryAfter =
     (if s = SurfaceRead then WithRetryAfter retryAfter (mk_error 503 ''Unspecified'' msg)
      else WithRetryAfter retryAfter (err_New 503 ''ServiceUnavailable'' msg))"

definition ForStatus :: "surface \<Rightarrow> int \<Rightarrow> string \<Rightarrow> api_error" where
  "ForStatus s status detail0 =
     (let detail = (if detail0 = [] then ''The upstream container returned HTTP '' @ itoa status @ ''.''
                    else detail0);
          code = (if status = 404 then ''NotFound''
                  else if status = 401 then ''Unauthorized''
                  else if status = 403 then ''Forbidden''
                  else if status = 405 then ''MethodNotAllowed''
                  else if status = 409 then ''Conflict''
                  else if status = 415 then ''UnsupportedMediaType''
                  else if status = 503 then ''ServiceUnavailable''
                  else if status \<ge> 400 \<and> status < 500 then ''InvalidRequest''
                  else ''InternalServerError'');
          readCode = (if status = 415 then ''UnsupportedMediaType''
                      else if status = 401 then ''Unauthorized''
                      else if status \<ge> 400 \<and> status < 500 then ''BadArgument''
                      else ''InternalServerError'')
      in (mk_error status (if s = SurfaceRead then readCode else code) detail)\<lparr>err_synthesised := True\<rparr>)"

definition Synthesised :: "api_error option \<Rightarrow> bool" where
  "Synthesised e = (case e of None \<Rightarrow> False | Some x \<Rightarrow> err_synthesised x)"

definition err_Internal :: "surface \<Rightarrow> string \<Rightarrow> api_error" where
  "err_Internal s msg =
     (if s = SurfaceRead then
        mk_error 500 ''InternalServerError'' (if msg = [] then ''An unexpected error occurred.'' else msg)
      else WithInner ''Unknown'' [] (err_New 500 ''InternalServerError'' msg))"

text \<open>\<open>equalFold\<close>, the ASCII comparison \<open>ParseUpstream\<close> uses.\<close>

fun equalFold_loop :: "string \<Rightarrow> string \<Rightarrow> bool" where
  "equalFold_loop (a # as) (b # bs) =
     (if ascii_lower a \<noteq> ascii_lower b then False else equalFold_loop as bs)"
| "equalFold_loop _ _ = True"

definition azerr_equalFold :: "string \<Rightarrow> string \<Rightarrow> bool" where
  "azerr_equalFold a b = (if length a \<noteq> length b then False else equalFold_loop a b)"

section \<open>Reading a container's error\<close>

text \<open>
  What \<open>json.Unmarshal\<close> fills in: the \<open>error\<close> member (\<open>None\<close> is a nil pointer) and the flat
  variants. A member that is missing is the zero value.
\<close>

record upstream_error =
  ue_Code :: string
  ue_Message :: string
  ue_Target :: string
  ue_Details :: "az_error list"
  ue_Inner :: "(string \<times> string) option"

record upstream_body =
  ub_Error :: "upstream_error option"
  ub_Code :: string
  ub_Message :: string
  ub_RequestID :: string
  ub_Status :: string

text \<open>The two other cases of its switch: the flat shape and \<open>{"status":"Failed"}\<close>.\<close>

definition ParseFlat :: "int \<Rightarrow> upstream_body \<Rightarrow> api_error option" where
  "ParseFlat status w =
     (if ub_Code w \<noteq> [] then
        Some ((mk_error status (ub_Code w) (ub_Message w))\<lparr>err_RequestID := ub_RequestID w\<rparr>)
      else if ub_Status w \<noteq> [] \<and> azerr_equalFold (ub_Status w) ''failed'' then
        Some (mk_error status ''InternalServerError''
          ''The upstream container reported the analysis as failed without detail.'')
      else None)"

definition ParseUpstream :: "(string \<Rightarrow> upstream_body option) \<Rightarrow> string \<Rightarrow> int \<Rightarrow> api_error option" where
  "ParseUpstream unmarshal body status =
     (if body = [] then None
      else case unmarshal body of
        None \<Rightarrow> None
      | Some w \<Rightarrow>
          (case ub_Error w of
             Some e \<Rightarrow>
               if ue_Code e \<noteq> [] then
                 (let a = (mk_error status (ue_Code e) (ue_Message e))
                            \<lparr>err_Target := ue_Target e, err_Details := ue_Details e\<rparr>
                  in Some (case ue_Inner e of
                             None \<Rightarrow> a
                           | Some (c, m) \<Rightarrow> a\<lparr>err_InnerCode := c, err_InnerMsg := m\<rparr>))
               else ParseFlat status w
           | None \<Rightarrow> ParseFlat status w))"

section \<open>Lemmas\<close>

lemma equalFold_loop_lower: "length a = length b \<Longrightarrow> equalFold_loop a b = (go_lower a = go_lower b)"
  by (induction a b rule: list_induct2) (auto simp: go_lower_def)

lemma azerr_equalFold_iff: "azerr_equalFold a b \<longleftrightarrow> go_lower a = go_lower b"
proof (cases "length a = length b")
  case False
  then have "go_lower a \<noteq> go_lower b" unfolding go_lower_def by (metis length_map)
  with False show ?thesis by (simp add: azerr_equalFold_def)
qed (simp add: azerr_equalFold_def equalFold_loop_lower)

lemmas error_defs = err_New_def mk_error_def api_error0_def WithInner_def WithRetryAfter_def
  err_NotFound_def Unrouted_def BadRequest_def InvalidParameter_def ContentTooLarge_def
  UnsupportedMediaType_def MethodNotAllowed_def TooBusy_def Unavailable_def ForStatus_def
  err_Internal_def Let_def

text \<open>A constructed error keeps its status, and only \<open>ForStatus\<close>'s are marked synthesised.\<close>

lemma err_status [simp]:
  "err_Status (err_NotFound s) = 404" "err_Status (BadRequest s m) = 400"
  "err_Status (InvalidParameter s n d) = 400" "err_Status (ContentTooLarge s) = 400"
  "err_Status (UnsupportedMediaType s) = 415" "err_Status (MethodNotAllowed s) = 405"
  "err_Status (TooBusy s r) = 429" "err_Status (Unavailable s m r) = 503"
  "err_Status (ForStatus s st d) = st" "err_Status (err_Internal s m) = 500"
  by (simp_all add: error_defs)

lemma err_not_synthesised [simp]:
  "\<not> err_synthesised (UnsupportedMediaType s)" "\<not> err_synthesised (ContentTooLarge s)"
  "\<not> err_synthesised (err_Internal s m)" "\<not> err_synthesised (Unavailable s m r)"
  "\<not> err_synthesised (BadRequest s m)" "err_synthesised (ForStatus s st d)"
  by (simp_all add: error_defs)

lemma ForStatus_code: "err_Code (ForStatus s n d) \<noteq> []"
  by (simp add: error_defs)

section \<open>Properties\<close>

text \<open>The response's shape and pacing: an error is rendered with a \<open>Retry-After\<close> only when one was
  requested and its status is one the SDKs may safely retry, so a 400 or 404 never carries one; the
  body is empty exactly for an unrouted path; and \<open>Content-Length\<close> is the length of the body.\<close>

theorem write_to_contract:
  "(rsp_retry_after (WriteTo e s) =
      (if err_RetryAfter e > 0 \<and> err_Status e \<in> {408, 429, 500, 502, 503, 504}
       then Some (err_RetryAfter e) else None))
   \<and> rsp_status (WriteTo e s) = err_Status e
   \<and> rsp_content_length (WriteTo e s) = int (length (rsp_body (WriteTo e s)))
   \<and> (rsp_body (WriteTo e s) = [] \<longleftrightarrow> err_bare e)
   \<and> (rsp_content_type (WriteTo e s) = None \<longleftrightarrow> err_bare e)"
proof -
  have "marshal (wire_body b) \<noteq> []" for b by (cases b) auto
  then show ?thesis by (auto simp: WriteTo_def retriable_def Let_def)
qed

end
