(* ===== verification/Jsonx.thy ===== *)
theory Jsonx
  imports Prelude
begin

text \<open>
  The byte-level scanner of \<open>internal/jsonx/jsonx.go\<close>, which finds where a member's value starts and
  ends without decoding it. A scanner is an absolute offset and the bytes not read yet; the only
  read error modelled is the end of the input. The second half specifies the texts it is run on
  and proves that the range it reports is the value's own.
\<close>

section \<open>The scanner\<close>

datatype scan_error = ScanEOF | ErrNotObject | NotAName char | NoColon char

definition maxNameBytes :: nat where
  "maxNameBytes = 4096"

definition quote :: char where "quote = CHR 0x22"
definition backslash :: char where "backslash = CHR 0x5C"

definition isSpace :: "char \<Rightarrow> bool" where
  "isSpace c \<longleftrightarrow> c = CHR '' '' \<or> c = CHR 0x09 \<or> c = CHR 0x0D \<or> c = CHR 0x0A"

definition scan_next :: "nat \<Rightarrow> string \<Rightarrow> scan_error + (char \<times> nat \<times> string)" where
  "scan_next off s = (case s of [] \<Rightarrow> Inl ScanEOF | c # r \<Rightarrow> Inr (c, off + 1, r))"

text \<open>\<open>unread\<close> pushes the byte \<open>next\<close> just returned back.\<close>

definition unread :: "char \<Rightarrow> nat \<Rightarrow> string \<Rightarrow> nat \<times> string" where
  "unread c off s = (off - 1, c # s)"

fun skipSpace :: "nat \<Rightarrow> string \<Rightarrow> scan_error + (char \<times> nat \<times> string)" where
  "skipSpace off [] = Inl ScanEOF"
| "skipSpace off (c # r) =
     (if isSpace c then skipSpace (off + 1) r
      else let (o', s') = unread c (off + 1) r in Inr (c, o', s'))"

text \<open>\<open>into = None\<close> is a nil slice: nothing is kept.\<close>

definition keep_name :: "string option \<Rightarrow> string \<Rightarrow> string option" where
  "keep_name into bs =
     (case into of
        None \<Rightarrow> None
      | Some n \<Rightarrow> if length n < maxNameBytes then Some (n @ bs) else Some n)"

fun scanString :: "string option \<Rightarrow> nat \<Rightarrow> string \<Rightarrow> scan_error + (string option \<times> nat \<times> string)" where
  "scanString into off [] = Inl ScanEOF"
| "scanString into off (c # r) =
     (if c = quote then Inr (into, off + 1, r)
      else if c = backslash then
        (case r of
           [] \<Rightarrow> Inl ScanEOF
         | e # r' \<Rightarrow> scanString (keep_name into [c, e]) (off + 2) r')
      else scanString (keep_name into [c]) (off + 1) r)"

lemma scanString_shorter:
  "scanString into off s = Inr (n, o', r) \<Longrightarrow> length r < length s \<and> off < o'"
  by (induction into off s rule: scanString.induct)
    (auto split: if_splits list.splits intro: less_SucI Suc_lessD)

definition is_open :: "char \<Rightarrow> bool" where "is_open b \<longleftrightarrow> b = CHR ''{'' \<or> b = CHR ''[''"
definition is_close :: "char \<Rightarrow> bool" where "is_close b \<longleftrightarrow> b = CHR ''}'' \<or> b = CHR '']''"

text \<open>The depth counter of \<open>skipValue\<close>, run from the opening bracket.\<close>

function skip_composite :: "int \<Rightarrow> nat \<Rightarrow> string \<Rightarrow> scan_error + (nat \<times> string)" where
  "skip_composite depth off s =
     (case s of
        [] \<Rightarrow> Inl ScanEOF
      | b # r \<Rightarrow>
          if is_open b then skip_composite (depth + 1) (off + 1) r
          else if is_close b then
            (if depth - 1 = 0 then Inr (off + 1, r) else skip_composite (depth - 1) (off + 1) r)
          else if b = quote then
            (case scanString None (off + 1) r of
               Inl e \<Rightarrow> Inl e
             | Inr (n, o', r') \<Rightarrow> skip_composite depth o' r')
          else skip_composite depth (off + 1) r)"
  by pat_completeness auto
termination
  by (relation "measure (\<lambda>(d, off, s). length s)") (auto dest: scanString_shorter)

declare skip_composite.simps [simp del]

fun skip_scalar :: "nat \<Rightarrow> string \<Rightarrow> nat \<times> string" where
  "skip_scalar off [] = (off, [])"
| "skip_scalar off (b # r) =
     (if b = CHR '','' \<or> b = CHR ''}'' \<or> b = CHR '']'' \<or> isSpace b then unread b (off + 1) r
      else skip_scalar (off + 1) r)"

definition skipValue :: "nat \<Rightarrow> string \<Rightarrow> scan_error + (nat \<times> string)" where
  "skipValue off s =
     (case skipSpace off s of
        Inl e \<Rightarrow> Inl e
      | Inr (c, o1, s1) \<Rightarrow>
          if c = quote then
            (case scan_next o1 s1 of
               Inl e \<Rightarrow> Inl e
             | Inr (c', o2, s2) \<Rightarrow>
                 (case scanString None o2 s2 of
                    Inl e \<Rightarrow> Inl e
                  | Inr (n, o3, s3) \<Rightarrow> Inr (o3, s3)))
          else if is_open c then skip_composite 0 o1 s1
          else Inr (skip_scalar o1 s1))"

lemma skipSpace_Inr:
  "skipSpace off s = Inr (c, o', s') \<Longrightarrow>
   \<exists>w. s = w @ s' \<and> list_all isSpace w \<and> o' = off + length w \<and> (\<exists>r. s' = c # r) \<and> \<not> isSpace c"
proof (induction off s rule: skipSpace.induct)
  case (2 off d r)
  show ?case
  proof (cases "isSpace d")
    case True
    with 2 obtain w where "r = w @ s'" "list_all isSpace w" "o' = off + 1 + length w"
      "\<exists>r. s' = c # r" "\<not> isSpace c" by (auto simp del: add_Suc)
    with True show ?thesis by (intro exI [of _ "d # w"]) simp
  next
    case False
    with 2 show ?thesis by (intro exI [of _ "[]"]) (auto simp: unread_def)
  qed
qed simp

lemma skipSpace_len: "skipSpace off s = Inr (c, o', s') \<Longrightarrow> length s' \<le> length s"
  by (auto dest!: skipSpace_Inr)

lemma skip_composite_len: "skip_composite d off s = Inr (o', r) \<Longrightarrow> length r < length s"
proof (induction d off s rule: skip_composite.induct)
  case (1 d off s)
  show ?case
  proof (cases s)
    case Nil
    with "1.prems" show ?thesis by (simp add: skip_composite.simps [of d off "[]"])
  next
    case (Cons b t)
    have eq: "skip_composite d off (b # t) =
        (if is_open b then skip_composite (d + 1) (off + 1) t
         else if is_close b then
           (if d - 1 = 0 then Inr (off + 1, t) else skip_composite (d - 1) (off + 1) t)
         else if b = quote then
           (case scanString None (off + 1) t of
              Inl e \<Rightarrow> Inl e | Inr (n, o', r') \<Rightarrow> skip_composite d o' r')
         else skip_composite d (off + 1) t)"
      by (subst skip_composite.simps) simp
    consider "is_open b" | "\<not> is_open b" "is_close b" | "\<not> is_open b" "\<not> is_close b" "b = quote"
      | "\<not> is_open b" "\<not> is_close b" "b \<noteq> quote" by blast
    then show ?thesis
    proof cases
      case 1
      with "1.IH"(1) [OF Cons] "1.prems" eq Cons show ?thesis by simp
    next
      case 2
      with "1.IH"(2) [OF Cons] "1.prems" eq Cons show ?thesis by (auto split: if_splits)
    next
      case 3
      with "1.prems" eq Cons obtain n o2 r2 where
        st: "scanString None (off + 1) t = Inr (n, o2, r2)" "skip_composite d o2 r2 = Inr (o', r)"
        by (auto split: sum.splits)
      with "1.IH"(3) [OF Cons 3 st(1) refl refl] scanString_shorter [OF st(1)] Cons show ?thesis by simp
    next
      case 4
      with "1.IH"(4) [OF Cons] "1.prems" eq Cons show ?thesis by simp
    qed
  qed
qed

lemma skip_scalar_len: "length (snd (skip_scalar off s)) \<le> length s"
  by (induction off s rule: skip_scalar.induct) (auto simp: unread_def)

lemma skipValue_len:
  assumes "skipValue off s = Inr (o', r)"
  shows "length r \<le> length s"
proof -
  from assms obtain c o1 s1 where sp: "skipSpace off s = Inr (c, o1, s1)"
    by (auto simp: skipValue_def split: sum.splits)
  consider (str) "c = quote" | (comp) "c \<noteq> quote" "is_open c" | (scal) "c \<noteq> quote" "\<not> is_open c" by blast
  then have "length r \<le> length s1"
  proof cases
    case str
    with assms sp obtain c' o2 s2 n where "scan_next o1 s1 = Inr (c', o2, s2)"
      "scanString None o2 s2 = Inr (n, o', r)" by (auto simp: skipValue_def split: sum.splits)
    then show ?thesis by (auto simp: scan_next_def split: list.splits dest: scanString_shorter)
  next
    case comp
    with assms sp show ?thesis by (auto simp: skipValue_def dest: skip_composite_len)
  next
    case scal
    with assms sp have "skip_scalar o1 s1 = (o', r)" by (simp add: skipValue_def)
    then show ?thesis using skip_scalar_len [of o1 s1] by simp
  qed
  with skipSpace_len [OF sp] show ?thesis by simp
qed

text \<open>
  The loop of \<open>MemberRange\<close>: the bytes after the opening brace, or after a member. \<open>None\<close> is
  \<open>found = false\<close>.
\<close>

function member_loop :: "string \<Rightarrow> nat \<Rightarrow> string \<Rightarrow> scan_error + (nat \<times> nat) option" where
  "member_loop key off s =
     (case skipSpace off s of
        Inl e \<Rightarrow> Inl e
      | Inr (c, o1, s1) \<Rightarrow>
          if c = CHR ''}'' then Inr None
          else if c = CHR '','' then member_loop key (o1 + 1) (tl s1)
          else if c \<noteq> quote then Inl (NotAName c)
          else
            (case scanString (Some []) (o1 + 1) (tl s1) of
               Inl e \<Rightarrow> Inl e
             | Inr (nm, o2, s2) \<Rightarrow>
                 (case skipSpace o2 s2 of
                    Inl e \<Rightarrow> Inl e
                  | Inr (c2, o3, s3) \<Rightarrow>
                      if c2 \<noteq> CHR '':'' then Inl (NoColon c2)
                      else
                        (case skipSpace (o3 + 1) (tl s3) of
                           Inl e \<Rightarrow> Inl e
                         | Inr (c4, valueStart, s4) \<Rightarrow>
                             (case skipValue valueStart s4 of
                                Inl e \<Rightarrow> Inl e
                              | Inr (valueEnd, s5) \<Rightarrow>
                                  if nm = Some key then Inr (Some (valueStart, valueEnd))
                                  else member_loop key valueEnd s5)))))"
  by pat_completeness auto
termination
proof (relation "measure (\<lambda>(key, off, s). length s)", goal_cases)
  case (2 key off s r c rest o1 s1)
  then show ?case by (auto dest!: skipSpace_Inr)
next
  case (3 key off s r c rest o1 s1 y nm z o2 s2 r2 c2 rest2 o3 s3 r3 c4 rest3 vs s4 r4 ve s5)
  then have "length s5 \<le> length s4" and "length s4 \<le> length (tl s3)" and "length s3 \<le> length s2"
    and "length s2 < length (tl s1)" and "length s1 \<le> length s"
    by (auto dest: skipValue_len skipSpace_len scanString_shorter)
  then show ?case by simp
qed simp

declare member_loop.simps [simp del]

definition MemberRange :: "string \<Rightarrow> string \<Rightarrow> scan_error + (nat \<times> nat) option" where
  "MemberRange s key =
     (case skipSpace 0 s of
        Inl e \<Rightarrow> Inl e
      | Inr (c, o1, s1) \<Rightarrow> if c \<noteq> CHR ''{'' then Inl ErrNotObject else member_loop key (o1 + 1) (tl s1))"

text \<open>\<open>io.NewSectionReader(ra, 0, size)\<close>: the first \<open>size\<close> bytes.\<close>

definition ValueRange :: "string \<Rightarrow> nat \<Rightarrow> string \<Rightarrow> scan_error + (nat \<times> nat) option" where
  "ValueRange ra sz key = MemberRange (take sz ra) key"

fun IsObject :: "string \<Rightarrow> bool" where
  "IsObject [] = False"
| "IsObject (c # lead) = (if isSpace c then IsObject lead else c = CHR ''{'')"

section \<open>The texts it reads\<close>

text \<open>
  The specification: the bytes between a string's quotes, the bytes between a composite's
  brackets, and the texts of a value. JSON's grammar is an instance of it: every JSON string,
  array, object, number and literal is a \<open>value_text\<close>.
\<close>

fun str_body :: "string \<Rightarrow> bool" where
  "str_body [] = True"
| "str_body (c # r) =
     (if c = quote then False
      else if c = backslash then (case r of [] \<Rightarrow> False | e # r' \<Rightarrow> str_body r')
      else str_body r)"

inductive inner :: "string \<Rightarrow> bool" where
  inner_Nil: "inner []"
| inner_char: "\<not> is_open c \<Longrightarrow> \<not> is_close c \<Longrightarrow> c \<noteq> quote \<Longrightarrow> inner s \<Longrightarrow> inner (c # s)"
| inner_str: "str_body b \<Longrightarrow> inner s \<Longrightarrow> inner (quote # b @ quote # s)"
| inner_comp: "is_open c \<Longrightarrow> inner a \<Longrightarrow> is_close d \<Longrightarrow> inner s \<Longrightarrow> inner (c # a @ d # s)"

definition ends_scalar :: "char \<Rightarrow> bool" where
  "ends_scalar b \<longleftrightarrow> b = CHR '','' \<or> b = CHR ''}'' \<or> b = CHR '']'' \<or> isSpace b"

inductive value_text :: "string \<Rightarrow> bool" where
  value_str: "str_body b \<Longrightarrow> value_text (quote # b @ [quote])"
| value_comp: "is_open c \<Longrightarrow> inner a \<Longrightarrow> is_close d \<Longrightarrow> value_text (c # a @ [d])"
| value_scalar: "c \<noteq> quote \<Longrightarrow> \<not> is_open c \<Longrightarrow> list_all (\<lambda>b. \<not> ends_scalar b) (c # s) \<Longrightarrow>
    value_text (c # s)"

text \<open>A member as written: its name between quotes, the value, and the white space around them.\<close>

record member_text =
  mt_w1 :: string
  mt_name :: string
  mt_w2 :: string
  mt_w3 :: string
  mt_value :: string
  mt_w4 :: string

definition member_ok :: "member_text \<Rightarrow> bool" where
  "member_ok m \<longleftrightarrow> list_all isSpace (mt_w1 m) \<and> list_all isSpace (mt_w2 m) \<and> list_all isSpace (mt_w3 m)
     \<and> list_all isSpace (mt_w4 m) \<and> str_body (mt_name m) \<and> value_text (mt_value m)"

definition member_lead :: "member_text \<Rightarrow> string" where
  "member_lead m = mt_w1 m @ quote # mt_name m @ quote # mt_w2 m @ '':'' @ mt_w3 m"

definition member_str :: "member_text \<Rightarrow> string" where
  "member_str m = member_lead m @ mt_value m @ mt_w4 m"

fun members_str :: "member_text list \<Rightarrow> string" where
  "members_str [] = []"
| "members_str [m] = member_str m"
| "members_str (m # n # ms) = member_str m @ '','' @ members_str (n # ms)"

section \<open>Scanning them\<close>

lemma skipSpace_ws: "list_all isSpace w \<Longrightarrow> \<not> isSpace c \<Longrightarrow>
   skipSpace off (w @ c # r) = Inr (c, off + length w, c # r)"
  by (induction w arbitrary: off) (auto simp: unread_def)

lemma quote_facts [simp]:
  "\<not> isSpace quote" "\<not> is_open quote" "\<not> is_close quote" "quote \<noteq> backslash"
  "\<not> isSpace (CHR '':'')" "\<not> isSpace (CHR '','')" "\<not> isSpace (CHR ''}'')" "\<not> isSpace (CHR ''{'')"
  "quote \<noteq> CHR ''}''" "quote \<noteq> CHR '',''" "quote \<noteq> CHR ''{''"
  by (simp_all add: quote_def backslash_def isSpace_def is_open_def is_close_def)

lemma scanString_none:
  "str_body b \<Longrightarrow> scanString None off (b @ quote # r) = Inr (None, off + length b + 1, r)"
proof (induction b arbitrary: off rule: str_body.induct)
  case (2 c b)
  then show ?case by (cases b) (auto simp: keep_name_def split: if_splits)
qed simp

lemma scanString_some:
  "str_body b \<Longrightarrow> \<exists>n. scanString (Some a) off (b @ quote # r) = Inr (Some n, off + length b + 1, r)
     \<and> (if length (a @ b) \<le> maxNameBytes then n = a @ b else maxNameBytes \<le> length n)"
proof (induction b arbitrary: a off rule: str_body.induct)
  case 1
  then show ?case by simp
next
  case (2 c b)
  show ?case
  proof (cases "c = backslash")
    case True
    with "2.prems" obtain e b' where b: "b = e # b'" "str_body b'" by (auto split: list.splits if_splits)
    show ?thesis
    proof (cases "length a < maxNameBytes")
      case len: True
      from "2.IH"(1) [OF _ True b(1) b(2), of "a @ [c, e]" "off + 2"] True b len "2.prems"
      show ?thesis by (auto simp: keep_name_def split: if_splits)
    next
      case len: False
      from "2.IH"(1) [OF _ True b(1) b(2), of a "off + 2"] True b len "2.prems"
      show ?thesis by (auto simp: keep_name_def split: if_splits)
    qed
  next
    case False
    with "2.prems" have c: "c \<noteq> quote" "str_body b" by (auto split: if_splits)
    show ?thesis
    proof (cases "length a < maxNameBytes")
      case len: True
      from "2.IH"(2) [OF c(1) False c(2), of "a @ [c]" "off + 1"] False c len
      show ?thesis by (auto simp: keep_name_def split: if_splits)
    next
      case len: False
      from "2.IH"(2) [OF c(1) False c(2), of a "off + 1"] False c len
      show ?thesis by (auto simp: keep_name_def split: if_splits)
    qed
  qed
qed

lemma skip_open: "is_open c \<Longrightarrow> skip_composite d off (c # s) = skip_composite (d + 1) (off + 1) s"
  by (subst skip_composite.simps) simp

lemma close_not_open: "is_close c \<Longrightarrow> \<not> is_open c"
  by (auto simp: is_close_def is_open_def)

lemma skip_close:
  "is_close c \<Longrightarrow> skip_composite d off (c # s) =
     (if d = 1 then Inr (off + 1, s) else skip_composite (d - 1) (off + 1) s)"
  using close_not_open [of c] by (subst skip_composite.simps) simp

lemma skip_char:
  "\<not> is_open c \<Longrightarrow> \<not> is_close c \<Longrightarrow> c \<noteq> quote \<Longrightarrow>
   skip_composite d off (c # s) = skip_composite d (off + 1) s"
  by (subst skip_composite.simps) simp

lemma skip_str:
  "str_body b \<Longrightarrow>
   skip_composite d off (quote # b @ quote # s) = skip_composite d (off + length b + 2) s"
  by (subst skip_composite.simps) (simp add: scanString_none)

lemma skip_composite_inner:
  "inner a \<Longrightarrow> 1 \<le> d \<Longrightarrow> skip_composite d off (a @ s) = skip_composite d (off + length a) s"
proof (induction a arbitrary: d off s rule: inner.induct)
  case inner_Nil
  then show ?case by simp
next
  case (inner_char c a)
  then show ?case by (simp add: skip_char)
next
  case (inner_str b a)
  from inner_str.IH [OF inner_str.prems, of "off + length b + 2" s] show ?case
    using inner_str.hyps skip_str [of b d off "a @ s"] by (simp add: add.commute add.left_commute)
next
  case (inner_comp c a e t)
  have "skip_composite d off ((c # a @ e # t) @ s) = skip_composite (d + 1) (off + 1) (a @ e # t @ s)"
    using inner_comp.hyps by (simp add: skip_open)
  also have "\<dots> = skip_composite (d + 1) (off + 1 + length a) (e # t @ s)"
    using inner_comp.IH(1) [of "d + 1" "off + 1" "e # t @ s"] inner_comp.prems by simp
  also have "\<dots> = skip_composite d (off + 1 + length a + 1) (t @ s)"
    using inner_comp.hyps inner_comp.prems by (subst skip_close) auto
  also have "\<dots> = skip_composite d (off + length (c # a @ e # t)) s"
    using inner_comp.IH(2) [OF inner_comp.prems, of "off + 1 + length a + 1" s]
    by (simp add: add.commute add.left_commute)
  finally show ?case .
qed

lemma skip_scalar_run:
  "list_all (\<lambda>b. \<not> ends_scalar b) v \<Longrightarrow> ends_scalar t \<Longrightarrow>
   skip_scalar off (v @ t # r) = (off + length v, t # r)"
  by (induction v arbitrary: off) (auto simp: ends_scalar_def unread_def)

lemma value_text_head: "value_text v \<Longrightarrow> \<exists>c r. v = c # r \<and> \<not> isSpace c"
proof (induction v rule: value_text.induct)
  case (value_comp c a d)
  then show ?case by (auto simp: is_open_def isSpace_def)
qed (auto simp: ends_scalar_def)

lemma skipValue_text:
  assumes "value_text v" and "ends_scalar t"
  shows "skipValue off (v @ t # r) = Inr (off + length v, t # r)"
proof -
  obtain c v' where v: "v = c # v'" "\<not> isSpace c" using value_text_head [OF assms(1)] by blast
  then have sp: "skipSpace off (v @ t # r) = Inr (c, off, v @ t # r)" by (simp add: unread_def)
  from assms(1) show ?thesis
  proof cases
    case (value_str b)
    with v have "c = quote" "v' = b @ [quote]" by auto
    with sp v value_str show ?thesis
      by (simp add: skipValue_def scan_next_def scanString_none)
  next
    case (value_comp c' a d)
    with v have c: "c = c'" "v' = a @ [d]" by auto
    then have "c \<noteq> quote" using value_comp by auto
    moreover have "skip_composite 0 off (v @ t # r) = Inr (off + length v, t # r)"
      using value_comp skip_composite_inner [of a 1 "off + 1" "d # t # r"]
      by (simp add: skip_open skip_close)
    ultimately show ?thesis using sp c value_comp by (simp add: skipValue_def)
  next
    case (value_scalar c' s)
    with v have "c = c'" by simp
    with sp value_scalar skip_scalar_run [of v t off r] assms(2) show ?thesis
      by (simp add: skipValue_def)
  qed
qed

lemma member_loop_member:
  assumes m: "member_ok m" and t: "t = CHR '','' \<or> t = CHR ''}''" and key: "length key < maxNameBytes"
  shows "member_loop key off (member_str m @ t # r) =
     (if mt_name m = key
      then Inr (Some (off + length (member_lead m), off + length (member_lead m) + length (mt_value m)))
      else member_loop key (off + length (member_lead m) + length (mt_value m)) (mt_w4 m @ t # r))"
proof -
  let ?tail = "mt_value m @ mt_w4 m @ t # r"
  let ?o1 = "off + length (mt_w1 m)"
  from m have ok: "list_all isSpace (mt_w1 m)" "list_all isSpace (mt_w2 m)" "list_all isSpace (mt_w3 m)"
    "list_all isSpace (mt_w4 m)" "str_body (mt_name m)" "value_text (mt_value m)"
    by (auto simp: member_ok_def)
  obtain c v where v: "mt_value m = c # v" "\<not> isSpace c" using value_text_head [OF ok(6)] by blast
  obtain n where n: "scanString (Some []) (?o1 + 1) (mt_name m @ quote # mt_w2 m @ '':'' @ mt_w3 m @ ?tail)
      = Inr (Some n, ?o1 + 1 + length (mt_name m) + 1, mt_w2 m @ '':'' @ mt_w3 m @ ?tail)"
    and nk: "if length ([] @ mt_name m) \<le> maxNameBytes then n = [] @ mt_name m else maxNameBytes \<le> length n"
    using scanString_some [OF ok(5), of "[]" "?o1 + 1" "mt_w2 m @ '':'' @ mt_w3 m @ ?tail"] by auto
  from nk key have name: "(n = key) = (mt_name m = key)" by (auto split: if_splits)
  have s1: "skipSpace off (member_str m @ t # r) = Inr (quote, ?o1,
      quote # mt_name m @ quote # mt_w2 m @ '':'' @ mt_w3 m @ ?tail)"
    using skipSpace_ws [OF ok(1), of quote off "mt_name m @ quote # mt_w2 m @ '':'' @ mt_w3 m @ ?tail"]
    by (simp add: member_str_def member_lead_def)
  have s2: "skipSpace o' (mt_w2 m @ '':'' @ mt_w3 m @ ?tail) =
      Inr (CHR '':'', o' + length (mt_w2 m), '':'' @ mt_w3 m @ ?tail)" for o'
    using skipSpace_ws [OF ok(2), of "CHR '':''" o' "mt_w3 m @ ?tail"] by simp
  have s3: "skipSpace o' (mt_w3 m @ ?tail) = Inr (c, o' + length (mt_w3 m), ?tail)" for o'
    using skipSpace_ws [OF ok(3) v(2), of o' "v @ mt_w4 m @ t # r"] v by simp
  have s4: "skipValue o' ?tail = Inr (o' + length (mt_value m), mt_w4 m @ t # r)" for o'
  proof (cases "mt_w4 m")
    case Nil
    then show ?thesis using skipValue_text [OF ok(6), of t o' r] t by (auto simp: ends_scalar_def)
  next
    case (Cons a w)
    then show ?thesis using skipValue_text [OF ok(6), of a o' "w @ t # r"] ok(4)
      by (auto simp: ends_scalar_def)
  qed
  show ?thesis
    by (subst member_loop.simps)
      (simp add: s1 n [simplified] s2 [simplified] s3 s4 name member_lead_def add.commute add.left_commute)
qed

lemma member_loop_comma:
  "list_all isSpace w \<Longrightarrow> member_loop key off (w @ '','' @ s) = member_loop key (off + length w + 1) s"
  using skipSpace_ws [of w "CHR '',''" off s] by (subst member_loop.simps) simp

lemma member_loop_end:
  "list_all isSpace w \<Longrightarrow> member_loop key off (w @ ''}'' @ s) = Inr None"
  using skipSpace_ws [of w "CHR ''}''" off s] by (subst member_loop.simps) simp

text \<open>
  An object as written, and where its first member named \<open>key\<close> has its value: the text up to the
  value, and the value.
\<close>

definition object_str :: "string \<Rightarrow> member_text list \<Rightarrow> string \<Rightarrow> string" where
  "object_str w0 ms rest = w0 @ ''{'' @ members_str ms @ ''}'' @ rest"

fun first_member :: "string \<Rightarrow> string \<Rightarrow> member_text list \<Rightarrow> (string \<times> string) option" where
  "first_member key pre [] = None"
| "first_member key pre (m # ms) =
     (if mt_name m = key then Some (pre @ member_lead m, mt_value m)
      else first_member key (pre @ member_str m @ '','') ms)"

definition range_of :: "(string \<times> string) option \<Rightarrow> (nat \<times> nat) option" where
  "range_of r = map_option (\<lambda>(p, v). (length p, length p + length v)) r"

lemma member_loop_members:
  "\<forall>m \<in> set ms. member_ok m \<Longrightarrow> length key < maxNameBytes \<Longrightarrow>
   member_loop key (length pre) (members_str ms @ ''}'' @ r) = Inr (range_of (first_member key pre ms))"
proof (induction ms arbitrary: pre rule: members_str.induct)
  case 1
  then show ?case using member_loop_end [of "[]" key "length pre" r] by (simp add: range_of_def)
next
  case (2 m)
  then have m: "member_ok m" "list_all isSpace (mt_w4 m)" by (auto simp: member_ok_def)
  show ?case
    using member_loop_member [OF m(1), of "CHR ''}''" key "length pre" r] 2(2)
      member_loop_end [OF m(2), of key "length pre + length (member_lead m) + length (mt_value m)" r]
    by (simp add: range_of_def)
next
  case (3 m n ms)
  then have m: "member_ok m" "list_all isSpace (mt_w4 m)" by (auto simp: member_ok_def)
  let ?rest = "members_str (n # ms) @ ''}'' @ r"
  let ?off = "length pre + length (member_lead m) + length (mt_value m)"
  have one: "member_loop key (length pre) (members_str (m # n # ms) @ ''}'' @ r) =
      (if mt_name m = key
       then Inr (Some (length pre + length (member_lead m),
                       length pre + length (member_lead m) + length (mt_value m)))
       else member_loop key ?off (mt_w4 m @ '','' @ ?rest))"
    using member_loop_member [OF m(1), of "CHR '',''" key "length pre" ?rest] 3(3) by simp
  have "member_loop key ?off (mt_w4 m @ '','' @ ?rest) =
      member_loop key (length (pre @ member_str m @ '','')) ?rest"
    using member_loop_comma [OF m(2), of key ?off ?rest] by (simp add: member_str_def add.commute add.left_commute)
  also have "\<dots> = Inr (range_of (first_member key (pre @ member_str m @ '','') (n # ms)))"
    using "3.IH" [of "pre @ member_str m @ '',''"] "3.prems" by fastforce
  finally show ?case using one by (simp add: range_of_def)
qed

lemma first_member_prefix:
  "first_member key pre ms = Some (p, v) \<Longrightarrow> \<exists>t. pre @ members_str ms = p @ v @ t"
proof (induction ms arbitrary: pre rule: members_str.induct)
  case (2 m)
  then show ?case by (auto simp: member_str_def split: if_splits)
next
  case (3 m n ms)
  show ?case
  proof (cases "mt_name m = key")
    case True
    with 3 show ?thesis by (auto simp: member_str_def)
  next
    case False
    with 3(1) [of "pre @ member_str m @ '',''"] 3(2) show ?thesis by auto
  qed
qed simp

section \<open>Offsets\<close>

text \<open>Every step keeps offset plus bytes left, so a reported range lies inside the input.\<close>

lemma skipSpace_sum: "skipSpace off s = Inr (c, o', s') \<Longrightarrow> o' + length s' = off + length s"
  by (auto dest!: skipSpace_Inr)

lemma scanString_sum: "scanString into off s = Inr (n, o', r) \<Longrightarrow> o' + length r = off + length s"
proof (induction into off s rule: scanString.induct)
  case (2 into off c s)
  consider "c = quote" | "c \<noteq> quote" "c = backslash" | "c \<noteq> quote" "c \<noteq> backslash" by blast
  then show ?case
  proof cases
    case 1
    with "2.prems" show ?thesis by simp
  next
    case 2
    with "2.prems" obtain e t where t: "s = e # t" by (auto split: list.splits)
    with 2 "2.prems" have "scanString (keep_name into [c, e]) (off + 2) t = Inr (n, o', r)" by simp
    with "2.IH"(1) [OF 2 t] t show ?thesis by simp
  next
    case 3
    with "2.prems" "2.IH"(2) [OF 3] show ?thesis by simp
  qed
qed simp

lemma skip_quote:
  "skip_composite d off (quote # t) =
     (case scanString None (off + 1) t of
        Inl e \<Rightarrow> Inl e | Inr (n, o', r') \<Rightarrow> skip_composite d o' r')"
  by (subst skip_composite.simps) simp

lemma skip_composite_sum:
  "skip_composite d off s = Inr (o', r) \<Longrightarrow> o' + length r = off + length s"
proof (induction d off s rule: skip_composite.induct)
  case (1 d off s)
  show ?case
  proof (cases s)
    case Nil
    with "1.prems" show ?thesis by (simp add: skip_composite.simps [of d off "[]"])
  next
    case (Cons b t)
    consider "is_open b" | "\<not> is_open b" "is_close b" | "\<not> is_open b" "\<not> is_close b" "b = quote"
      | "\<not> is_open b" "\<not> is_close b" "b \<noteq> quote" by blast
    then show ?thesis
    proof cases
      case 1
      with "1.IH"(1) [OF Cons] "1.prems" Cons show ?thesis by (simp add: skip_open)
    next
      case 2
      with "1.IH"(2) [OF Cons] "1.prems" Cons show ?thesis by (auto simp: skip_close split: if_splits)
    next
      case 3
      with "1.prems" Cons obtain n o2 r2 where
        st: "scanString None (off + 1) t = Inr (n, o2, r2)" "skip_composite d o2 r2 = Inr (o', r)"
        by (auto simp: skip_quote split: sum.splits)
      with "1.IH"(3) [OF Cons 3 st(1) refl refl] scanString_sum [OF st(1)] Cons show ?thesis by simp
    next
      case 4
      with "1.IH"(4) [OF Cons] "1.prems" Cons show ?thesis by (simp add: skip_char)
    qed
  qed
qed

lemma skip_scalar_sum: "skip_scalar off s = (o', r) \<Longrightarrow> o' + length r = off + length s"
  by (induction off s rule: skip_scalar.induct) (auto simp: unread_def split: if_splits)

lemma skipValue_sum:
  assumes "skipValue off s = Inr (o', r)"
  shows "o' + length r = off + length s"
proof -
  from assms obtain c o1 s1 where sp: "skipSpace off s = Inr (c, o1, s1)"
    by (auto simp: skipValue_def split: sum.splits)
  consider (str) "c = quote" | (comp) "c \<noteq> quote" "is_open c" | (scal) "c \<noteq> quote" "\<not> is_open c" by blast
  then have "o' + length r = o1 + length s1"
  proof cases
    case str
    with assms sp obtain c' o2 s2 n where "scan_next o1 s1 = Inr (c', o2, s2)"
      "scanString None o2 s2 = Inr (n, o', r)" by (auto simp: skipValue_def split: sum.splits)
    then show ?thesis by (auto simp: scan_next_def split: list.splits dest: scanString_sum)
  next
    case comp
    with assms sp show ?thesis by (auto simp: skipValue_def dest: skip_composite_sum)
  next
    case scal
    with assms sp have "skip_scalar o1 s1 = (o', r)" by (simp add: skipValue_def)
    then show ?thesis by (rule skip_scalar_sum)
  qed
  with skipSpace_sum [OF sp] show ?thesis by simp
qed

lemma member_loop_range:
  "member_loop key off s = Inr (Some (a, b)) \<Longrightarrow> off \<le> a \<and> a \<le> b \<and> b \<le> off + length s"
proof (induction key off s rule: member_loop.induct)
  case (1 key off s)
  from "1.prems" obtain c o1 s1 where sp: "skipSpace off s = Inr (c, o1, s1)" and c: "c \<noteq> CHR ''}''"
    by (subst (asm) member_loop.simps) (auto split: sum.splits if_splits)
  have s1: "o1 + length s1 = off + length s" "s1 \<noteq> []" "off \<le> o1"
    using skipSpace_sum [OF sp] skipSpace_Inr [OF sp] by auto
  then have tl: "o1 + 1 + length (tl s1) = off + length s" by (cases s1) auto
  show ?case
  proof (cases "c = CHR '',''")
    case True
    with "1.prems" sp have "member_loop key (o1 + 1) (tl s1) = Inr (Some (a, b))"
      by (subst (asm) member_loop.simps) simp
    with "1.IH"(1) [OF sp refl refl c True] have "o1 + 1 \<le> a \<and> a \<le> b \<and> b \<le> off + length s"
      using tl by metis
    with s1 show ?thesis by simp
  next
    case False
    with "1.prems" sp c have cq: "c = quote"
      by (subst (asm) member_loop.simps) (auto split: if_splits)
    with "1.prems" sp c False obtain nm o2 s2 c2 o3 s3 c4 vs s4 ve s5 where
      st: "scanString (Some []) (o1 + 1) (tl s1) = Inr (nm, o2, s2)" "skipSpace o2 s2 = Inr (c2, o3, s3)"
        "c2 = CHR '':''" "skipSpace (o3 + 1) (tl s3) = Inr (c4, vs, s4)" "skipValue vs s4 = Inr (ve, s5)"
        "(if nm = Some key then Inr (Some (vs, ve)) else member_loop key ve s5) = Inr (Some (a, b))"
      by (subst (asm) member_loop.simps) (auto split: sum.splits if_splits)
    have "o2 + length s2 = off + length s" using scanString_sum [OF st(1)] tl by simp
    moreover have "o3 + length s3 = o2 + length s2" "s3 \<noteq> []"
      using skipSpace_sum [OF st(2)] skipSpace_Inr [OF st(2)] by auto
    moreover have "vs + length s4 = o3 + 1 + length (tl s3)" "o3 + 1 \<le> vs"
      using skipSpace_sum [OF st(4)] skipSpace_Inr [OF st(4)] by auto
    moreover have "ve + length s5 = vs + length s4" "length s5 \<le> length s4"
      using skipValue_sum [OF st(5)] skipValue_len [OF st(5)] by auto
    moreover have "o2 \<le> o3" "o1 + 1 \<le> o2"
      using skipSpace_len [OF st(2)] skipSpace_sum [OF st(2)] scanString_shorter [OF st(1)] by auto
    moreover have "length (tl s3) = length s3 - 1" by simp
    ultimately have sums: "ve + length s5 = off + length s" "vs \<le> ve" "off \<le> vs"
      using s1 by (cases s3; simp)+
    show ?thesis
    proof (cases "nm = Some key")
      case True
      with st(6) sums show ?thesis by auto
    next
      case nk: False
      have "ve \<le> a \<and> a \<le> b \<and> b \<le> ve + length s5"
        using "1.IH"(2) [OF sp refl refl c False _ st(1) refl refl st(2) refl refl _ st(4) refl refl st(5) refl nk]
          cq st(3,6) nk by simp
      with sums show ?thesis by simp
    qed
  qed
qed

lemma MemberRange_range:
  assumes "MemberRange s key = Inr (Some (a, b))" shows "a \<le> b \<and> b \<le> length s"
proof -
  from assms obtain c o1 s1 where sp: "skipSpace 0 s = Inr (c, o1, s1)"
    and ml: "member_loop key (o1 + 1) (tl s1) = Inr (Some (a, b))"
    by (auto simp: MemberRange_def split: sum.splits if_splits)
  have "o1 + 1 + length (tl s1) = length s"
    using skipSpace_Inr [OF sp] by (cases s1) auto
  with member_loop_range [OF ml] show ?thesis by (metis add.commute le_trans)
qed

lemma ValueRange_range: "ValueRange s n key = Inr (Some (a, b)) \<Longrightarrow> a \<le> b \<and> b \<le> n \<and> b \<le> length s"
  using MemberRange_range [of "take n s" key a b] by (simp add: ValueRange_def)

section \<open>Properties\<close>

text \<open>\<open>MemberRange\<close> on an object as written, of any white space, members and nesting: it reports
  exactly the range of the value of the first member with that name, it says "not found" exactly
  when no member has it, and the range cuts the value out of the text. So the composed envelope is a
  range copy of the member and of nothing else.\<close>

theorem member_range_spec:
  assumes "list_all isSpace w0" and "\<forall>m \<in> set ms. member_ok m" and "length key < maxNameBytes"
  shows "MemberRange (object_str w0 ms rest) key = Inr (range_of (first_member key (w0 @ ''{'') ms))
    \<and> (first_member key (w0 @ ''{'') ms = Some (p, v) \<longrightarrow>
        take (length v) (drop (length p) (object_str w0 ms rest)) = v)"
proof -
  have "skipSpace 0 (object_str w0 ms rest) = Inr (CHR ''{'', length w0, ''{'' @ members_str ms @ ''}'' @ rest)"
    using skipSpace_ws [OF assms(1), of "CHR ''{''" 0] by (simp add: object_str_def)
  moreover have "member_loop key (length w0 + 1) (members_str ms @ ''}'' @ rest)
      = Inr (range_of (first_member key (w0 @ ''{'') ms))"
    using member_loop_members [OF assms(2,3), of "w0 @ ''{''" rest] by simp
  moreover have "\<exists>t. object_str w0 ms rest = p @ v @ t" if fm: "first_member key (w0 @ ''{'') ms = Some (p, v)"
  proof -
    obtain t where "(w0 @ ''{'') @ members_str ms = p @ v @ t" using first_member_prefix [OF fm] by blast
    then have "object_str w0 ms rest = p @ v @ t @ ''}'' @ rest" unfolding object_str_def by (metis append_assoc)
    then show ?thesis by blast
  qed
  ultimately show ?thesis by (auto simp: MemberRange_def)
qed

definition demo_members :: "member_text list" where
  "demo_members =
     [\<lparr>mt_w1 = [], mt_name = ''status'', mt_w2 = [], mt_w3 = '' '', mt_value = [quote] @ ''x,}'' @ [quote], mt_w4 = []\<rparr>,
      \<lparr>mt_w1 = '' '', mt_name = ''analyzeResult'', mt_w2 = [], mt_w3 = [],
       mt_value = ''{'' @ [quote] @ ''a]'' @ [quote] @ '':[1]}'', mt_w4 = '' ''\<rparr>]"

lemma demo_members_ok: "\<forall>m \<in> set demo_members. member_ok m"
proof -
  have "value_text (quote # ''x,}'' @ [quote])"
    by (rule value_text.value_str) (simp add: quote_def backslash_def)
  moreover have "inner ''1''"
    by (rule inner_char) (auto intro: inner_Nil simp: is_open_def is_close_def quote_def)
  then have "inner (CHR ''['' # ''1'' @ CHR '']'' # [])"
    by (intro inner_comp inner_Nil) (auto simp: is_open_def is_close_def)
  then have "inner (CHR '':'' # CHR ''['' # ''1'' @ CHR '']'' # [])"
    by (rule inner_char [rotated -1]) (auto simp: is_open_def is_close_def quote_def)
  then have "inner (quote # ''a]'' @ quote # CHR '':'' # CHR ''['' # ''1'' @ CHR '']'' # [])"
    by (intro inner_str) (simp_all add: quote_def backslash_def)
  then have "value_text (CHR ''{'' # (quote # ''a]'' @ quote # CHR '':'' # CHR ''['' # ''1'' @ CHR '']'' # []) @ [CHR ''}''])"
    by (intro value_text.value_comp) (auto simp: is_open_def is_close_def)
  ultimately show ?thesis
    by (simp add: demo_members_def member_ok_def isSpace_def quote_def backslash_def)
qed

lemma member_range_spec_witness:
  "MemberRange (object_str [] demo_members []) ''analyzeResult'' = Inr (Some (34, 44))"
proof -
  have "range_of (first_member ''analyzeResult'' ([] @ ''{'') demo_members) = Some (34, 44)"
    by (simp add: demo_members_def member_lead_def member_str_def range_of_def)
  then show ?thesis
    using member_range_spec [of "[]" demo_members "''analyzeResult''" "[]" "[]" "[]"] demo_members_ok
    by (simp add: maxNameBytes_def)
qed

end
