(* ===== verification/Upstream.thy ===== *)
theory Upstream
  imports Complex_Main Azerr Jsonx
begin

text \<open>
  The calls to the containers, \<open>internal/upstream\<close>: the route and request of one attempt
  (\<open>paths.go\<close>, \<open>attempt.go\<close>, \<open>client.go\<close>), its classification into the outcome table
  (\<open>classify.go\<close>), the answer's download and inspection (\<open>result.go\<close>) and the wait before the next
  attempt (\<open>retry.go\<close>). Scratch files are a map from paths to contents. What the network and the
  file system do in an attempt is an input: whether a request could be built, what came back, which
  contexts had ended when the code looked. \<open>json.Unmarshal\<close> into each shape and
  \<open>url.Values.Encode\<close> are arguments. Wall-clock fields (\<open>Took\<close>, \<open>UpstreamMS\<close>) are left out.
\<close>

section \<open>Errors and retry advice\<close>

fun as_url_error :: "go_error \<Rightarrow> go_error option option" where
  "as_url_error (Leaf m) = None"
| "as_url_error (UrlError u e) = Some e"
| "as_url_error (Wrapped m e) = as_url_error e"

definition transportCause :: "go_error \<Rightarrow> go_error" where
  "transportCause err = (case as_url_error err of Some (Some e) \<Rightarrow> e | _ \<Rightarrow> err)"

definition second :: int where "second = 1000000000"
definition maxRetryAfter :: int where "maxRetryAfter = 24 * 3600 * second"
definition firstBackoff :: int where "firstBackoff = 2 * second"
definition maxBackoff :: int where "maxBackoff = 60 * second"

definition retryAfterSeconds :: "string \<Rightarrow> int" where
  "retryAfterSeconds v =
     (if v = [] then 0
      else case atoi (go_trim_space v) of
        None \<Rightarrow> 0
      | Some n \<Rightarrow> if n < 0 then 0 else n)"

definition retryAfterDuration :: "string \<Rightarrow> int" where
  "retryAfterDuration v =
     (let n = retryAfterSeconds v in
      if n > go_div maxRetryAfter second then maxRetryAfter else n * second)"

text \<open>
  The doubling loop of \<open>Backoff\<close>, from \<open>n = 1\<close>; and the jitter, a float (\<open>None\<close> is NaN) read as a
  real: \<open>time.Duration(f)\<close> truncates, and the product's rounding to a float is not modelled.
\<close>

function backoff_loop :: "int \<Rightarrow> int \<Rightarrow> int \<Rightarrow> int" where
  "backoff_loop n attempt ceiling_ns =
     (if n < attempt \<and> ceiling_ns < maxBackoff then backoff_loop (n + 1) attempt (ceiling_ns * 2)
      else ceiling_ns)"
  by pat_completeness auto
termination by (relation "measure (\<lambda>(n, a, c). nat (a - n))") auto

declare backoff_loop.simps [simp del]

definition clamp_jitter :: "real option \<Rightarrow> real" where
  "clamp_jitter j =
     (case j of None \<Rightarrow> 0 | Some x \<Rightarrow> if \<not> x \<ge> 0 then 0 else if x > 1 then 1 else x)"

definition Backoff :: "int \<Rightarrow> int \<Rightarrow> real option \<Rightarrow> int" where
  "Backoff attempt retryAfter jitter =
     (if retryAfter > 0 then min retryAfter maxBackoff
      else let c = min (backoff_loop 1 attempt firstBackoff) maxBackoff
           in \<lfloor>real_of_int c * (1 / 2 + 1 / 2 * clamp_jitter jitter)\<rfloor>)"

section \<open>Routes\<close>

definition DIPathPrefix :: string where "DIPathPrefix = ''/documentintelligence''"
definition LegacyPathPrefix :: string where "LegacyPathPrefix = ''/formrecognizer''"
definition ReadPathPrefix :: string where "ReadPathPrefix = ''/vision/v3.2/read''"

definition path_prefix :: "string \<Rightarrow> string" where
  "path_prefix p = (if p = LegacyPathPrefix then LegacyPathPrefix else DIPathPrefix)"

text \<open>\<open>url.PathEscape\<close>: unreserved characters and \<open>$ & + = : @\<close> stay as they are.\<close>

definition path_safe :: "char \<Rightarrow> bool" where
  "path_safe c \<longleftrightarrow>
     (let n = (of_char c :: nat) in
        48 \<le> n \<and> n \<le> 57 \<or> 65 \<le> n \<and> n \<le> 90 \<or> 97 \<le> n \<and> n \<le> 122)
     \<or> c \<in> set ''-_.~$&+=:@''"

definition upper_hex :: "nat \<Rightarrow> char" where
  "upper_hex d = (if d < 10 then char_of (48 + d) else char_of (55 + d))"

definition percent :: "char \<Rightarrow> string" where
  "percent c = (let n = (of_char c :: nat) in [CHR ''%'', upper_hex (n div 16), upper_hex (n mod 16)])"

definition PathEscape :: "string \<Rightarrow> string" where
  "PathEscape s = concat (map (\<lambda>c. if path_safe c then [c] else percent c) s)"

definition escapeSegment :: "string \<Rightarrow> string" where
  "escapeSegment s = concat (map (\<lambda>c. if c = CHR '':'' then ''%3A'' else [c]) (PathEscape s))"

record call =
  cl_ModelID :: string
  cl_Prefix :: string
  cl_Query :: "(string \<times> string list) list"
  cl_ContentType :: string
  cl_Size :: int
  cl_Timeout :: int

definition route :: "surface \<Rightarrow> call \<Rightarrow> api_error + string" where
  "route srf c =
     (if srf = SurfaceRead then Inr (ReadPathPrefix @ ''/syncAnalyze'')
      else if cl_ModelID c = [] then Inl (BadRequest SurfaceDI ''A model id is required.'')
      else Inr (path_prefix (cl_Prefix c) @ ''/documentModels/'' @ escapeSegment (cl_ModelID c)
             @ '':syncAnalyze''))"

section \<open>The client and its requests\<close>

record base =
  b_name :: string
  b_baseURL :: string
  b_apiKey :: string
  b_timeout :: int
  b_surface :: surface
  b_maxBytes :: int

definition NewClient :: "surface \<Rightarrow> string \<Rightarrow> string \<Rightarrow> int \<Rightarrow> int \<Rightarrow> base" where
  "NewClient srf url key timeout maxResultBytes =
     \<lparr>b_name = (if srf = SurfaceRead then ''computer-vision-read'' else ''document-intelligence''),
      b_baseURL = rev (dropWhile (\<lambda>c. c = CHR ''/'') (rev url)), b_apiKey = key, b_timeout = timeout,
      b_surface = srf, b_maxBytes = maxResultBytes\<rparr>"

definition joinURL :: "((string \<times> string list) list \<Rightarrow> string) \<Rightarrow> base \<Rightarrow> string \<Rightarrow> (string \<times> string list) list \<Rightarrow> string" where
  "joinURL encode b path q =
     (let u = b_baseURL b @ path in if length q > 0 then u @ ''?'' @ encode q else u)"

record http_request =
  rq_method :: string
  rq_url :: string
  rq_body :: "string option"
  rq_content_length :: int
  rq_header :: "(string \<times> string) list"

text \<open>
  \<open>newRequest\<close>: the document, when there is one, is its content type, size, and what \<open>Open\<close>
  gives; \<open>built\<close> says whether \<open>http.NewRequestWithContext\<close> accepts the URL.
\<close>

record document =
  doc_ContentType :: string
  doc_Size :: int
  doc_Open :: "(go_error + string) option"

definition newRequest :: "(string \<Rightarrow> go_error option) \<Rightarrow> base \<Rightarrow> string \<Rightarrow> string \<Rightarrow> document option \<Rightarrow> go_error + http_request" where
  "newRequest built b method url doc =
     (case (case doc of None \<Rightarrow> Inr None
            | Some d \<Rightarrow> (case doc_Open d of
                          None \<Rightarrow> Inr None
                        | Some (Inl e) \<Rightarrow> Inl (Wrapped ''upstream: open document'' e)
                        | Some (Inr rc) \<Rightarrow> Inr (Some rc))) of
        Inl e \<Rightarrow> Inl e
      | Inr body \<Rightarrow>
          (case built url of
             Some e \<Rightarrow> Inl (Wrapped ''upstream: build request'' e)
           | None \<Rightarrow>
               Inr \<lparr>rq_method = method, rq_url = url, rq_body = body,
                 rq_content_length = (case doc of Some d \<Rightarrow> if doc_Size d > 0 then doc_Size d else 0 | None \<Rightarrow> 0),
                 rq_header =
                   (case doc of Some d \<Rightarrow> if doc_ContentType d \<noteq> [] then [(''Content-Type'', doc_ContentType d)] else []
                    | None \<Rightarrow> [])
                   @ (if b_apiKey b \<noteq> [] then [(''Ocp-Apim-Subscription-Key'', b_apiKey b)] else [])
                   @ [(''Accept'', ''application/json'')]\<rparr>))"

section \<open>Failing answers\<close>

definition maxErrorBody :: nat where "maxErrorBody = 65536"

definition genericError :: "base \<Rightarrow> int \<Rightarrow> api_error" where
  "genericError b status =
     (if status = 415 then UnsupportedMediaType (b_surface b)
      else if status = 413 then ContentTooLarge (b_surface b)
      else ForStatus (b_surface b) status
             (''The '' @ b_name b @ '' container returned HTTP '' @ itoa status @ ''.''))"

definition translate :: "base \<Rightarrow> api_error \<Rightarrow> int \<Rightarrow> api_error" where
  "translate b e status =
     (let out = (mk_error status (err_Code e) (err_Message e))
                  \<lparr>err_Target := err_Target e, err_Details := err_Details e, err_InnerCode := err_InnerCode e,
                   err_InnerMsg := err_InnerMsg e, err_RequestID := err_RequestID e\<rparr>;
          out = (if err_Message out = [] then out\<lparr>err_Message := CanonicalMessage (err_Code out)\<rparr> else out)
      in if err_Code out = [] then genericError b status else out)"

definition readErrorBody :: "(string \<Rightarrow> upstream_body option) \<Rightarrow> base \<Rightarrow> string \<Rightarrow> int \<Rightarrow> api_error" where
  "readErrorBody unmarshal b rbody status =
     (case ParseUpstream unmarshal (take maxErrorBody rbody) status of
        Some e \<Rightarrow> translate b e status
      | None \<Rightarrow> genericError b status)"

text \<open>
  \<open>strings.ToLower\<close>, as far as a search for lower-case ASCII can tell: besides A-Z only U+0130 and
  U+212A map to an ASCII letter.
\<close>

fun lower_ascii_view :: "string \<Rightarrow> string" where
  "lower_ascii_view (a # b # c # s) =
     (if a = CHR 0xC4 \<and> b = CHR 0xB0 then CHR ''i'' # lower_ascii_view (c # s)
      else if a = CHR 0xE2 \<and> b = CHR 0x84 \<and> c = CHR 0xAA then CHR ''k'' # lower_ascii_view s
      else ascii_lower a # lower_ascii_view (b # c # s))"
| "lower_ascii_view [a, b] =
     (if a = CHR 0xC4 \<and> b = CHR 0xB0 then ''i'' else [ascii_lower a, ascii_lower b])"
| "lower_ascii_view [a] = [ascii_lower a]"
| "lower_ascii_view [] = []"

definition missing_needles :: "string list" where
  "missing_needles = [''unhandledendpointexception'', ''no candidates found for the request path'',
     ''request did not match any endpoints'']"

definition looksLikeMissingEndpoint :: "api_error \<Rightarrow> bool" where
  "looksLikeMissingEndpoint e =
     (let hay = lower_ascii_view
        (err_Code e @ '' '' @ err_Message e @ '' '' @ err_InnerCode e @ '' '' @ err_InnerMsg e)
      in list_ex (\<lambda>needle. go_contains needle hay) missing_needles)"

definition routeMissing :: "int \<Rightarrow> api_error \<Rightarrow> bool" where
  "routeMissing status e =
     (if status = 404 \<or> status = 405 \<or> status = 501
      then Synthesised (Some e) \<or> looksLikeMissingEndpoint e
      else if status = 500 then looksLikeMissingEndpoint e
      else False)"

section \<open>Downloading and inspecting a result\<close>

type_synonym files = "string \<Rightarrow> string option"

text \<open>
  One download: what \<open>os.CreateTemp\<close> gives, the bytes the body yields, the error \<open>io.Copy\<close>
  returned, the error \<open>bodyReadError\<close> remembered, and whether the sync failed.
\<close>

record transfer =
  tr_create_err :: "go_error option"
  tr_path :: string
  tr_body :: string
  tr_copy_err :: "go_error option"
  tr_read_err :: "go_error option"
  tr_sync_err :: "go_error option"

datatype dl_error = ErrResultTooLarge | DlFailed go_error

definition resultLimit :: "base \<Rightarrow> int" where
  "resultLimit b = (if b_maxBytes b \<le> 0 then 512 * 2 ^ 20 else b_maxBytes b)"

definition downloadBody :: "base \<Rightarrow> transfer \<Rightarrow> files \<Rightarrow> (dl_error + (string \<times> nat)) \<times> files" where
  "downloadBody b t fs =
     (case tr_create_err t of
        Some e \<Rightarrow> (Inl (DlFailed e), fs)
      | None \<Rightarrow>
          (let lim = nat (resultLimit b);
               copied = take (lim + 1) (tr_body t);
               fs1 = fs(tr_path t \<mapsto> copied);
               removed = fs1(tr_path t := None)
           in case tr_copy_err t of
                Some e \<Rightarrow> (Inl (DlFailed (Wrapped ''upstream: read response body'' e)), removed)
              | None \<Rightarrow>
                  if length copied > lim then (Inl ErrResultTooLarge, removed)
                  else (case tr_sync_err t of
                          Some e \<Rightarrow> (Inl (DlFailed (Wrapped ''upstream: sync response body'' e)), removed)
                        | None \<Rightarrow> (Inr (tr_path t, length copied), fs1))))"

text \<open>\<open>json.Unmarshal\<close> into the shapes the package reads.\<close>

record decoders =
  d_body :: "string \<Rightarrow> upstream_body option"
  d_string :: "string \<Rightarrow> string option"
  d_error :: "string \<Rightarrow> az_error option"
  d_errors :: "string \<Rightarrow> (string \<times> string) list option"

record operation_view =
  v_Status :: string
  v_Start :: nat
  v_End :: nat
  v_HasResult :: bool
  v_Bare :: bool
  v_Err :: "api_error option"

definition isFailed :: "string \<Rightarrow> bool" where
  "isFailed s = equal_fold s ''failed''"

definition slice :: "string \<Rightarrow> nat \<Rightarrow> nat \<Rightarrow> string" where
  "slice s a b = take (b - a) (drop a s)"

fun scan_go :: "scan_error \<Rightarrow> go_error" where
  "scan_go ScanEOF = Leaf ''EOF''"
| "scan_go ErrNotObject = Leaf ''jsonx: top-level value is not an object''"
| "scan_go (NotAName c) = Leaf (''jsonx: expected a member name, found '' @ [c])"
| "scan_go (NoColon c) = Leaf (''jsonx: expected a colon after a member name, found '' @ [c])"

definition firstResultError :: "decoders \<Rightarrow> string \<Rightarrow> api_error option" where
  "firstResultError d section =
     (case ValueRange section (length section) ''errors'' of
        Inr (Some (a, b)) \<Rightarrow>
          if b - a > 2 ^ 20 then None
          else (case d_errors d (slice section a b) of
                  Some ((c, m) # _) \<Rightarrow> if c = [] then None else Some (mk_error 500 c m)
                | _ \<Rightarrow> None)
      | _ \<Rightarrow> None)"

text \<open>The two members \<open>inspectOperation\<close> reads: the status, and where the result is.\<close>

definition read_status :: "decoders \<Rightarrow> string \<Rightarrow> nat \<Rightarrow> go_error + string" where
  "read_status d content sz =
     (case ValueRange content sz ''status'' of
        Inl e \<Rightarrow> Inl (Wrapped ''upstream: scan response'' (scan_go e))
      | Inr None \<Rightarrow> Inr []
      | Inr (Some (a, b)) \<Rightarrow>
          if b - a > 1024 then
            Inl (Leaf (''upstream: status member is '' @ itoa (int (b - a)) @ '' bytes, which is not a status''))
          else (let raw = slice content a b in
                Inr (case d_string d raw of
                       Some s \<Rightarrow> s
                     | None \<Rightarrow> go_trim (\<lambda>c. c = quote \<or> c = CHR '' '') raw)))"

definition read_result :: "string \<Rightarrow> nat \<Rightarrow> string \<Rightarrow> go_error + operation_view" where
  "read_result content sz status =
     (let v = \<lparr>v_Status = status, v_Start = 0, v_End = 0, v_HasResult = False, v_Bare = False, v_Err = None\<rparr>
      in case ValueRange content sz ''analyzeResult'' of
           Inl e \<Rightarrow> Inl (Wrapped ''upstream: scan analyzeResult'' (scan_go e))
         | Inr (Some (a, b)) \<Rightarrow> Inr (v\<lparr>v_Start := a, v_End := b, v_HasResult := True\<rparr>)
         | Inr None \<Rightarrow>
             if status = [] \<and> IsObject (take (min 64 sz) content)
             then Inr (v\<lparr>v_Start := 0, v_End := sz, v_HasResult := True, v_Bare := True, v_Status := ''succeeded''\<rparr>)
             else Inr v)"

text \<open>The detail of a failed operation: its own error member, else the first of the result's errors,
  else a generic one.\<close>

definition own_detail :: "decoders \<Rightarrow> string \<Rightarrow> nat \<Rightarrow> api_error option" where
  "own_detail d content sz =
     (case ValueRange content sz ''error'' of
        Inr (Some (a, b)) \<Rightarrow>
          if b - a \<le> maxErrorBody then
            (case d_error d (slice content a b) of
               Some (AzError c m t ds i) \<Rightarrow>
                 if c \<noteq> [] then
                   (let e = (mk_error 500 c m)\<lparr>err_Target := t, err_Details := ds\<rparr>
                    in Some (case i of
                               None \<Rightarrow> e
                             | Some j \<Rightarrow> e\<lparr>err_InnerCode := in_Code j, err_InnerMsg := in_Message j\<rparr>))
                 else None
             | None \<Rightarrow> None)
          else None
      | _ \<Rightarrow> None)"

definition failure_detail :: "decoders \<Rightarrow> string \<Rightarrow> nat \<Rightarrow> surface \<Rightarrow> operation_view \<Rightarrow> api_error" where
  "failure_detail d content sz srf v =
     (case (case own_detail d content sz of
              Some e \<Rightarrow> Some e
            | None \<Rightarrow> if v_HasResult v then firstResultError d (slice content (v_Start v) (v_End v))
                      else None) of
        Some e \<Rightarrow> e
      | None \<Rightarrow> err_Internal srf ''The upstream container reported the analysis as failed.'')"

definition inspectOperation :: "decoders \<Rightarrow> go_error option \<Rightarrow> string \<Rightarrow> nat \<Rightarrow> surface \<Rightarrow> go_error + operation_view" where
  "inspectOperation d reopen_err content sz srf =
     (case reopen_err of
        Some e \<Rightarrow> Inl (Wrapped ''upstream: reopen response'' e)
      | None \<Rightarrow>
          (case read_status d content sz of
             Inl e \<Rightarrow> Inl e
           | Inr st \<Rightarrow>
               (case read_result content sz st of
                  Inl e \<Rightarrow> Inl e
                | Inr v \<Rightarrow>
                    Inr (if isFailed (v_Status v) then v\<lparr>v_Err := Some (failure_detail d content sz srf v)\<rparr>
                         else v))))"

section \<open>Outcomes\<close>

datatype outcome = Success | Cancelled | AnalysisFailed | RouteMissing | RetryOnce | Retry | Terminal

fun Outcome_String :: "outcome \<Rightarrow> string" where
  "Outcome_String Success = ''success''"
| "Outcome_String Cancelled = ''cancelled''"
| "Outcome_String AnalysisFailed = ''analysis_failed''"
| "Outcome_String RouteMissing = ''route_missing''"
| "Outcome_String RetryOnce = ''retry_once''"
| "Outcome_String Retry = ''retry''"
| "Outcome_String Terminal = ''terminal''"

record result =
  res_Path :: string
  res_Start :: nat
  res_End :: nat
  res_Bare :: bool
  res_Status :: int

record attempt =
  at_Outcome :: outcome
  at_Result :: "result option"
  at_Err :: "api_error option"
  at_Reason :: string
  at_Status :: int
  at_RetryAfter :: int
  at_Cause :: "go_error option"

definition attempt0 :: "outcome \<Rightarrow> attempt" where
  "attempt0 oc = \<lparr>at_Outcome = oc, at_Result = None, at_Err = None, at_Reason = [], at_Status = 0,
     at_RetryAfter = 0, at_Cause = None\<rparr>"

definition Size :: "result \<Rightarrow> int" where
  "Size r = int (res_End r) - int (res_Start r)"

definition Cleanup :: "result option \<Rightarrow> files \<Rightarrow> result option \<times> files" where
  "Cleanup r fs =
     (case r of
        None \<Rightarrow> (None, fs)
      | Some x \<Rightarrow> if res_Path x = [] then (r, fs)
                  else (Some (x\<lparr>res_Path := []\<rparr>), fs(res_Path x := None)))"

definition statusReason :: "int \<Rightarrow> string" where
  "statusReason status = ''status_'' @ itoa status"

section \<open>Classification\<close>

definition cancelled :: "go_error \<Rightarrow> int \<Rightarrow> attempt" where
  "cancelled cause status =
     (attempt0 Cancelled)\<lparr>at_Reason := ''cancelled'', at_Status := status, at_Cause := Some cause\<rparr>"

definition gatewayFailure :: "base \<Rightarrow> go_error \<Rightarrow> int \<Rightarrow> attempt" where
  "gatewayFailure b err status =
     (attempt0 Terminal)\<lparr>at_Reason := ''gateway'', at_Status := status, at_Cause := Some err,
       at_Err := Some (err_Internal (b_surface b) [])\<rparr>"

definition noResult :: "base \<Rightarrow> go_error option \<Rightarrow> attempt" where
  "noResult b cause =
     (attempt0 Terminal)\<lparr>at_Reason := ''no_result'', at_Status := 200, at_Cause := cause,
       at_Err := Some (err_Internal (b_surface b)
         (''The '' @ b_name b @ '' container returned a synchronous response with no analyzeResult.''))\<rparr>"

definition ResultTooLarge :: "base \<Rightarrow> api_error" where
  "ResultTooLarge b = err_Internal (b_surface b)
     (''The '' @ b_name b @ '' container'' @ [CHR 0x27] @ ''s result is larger than this gateway accepts.'')"

text \<open>Rows 1, 5 and 6: only the two contexts' errors say which one a broken call was.\<close>

definition transportFailure :: "base \<Rightarrow> go_error option \<Rightarrow> go_error option \<Rightarrow> go_error \<Rightarrow> attempt" where
  "transportFailure b ctx_err actx_err err =
     (case ctx_err of
        Some e \<Rightarrow> cancelled e 0
      | None \<Rightarrow>
          if actx_err \<noteq> None then
            (attempt0 RetryOnce)\<lparr>at_Reason := ''timeout'', at_Cause := Some (transportCause err),
              at_Err := Some (err_Internal (b_surface b)
                (''The '' @ b_name b @ '' container did not complete the analysis within the configured timeout.''))\<rparr>
          else
            (attempt0 Retry)\<lparr>at_Reason := ''connection'', at_Cause := Some (transportCause err),
              at_Err := Some (err_Internal (b_surface b)
                (''The '' @ b_name b @ '' container is unreachable.''))\<rparr>)"

text \<open>An answer, and the contexts' errors at the time its reading is judged.\<close>

record reply =
  rp_status :: int
  rp_retry_after :: string
  rp_transfer :: transfer
  rp_reopen_err :: "go_error option"
  rp_ctx_err :: "go_error option"
  rp_actx_err :: "go_error option"

text \<open>\<open>body.err\<close>: nothing is read when the scratch file could not be made.\<close>

definition body_err :: "transfer \<Rightarrow> go_error option" where
  "body_err t = (if tr_create_err t = None then tr_read_err t else None)"

definition readResult :: "decoders \<Rightarrow> base \<Rightarrow> reply \<Rightarrow> files \<Rightarrow> attempt \<times> files" where
  "readResult d b rp fs =
     (let t = rp_transfer rp in
      case downloadBody b t fs of
        (Inl e, fs') \<Rightarrow>
          (case body_err t of
             Some re \<Rightarrow> transportFailure b (rp_ctx_err rp) (rp_actx_err rp) re
           | None \<Rightarrow>
               (case e of
                  ErrResultTooLarge \<Rightarrow>
                    (attempt0 Terminal)\<lparr>at_Reason := ''too_large'', at_Status := rp_status rp,
                      at_Cause := Some (Leaf ''upstream: response exceeds the configured maximum''),
                      at_Err := Some (ResultTooLarge b)\<rparr>
                | DlFailed g \<Rightarrow> gatewayFailure b g (rp_status rp)), fs')
      | (Inr (path, n), fs') \<Rightarrow>
          (case inspectOperation d (rp_reopen_err rp) (the (fs' path)) n (b_surface b) of
             Inl e \<Rightarrow> (noResult b (Some e), fs'(path := None))
           | Inr v \<Rightarrow>
               if isFailed (v_Status v) then
                 ((attempt0 AnalysisFailed)\<lparr>at_Reason := ''analysis_failed'', at_Status := rp_status rp,
                    at_Err := v_Err v\<rparr>, fs'(path := None))
               else if v_HasResult v then
                 ((attempt0 Success)\<lparr>at_Status := rp_status rp,
                    at_Result := Some \<lparr>res_Path = path, res_Start = v_Start v, res_End = v_End v,
                                  res_Bare = v_Bare v, res_Status = rp_status rp\<rparr>\<rparr>, fs')
               else (noResult b None, fs'(path := None))))"

text \<open>The switch of \<open>classify\<close> over a failing status: its outcome, and whether the pause is kept.\<close>

definition classify :: "decoders \<Rightarrow> base \<Rightarrow> reply \<Rightarrow> files \<Rightarrow> attempt \<times> files" where
  "classify d b rp fs =
     (let status = rp_status rp in
      if status = 200 then readResult d b rp fs
      else if status = 202 then
        ((attempt0 Retry)\<lparr>at_Reason := ''degraded_202'', at_Status := status,
           at_Err := Some (Unavailable (b_surface b)
             (''The '' @ b_name b @ '' container degraded to an asynchronous operation, which this gateway does not follow.'') 0)\<rparr>, fs)
      else
        (let retryAfter = retryAfterDuration (rp_retry_after rp);
             e = readErrorBody (d_body d) b (tr_body (rp_transfer rp)) status;
             a = (attempt0 Terminal)\<lparr>at_Status := status, at_Reason := statusReason status, at_Err := Some e\<rparr>
         in (if routeMissing status e then
               a\<lparr>at_Outcome := RouteMissing,
                 at_Err := Some (err_Internal (b_surface b)
                   (''The '' @ b_name b @ '' container does not serve the synchronous analyze route.''))\<rparr>
             else if status = 500 \<or> status = 504 then
               a\<lparr>at_Outcome := RetryOnce, at_RetryAfter := retryAfter\<rparr>
             else if status = 408 \<or> status = 429 \<or> status = 502 \<or> status = 503 then
               a\<lparr>at_Outcome := Retry, at_RetryAfter := retryAfter\<rparr>
             else if status < 400 then
               a\<lparr>at_Err := Some (err_Internal (b_surface b)
                   (''The '' @ b_name b @ '' container answered HTTP '' @ itoa status
                    @ '', which is not an analysis result.''))\<rparr>
             else a, fs)))"

text \<open>
  What one attempt met: the request that could not be built, the call that got no answer (with the
  contexts' errors then), or an answer; and the caller's context at the end of \<open>Do\<close>.
\<close>

datatype wire_event =
  NotBuilt go_error
| NoAnswer go_error "go_error option" "go_error option"
| Answer reply

definition client_attempt :: "decoders \<Rightarrow> base \<Rightarrow> call \<Rightarrow> wire_event \<Rightarrow> files \<Rightarrow> attempt \<times> files" where
  "client_attempt d b c w fs =
     (case route (b_surface b) c of
        Inl e \<Rightarrow> ((attempt0 Terminal)\<lparr>at_Reason := ''gateway'', at_Err := Some e\<rparr>, fs)
      | Inr path \<Rightarrow>
          (case w of
             NotBuilt e \<Rightarrow> (gatewayFailure b e 0, fs)
           | NoAnswer e ctx actx \<Rightarrow> (transportFailure b ctx actx e, fs)
           | Answer rp \<Rightarrow> classify d b rp fs))"

definition Do :: "decoders \<Rightarrow> base \<Rightarrow> call \<Rightarrow> wire_event \<Rightarrow> go_error option \<Rightarrow> files \<Rightarrow> attempt \<times> files" where
  "Do d b c w ctx_end fs =
     (case client_attempt d b c w fs of
        (a, fs1) \<Rightarrow>
          (case ctx_end of
             Some e \<Rightarrow>
               if at_Outcome a \<noteq> Cancelled
               then (cancelled e (at_Status a), snd (Cleanup (at_Result a) fs1))
               else (a, fs1)
           | None \<Rightarrow> (a, fs1)))"

text \<open>The deadline an attempt runs under: its own, or the surface's; \<open>None\<close> is no deadline.\<close>

definition attempt_timeout :: "base \<Rightarrow> call \<Rightarrow> int option" where
  "attempt_timeout b c =
     (let t = (if cl_Timeout c \<le> 0 then b_timeout b else cl_Timeout c) in if t > 0 then Some t else None)"

section \<open>Lemmas\<close>

lemma attempt0_simps [simp]:
  "at_Outcome (attempt0 oc) = oc" "at_Result (attempt0 oc) = None" "at_Err (attempt0 oc) = None"
  "at_RetryAfter (attempt0 oc) = 0"
  by (simp_all add: attempt0_def)

lemmas failure_defs = cancelled_def gatewayFailure_def noResult_def

lemma genericError_status: "400 \<le> status \<Longrightarrow> 400 \<le> err_Status (genericError b status)"
  by (simp add: genericError_def)

lemma translate_status: "400 \<le> status \<Longrightarrow> 400 \<le> err_Status (translate b e status)"
  by (simp add: translate_def Let_def genericError_status mk_error_def api_error0_def)

lemma readErrorBody_status: "400 \<le> status \<Longrightarrow> 400 \<le> err_Status (readErrorBody u b body status)"
  by (simp add: readErrorBody_def translate_status genericError_status split: option.split)

lemma mk_error_status [simp]: "err_Status (mk_error s c m) = s"
  by (simp add: mk_error_def)

lemma firstResultError_status: "firstResultError d sec = Some e \<Longrightarrow> err_Status e = 500"
  by (auto simp: firstResultError_def split: sum.splits option.splits list.splits if_splits)

lemma failure_detail_status: "err_Status (failure_detail d content sz srf v) = 500"
proof -
  have own: "x = None \<or> (\<exists>e. x = Some e \<and> err_Status e = 500)"
    if "x = own_detail d content sz" for x
    using that by (auto simp: own_detail_def Let_def split: sum.splits option.splits az_error.splits)
  show ?thesis
  proof (cases "own_detail d content sz")
    case None
    then show ?thesis
      by (cases "v_HasResult v"; cases "firstResultError d (slice content (v_Start v) (v_End v))")
        (simp_all add: failure_detail_def firstResultError_status)
  next
    case (Some e)
    with own [OF refl] show ?thesis by (simp add: failure_detail_def)
  qed
qed

text \<open>What every attempt keeps: the fields its outcome promises its caller.\<close>

definition attempt_ok :: "attempt \<Rightarrow> bool" where
  "attempt_ok a \<longleftrightarrow>
     (at_Outcome a = Success \<longleftrightarrow> at_Result a \<noteq> None)
     \<and> (at_Outcome a \<in> {Success, Cancelled} \<longrightarrow> at_Err a = None)
     \<and> (at_Outcome a \<notin> {Success, Cancelled} \<longrightarrow> (\<exists>e. at_Err a = Some e \<and> 400 \<le> err_Status e))
     \<and> (at_RetryAfter a \<noteq> 0 \<longrightarrow> at_Outcome a \<in> {Retry, RetryOnce})"

lemma failures_ok [simp]:
  "attempt_ok (cancelled e n)" "attempt_ok (gatewayFailure b g n)" "attempt_ok (noResult b c)"
  "attempt_ok (transportFailure b ctx actx err)"
  by (auto simp: attempt_ok_def failure_defs transportFailure_def split: option.split)

lemma inspect_failed_err:
  "inspectOperation d re content n srf = Inr v \<Longrightarrow> isFailed (v_Status v) \<Longrightarrow>
   \<exists>e. v_Err v = Some e \<and> err_Status e = 500"
  by (auto simp: inspectOperation_def failure_detail_status split: option.splits sum.splits if_splits)

lemma inspect_range:
  assumes "inspectOperation d re content n srf = Inr v" and "v_HasResult v" and "n = length content"
  shows "v_Start v \<le> v_End v \<and> v_End v \<le> length content"
proof -
  from assms(1) obtain st w where "read_result content n st = Inr w"
    and "v_Start v = v_Start w" "v_End v = v_End w" "v_HasResult w = v_HasResult v"
    by (auto simp: inspectOperation_def split: option.splits sum.splits if_splits)
  with assms(2,3) show ?thesis
    by (auto simp: read_result_def Let_def split: sum.splits option.splits if_splits dest!: ValueRange_range)
qed

lemma readResult_ok: "attempt_ok (fst (readResult d b rp fs))"
proof (cases "downloadBody b (rp_transfer rp) fs")
  case (Pair r fs')
  show ?thesis
  proof (cases r)
    case (Inl e)
    then show ?thesis
      by (cases e; cases "body_err (rp_transfer rp)")
        (simp_all add: readResult_def Pair, simp_all add: attempt_ok_def ResultTooLarge_def)
  next
    case (Inr pn)
    obtain path n where pn: "pn = (path, n)" by (cases pn)
    show ?thesis
    proof (cases "inspectOperation d (rp_reopen_err rp) (the (fs' path)) n (b_surface b)")
      case (Inl e)
      with Inr pn Pair show ?thesis by (simp add: readResult_def)
    next
      case ins: (Inr v)
      show ?thesis
      proof (cases "isFailed (v_Status v)")
        case True
        with inspect_failed_err [OF ins] obtain e where "v_Err v = Some e" "err_Status e = 500" by blast
        with True Inr pn Pair ins show ?thesis by (simp add: readResult_def attempt_ok_def)
      next
        case False
        with Inr pn Pair ins show ?thesis by (simp add: readResult_def attempt_ok_def noResult_def)
      qed
    qed
  qed
qed

lemma classify_ok: "attempt_ok (fst (classify d b rp fs))"
proof -
  consider "rp_status rp = 200" | "rp_status rp = 202" | "rp_status rp \<notin> {200, 202}" by blast
  then show ?thesis
  proof cases
    case 1
    then show ?thesis by (simp add: classify_def readResult_ok)
  next
    case 2
    then show ?thesis by (simp add: classify_def attempt_ok_def)
  next
    case 3
    show ?thesis
    proof (cases "rp_status rp < 400")
      case True
      then have "\<not> routeMissing (rp_status rp) e" for e by (simp add: routeMissing_def)
      with 3 True show ?thesis by (simp add: classify_def attempt_ok_def Let_def)
    next
      case False
      then have "400 \<le> err_Status (readErrorBody (d_body d) b (tr_body (rp_transfer rp)) (rp_status rp))"
        by (simp add: readErrorBody_status)
      with 3 False show ?thesis by (auto simp: classify_def attempt_ok_def Let_def)
    qed
  qed
qed

lemma route_error_status: "route srf c = Inl e \<Longrightarrow> err_Status e = 400"
  by (auto simp: route_def split: if_splits)

lemma client_attempt_ok: "attempt_ok (fst (client_attempt d b c w fs))"
proof (cases "route (b_surface b) c")
  case (Inl e)
  with route_error_status [OF Inl] show ?thesis by (simp add: client_attempt_def attempt_ok_def)
next
  case (Inr path)
  then show ?thesis by (cases w) (simp_all add: client_attempt_def classify_ok)
qed

lemma Do_ok: "attempt_ok (fst (Do d b c w ctx fs))"
proof (cases "client_attempt d b c w fs")
  case (Pair a fs1)
  with client_attempt_ok [of d b c w fs] show ?thesis by (auto simp: Do_def split: option.split)
qed

section \<open>Scratch files\<close>

text \<open>\<open>os.CreateTemp\<close> makes a file that was not there, under a non-empty name.\<close>

fun fresh_path :: "wire_event \<Rightarrow> files \<Rightarrow> bool" where
  "fresh_path (Answer rp) fs = (fs (tr_path (rp_transfer rp)) = None \<and> tr_path (rp_transfer rp) \<noteq> [])"
| "fresh_path _ fs = True"

text \<open>What an attempt that owns a result left on disk.\<close>

definition left_file :: "base \<Rightarrow> attempt \<Rightarrow> files \<Rightarrow> files \<Rightarrow> bool" where
  "left_file b a fs fs' \<longleftrightarrow>
     (case at_Result a of
        None \<Rightarrow> fs' = fs
      | Some r \<Rightarrow> \<exists>content. fs' = fs(res_Path r \<mapsto> content) \<and> fs (res_Path r) = None \<and> res_Path r \<noteq> []
                  \<and> int (length content) \<le> resultLimit b
                  \<and> res_Start r \<le> res_End r \<and> res_End r \<le> length content)"

lemma resultLimit_pos: "0 < resultLimit b"
  by (simp add: resultLimit_def)

lemma download_cases:
  assumes "fs (tr_path t) = None"
  shows "(\<exists>e. downloadBody b t fs = (Inl e, fs))
    \<or> (\<exists>content. downloadBody b t fs = (Inr (tr_path t, length content), fs(tr_path t \<mapsto> content))
         \<and> int (length content) \<le> resultLimit b)"
proof -
  have rm: "fs(tr_path t := None) = fs" using assms by auto
  show ?thesis
    using resultLimit_pos [of b]
    by (cases "tr_create_err t"; cases "tr_copy_err t"; cases "tr_sync_err t";
        cases "length (take (nat (resultLimit b) + 1) (tr_body t)) > nat (resultLimit b)")
      (auto simp: downloadBody_def Let_def rm)
qed

lemma readResult_files:
  assumes "fs (tr_path (rp_transfer rp)) = None" and "tr_path (rp_transfer rp) \<noteq> []"
  shows "left_file b (fst (readResult d b rp fs)) fs (snd (readResult d b rp fs))"
proof -
  let ?t = "rp_transfer rp"
  consider (err) e where "downloadBody b ?t fs = (Inl e, fs)"
    | (ok) content where "downloadBody b ?t fs = (Inr (tr_path ?t, length content), fs(tr_path ?t \<mapsto> content))"
        "int (length content) \<le> resultLimit b"
    using download_cases [of fs ?t b] assms(1) by blast
  then show ?thesis
  proof cases
    case err
    have "at_Result (fst (readResult d b rp fs)) = None"
      by (cases e; cases "body_err ?t")
        (simp_all add: readResult_def err gatewayFailure_def transportFailure_def cancelled_def split: option.split)
    moreover have "snd (readResult d b rp fs) = fs"
      by (cases e; cases "body_err ?t") (simp_all add: readResult_def err)
    ultimately show ?thesis by (simp add: left_file_def)
  next
    case ok
    have rm: "fs(tr_path ?t := None) = fs" using assms by auto
    show ?thesis
    proof (cases "inspectOperation d (rp_reopen_err rp) content (length content) (b_surface b)")
      case (Inl e)
      then show ?thesis by (simp add: readResult_def Let_def ok left_file_def noResult_def rm)
    next
      case (Inr v)
      show ?thesis
      proof (cases "isFailed (v_Status v) \<or> \<not> v_HasResult v")
        case True
        then show ?thesis by (auto simp: readResult_def Let_def ok Inr left_file_def noResult_def rm)
      next
        case False
        with inspect_range [OF Inr] assms ok(2) show ?thesis
          by (auto simp: readResult_def Let_def ok(1) Inr left_file_def)
      qed
    qed
  qed
qed

lemma classify_files:
  assumes "fresh_path (Answer rp) fs"
  shows "left_file b (fst (classify d b rp fs)) fs (snd (classify d b rp fs))"
proof (cases "rp_status rp = 200")
  case True
  with assms readResult_files show ?thesis by (simp add: classify_def)
next
  case False
  have "at_Result (fst (classify d b rp fs)) = None" "snd (classify d b rp fs) = fs"
    using False by (simp_all add: classify_def Let_def)
  then show ?thesis by (simp add: left_file_def)
qed

lemma client_attempt_files:
  assumes "fresh_path w fs"
  shows "left_file b (fst (client_attempt d b c w fs)) fs (snd (client_attempt d b c w fs))"
proof (cases "route (b_surface b) c")
  case (Inl e)
  then show ?thesis by (simp add: client_attempt_def left_file_def)
next
  case (Inr path)
  have no: "at_Result (transportFailure b x y z) = None" "at_Result (gatewayFailure b g n) = None" for x y z g n
    by (simp_all add: transportFailure_def cancelled_def gatewayFailure_def split: option.split)
  show ?thesis
  proof (cases w)
    case (Answer rp)
    with assms classify_files [of rp fs b d] Inr show ?thesis by (simp add: client_attempt_def)
  qed (simp_all add: client_attempt_def Inr left_file_def no)
qed

lemma Do_files:
  assumes "fresh_path w fs"
  shows "left_file b (fst (Do d b c w ctx fs)) fs (snd (Do d b c w ctx fs))"
proof (cases "client_attempt d b c w fs")
  case (Pair a fs1)
  with client_attempt_files [OF assms, of b d c] have a: "left_file b a fs fs1" by simp
  have "snd (Cleanup (at_Result a) fs1) = fs"
    using a by (auto simp: Cleanup_def left_file_def split: option.splits)
  moreover have "left_file b (cancelled e n) fs fs" for e n by (simp add: left_file_def cancelled_def)
  ultimately show ?thesis using a Pair
    by (cases ctx; cases "at_Outcome a = Cancelled") (simp_all add: Do_def)
qed

section \<open>Backoff and escaping\<close>

text \<open>The schedule as the comment states it: \<open>min(60 s, 2 s * 2^(n-1))\<close>.\<close>

definition ceiling_of :: "int \<Rightarrow> int" where
  "ceiling_of attempt = min (firstBackoff * 2 ^ nat (attempt - 1)) maxBackoff"

lemma backoff_loop_min:
  "0 < c \<Longrightarrow> min (backoff_loop n a c) maxBackoff = min (c * 2 ^ nat (a - n)) maxBackoff"
proof (induction n a c rule: backoff_loop.induct)
  case (1 n a c)
  show ?case
  proof (cases "n < a \<and> c < maxBackoff")
    case True
    then have "nat (a - n) = Suc (nat (a - (n + 1)))" by arith
    with 1 True show ?thesis by (subst backoff_loop.simps) (simp add: mult.assoc)
  next
    case False
    then consider "a \<le> n" | "maxBackoff \<le> c" by linarith
    then show ?thesis
    proof cases
      case 1
      then have "\<not> (n < a \<and> c < maxBackoff)" by simp
      with 1 show ?thesis by (subst backoff_loop.simps) simp
    next
      case 2
      have "c * 1 \<le> c * 2 ^ nat (a - n)" using \<open>0 < c\<close> by (intro mult_left_mono) simp_all
      with 2 False show ?thesis by (subst backoff_loop.simps) simp
    qed
  qed
qed

lemma clamp_range: "0 \<le> clamp_jitter j \<and> clamp_jitter j \<le> 1"
  by (auto simp: clamp_jitter_def split: option.split)

lemma floor_between:
  assumes "0 \<le> c" and "0 \<le> x" and "x \<le> (1 :: real)"
  shows "c div 2 \<le> \<lfloor>real_of_int c * (1 / 2 + 1 / 2 * x)\<rfloor> \<and> \<lfloor>real_of_int c * (1 / 2 + 1 / 2 * x)\<rfloor> \<le> c"
proof
  have "real_of_int (c div 2) \<le> real_of_int c / 2" by linarith
  also have "\<dots> \<le> real_of_int c * (1 / 2 + 1 / 2 * x)"
    using assms mult_left_mono [of "1 / 2" "1 / 2 + 1 / 2 * x" "real_of_int c"] by simp
  finally show "c div 2 \<le> \<lfloor>real_of_int c * (1 / 2 + 1 / 2 * x)\<rfloor>" by (simp add: le_floor_iff)
  have "real_of_int c * (1 / 2 + 1 / 2 * x) \<le> real_of_int c * 1"
    using assms by (intro mult_left_mono) simp_all
  then show "\<lfloor>real_of_int c * (1 / 2 + 1 / 2 * x)\<rfloor> \<le> c" by linarith
qed

definition hex_val :: "char \<Rightarrow> nat" where
  "hex_val c = (let n = (of_char c :: nat) in if n \<le> 57 then n - 48 else n - 55)"

text \<open>Reading an escaped segment back.\<close>

fun unescape :: "string \<Rightarrow> string" where
  "unescape (c # h # l # s) =
     (if c = CHR ''%'' then char_of (16 * hex_val h + hex_val l) # unescape s
      else c # unescape (h # l # s))"
| "unescape s = s"

definition esc1 :: "char \<Rightarrow> string" where
  "esc1 c = (if c = CHR '':'' then ''%3A'' else if path_safe c then [c] else percent c)"

lemma hex_val_upper: "d < 16 \<Longrightarrow> hex_val (upper_hex d) = d"
  by (auto simp: hex_val_def upper_hex_def Let_def of_char_of)

definition seg_char :: "char \<Rightarrow> bool" where
  "seg_char c \<longleftrightarrow> (path_safe c \<or> c = CHR ''%'') \<and> c \<noteq> CHR '':''"

lemma upper_hex_safe:
  assumes "d < 16"
  shows "seg_char (upper_hex d)"
proof -
  have n: "(of_char (upper_hex d) :: nat) = (if d < 10 then 48 + d else 55 + d)"
    using assms by (simp add: upper_hex_def of_char_of)
  have "upper_hex d \<noteq> CHR '':''"
  proof
    assume "upper_hex d = CHR '':''"
    then have "(of_char (upper_hex d) :: nat) = 58" by simp
    with n assms show False by (simp split: if_splits)
  qed
  moreover have "path_safe (upper_hex d)"
    unfolding path_safe_def Let_def n using assms by (cases "d < 10") simp_all
  ultimately show ?thesis by (simp add: seg_char_def)
qed

lemma escapeSegment_esc1: "escapeSegment s = concat (map esc1 s)"
proof (induction s)
  case (Cons c s)
  have "concat (map (\<lambda>c. if c = CHR '':'' then ''%3A'' else [c]) (percent c)) = percent c"
  proof -
    have "seg_char (upper_hex (of_char c div 16))" and "seg_char (upper_hex (of_char c mod 16))"
      by (rule upper_hex_safe; simp add: less_mult_imp_div_less)+
    then show ?thesis by (simp add: percent_def Let_def seg_char_def)
  qed
  moreover have "path_safe (CHR '':'')" by (simp add: path_safe_def)
  ultimately show ?case using Cons by (auto simp: escapeSegment_def PathEscape_def esc1_def)
qed (simp add: escapeSegment_def PathEscape_def)

lemma esc1_safe: "list_all seg_char (esc1 c)"
proof -
  have "seg_char (CHR ''%'')" "seg_char (CHR ''3'')" "seg_char (CHR ''A'')"
    by (simp_all add: seg_char_def path_safe_def)
  moreover have "seg_char (upper_hex (of_char c div 16))" and "seg_char (upper_hex (of_char c mod 16))"
    by (rule upper_hex_safe; simp add: less_mult_imp_div_less)+
  ultimately show ?thesis by (simp add: esc1_def percent_def Let_def) (simp add: seg_char_def)
qed

lemma unescape_plain: "c \<noteq> CHR ''%'' \<Longrightarrow> unescape (c # s) = c # unescape s"
  by (cases s rule: list.exhaust; cases "tl s") auto

lemma unescape_esc1: "unescape (esc1 c @ s) = c # unescape s"
proof -
  have pct: "\<not> path_safe (CHR ''%'')" by (simp add: path_safe_def)
  have col: "unescape (''%3A'' @ s) = CHR '':'' # unescape s"
  proof -
    have "hex_val (CHR ''3'') = 3" "hex_val (CHR ''A'') = 10" by (simp_all add: hex_val_def)
    moreover have "char_of (58 :: nat) = CHR '':''" using char_of_char [of "CHR '':''"] by simp
    ultimately show ?thesis by simp
  qed
  have per: "unescape (percent c @ s) = c # unescape s"
    by (simp add: percent_def Let_def hex_val_upper less_mult_imp_div_less)
  show ?thesis using pct col per unescape_plain [of c s] by (auto simp: esc1_def)
qed

lemma unescape_concat: "unescape (concat (map esc1 s)) = s"
  by (induction s) (simp_all add: unescape_esc1)

section \<open>Properties\<close>

text \<open>C30. What \<open>Do\<close> hands its caller, whatever the wire, the file system and the contexts did: a
  result exactly on success; no error on a success or a cancellation, so nothing of either can be
  relayed or stored as a failure; on every other outcome an error whose HTTP status is a failing
  one; and a pause only on the two outcomes that are retried.\<close>

theorem attempt_contract:
  "(at_Outcome a = Success \<longleftrightarrow> at_Result a \<noteq> None)
   \<and> (if at_Outcome a \<in> {Success, Cancelled} then at_Err a = None
      else (\<exists>e. at_Err a = Some e \<and> 400 \<le> err_Status e))
   \<and> (at_Outcome a \<in> {Retry, RetryOnce} \<or> at_RetryAfter a = 0)"
  if "a = fst (Do d b c w ctx fs)"
  using Do_ok [of d b c w ctx fs] that by (auto simp: attempt_ok_def)

text \<open>A client, a call, and an answer of 503 with a pause.\<close>

definition demo_base :: base where
  "demo_base = NewClient SurfaceRead ''http://pod/'' ''k'' 0 0"

definition demo_call :: call where
  "demo_call = \<lparr>cl_ModelID = [], cl_Prefix = [], cl_Query = [], cl_ContentType = [], cl_Size = 0, cl_Timeout = 0\<rparr>"

definition demo_transfer :: "string \<Rightarrow> transfer" where
  "demo_transfer body = \<lparr>tr_create_err = None, tr_path = ''t1'', tr_body = body, tr_copy_err = None,
     tr_read_err = None, tr_sync_err = None\<rparr>"

definition demo_reply :: "int \<Rightarrow> string \<Rightarrow> reply" where
  "demo_reply status body = \<lparr>rp_status = status, rp_retry_after = ''7'', rp_transfer = demo_transfer body,
     rp_reopen_err = None, rp_ctx_err = None, rp_actx_err = None\<rparr>"

definition demo_decoders :: decoders where
  "demo_decoders = \<lparr>d_body = \<lambda>_. None, d_string = \<lambda>_. None, d_error = \<lambda>_. None, d_errors = \<lambda>_. None\<rparr>"

lemma attempt_contract_witness:
  "\<exists>e. at_Err (fst (Do demo_decoders demo_base demo_call (Answer (demo_reply 503 [])) None Map.empty)) = Some e
     \<and> 400 \<le> err_Status e"
proof -
  have "at_Outcome (fst (Do demo_decoders demo_base demo_call (Answer (demo_reply 503 [])) None Map.empty)) = Retry"
    by (simp add: Do_def client_attempt_def route_def demo_base_def NewClient_def classify_def demo_reply_def
        Let_def routeMissing_def)
  with attempt_contract [OF refl, of demo_decoders demo_base demo_call "Answer (demo_reply 503 [])" None Map.empty]
  show ?thesis by simp
qed

text \<open>Row 1 before every other row: an attempt is cancelled exactly when the caller's context has
  ended, whatever came back; it then owns no result, carries no error, and leaves the scratch
  directory as it found it. The hypothesis is that a context that has ended stays ended.\<close>

fun saw_cancel :: "wire_event \<Rightarrow> bool" where
  "saw_cancel (NoAnswer e ctx actx) = (ctx \<noteq> None)"
| "saw_cancel (Answer rp) = (rp_ctx_err rp \<noteq> None)"
| "saw_cancel (NotBuilt e) = False"

lemma cancelled_saw: "at_Outcome (fst (client_attempt d b c w fs)) = Cancelled \<Longrightarrow> saw_cancel w"
proof (cases "route (b_surface b) c")
  case (Inr path)
  assume a: "at_Outcome (fst (client_attempt d b c w fs)) = Cancelled"
  show ?thesis
  proof (cases w)
    case (Answer rp)
    show ?thesis
    proof (cases "rp_status rp = 200")
      case True
      with a Inr Answer show ?thesis
        by (auto simp: client_attempt_def classify_def readResult_def Let_def transportFailure_def
            gatewayFailure_def noResult_def
            split: prod.splits sum.splits option.splits dl_error.splits if_splits)
    next
      case False
      with a Inr Answer show ?thesis
        by (auto simp: client_attempt_def classify_def Let_def split: if_splits)
    qed
  qed (use a Inr in \<open>auto simp: client_attempt_def transportFailure_def gatewayFailure_def split: option.splits if_splits\<close>)
qed (simp add: client_attempt_def)

theorem cancellation_first:
  assumes "saw_cancel w \<Longrightarrow> ctx \<noteq> None" and "fresh_path w fs"
  shows "(at_Outcome (fst (Do d b c w ctx fs)) = Cancelled \<longleftrightarrow> ctx \<noteq> None)
    \<and> (ctx \<noteq> None \<longrightarrow> at_Err (fst (Do d b c w ctx fs)) = None
         \<and> at_Result (fst (Do d b c w ctx fs)) = None \<and> snd (Do d b c w ctx fs) = fs)"
proof -
  have out: "at_Outcome (fst (Do d b c w ctx fs)) = Cancelled \<longleftrightarrow> ctx \<noteq> None"
    using assms(1) cancelled_saw [of d b c w fs]
    by (cases "client_attempt d b c w fs"; cases ctx) (auto simp: Do_def cancelled_def)
  moreover have "at_Err (fst (Do d b c w ctx fs)) = None" "at_Result (fst (Do d b c w ctx fs)) = None"
    if "ctx \<noteq> None"
    using Do_ok [of d b c w ctx fs] out that by (auto simp: attempt_ok_def)
  moreover have "snd (Do d b c w ctx fs) = fs" if "ctx \<noteq> None"
    using Do_files [OF assms(2), of b d c ctx] calculation(3) [OF that] by (simp add: left_file_def)
  ultimately show ?thesis by (cases "ctx = None") simp_all
qed

lemma cancellation_first_witness:
  "at_Outcome (fst (Do demo_decoders demo_base demo_call (Answer (demo_reply 200 ''{}'')) (Some (Leaf ''gone'')) Map.empty))
     = Cancelled"
  using cancellation_first [of "Answer (demo_reply 200 ''{}'')" "Some (Leaf ''gone'')" Map.empty
      demo_decoders demo_base demo_call]
  by (simp add: demo_reply_def demo_transfer_def)

text \<open>Only a success leaves a scratch file, and it is the one the result names: a file that was not
  there, no longer than the configured ceiling, with the analyzeResult range inside it. Every other
  outcome removes what it wrote.\<close>

theorem only_success_leaves_a_file:
  assumes "fresh_path w fs" and "a = fst (Do d b c w ctx fs)" and "fs' = snd (Do d b c w ctx fs)"
  shows "(at_Outcome a \<noteq> Success \<longrightarrow> fs' = fs)
    \<and> (at_Outcome a = Success \<longrightarrow> (\<exists>r content. at_Result a = Some r \<and> fs (res_Path r) = None
          \<and> fs' = fs(res_Path r \<mapsto> content) \<and> int (length content) \<le> resultLimit b
          \<and> res_Start r \<le> res_End r \<and> res_End r \<le> length content
          \<and> snd (Cleanup (at_Result a) fs') = fs))"
proof -
  have ok: "(at_Outcome a = Success) = (at_Result a \<noteq> None)"
    using Do_ok [of d b c w ctx fs] assms(2) by (simp add: attempt_ok_def)
  have lf: "left_file b a fs fs'" using Do_files [OF assms(1)] assms(2,3) by simp
  show ?thesis
  proof (cases "at_Result a")
    case None
    with ok lf show ?thesis by (simp add: left_file_def)
  next
    case (Some r)
    with lf obtain content where "fs' = fs(res_Path r \<mapsto> content)" "fs (res_Path r) = None"
      "res_Path r \<noteq> []" "int (length content) \<le> resultLimit b" "res_Start r \<le> res_End r"
      "res_End r \<le> length content" by (auto simp: left_file_def)
    moreover from this have "snd (Cleanup (at_Result a) fs') = fs"
      using Some by (auto simp: Cleanup_def)
    ultimately show ?thesis using Some ok by auto
  qed
qed

lemma only_success_leaves_a_file_witness:
  "snd (Do demo_decoders demo_base demo_call (Answer (demo_reply 404 [])) None Map.empty) = Map.empty"
proof -
  let ?w = "Answer (demo_reply 404 [])"
  have "at_Outcome (fst (Do demo_decoders demo_base demo_call ?w None Map.empty)) \<noteq> Success"
    by (simp add: Do_def client_attempt_def route_def demo_base_def NewClient_def classify_def demo_reply_def
        Let_def)
  moreover have "fresh_path ?w Map.empty" by (simp add: demo_reply_def demo_transfer_def)
  ultimately show ?thesis
    using only_success_leaves_a_file [OF _ refl refl, of ?w Map.empty demo_decoders demo_base demo_call None]
    by blast
qed

lemma readResult_retry:
  assumes "at_Outcome (fst (readResult d b rp fs)) \<in> {Retry, RetryOnce}"
  shows "body_err (rp_transfer rp) \<noteq> None"
proof
  assume none: "body_err (rp_transfer rp) = None"
  obtain r fs' where dl: "downloadBody b (rp_transfer rp) fs = (r, fs')" by (cases "downloadBody b (rp_transfer rp) fs")
  show False
  proof (cases r)
    case (Inl e)
    with assms none dl show False by (cases e) (simp_all add: readResult_def gatewayFailure_def)
  next
    case (Inr pn)
    with assms none dl show False
      by (cases pn; cases "inspectOperation d (rp_reopen_err rp) (the (fs' (fst pn))) (snd pn) (b_surface b)")
        (auto simp: readResult_def noResult_def split: if_splits)
  qed
qed

text \<open>Which answers are tried again. While the caller waits, an answered call is retried only for a
  202, for the transient statuses 408, 429, 500, 502, 503 and 504, or for a 200 whose body broke; a
  4xx about the request itself ends the document at once, and a missing route is never retried, not
  even when the container reports it as a 500.\<close>

theorem retried_answers:
  assumes "at_Outcome (fst (Do d b c (Answer rp) None fs)) \<in> {Retry, RetryOnce}"
  shows "rp_status rp \<in> {202, 408, 429, 500, 502, 503, 504}
      \<and> \<not> routeMissing (rp_status rp) (readErrorBody (d_body d) b (tr_body (rp_transfer rp)) (rp_status rp))
    \<or> rp_status rp = 200 \<and> body_err (rp_transfer rp) \<noteq> None"
proof (cases "route (b_surface b) c")
  case (Inl e)
  with assms show ?thesis by (simp add: Do_def client_attempt_def)
next
  case (Inr path)
  then have eq: "fst (Do d b c (Answer rp) None fs) = fst (classify d b rp fs)"
    by (simp add: Do_def client_attempt_def split: prod.split)
  show ?thesis
  proof (cases "rp_status rp = 200")
    case True
    with assms eq have "body_err (rp_transfer rp) \<noteq> None"
      using readResult_retry [of d b rp fs] by (simp add: classify_def)
    with True show ?thesis by simp
  next
    case False
    let ?e = "readErrorBody (d_body d) b (tr_body (rp_transfer rp)) (rp_status rp)"
    have "at_Outcome (fst (classify d b rp fs)) =
        (if rp_status rp = 202 then Retry else if routeMissing (rp_status rp) ?e then RouteMissing
         else if rp_status rp \<in> {500, 504} then RetryOnce
         else if rp_status rp \<in> {408, 429, 502, 503} then Retry else Terminal)"
      using False by (simp add: classify_def Let_def)
    moreover have "\<not> routeMissing 202 ?e" by (simp add: routeMissing_def)
    ultimately show ?thesis using assms eq by (auto split: if_splits)
  qed
qed

lemma retried_answers_witness:
  "\<not> routeMissing 503 (readErrorBody (d_body demo_decoders) demo_base [] 503)"
proof -
  have "at_Outcome (fst (Do demo_decoders demo_base demo_call (Answer (demo_reply 503 [])) None Map.empty)) = Retry"
    by (simp add: Do_def client_attempt_def route_def demo_base_def NewClient_def classify_def demo_reply_def
        Let_def routeMissing_def)
  with retried_answers [of demo_decoders demo_base demo_call "demo_reply 503 []" Map.empty]
  show ?thesis by (simp add: demo_reply_def demo_transfer_def)
qed

text \<open>\<open>Backoff\<close>: a Retry-After replaces the computed wait, capped at a minute; otherwise the wait
  lies between half of and all of \<open>min(60 s, 2 s * 2^(n-1))\<close>, for every jitter, NaN included. So no
  wait is under a second (without a Retry-After) nor over a minute.\<close>

theorem backoff_schedule:
  "(if retryAfter > 0 then Backoff n retryAfter j = min retryAfter maxBackoff
    else ceiling_of n div 2 \<le> Backoff n retryAfter j \<and> Backoff n retryAfter j \<le> ceiling_of n
         \<and> second \<le> Backoff n retryAfter j)
   \<and> Backoff n retryAfter j \<le> 60 * second"
proof (cases "retryAfter > 0")
  case True
  then show ?thesis by (simp add: Backoff_def maxBackoff_def second_def)
next
  case False
  have c: "min (backoff_loop 1 n firstBackoff) maxBackoff = ceiling_of n"
    unfolding ceiling_of_def by (rule backoff_loop_min) (simp add: firstBackoff_def second_def)
  have "firstBackoff * 1 \<le> firstBackoff * 2 ^ nat (n - 1)"
    by (intro mult_left_mono) (simp_all add: firstBackoff_def second_def)
  then have lo: "2 * second \<le> ceiling_of n" and hi: "ceiling_of n \<le> 60 * second"
    by (auto simp: ceiling_of_def firstBackoff_def maxBackoff_def second_def)
  have "Backoff n retryAfter j = \<lfloor>real_of_int (ceiling_of n) * (1 / 2 + 1 / 2 * clamp_jitter j)\<rfloor>"
    using False c by (simp add: Backoff_def Let_def)
  moreover have "0 \<le> ceiling_of n" using lo by (simp add: second_def)
  ultimately have "ceiling_of n div 2 \<le> Backoff n retryAfter j \<and> Backoff n retryAfter j \<le> ceiling_of n"
    using floor_between [of "ceiling_of n" "clamp_jitter j"] clamp_range [of j] by simp
  with False lo hi show ?thesis by auto
qed

text \<open>The model id in the route: escaping loses nothing (the id is read back from the segment) and
  the segment holds no \<open>/\<close>, \<open>?\<close>, \<open>#\<close>, \<open>:\<close>, blank or brace, so a model id cannot leave its segment, add a
  query or fake the \<open>:syncAnalyze\<close> action.\<close>

theorem route_escaping:
  "unescape (escapeSegment s) = s
   \<and> set (escapeSegment s) \<inter> {CHR ''/'', CHR ''?'', CHR ''#'', CHR '':'', CHR '' '', CHR ''{'', CHR ''}''} = {}"
proof
  show "unescape (escapeSegment s) = s" by (simp add: escapeSegment_esc1 unescape_concat)
  have "list_all seg_char (escapeSegment s)"
    unfolding escapeSegment_esc1 by (induction s) (simp_all add: esc1_safe)
  moreover have "\<not> seg_char c" if "c \<in> {CHR ''/'', CHR ''?'', CHR ''#'', CHR '':'', CHR '' '', CHR ''{'', CHR ''}''}" for c
    using that by (auto simp: seg_char_def path_safe_def)
  ultimately show "set (escapeSegment s)
      \<inter> {CHR ''/'', CHR ''?'', CHR ''#'', CHR '':'', CHR '' '', CHR ''{'', CHR ''}''} = {}"
    by (auto simp: list_all_iff)
qed

end
