(* ===== verification/Splitter.thy ===== *)
theory Splitter
  imports Pages Slots
begin

text \<open>
  The document splitter, \<open>internal/pdfsplit/split.go\<close>: slots, one budget per document, the classification
  of failures, and cuts that serialise on the document. pdfcpu is not part of the repository: what
  \<open>api.ReadAndValidate\<close> and \<open>ExtractPages\<close>/\<open>WriteContext\<close> do is an argument, a value of \<open>call_result\<close> for the
  one call made. So are the contexts' states when the code reads them and the files' errors.
\<close>

section \<open>Errors\<close>

text \<open>Errors out of a guarded call, and the errors this package returns.\<close>

datatype pdf_error = PdfOwnEncrypted | PdfEncryption string | PdfPanic string | PdfOther string

datatype split_error =
  CtxError go_error
| ErrEncrypted
| ErrUnparseable string
| ErrPanic string
| ErrBudget
| ReadError string
| WriteError string
| OpenError string
| DocClosed
| BadPages string

text \<open>\<open>errors.Is(err, ErrUnparseable)\<close>: \<open>ErrPanic\<close> wraps it.\<close>

fun is_unparseable :: "split_error \<Rightarrow> bool" where
  "is_unparseable (ErrUnparseable m) = True"
| "is_unparseable (ErrPanic m) = True"
| "is_unparseable _ = False"

text \<open>A call that returns an error or a value, or panics.\<close>

datatype 'a call_result = Returned "pdf_error + 'a" | Panicked string

definition guard :: "'a call_result \<Rightarrow> pdf_error + 'a" where
  "guard r = (case r of Returned v \<Rightarrow> v | Panicked m \<Rightarrow> Inl (PdfPanic m))"

definition isEncryption :: "pdf_error \<Rightarrow> bool" where
  "isEncryption e = (case e of PdfOwnEncrypted \<Rightarrow> True | PdfEncryption m \<Rightarrow> True | _ \<Rightarrow> False)"

definition pdf_error_text :: "pdf_error \<Rightarrow> string" where
  "pdf_error_text e = (case e of PdfOther m \<Rightarrow> m | PdfEncryption m \<Rightarrow> m | PdfPanic m \<Rightarrow> m | PdfOwnEncrypted \<Rightarrow> [])"

text \<open>\<open>budgetSpent\<close> is read before \<open>ctx\<close>.\<close>

definition split_classify :: "go_error option \<Rightarrow> bool \<Rightarrow> pdf_error \<Rightarrow> split_error" where
  "split_classify ctx budgetSpent err =
     (case ctx of
        Some e \<Rightarrow> CtxError e
      | None \<Rightarrow>
          if budgetSpent then ErrBudget
          else (case err of
                  PdfPanic m \<Rightarrow> ErrPanic m
                | _ \<Rightarrow> if isEncryption err then ErrEncrypted else ErrUnparseable (pdf_error_text err)))"

section \<open>Documents\<close>

text \<open>A parsed model: its pages, encryption entries, name trees and everything else.\<close>

record 'o pdf_model =
  PageCount :: int
  Encrypt :: bool
  EncE :: bool
  Names :: "string list"
  Objects :: 'o

record 'o pdf_document =
  doc_PageCount :: int
  doc_pdf :: "'o pdf_model option"
  doc_failed :: "split_error option"

text \<open>The closure \<open>readPDF\<close> guards, and \<open>readPDF\<close>: \<open>src_err\<close> is the first error of the file itself.\<close>

definition read_closure :: "'o pdf_model call_result \<Rightarrow> 'o pdf_model call_result" where
  "read_closure r =
     (case r of
        Returned (Inr pdf) \<Rightarrow>
          if Encrypt pdf \<or> EncE pdf then Returned (Inl PdfOwnEncrypted)
          else Returned (Inr (pdf\<lparr>Names := removeAll ''Dests'' (Names pdf)\<rparr>))
      | _ \<Rightarrow> r)"

definition readPDF :: "go_error option \<Rightarrow> bool \<Rightarrow> string option \<Rightarrow> 'o pdf_model call_result \<Rightarrow> split_error + 'o pdf_model" where
  "readPDF ctx budgetSpent src_err r =
     (let res = guard (read_closure r) in
      case src_err of
        Some m \<Rightarrow> Inl (case ctx of Some e \<Rightarrow> CtxError e | None \<Rightarrow> ReadError m)
      | None \<Rightarrow> (case res of Inl e \<Rightarrow> Inl (split_classify ctx budgetSpent e) | Inr pdf \<Rightarrow> Inr pdf))"

text \<open>What an \<open>Open\<close> meets: the context at entry and while it waits, the file, the parse.\<close>

record 'o open_env =
  oe_entry :: "go_error option"
  oe_select :: "go_error option"
  oe_pick_ctx :: bool
  oe_file_err :: "string option"
  oe_read :: "'o pdf_model call_result"
  oe_src_err :: "string option"
  oe_ctx :: "go_error option"
  oe_spent :: bool

text \<open>\<open>acquire\<close>: \<open>None\<close> is still blocked; when the slot and the context's end are both ready the
  select picks either.\<close>

definition acquire :: "go_error option \<Rightarrow> go_error option \<Rightarrow> bool \<Rightarrow> chan \<Rightarrow> (go_error + chan) option" where
  "acquire entry sel pick_ctx slots =
     (case entry of
        Some e \<Rightarrow> Some (Inl e)
      | None \<Rightarrow>
          (case (try_send slots, sel) of
             (Some s, None) \<Rightarrow> Some (Inr s)
           | (None, Some e) \<Rightarrow> Some (Inl e)
           | (Some s, Some e) \<Rightarrow> Some (if pick_ctx then Inl e else Inr s)
           | (None, None) \<Rightarrow> None))"

definition parse_doc :: "'o open_env \<Rightarrow> split_error + 'o pdf_document" where
  "parse_doc v =
     (case oe_file_err v of
        Some m \<Rightarrow> Inl (OpenError m)
      | None \<Rightarrow>
          (case readPDF (oe_ctx v) (oe_spent v) (oe_src_err v) (oe_read v) of
             Inl e \<Rightarrow> Inl e
           | Inr pdf \<Rightarrow> Inr \<lparr>doc_PageCount = PageCount pdf, doc_pdf = Some pdf, doc_failed = None\<rparr>))"

definition Open :: "'o open_env \<Rightarrow> chan \<Rightarrow> ((split_error + 'o pdf_document) \<times> chan) option" where
  "Open v slots =
     (case acquire (oe_entry v) (oe_select v) (oe_pick_ctx v) slots of
        None \<Rightarrow> None
      | Some (Inl e) \<Rightarrow> Some (Inl (CtxError e), slots)
      | Some (Inr s) \<Rightarrow>
          (case parse_doc v of
             Inl e \<Rightarrow> Some (Inl e, recv s)
           | Inr d \<Rightarrow> Some (Inr d, s)))"

definition Close :: "'o pdf_document \<Rightarrow> chan \<Rightarrow> 'o pdf_document \<times> chan" where
  "Close d slots =
     (case doc_pdf d of None \<Rightarrow> (d, slots) | Some m \<Rightarrow> (d\<lparr>doc_pdf := None\<rparr>, recv slots))"

section \<open>Cuts\<close>

fun check_loop :: "int option \<Rightarrow> int list \<Rightarrow> int \<Rightarrow> string option" where
  "check_loop prev [] count = None"
| "check_loop prev (p # ps) count =
     (if p < 1 \<or> p > count then
        Some (''pdfsplit: page '' @ itoa p @ '' is outside 1..'' @ itoa count)
      else case prev of
        Some q \<Rightarrow>
          if p \<le> q then
            Some (''pdfsplit: page '' @ itoa p @ '' follows page '' @ itoa q @ ''; pages must ascend'')
          else check_loop (Some p) ps count
      | None \<Rightarrow> check_loop (Some p) ps count)"

definition checkPages :: "int list \<Rightarrow> int \<Rightarrow> string option" where
  "checkPages pages count =
     (if pages = [] then Some ''pdfsplit: no pages to write'' else check_loop None pages count)"

text \<open>One guarded cut: what the call gave, the model it left behind (a cut writes into it), the bytes
  it wrote, and the destination's first error.\<close>

record 'o cut_result =
  cut_call :: "unit call_result"
  cut_model :: "'o pdf_model"
  cut_out :: string
  cut_dst_err :: "string option"

record 'o cut_env =
  ce_cut :: "'o pdf_model \<Rightarrow> int list \<Rightarrow> 'o cut_result"
  ce_ctx_write :: "go_error option"
  ce_spent :: bool
  ce_ctx :: "go_error option"

definition WritePart :: "'o cut_env \<Rightarrow> int list \<Rightarrow> 'o pdf_document \<Rightarrow> split_error option \<times> string \<times> 'o pdf_document" where
  "WritePart v pages d =
     (case doc_pdf d of
        None \<Rightarrow> (Some DocClosed, [], d)
      | Some m \<Rightarrow>
          (case doc_failed d of
             Some e \<Rightarrow> (Some e, [], d)
           | None \<Rightarrow>
               (case checkPages pages (doc_PageCount d) of
                  Some msg \<Rightarrow> (Some (BadPages msg), [], d)
                | None \<Rightarrow>
                    (let r = ce_cut v m pages;
                         err = guard (cut_call r);
                         d1 = d\<lparr>doc_pdf := Some (cut_model r)\<rparr>;
                         d2 = (case err of Inl (PdfPanic p) \<Rightarrow> d1\<lparr>doc_failed := Some (ErrPanic p)\<rparr> | _ \<Rightarrow> d1)
                     in case err of
                          Inr u \<Rightarrow> (None, cut_out r, d2)
                        | Inl e \<Rightarrow>
                            (case cut_dst_err r of
                               Some w \<Rightarrow>
                                 if ce_ctx_write v = None then (Some (WriteError w), cut_out r, d2)
                                 else (Some (split_classify (ce_ctx v) (ce_spent v) e), cut_out r, d2)
                             | None \<Rightarrow> (Some (split_classify (ce_ctx v) (ce_spent v) e), cut_out r, d2))))))"

definition Recut :: "'o open_env \<Rightarrow> 'o cut_env \<Rightarrow> int list \<Rightarrow> chan \<Rightarrow> (split_error option \<times> string \<times> chan) option" where
  "Recut ov cv local slots =
     (case Open ov slots of
        None \<Rightarrow> None
      | Some (Inl e, s) \<Rightarrow> Some (Some e, [], s)
      | Some (Inr d, s) \<Rightarrow>
          (case WritePart cv local d of
             (err, out, d1) \<Rightarrow> Some (err, out, snd (Close d1 s))))"

section \<open>Callers of one splitter\<close>

text \<open>\<open>NewSplitter\<close> panics (\<open>None\<close>) on a bad setting. A world is the semaphore and the documents handed out,
  closed ones included; callers open, cut and close them in any order.\<close>

definition NewSplitter :: "int \<Rightarrow> int \<Rightarrow> (chan \<times> int) option" where
  "NewSplitter concurrency budget =
     (if concurrency < 1 \<or> budget \<le> 0 then None
      else Some (\<lparr>ch_cap = nat concurrency, ch_len = 0\<rparr>, budget))"

record 'o split_world =
  sw_slots :: chan
  sw_docs :: "nat \<Rightarrow> 'o pdf_document option"

inductive split_step :: "'o split_world \<Rightarrow> 'o split_world \<Rightarrow> bool" where
  step_open: "Open v (sw_slots w) = Some (Inr d, s) \<Longrightarrow> sw_docs w i = None \<Longrightarrow>
    split_step w (w\<lparr>sw_slots := s, sw_docs := (sw_docs w)(i \<mapsto> d)\<rparr>)"
| step_refused: "Open (v :: 'o open_env) (sw_slots w) = Some (Inl e, s) \<Longrightarrow> split_step w (w\<lparr>sw_slots := s\<rparr>)"
| step_cut: "sw_docs w i = Some d \<Longrightarrow> WritePart cv pages d = (err, out, d') \<Longrightarrow>
    split_step w (w\<lparr>sw_docs := (sw_docs w)(i \<mapsto> d')\<rparr>)"
| step_close: "sw_docs w i = Some d \<Longrightarrow> Close d (sw_slots w) = (d', s) \<Longrightarrow>
    split_step w (w\<lparr>sw_slots := s, sw_docs := (sw_docs w)(i \<mapsto> d')\<rparr>)"

inductive split_reachable :: "int \<Rightarrow> 'o split_world \<Rightarrow> bool" for n where
  reach_new: "NewSplitter n budget = Some (c, b) \<Longrightarrow> split_reachable n \<lparr>sw_slots = c, sw_docs = Map.empty\<rparr>"
| reach_step: "split_reachable n w \<Longrightarrow> split_step w w' \<Longrightarrow> split_reachable n w'"

definition open_docs :: "'o split_world \<Rightarrow> nat set" where
  "open_docs w = {i. \<exists>d. sw_docs w i = Some d \<and> doc_pdf d \<noteq> None}"

definition split_inv :: "int \<Rightarrow> 'o split_world \<Rightarrow> bool" where
  "split_inv n w \<longleftrightarrow> finite (open_docs w) \<and> ch_len (sw_slots w) = card (open_docs w)
     \<and> ch_len (sw_slots w) \<le> ch_cap (sw_slots w) \<and> int (ch_cap (sw_slots w)) = n"

section \<open>Lemmas\<close>

lemma acquire_some: "acquire entry sel pc slots = Some (Inr s) \<Longrightarrow> try_send slots = Some s"
  by (auto simp: acquire_def split: option.splits if_splits)

lemma sem_roundtrip: "try_send slots = Some s \<Longrightarrow> recv s = slots"
  by (auto simp: try_send_def recv_def split: if_splits)

lemma Open_refused:
  assumes "Open v slots = Some (Inl e, s)"
  shows "s = slots"
proof (cases "acquire (oe_entry v) (oe_select v) (oe_pick_ctx v) slots")
  case None
  with assms show ?thesis by (simp add: Open_def)
next
  case (Some r)
  show ?thesis
  proof (cases r)
    case (Inl c)
    with assms Some show ?thesis by (simp add: Open_def)
  next
    case (Inr t)
    with Some have "recv t = slots" by (simp add: acquire_some sem_roundtrip)
    with assms Some Inr show ?thesis by (cases "parse_doc v") (simp_all add: Open_def)
  qed
qed

lemma parse_doc_open: "parse_doc v = Inr d \<Longrightarrow> doc_pdf d \<noteq> None \<and> doc_failed d = None"
  by (auto simp: parse_doc_def split: option.splits sum.splits)

lemma Open_ok:
  "Open v slots = Some (Inr d, s) \<Longrightarrow> try_send slots = Some s \<and> parse_doc v = Inr d"
  by (auto simp: Open_def split: option.splits sum.splits dest!: acquire_some)

lemma WritePart_open: "WritePart cv pages d = (err, out, d') \<Longrightarrow> (doc_pdf d' = None) = (doc_pdf d = None)"
  by (auto simp: WritePart_def Let_def split: option.splits sum.splits pdf_error.splits if_splits)

lemma split_inv_step:
  assumes "split_step w w'" and "split_inv n w"
  shows "split_inv n w'"
  using assms(1)
proof cases
  case (step_open v d s i)
  with Open_ok [OF step_open(2)] parse_doc_open [of v d]
  have "open_docs w' = insert i (open_docs w)" "i \<notin> open_docs w" and ts: "try_send (sw_slots w) = Some s"
    by (auto simp: open_docs_def)
  with assms(2) sem.take_some [OF ts] sem.take_none [of "sw_slots w"] step_open(1) show ?thesis
    by (auto simp: split_inv_def)
next
  case (step_refused v e s)
  with Open_refused [OF step_refused(2)] assms(2) show ?thesis by (simp add: split_inv_def open_docs_def)
next
  case (step_cut i d cv pages err out d')
  with WritePart_open [OF step_cut(3)] have "open_docs w' = open_docs w" by (auto simp: open_docs_def)
  with assms(2) step_cut(1) show ?thesis by (simp add: split_inv_def)
next
  case (step_close i d d' s)
  show ?thesis
  proof (cases "doc_pdf d")
    case None
    with step_close(3) have "d' = d" "s = sw_slots w" by (simp_all add: Close_def)
    moreover have "(sw_docs w)(i \<mapsto> d) = sw_docs w" using step_close(2) by (metis fun_upd_triv)
    ultimately have "w' = w" using step_close(1) by (cases w) simp
    with assms(2) show ?thesis by simp
  next
    case (Some m)
    with step_close(3) have d': "d' = d\<lparr>doc_pdf := None\<rparr>" and s: "s = recv (sw_slots w)"
      by (simp_all add: Close_def)
    have od: "open_docs w' = open_docs w - {i}" using step_close(1) d' by (auto simp: open_docs_def)
    have i: "i \<in> open_docs w" using step_close(2) Some by (simp add: open_docs_def)
    have c: "card (open_docs w - {i}) = card (open_docs w) - 1" using i by (simp add: card_Diff_singleton)
    have "sw_slots w' = recv (sw_slots w)" using step_close(1) s by simp
    moreover have "card (open_docs w) - 1 \<le> ch_cap (sw_slots w)" using assms(2) by (auto simp: split_inv_def)
    ultimately show ?thesis using assms(2) c od sem.give_used [of "sw_slots w"] sem.give_cap [of "sw_slots w"]
      by (simp add: split_inv_def)
  qed
qed

lemma split_inv_reachable: "split_reachable n w \<Longrightarrow> split_inv n w"
proof (induction rule: split_reachable.induct)
  case (reach_new budget c b)
  then show ?case by (auto simp: NewSplitter_def split_inv_def open_docs_def split: if_splits)
qed (rule split_inv_step)

lemma check_loop_ok:
  "check_loop prev ps count = None \<longleftrightarrow>
     sorted_wrt (<) ps \<and> (\<forall>p \<in> set ps. 1 \<le> p \<and> p \<le> count \<and> (\<forall>q. prev = Some q \<longrightarrow> q < p))"
proof (induction prev ps count rule: check_loop.induct)
  case (2 prev p ps count)
  show ?case
  proof (cases "p < 1 \<or> p > count")
    case True
    then show ?thesis by auto
  next
    case False
    show ?thesis
    proof (cases prev)
      case None
      with False 2 show ?thesis by auto
    next
      case (Some q)
      show ?thesis
      proof (cases "p \<le> q")
        case True
        with Some False show ?thesis by auto
      next
        case gt: False
        then have "(\<forall>r \<in> set ps. 1 \<le> r \<and> r \<le> count \<and> p < r) \<longleftrightarrow>
            (\<forall>r \<in> set ps. 1 \<le> r \<and> r \<le> count \<and> p < r \<and> q < r)" by force
        with gt Some False 2 show ?thesis by auto
      qed
    qed
  qed
qed simp

lemma checkPages_ok:
  "checkPages pages count = None \<longleftrightarrow>
     pages \<noteq> [] \<and> sorted_wrt (<) pages \<and> (\<forall>p \<in> set pages. 1 \<le> p \<and> p \<le> count)"
  by (simp add: checkPages_def check_loop_ok)

section \<open>Properties\<close>

text \<open>However callers open, cut and close documents, and whatever pdfcpu, the files and the
  contexts do, the splitter's semaphore counts exactly the documents that are open, never more than
  its concurrency: an open that fails gives its slot back, a close gives it back once however often
  it is called, and a cut never touches it.\<close>

theorem splitter_slots:
  assumes "split_reachable n w"
  shows "ch_len (sw_slots w) = card (open_docs w) \<and> int (card (open_docs w)) \<le> n
    \<and> (\<forall>d i. sw_docs w i = Some d \<longrightarrow> Close (fst (Close d (sw_slots w))) (snd (Close d (sw_slots w)))
          = Close d (sw_slots w))"
proof -
  have "split_inv n w" using split_inv_reachable [OF assms] .
  moreover have "Close (fst (Close d s)) (snd (Close d s)) = Close d s" for d :: "'a pdf_document" and s
    by (simp add: Close_def split: option.split)
  ultimately show ?thesis by (auto simp: split_inv_def)
qed

definition demo_pdf :: "unit pdf_model" where
  "demo_pdf = \<lparr>PageCount = 3, Encrypt = False, EncE = False, Names = [''Dests''], Objects = ()\<rparr>"

definition demo_open :: "unit open_env" where
  "demo_open = \<lparr>oe_entry = None, oe_select = None, oe_pick_ctx = False, oe_file_err = None,
     oe_read = Returned (Inr demo_pdf), oe_src_err = None, oe_ctx = None, oe_spent = False\<rparr>"

definition demo_doc :: "unit pdf_document" where
  "demo_doc = \<lparr>doc_PageCount = 3, doc_pdf = Some (demo_pdf\<lparr>Names := []\<rparr>), doc_failed = None\<rparr>"

lemma demo_opened: "Open demo_open \<lparr>ch_cap = 1, ch_len = 0\<rparr> = Some (Inr demo_doc, \<lparr>ch_cap = 1, ch_len = 1\<rparr>)"
proof -
  have "acquire (oe_entry demo_open) (oe_select demo_open) (oe_pick_ctx demo_open) \<lparr>ch_cap = 1, ch_len = 0\<rparr>
      = Some (Inr \<lparr>ch_cap = 1, ch_len = 1\<rparr>)"
    by (simp add: demo_open_def acquire_def try_send_def)
  moreover have "parse_doc demo_open = Inr demo_doc"
    by (simp add: demo_open_def parse_doc_def readPDF_def guard_def read_closure_def demo_pdf_def demo_doc_def)
  ultimately show ?thesis by (simp only: Open_def option.case sum.case)
qed

lemma splitter_slots_witness: "card (open_docs \<lparr>sw_slots = \<lparr>ch_cap = 1, ch_len = 1\<rparr>, sw_docs = [0 \<mapsto> demo_doc]\<rparr>) = 1"
proof -
  let ?w = "\<lparr>sw_slots = \<lparr>ch_cap = 1, ch_len = 0\<rparr>, sw_docs = Map.empty\<rparr> :: unit split_world"
  have "NewSplitter 1 5 = Some (\<lparr>ch_cap = 1, ch_len = 0\<rparr>, 5)" by (simp add: NewSplitter_def)
  then have "split_reachable 1 ?w" by (rule reach_new)
  moreover have "split_step ?w (?w\<lparr>sw_slots := \<lparr>ch_cap = 1, ch_len = 1\<rparr>, sw_docs := (sw_docs ?w)(0 \<mapsto> demo_doc)\<rparr>)"
    by (rule step_open [of demo_open]) (simp_all add: demo_opened [simplified])
  ultimately have "split_reachable 1 (?w\<lparr>sw_slots := \<lparr>ch_cap = 1, ch_len = 1\<rparr>, sw_docs := (sw_docs ?w)(0 \<mapsto> demo_doc)\<rparr>)"
    by (rule reach_step)
  from splitter_slots [OF this] show ?thesis by simp
qed

text \<open>A halving leaves the semaphore as it found it, whatever goes wrong in it: on every path that
  returns, \<open>Recut\<close> has given back the slot it took.\<close>

theorem recut_gives_back:
  assumes "Recut ov cv local slots = Some (err, out, slots')"
  shows "slots' = slots"
proof (cases "Open ov slots")
  case None
  with assms show ?thesis by (simp add: Recut_def)
next
  case (Some r)
  obtain x s where r: "r = (x, s)" by (cases r)
  show ?thesis
  proof (cases x)
    case (Inl e)
    with Some r assms Open_refused show ?thesis by (auto simp: Recut_def)
  next
    case (Inr d)
    with Some r have o: "try_send slots = Some s" "parse_doc ov = Inr d" using Open_ok by blast+
    obtain e out1 d1 where wp: "WritePart cv local d = (e, out1, d1)" by (cases "WritePart cv local d")
    then have "doc_pdf d1 \<noteq> None" using WritePart_open [OF wp] parse_doc_open [OF o(2)] by simp
    then have "snd (Close d1 s) = recv s" by (auto simp: Close_def)
    with assms Some r Inr wp sem_roundtrip [OF o(1)] show ?thesis by (simp add: Recut_def)
  qed
qed

definition demo_cut :: "unit cut_env" where
  "demo_cut = \<lparr>ce_cut = \<lambda>m ps. \<lparr>cut_call = Panicked ''index'', cut_model = m, cut_out = [], cut_dst_err = None\<rparr>,
     ce_ctx_write = None, ce_spent = False, ce_ctx = None\<rparr>"

lemma demo_cut_panics: "WritePart demo_cut [1] demo_doc = (Some (ErrPanic ''index''), [], demo_doc\<lparr>doc_failed := Some (ErrPanic ''index'')\<rparr>)"
  by (simp add: WritePart_def demo_cut_def demo_doc_def checkPages_def guard_def split_classify_def)

lemma recut_gives_back_witness:
  "snd (snd (the (Recut demo_open demo_cut [1] \<lparr>ch_cap = 1, ch_len = 0\<rparr>))) = \<lparr>ch_cap = 1, ch_len = 0\<rparr>"
proof -
  obtain s' where "Recut demo_open demo_cut [1] \<lparr>ch_cap = 1, ch_len = 0\<rparr> = Some (Some (ErrPanic ''index''), [], s')"
    by (simp only: Recut_def demo_opened demo_cut_panics option.case prod.case sum.case)
  with recut_gives_back [OF this] show ?thesis by simp
qed

text \<open>The contract of \<open>WritePart\<close>: pages that are not strictly ascending within the document are
  refused before pdfcpu sees them; when the caller's context has ended, a failing cut is reported as
  that and as nothing else; and once a cut has panicked, every later cut of the document gives that
  panic, so a half-changed model is never cut again.\<close>

theorem write_part_contract:
  assumes "doc_pdf d = Some m" and "doc_failed d = None" and "WritePart v pages d = (err, out, d')"
  shows "(\<not> (pages \<noteq> [] \<and> sorted_wrt (<) pages \<and> (\<forall>p \<in> set pages. 1 \<le> p \<and> p \<le> doc_PageCount d)) \<longrightarrow>
        (\<exists>msg. err = Some (BadPages msg)) \<and> out = [] \<and> d' = d)
    \<and> (pages \<noteq> [] \<and> sorted_wrt (<) pages \<and> (\<forall>p \<in> set pages. 1 \<le> p \<and> p \<le> doc_PageCount d) \<longrightarrow>
        (err = None \<longleftrightarrow> (\<exists>u. cut_call (ce_cut v m pages) = Returned (Inr u)))
        \<and> (\<forall>e. ce_ctx_write v = Some e \<and> ce_ctx v = Some e \<and> err \<noteq> None \<longrightarrow> err = Some (CtxError e))
        \<and> (\<forall>p. cut_call (ce_cut v m pages) = Panicked p \<longrightarrow>
              (\<forall>v' pages'. WritePart v' pages' d' = (Some (ErrPanic p), [], d'))))"
proof (cases "checkPages pages (doc_PageCount d)")
  case (Some msg)
  then have "\<not> (pages \<noteq> [] \<and> sorted_wrt (<) pages \<and> (\<forall>p \<in> set pages. 1 \<le> p \<and> p \<le> doc_PageCount d))"
    using checkPages_ok [of pages "doc_PageCount d"] by auto
  moreover have "err = Some (BadPages msg)" "out = []" "d' = d"
    using assms Some by (simp_all add: WritePart_def)
  ultimately show ?thesis by blast
next
  case None
  let ?r = "ce_cut v m pages"
  have good: "pages \<noteq> [] \<and> sorted_wrt (<) pages \<and> (\<forall>p \<in> set pages. 1 \<le> p \<and> p \<le> doc_PageCount d)"
    using None checkPages_ok by blast
  have "err = None \<longleftrightarrow> (\<exists>u. cut_call ?r = Returned (Inr u))"
    using assms None by (cases "cut_call ?r"; cases "guard (cut_call ?r)"; cases "cut_dst_err ?r")
      (auto simp: WritePart_def Let_def guard_def split: if_splits)
  moreover have "err = Some (CtxError e)" if "ce_ctx_write v = Some e" "ce_ctx v = Some e" "err \<noteq> None" for e
    using assms None that by (cases "guard (cut_call ?r)"; cases "cut_dst_err ?r")
      (auto simp: WritePart_def Let_def split_classify_def)
  moreover have "WritePart v' pages' d' = (Some (ErrPanic p), [], d')" if "cut_call ?r = Panicked p" for p v' pages'
  proof -
    have "doc_failed d' = Some (ErrPanic p)" "doc_pdf d' \<noteq> None"
      using assms None that by (cases "cut_dst_err ?r"; auto simp: WritePart_def Let_def guard_def split: if_splits)+
    then show ?thesis by (auto simp: WritePart_def)
  qed
  ultimately show ?thesis using good by blast
qed

lemma write_part_contract_witness:
  "WritePart demo_cut [2] (demo_doc\<lparr>doc_failed := Some (ErrPanic ''index'')\<rparr>)
     = (Some (ErrPanic ''index''), [], demo_doc\<lparr>doc_failed := Some (ErrPanic ''index'')\<rparr>)"
  using write_part_contract [OF _ _ demo_cut_panics, of "demo_pdf\<lparr>Names := []\<rparr>"]
  by (simp add: demo_doc_def demo_cut_def)

end
