(* ===== verification/Metrics.thy ===== *)
theory Metrics
  imports Complex_Main Prelude
begin

text \<open>
  The engine's counters, \<open>internal/engine/metrics.go\<close>: fixed-bucket histograms and labelled counters.
  Every method is one critical section of the mutex. Observations are floats, read as reals (NaN is
  not modelled: durations and part counts are never NaN).
\<close>

definition histogramBounds :: "real list" where
  "histogramBounds = [0.25, 0.5, 1, 2, 5, 10, 30, 60, 120, 300]"

definition partOutcomes :: "string list" where
  "partOutcomes = [''succeeded'', ''retried'', ''halved'', ''hedged'', ''hedge_won'', ''rechecked'']"

definition fallbackReasons :: "string list" where
  "fallbackReasons = [''unparseable'', ''encrypted'', ''budget'', ''panic'', ''pages_param'',
     ''string_index_type'', ''merge_check'']"

record histogram =
  h_counts :: "int list"
  h_sum :: real
  h_count :: int

definition new_histogram :: histogram where
  "new_histogram = \<lparr>h_counts = replicate (length histogramBounds) 0, h_sum = 0, h_count = 0\<rparr>"

text \<open>\<open>slices.BinarySearch\<close> on ascending bounds: the first position whose bound is not below \<open>v\<close>.\<close>

definition bucket_of :: "real list \<Rightarrow> real \<Rightarrow> nat" where
  "bucket_of bs v = length (takeWhile (\<lambda>b. b < v) bs)"

definition observe :: "real \<Rightarrow> histogram \<Rightarrow> histogram" where
  "observe v h =
     (let h1 = h\<lparr>h_sum := h_sum h + v, h_count := h_count h + 1\<rparr>;
          i = bucket_of histogramBounds v
      in if i < length histogramBounds
         then h1\<lparr>h_counts := (h_counts h1)[i := h_counts h1 ! i + 1]\<rparr> else h1)"

fun cumulate :: "int \<Rightarrow> int list \<Rightarrow> int list" where
  "cumulate run [] = []"
| "cumulate run (c # cs) = (run + c) # cumulate (run + c) cs"

record hist_snapshot =
  hs_Bounds :: "real list"
  hs_Counts :: "int list"
  hs_Sum :: real
  hs_Count :: int

definition snapshot :: "histogram \<Rightarrow> hist_snapshot" where
  "snapshot h = \<lparr>hs_Bounds = histogramBounds, hs_Counts = cumulate 0 (h_counts h), hs_Sum = h_sum h,
     hs_Count = h_count h\<rparr>"

record metrics =
  m_partSecs :: histogram
  m_jobParts :: histogram
  m_mergeSecs :: histogram
  m_parts :: "string \<Rightarrow> int option"
  m_splitFallbacks :: "string \<Rightarrow> int option"
  m_retries :: "string \<Rightarrow> int option"
  m_exhausted :: int

definition NewMetrics :: metrics where
  "NewMetrics = \<lparr>m_partSecs = new_histogram, m_jobParts = new_histogram, m_mergeSecs = new_histogram,
     m_parts = (\<lambda>k. if k \<in> set partOutcomes then Some 0 else None),
     m_splitFallbacks = (\<lambda>k. if k \<in> set fallbackReasons then Some 0 else None),
     m_retries = (\<lambda>k. None), m_exhausted = 0\<rparr>"

text \<open>\<open>m[k]++\<close> on a Go map.\<close>

definition bump :: "string \<Rightarrow> (string \<Rightarrow> int option) \<Rightarrow> (string \<Rightarrow> int option)" where
  "bump k m = m(k \<mapsto> (case m k of None \<Rightarrow> 0 | Some n \<Rightarrow> n) + 1)"

definition met_part :: "string \<Rightarrow> metrics \<Rightarrow> metrics" where
  "met_part oc m = m\<lparr>m_parts := bump oc (m_parts m)\<rparr>"

definition met_fallback :: "string \<Rightarrow> metrics \<Rightarrow> metrics" where
  "met_fallback r m = m\<lparr>m_splitFallbacks := bump r (m_splitFallbacks m)\<rparr>"

definition met_retry :: "string \<Rightarrow> metrics \<Rightarrow> metrics" where
  "met_retry r m = m\<lparr>m_retries := bump r (m_retries m)\<rparr>"

definition met_exhaust :: "metrics \<Rightarrow> metrics" where
  "met_exhaust m = m\<lparr>m_exhausted := m_exhausted m + 1\<rparr>"

definition met_partSeconds :: "real \<Rightarrow> metrics \<Rightarrow> metrics" where
  "met_partSeconds d m = m\<lparr>m_partSecs := observe d (m_partSecs m)\<rparr>"

definition met_jobPartCount :: "int \<Rightarrow> metrics \<Rightarrow> metrics" where
  "met_jobPartCount n m = m\<lparr>m_jobParts := observe (real_of_int n) (m_jobParts m)\<rparr>"

definition met_mergeSeconds :: "real \<Rightarrow> metrics \<Rightarrow> metrics" where
  "met_mergeSeconds d m = m\<lparr>m_mergeSecs := observe d (m_mergeSecs m)\<rparr>"

section \<open>Lemmas\<close>

lemma bounds_sorted: "sorted histogramBounds"
  by (simp add: histogramBounds_def)

lemma bucket_le:
  assumes "sorted bs" and "i < length bs"
  shows "bucket_of bs v \<le> i \<longleftrightarrow> v \<le> bs ! i"
proof
  assume "v \<le> bs ! i"
  then show "bucket_of bs v \<le> i"
    unfolding bucket_of_def using assms(2) by (metis linorder_not_less nth_mem set_takeWhileD takeWhile_nth)
next
  assume le: "bucket_of bs v \<le> i"
  then have "bucket_of bs v < length bs" using assms(2) by simp
  then have "\<not> bs ! bucket_of bs v < v" unfolding bucket_of_def by (rule nth_length_takeWhile)
  moreover have "bs ! bucket_of bs v \<le> bs ! i" using assms le by (simp add: sorted_nth_mono)
  ultimately show "v \<le> bs ! i" by simp
qed

lemma cumulate_nth:
  "i < length cs \<Longrightarrow> cumulate run cs ! i = run + sum_list (take (Suc i) cs)"
proof (induction cs arbitrary: run i)
  case (Cons c cs)
  then show ?case by (cases i) auto
qed simp

lemma cumulate_length [simp]: "length (cumulate run cs) = length cs"
  by (induction cs arbitrary: run) auto

lemma take_update_sum:
  "i < length (cs :: int list) \<Longrightarrow>
   sum_list (take k (cs[i := cs ! i + 1])) = sum_list (take k cs) + (if i < k then 1 else 0)"
proof (induction cs arbitrary: i k)
  case (Cons c cs)
  then show ?case by (cases i; cases k) auto
qed simp

text \<open>The abstract histogram: the observations, newest first.\<close>

definition hist_of :: "real list \<Rightarrow> histogram \<Rightarrow> bool" where
  "hist_of vs h \<longleftrightarrow> length (h_counts h) = length histogramBounds
     \<and> (\<forall>i < length histogramBounds. sum_list (take (Suc i) (h_counts h))
          = int (length (filter (\<lambda>v. v \<le> histogramBounds ! i) vs)))
     \<and> h_sum h = sum_list vs \<and> h_count h = int (length vs)"

lemma hist_of_new: "hist_of [] new_histogram"
  by (simp add: hist_of_def new_histogram_def sum_list_replicate)

lemma hist_of_observe:
  assumes "hist_of vs h" shows "hist_of (v # vs) (observe v h)"
proof -
  let ?i = "bucket_of histogramBounds v"
  have len: "length (h_counts h) = length histogramBounds" using assms by (simp add: hist_of_def)
  have sums: "sum_list (take (Suc k) (h_counts (observe v h))) =
      sum_list (take (Suc k) (h_counts h)) + (if v \<le> histogramBounds ! k then 1 else 0)"
    if "k < length histogramBounds" for k
    using that len bucket_le [OF bounds_sorted that, of v] take_update_sum [of ?i "h_counts h" "Suc k"]
    by (auto simp: observe_def Let_def less_Suc_eq_le)
  have "length (h_counts (observe v h)) = length histogramBounds" using len by (simp add: observe_def Let_def)
  moreover have "h_sum (observe v h) = h_sum h + v" "h_count (observe v h) = h_count h + 1"
    by (simp_all add: observe_def Let_def)
  ultimately show ?thesis using assms sums by (auto simp: hist_of_def)
qed

lemma hist_of_fold: "hist_of vs h \<Longrightarrow> hist_of (rev ws @ vs) (fold observe ws h)"
proof (induction ws arbitrary: vs h)
  case (Cons w ws)
  from Cons.IH [OF hist_of_observe [OF Cons.prems, of w]] show ?case by simp
qed simp

section \<open>Properties\<close>

text \<open>A histogram's snapshot is what Prometheus means by it: after any observations, bucket \<open>i\<close>
  counts those not above its bound, and the sum and the count are over all of them.\<close>

theorem histogram_snapshot:
  "hs_Count (snapshot (fold observe vs new_histogram)) = int (length vs)
   \<and> hs_Sum (snapshot (fold observe vs new_histogram)) = sum_list vs
   \<and> hs_Counts (snapshot (fold observe vs new_histogram))
       = map (\<lambda>b. int (length (filter (\<lambda>v. v \<le> b) vs))) histogramBounds"
proof -
  let ?h = "fold observe vs new_histogram"
  have h: "hist_of (rev vs) ?h" using hist_of_fold [OF hist_of_new, of vs] by simp
  have "hs_Counts (snapshot ?h) ! i = int (length (filter (\<lambda>v. v \<le> histogramBounds ! i) vs))"
    if "i < length histogramBounds" for i
    using h that cumulate_nth [of i "h_counts ?h" 0]
    by (simp add: snapshot_def hist_of_def rev_filter [symmetric])
  moreover have "length (hs_Counts (snapshot ?h)) = length histogramBounds"
    using h by (simp add: snapshot_def hist_of_def)
  ultimately have "hs_Counts (snapshot ?h) = map (\<lambda>b. int (length (filter (\<lambda>v. v \<le> b) vs))) histogramBounds"
    by (intro nth_equalityI) auto
  with h show ?thesis by (simp add: snapshot_def hist_of_def sum_list_rev)
qed

end
