(* ===== verification/Hedge.thy ===== *)
theory Hedge
  imports Upstream Metrics "HOL-Library.Multiset"
begin

text \<open>
  One hedged part attempt, \<open>internal/engine/hedge.go\<close>: the ring of recent part durations and the delay it
  gives, and the select loop of \<open>hedged\<close> over its two calls, the timer and the idle slot. The loop is
  a state machine fed by events in the order the select sees them.
\<close>

section \<open>The delay\<close>

definition HedgeMin :: int where "HedgeMin = 5 * second"
definition HedgeMax :: int where "HedgeMax = 30 * second"
definition HedgeFactor :: int where "HedgeFactor = 4"
definition HedgeSamples :: nat where "HedgeSamples = 200"
definition HedgeMinSample :: nat where "HedgeMinSample = 20"

record ring_buf =
  rb_buf :: "int list"
  rb_n :: nat
  rb_next :: nat

definition ring0 :: ring_buf where
  "ring0 = \<lparr>rb_buf = replicate HedgeSamples 0, rb_n = 0, rb_next = 0\<rparr>"

definition ring_add :: "int \<Rightarrow> ring_buf \<Rightarrow> ring_buf" where
  "ring_add d r =
     r\<lparr>rb_buf := (rb_buf r)[rb_next r := d],
       rb_next := (rb_next r + 1) mod HedgeSamples,
       rb_n := min (rb_n r + 1) HedgeSamples\<rparr>"

definition median_of :: "int list \<Rightarrow> int" where
  "median_of s =
     (if even (length s) then go_div (s ! (length s div 2 - 1) + s ! (length s div 2)) 2
      else s ! (length s div 2))"

definition ring_delay :: "ring_buf \<Rightarrow> int" where
  "ring_delay r =
     (if rb_n r < HedgeMinSample then HedgeMax
      else min (max (HedgeFactor * median_of (sort (take (rb_n r) (rb_buf r)))) HedgeMin) HedgeMax)"

section \<open>The race\<close>

text \<open>
  \<open>Racing\<close>: no call has succeeded. \<open>Draining\<close>: one has (a hedge or not), the other call is cancelled
  and waited for. \<open>Finished\<close>: the attempt returned.
\<close>

datatype race = Racing "attempt option" | Draining attempt bool int | Finished attempt

record hedge_state =
  hg_race :: race
  hg_first :: bool       \<comment> \<open>the first call is running\<close>
  hg_hedge :: bool       \<comment> \<open>the duplicate is running\<close>
  hg_timer :: bool       \<comment> \<open>\<open>hedgeAt\<close> is not nil\<close>
  hg_hedges :: nat       \<comment> \<open>what this attempt added to the tally's hedges\<close>
  hg_slots :: nat        \<comment> \<open>slots it holds\<close>
  hg_files :: files      \<comment> \<open>the scratch directory\<close>
  hg_samples :: ring_buf
  hg_metrics :: metrics

text \<open>The caller holds a slot for the first call.\<close>

definition hedge_start :: "files \<Rightarrow> ring_buf \<Rightarrow> metrics \<Rightarrow> hedge_state" where
  "hedge_start fs sm m =
     \<lparr>hg_race = Racing None, hg_first = True, hg_hedge = False, hg_timer = True, hg_hedges = 0,
      hg_slots = 1, hg_files = fs, hg_samples = sm, hg_metrics = m\<rparr>"

definition running :: "hedge_state \<Rightarrow> nat" where
  "running s = (if hg_first s then 1 else 0) + (if hg_hedge s then 1 else 0)"

text \<open>The timer fires (and \<open>TryAcquireIdle\<close> gives a slot or not); a call answers: the first or the
  duplicate, with its attempt, the directory it left, and how long it took.\<close>

datatype hedge_event = HTimer bool | HAnswer bool attempt files int

definition is_running :: "bool \<Rightarrow> hedge_state \<Rightarrow> bool" where
  "is_running hedge s = (if hedge then hg_hedge s else hg_first s)"

text \<open>The goroutine's end: the slot is given back, then the answer is delivered.\<close>

definition call_ended :: "bool \<Rightarrow> files \<Rightarrow> hedge_state \<Rightarrow> hedge_state" where
  "call_ended hedge fs s =
     (let s1 = (if hedge then s\<lparr>hg_hedge := False\<rparr> else s\<lparr>hg_first := False\<rparr>)
      in s1\<lparr>hg_slots := hg_slots s - 1, hg_files := fs\<rparr>)"

definition won :: "attempt \<Rightarrow> bool \<Rightarrow> int \<Rightarrow> hedge_state \<Rightarrow> hedge_state" where
  "won a hedge took s =
     s\<lparr>hg_race := Finished a, hg_samples := ring_add took (hg_samples s),
       hg_metrics := met_partSeconds (real_of_int took / real_of_int second)
         (if hedge then met_part ''hedge_won'' (hg_metrics s) else hg_metrics s)\<rparr>"

fun hedge_step :: "hedge_event \<Rightarrow> hedge_state \<Rightarrow> hedge_state option" where
  "hedge_step (HTimer idle) s =
     (case hg_race s of
        Racing l \<Rightarrow>
          if \<not> hg_timer s then None
          else if idle then
            Some (s\<lparr>hg_timer := False, hg_hedge := True, hg_hedges := hg_hedges s + 1,
                    hg_slots := hg_slots s + 1, hg_metrics := met_part ''hedged'' (hg_metrics s)\<rparr>)
          else Some (s\<lparr>hg_timer := False\<rparr>)
      | _ \<Rightarrow> None)"
| "hedge_step (HAnswer hedge a fs took) s =
     (if \<not> is_running hedge s then None
      else let s1 = call_ended hedge fs s in
        case hg_race s of
          Racing l \<Rightarrow>
            if at_Outcome a = Success then
              (if running s1 = 0 then Some (won a hedge took s1)
               else Some (s1\<lparr>hg_race := Draining a hedge took\<rparr>))
            else if running s1 = 0 then Some (s1\<lparr>hg_race := Finished a\<rparr>)
            else Some (s1\<lparr>hg_race := Racing (Some a)\<rparr>)
        | Draining w wh tk \<Rightarrow>
            Some (won w wh tk (s1\<lparr>hg_files := snd (Cleanup (at_Result a) fs)\<rparr>))
        | Finished r \<Rightarrow> None)"

section \<open>The ring holds the latest samples\<close>

text \<open>Reading the buffer from the oldest sample on.\<close>

definition in_order :: "ring_buf \<Rightarrow> int list" where
  "in_order r = (if rb_n r < HedgeSamples then take (rb_n r) (rb_buf r)
                 else drop (rb_next r) (rb_buf r) @ take (rb_next r) (rb_buf r))"

definition ring_ok :: "ring_buf \<Rightarrow> bool" where
  "ring_ok r \<longleftrightarrow> length (rb_buf r) = HedgeSamples \<and> rb_n r \<le> HedgeSamples
     \<and> (rb_n r < HedgeSamples \<longrightarrow> rb_next r = rb_n r) \<and> rb_next r < HedgeSamples"

definition latest :: "nat \<Rightarrow> 'a list \<Rightarrow> 'a list" where
  "latest n xs = drop (length xs - n) xs"

lemma latest_snoc: "0 < n \<Longrightarrow> latest n (latest n xs @ [x]) = latest n (xs @ [x])"
  by (cases "length xs < n") (auto simp: latest_def Suc_diff_le not_less)

lemma ring_add_ok: "ring_ok r \<Longrightarrow> ring_ok (ring_add d r)"
  by (auto simp: ring_ok_def ring_add_def HedgeSamples_def)

lemma ring_add_order:
  assumes "ring_ok r"
  shows "in_order (ring_add d r) = latest HedgeSamples (in_order r @ [d])"
proof -
  let ?b = "rb_buf r" and ?k = "rb_next r"
  have ok: "length ?b = HedgeSamples" "?k < HedgeSamples" "rb_n r \<le> HedgeSamples"
    "rb_n r < HedgeSamples \<Longrightarrow> ?k = rb_n r" using assms by (auto simp: ring_ok_def)
  have upd: "take (Suc ?k) (?b[?k := d]) = take ?k ?b @ [d]" "drop (Suc ?k) (?b[?k := d]) = drop (Suc ?k) ?b"
    using ok by (simp_all add: take_Suc_conv_app_nth)
  consider (grow) "Suc (rb_n r) < HedgeSamples" | (full) "Suc (rb_n r) = HedgeSamples" | (wrap) "rb_n r = HedgeSamples"
    using ok(3) by linarith
  then show ?thesis
  proof cases
    case grow
    then show ?thesis using ok upd by (simp add: in_order_def ring_add_def latest_def)
  next
    case full
    then have k: "Suc ?k = HedgeSamples" using ok by simp
    then have "take (Suc ?k) (?b[?k := d]) = ?b[?k := d]" using ok by simp
    then show ?thesis using full k ok upd by (simp add: in_order_def ring_add_def latest_def)
  next
    case wrap
    have d: "drop ?k ?b = (?b ! ?k) # drop (Suc ?k) ?b" using ok by (simp add: Cons_nth_drop_Suc)
    show ?thesis
    proof (cases "Suc ?k = HedgeSamples")
      case True
      then have "take (Suc ?k) (?b[?k := d]) = ?b[?k := d]" using ok by simp
      then show ?thesis using wrap True ok upd d by (simp add: in_order_def ring_add_def latest_def)
    next
      case False
      then have "Suc ?k < HedgeSamples" using ok by simp
      then show ?thesis using wrap ok upd d by (simp add: in_order_def ring_add_def latest_def)
    qed
  qed
qed

lemma in_order_sorted:
  assumes "ring_ok r" shows "sort (take (rb_n r) (rb_buf r)) = sort (in_order r)"
proof (cases "rb_n r < HedgeSamples")
  case False
  then have n: "take (rb_n r) (rb_buf r) = rb_buf r" using assms by (simp add: ring_ok_def)
  have "sort (drop k xs @ take k xs) = sort xs" for k and xs :: "int list"
  proof (rule properties_for_sort)
    show "mset (sort xs) = mset (drop k xs @ take k xs)"
      by (metis append_take_drop_id mset_append mset_sort union_commute)
  qed simp
  with False n show ?thesis by (simp add: in_order_def)
qed (simp add: in_order_def)

lemma in_order_length: "ring_ok r \<Longrightarrow> length (in_order r) = rb_n r"
  by (auto simp: in_order_def ring_ok_def)

lemma ring_after:
  "ring_ok (fold ring_add ds ring0) \<and> in_order (fold ring_add ds ring0) = latest HedgeSamples ds"
proof (induction ds rule: rev_induct)
  case Nil
  then show ?case by (simp add: ring_ok_def ring0_def in_order_def latest_def HedgeSamples_def)
next
  case (snoc d ds)
  then show ?case
    by (simp add: ring_add_ok ring_add_order latest_snoc HedgeSamples_def [THEN arg_cong [of _ _ "\<lambda>n. 0 < n"]])
qed

section \<open>What the race keeps\<close>

text \<open>
  A call that ends answers with a well-formed attempt and leaves in the directory what \<open>Do\<close> says: only
  a success's file, one that was not there (\<open>Upstream.Do_ok\<close>, \<open>Upstream.Do_files\<close>).
\<close>

fun event_ok :: "base \<Rightarrow> hedge_event \<Rightarrow> hedge_state \<Rightarrow> bool" where
  "event_ok b (HTimer idle) s = True"
| "event_ok b (HAnswer h a fs took) s = (attempt_ok a \<and> left_file b a (hg_files s) fs)"

inductive hedge_reach :: "base \<Rightarrow> hedge_state \<Rightarrow> attempt list \<Rightarrow> hedge_state \<Rightarrow> bool"
  for b :: base and s0 :: hedge_state where
  hr_start: "hedge_reach b s0 [] s0"
| hr_timer: "hedge_reach b s0 as s \<Longrightarrow> hedge_step (HTimer idle) s = Some t \<Longrightarrow> hedge_reach b s0 as t"
| hr_answer: "hedge_reach b s0 as s \<Longrightarrow> event_ok b (HAnswer h a fs took) s \<Longrightarrow>
    hedge_step (HAnswer h a fs took) s = Some t \<Longrightarrow> hedge_reach b s0 (as @ [a]) t"

text \<open>The invariant, with the directory \<open>fs0\<close> the attempt began with and the answers so far.\<close>

definition race_inv :: "base \<Rightarrow> files \<Rightarrow> attempt list \<Rightarrow> hedge_state \<Rightarrow> bool" where
  "race_inv b fs0 as s \<longleftrightarrow>
     (case hg_race s of
        Racing l \<Rightarrow> running s \<ge> 1 \<and> hg_files s = fs0 \<and> l = (if as = [] then None else Some (last as))
          \<and> (\<forall>a \<in> set as. at_Outcome a \<noteq> Success)
      | Draining w h tk \<Rightarrow> running s = 1 \<and> at_Outcome w = Success \<and> attempt_ok w \<and> left_file b w fs0 (hg_files s)
          \<and> find (\<lambda>a. at_Outcome a = Success) as = Some w
      | Finished a \<Rightarrow> running s = 0 \<and> attempt_ok a \<and> left_file b a fs0 (hg_files s)
          \<and> as \<noteq> [] \<and> (case find (\<lambda>a. at_Outcome a = Success) as of Some w \<Rightarrow> a = w | None \<Rightarrow> a = last as))
     \<and> hg_slots s = running s \<and> (hg_timer s \<longrightarrow> hg_hedges s = 0 \<and> \<not> hg_hedge s) \<and> hg_hedges s \<le> 1
     \<and> length as + running s = 1 + hg_hedges s"

lemma left_file_none: "left_file b a fs fs' \<Longrightarrow> attempt_ok a \<Longrightarrow> at_Outcome a \<noteq> Success \<Longrightarrow> fs' = fs"
  by (auto simp: left_file_def attempt_ok_def)

lemma left_file_cleanup: "left_file b a fs fs' \<Longrightarrow> snd (Cleanup (at_Result a) fs') = fs"
  by (auto simp: left_file_def Cleanup_def split: option.splits)

lemma find_snoc: "find P (xs @ [x]) = (case find P xs of Some y \<Rightarrow> Some y | None \<Rightarrow> if P x then Some x else None)"
  by (induction xs) auto

lemma running_ended:
  "is_running h s \<Longrightarrow> running (call_ended h fs s) = running s - 1 \<and> hg_slots (call_ended h fs s) = hg_slots s - 1
     \<and> hg_files (call_ended h fs s) = fs \<and> hg_timer (call_ended h fs s) = hg_timer s
     \<and> hg_hedges (call_ended h fs s) = hg_hedges s \<and> hg_race (call_ended h fs s) = hg_race s
     \<and> (hg_hedge (call_ended h fs s) \<longrightarrow> hg_hedge s) \<and> 0 < running s"
  by (cases h) (auto simp: is_running_def running_def call_ended_def Let_def)

lemma won_simps [simp]:
  "hg_race (won a h tk s) = Finished a" "running (won a h tk s) = running s" "hg_slots (won a h tk s) = hg_slots s"
  "hg_timer (won a h tk s) = hg_timer s" "hg_hedges (won a h tk s) = hg_hedges s"
  "hg_files (won a h tk s) = hg_files s" "hg_hedge (won a h tk s) = hg_hedge s"
  by (simp_all add: won_def running_def)

lemma running_race [simp]:
  "running (s\<lparr>hg_race := r\<rparr>) = running s" "running (s\<lparr>hg_files := f\<rparr>) = running s"
  by (simp_all add: running_def)

lemma race_inv_timer:
  assumes "race_inv b fs0 as s" and "hedge_step (HTimer idle) s = Some t"
  shows "race_inv b fs0 as t"
proof -
  from assms(2) obtain l where l: "hg_race s = Racing l" and tm: "hg_timer s"
    by (auto split: race.splits if_splits)
  have h: "hg_hedges s = 0" "\<not> hg_hedge s" using assms(1) tm by (simp_all add: race_inv_def)
  show ?thesis
    using assms l tm h by (cases idle) (auto simp: race_inv_def running_def)
qed

lemma race_inv_answer:
  assumes inv: "race_inv b fs0 as s" and ok: "event_ok b (HAnswer h a fs took) s"
    and step: "hedge_step (HAnswer h a fs took) s = Some t"
  shows "race_inv b fs0 (as @ [a]) t"
proof -
  let ?s1 = "call_ended h fs s"
  from step have run: "is_running h s" by (auto split: if_splits)
  note re = running_ended [OF run, of fs]
  from ok have a: "attempt_ok a" "left_file b a (hg_files s) fs" by simp_all
  have base: "hg_slots s = running s" "hg_timer s \<Longrightarrow> hg_hedges s = 0 \<and> \<not> hg_hedge s" "hg_hedges s \<le> 1"
    "length as + running s = 1 + hg_hedges s" using inv by (auto simp: race_inv_def)
  have tm: "hg_timer s \<Longrightarrow> \<not> hg_hedge ?s1" using base(2) re by blast
  have rest: "hg_slots t = running t \<and> (hg_timer t \<longrightarrow> hg_hedges t = 0 \<and> \<not> hg_hedge t) \<and> hg_hedges t \<le> 1
      \<and> length (as @ [a]) + running t = 1 + hg_hedges t"
    if "running t = running ?s1" "hg_slots t = hg_slots ?s1" "hg_timer t = hg_timer ?s1"
      "hg_hedges t = hg_hedges ?s1" "hg_hedge t = hg_hedge ?s1"
    using that re base tm by auto
  show ?thesis
  proof (cases "hg_race s")
    case (Racing l)
    with inv have i: "hg_files s = fs0" "\<forall>x \<in> set as. at_Outcome x \<noteq> Success" by (auto simp: race_inv_def)
    then have none: "find (\<lambda>x. at_Outcome x = Success) as = None" by (auto simp: find_None_iff)
    consider (w) "at_Outcome a = Success" "running ?s1 = 0" | (d) "at_Outcome a = Success" "running ?s1 \<noteq> 0"
      | (f) "at_Outcome a \<noteq> Success" "running ?s1 = 0" | (r) "at_Outcome a \<noteq> Success" "running ?s1 \<noteq> 0" by blast
    then show ?thesis
    proof cases
      case w
      with Racing step run have t: "t = won a h took ?s1" by (simp add: Let_def)
      with rest have "hg_slots t = running t \<and> (hg_timer t \<longrightarrow> hg_hedges t = 0 \<and> \<not> hg_hedge t) \<and> hg_hedges t \<le> 1
        \<and> length (as @ [a]) + running t = 1 + hg_hedges t" by simp
      with t w a i none re show ?thesis by (simp add: race_inv_def find_snoc)
    next
      case d
      with Racing step run have t: "t = ?s1\<lparr>hg_race := Draining a h took\<rparr>" by (simp add: Let_def)
      with rest have "hg_slots t = running t \<and> (hg_timer t \<longrightarrow> hg_hedges t = 0 \<and> \<not> hg_hedge t) \<and> hg_hedges t \<le> 1
        \<and> length (as @ [a]) + running t = 1 + hg_hedges t" by simp
      moreover from this have "running t \<le> 1" by simp
      then have "running t = 1" using t d(2) by simp
      moreover from this have "Suc (length as) = hg_hedges s" using t re base(4) by simp
      ultimately show ?thesis using t d(1) a i none re by (simp add: race_inv_def find_snoc)
    next
      case f
      with Racing step run have t: "t = ?s1\<lparr>hg_race := Finished a\<rparr>" by (simp add: Let_def)
      with rest have "hg_slots t = running t \<and> (hg_timer t \<longrightarrow> hg_hedges t = 0 \<and> \<not> hg_hedge t) \<and> hg_hedges t \<le> 1
        \<and> length (as @ [a]) + running t = 1 + hg_hedges t" by simp
      with t f a i none re show ?thesis by (simp add: race_inv_def find_snoc)
    next
      case r
      with Racing step run have t: "t = ?s1\<lparr>hg_race := Racing (Some a)\<rparr>" by (simp add: Let_def)
      with rest have "hg_slots t = running t \<and> (hg_timer t \<longrightarrow> hg_hedges t = 0 \<and> \<not> hg_hedge t) \<and> hg_hedges t \<le> 1
        \<and> length (as @ [a]) + running t = 1 + hg_hedges t" by simp
      moreover have "fs = fs0" using r a i left_file_none by blast
      ultimately show ?thesis using t r i re by (simp add: race_inv_def)
    qed
  next
    case (Draining w wh tk)
    with inv have i: "running s = 1" "at_Outcome w = Success" "attempt_ok w" "left_file b w fs0 (hg_files s)"
      "find (\<lambda>x. at_Outcome x = Success) as = Some w" by (auto simp: race_inv_def)
    have cl: "snd (Cleanup (at_Result a) fs) = hg_files s" using left_file_cleanup [OF a(2)] .
    from Draining step run have t: "t = won w wh tk (?s1\<lparr>hg_files := snd (Cleanup (at_Result a) fs)\<rparr>)" by (simp add: Let_def)
    with rest have "hg_slots t = running t \<and> (hg_timer t \<longrightarrow> hg_hedges t = 0 \<and> \<not> hg_hedge t) \<and> hg_hedges t \<le> 1
      \<and> length (as @ [a]) + running t = 1 + hg_hedges t" by simp
    with t i cl re show ?thesis by (simp add: race_inv_def find_snoc)
  next
    case (Finished r)
    with step run show ?thesis by (simp add: Let_def)
  qed
qed

lemma race_inv_start: "race_inv b fs [] (hedge_start fs sm m)"
  by (simp add: race_inv_def hedge_start_def running_def)

lemma race_inv_reach: "hedge_reach b (hedge_start fs sm m) as s \<Longrightarrow> race_inv b fs as s"
  by (induction rule: hedge_reach.induct) (auto intro: race_inv_start race_inv_timer race_inv_answer simp del: hedge_step.simps event_ok.simps)

section \<open>Properties\<close>

text \<open>C26. A hedged attempt, in every order its timer and its calls can fire: when it returns, no call is
  running and every slot is back; it made one call, or two with a hedge, and all of them have
  answered; it returns the first success if there was one and otherwise the last failure; and the
  scratch directory holds the returned result's file and nothing of the loser's.\<close>

theorem hedged_returns:
  assumes "hedge_reach b (hedge_start fs sm m) as s" and "hg_race s = Finished a"
  shows "running s = 0 \<and> hg_slots s = 0 \<and> length as = 1 + hg_hedges s \<and> hg_hedges s \<le> 1
    \<and> attempt_ok a \<and> left_file b a fs (hg_files s)
    \<and> (case find (\<lambda>x. at_Outcome x = Success) as of Some w \<Rightarrow> a = w | None \<Rightarrow> a = last as)"
  using race_inv_reach [OF assms(1)] assms(2) by (simp add: race_inv_def)

definition demo_failed :: attempt where
  "demo_failed = (attempt0 Retry)\<lparr>at_Err := Some (err_Internal SurfaceDI [])\<rparr>"

lemma demo_hedge_reach:
  "hedge_reach demo_base (hedge_start Map.empty ring0 NewMetrics) ([] @ [demo_failed])
     (the (hedge_step (HAnswer False demo_failed Map.empty 0) (hedge_start Map.empty ring0 NewMetrics)))"
proof (rule hr_answer [OF hr_start])
  show "event_ok demo_base (HAnswer False demo_failed Map.empty 0) (hedge_start Map.empty ring0 NewMetrics)"
    by (simp add: demo_failed_def attempt_ok_def left_file_def hedge_start_def)
  show "hedge_step (HAnswer False demo_failed Map.empty 0) (hedge_start Map.empty ring0 NewMetrics) =
    Some (the (hedge_step (HAnswer False demo_failed Map.empty 0) (hedge_start Map.empty ring0 NewMetrics)))"
    by (simp add: hedge_start_def is_running_def Let_def)
qed

lemma hedged_returns_witness:
  "hg_slots (the (hedge_step (HAnswer False demo_failed Map.empty 0) (hedge_start Map.empty ring0 NewMetrics))) = 0"
proof -
  have "hg_race (the (hedge_step (HAnswer False demo_failed Map.empty 0) (hedge_start Map.empty ring0 NewMetrics)))
      = Finished demo_failed"
    by (simp add: hedge_start_def is_running_def call_ended_def running_def Let_def demo_failed_def)
  from hedged_returns [OF demo_hedge_reach this] show ?thesis by blast
qed

text \<open>A hedged attempt cannot get stuck: until it has returned a call is running, every running
  call's answer is taken, and each answer brings the return closer, so it returns after at most two
  answers.\<close>

theorem hedged_progress:
  assumes "hedge_reach b (hedge_start fs sm m) as s" and "\<nexists>a. hg_race s = Finished a"
  shows "1 \<le> running s \<and> length as < 2
    \<and> (\<forall>h a fs' took. is_running h s \<longrightarrow> (\<exists>t. hedge_step (HAnswer h a fs' took) s = Some t \<and> running t < running s))"
proof -
  have inv: "race_inv b fs as s" using race_inv_reach [OF assms(1)] .
  then have one: "1 \<le> running s" and len: "length as + running s = 1 + hg_hedges s" "hg_hedges s \<le> 1"
    using assms(2) by (auto simp: race_inv_def split: race.splits)
  have "\<exists>t. hedge_step (HAnswer h a fs' took) s = Some t \<and> running t < running s" if "is_running h s" for h a fs' took
    using running_ended [OF that, of fs'] that assms(2) by (cases "hg_race s") (auto simp: Let_def)
  with one len show ?thesis by auto
qed

lemma hedged_progress_witness: "length ([] :: attempt list) < 2 \<and> 1 \<le> running (hedge_start Map.empty ring0 NewMetrics)"
  using hedged_progress [OF hr_start, of Map.empty ring0 NewMetrics] by (simp add: hedge_start_def)

text \<open>The hedge delay after any history of part durations: thirty seconds until there are twenty,
  then four times the median of the last two hundred, clamped to five and thirty seconds.\<close>

theorem hedge_delay_spec:
  "ring_delay (fold ring_add ds ring0) =
     (if length ds < HedgeMinSample then HedgeMax
      else min (max (HedgeFactor * median_of (sort (latest HedgeSamples ds))) HedgeMin) HedgeMax)
   \<and> HedgeMin \<le> ring_delay (fold ring_add ds ring0) \<and> ring_delay (fold ring_add ds ring0) \<le> HedgeMax"
proof -
  let ?r = "fold ring_add ds ring0"
  have r: "ring_ok ?r" "in_order ?r = latest HedgeSamples ds" using ring_after by blast+
  have n: "rb_n ?r = min (length ds) HedgeSamples"
    using in_order_length [OF r(1)] r(2) by (simp add: latest_def)
  have "rb_n ?r < HedgeMinSample \<longleftrightarrow> length ds < HedgeMinSample"
    unfolding n by (auto simp: HedgeMinSample_def HedgeSamples_def)
  with in_order_sorted [OF r(1)] r(2) show ?thesis
    by (auto simp: ring_delay_def HedgeMin_def HedgeMax_def second_def)
qed

end
