(* ===== verification/Whole.thy ===== *)
theory Whole
  imports Upstream Metrics
begin

text \<open>
  A document sent whole, \<open>internal/engine/whole.go\<close>, with the engine's shared pieces from
  \<open>engine.go\<close>: the job's tally, its query's parameters, and the errors an attempt becomes. The calls
  of a job are inputs, indexed by attempt number: what \<open>e.call\<close> gave (a context's error while
  waiting for a slot, or \<open>Do\<close>'s attempt), whether the sleep before the next one was cut short, and
  the jitter it drew.
\<close>

section \<open>Constants and the tally\<close>

definition PartTimeout :: int where "PartTimeout = 60 * second"
definition PartAttempts :: nat where "PartAttempts = 3"
definition WholeAttempts :: nat where "WholeAttempts = 5"
definition JobDeadline :: int where "JobDeadline = 60 * 60 * second"
definition retryOnceLimit :: nat where "retryOnceLimit = 2"

record tally =
  ta_attempts :: int
  ta_halvings :: int
  ta_hedges :: int
  ta_parts :: int
  ta_status :: int
  ta_fallback :: string

definition tally0 :: tally where
  "tally0 = \<lparr>ta_attempts = 0, ta_halvings = 0, ta_hedges = 0, ta_parts = 0, ta_status = 0, ta_fallback = []\<rparr>"

definition tally_attempt :: "attempt \<Rightarrow> tally \<Rightarrow> tally" where
  "tally_attempt a t =
     (let t1 = t\<lparr>ta_attempts := ta_attempts t + 1\<rparr> in
      if at_Outcome a \<noteq> Success \<and> at_Outcome a \<noteq> Cancelled \<and> at_Status a \<noteq> 0
      then t1\<lparr>ta_status := at_Status a\<rparr> else t1)"

text \<open>Errors of a run: the context's, an API error, or the gateway's own (whose text stays in the log).\<close>

datatype engine_error = EngCtx go_error | EngApi api_error | EngOwn string

definition canceled :: go_error where "canceled = Leaf ''context canceled''"

definition ctxErr :: "go_error option \<Rightarrow> go_error" where
  "ctxErr ctx = (case ctx of Some e \<Rightarrow> e | None \<Rightarrow> canceled)"

definition attemptErr :: "surface \<Rightarrow> attempt \<Rightarrow> engine_error" where
  "attemptErr srf a = (case at_Err a of None \<Rightarrow> EngApi (err_Internal srf []) | Some e \<Rightarrow> EngApi e)"

section \<open>Query parameters\<close>

text \<open>\<open>url.Values\<close> as an association list in the map's iteration order.\<close>

type_synonym query = "(string \<times> string list) list"

fun queryValues :: "query \<Rightarrow> string \<Rightarrow> string list \<times> bool" where
  "queryValues [] nm = ([], False)"
| "queryValues ((k, v) # q) nm =
     (case queryValues q nm of (vs, given) \<Rightarrow>
        if equal_fold k nm then (v @ vs, True) else (vs, given))"

definition withoutParam :: "query \<Rightarrow> string \<Rightarrow> query" where
  "withoutParam q nm = filter (\<lambda>kv. \<not> equal_fold (fst kv) nm) q"

section \<open>The attempt loop\<close>

record whole_env =
  we_call :: "nat \<Rightarrow> go_error + attempt"
  we_ctx :: "nat \<Rightarrow> go_error option"
  we_sleep :: "nat \<Rightarrow> go_error option"
  we_jitter :: "nat \<Rightarrow> real option"

text \<open>What a loop run leaves: its answer, the tally, the metrics, the attempts it made in order and
  the waits between them.\<close>

record whole_out =
  wo_answer :: "engine_error + result"
  wo_tally :: tally
  wo_metrics :: metrics
  wo_attempts :: "attempt list"
  wo_waits :: "int list"

function whole_loop :: "whole_env \<Rightarrow> surface \<Rightarrow> nat \<Rightarrow> nat \<Rightarrow> tally \<Rightarrow> metrics \<Rightarrow> attempt list \<Rightarrow> int list \<Rightarrow> whole_out" where
  "whole_loop env srf n retryOnce t m as ws =
     (case we_call env n of
        Inl e \<Rightarrow> \<lparr>wo_answer = Inl (EngCtx e), wo_tally = t, wo_metrics = m, wo_attempts = as, wo_waits = ws\<rparr>
      | Inr a \<Rightarrow>
          (let t1 = tally_attempt a t;
               stop = (\<lambda>ans m'. \<lparr>wo_answer = ans, wo_tally = t1, wo_metrics = m', wo_attempts = as @ [a], wo_waits = ws\<rparr>)
           in if at_Outcome a = Success then stop (Inr (the (at_Result a))) m
              else if at_Outcome a = Cancelled then stop (Inl (EngCtx (ctxErr (we_ctx env n)))) m
              else if at_Outcome a \<noteq> RetryOnce \<and> at_Outcome a \<noteq> Retry then stop (Inl (attemptErr srf a)) m
              else
                (let once = (if at_Outcome a = RetryOnce then retryOnce + 1 else retryOnce) in
                 if n \<ge> WholeAttempts \<or> once \<ge> retryOnceLimit then stop (Inl (attemptErr srf a)) (met_exhaust m)
                 else
                   (let m1 = met_retry (at_Reason a) m;
                        wait = Backoff (int n) (at_RetryAfter a) (we_jitter env n)
                    in case we_sleep env n of
                         Some e \<Rightarrow> \<lparr>wo_answer = Inl (EngCtx e), wo_tally = t1, wo_metrics = m1,
                                    wo_attempts = as @ [a], wo_waits = ws @ [wait]\<rparr>
                       | None \<Rightarrow> whole_loop env srf (n + 1) once t1 m1 (as @ [a]) (ws @ [wait])))))"
  by pat_completeness auto
termination
  by (relation "measure (\<lambda>(env, srf, n, rest). WholeAttempts + 1 - n)") auto

declare whole_loop.simps [simp del]

definition whole :: "whole_env \<Rightarrow> surface \<Rightarrow> tally \<Rightarrow> metrics \<Rightarrow> whole_out" where
  "whole env srf t m = whole_loop env srf 1 0 t m [] []"

section \<open>Outputs\<close>

record run_output =
  out_Path :: string
  out_Start :: int
  out_End :: int
  out_Bare :: bool
  out_Attempts :: int
  out_Parts :: int
  out_Halvings :: int
  out_Hedges :: int
  out_Fallback :: string
  out_UpstreamStatus :: int

definition failed_output :: "tally \<Rightarrow> run_output" where
  "failed_output t = \<lparr>out_Path = [], out_Start = 0, out_End = 0, out_Bare = False,
     out_Attempts = ta_attempts t, out_Parts = ta_parts t, out_Halvings = ta_halvings t,
     out_Hedges = ta_hedges t, out_Fallback = [], out_UpstreamStatus = ta_status t\<rparr>"

definition whole_output :: "result \<Rightarrow> string \<Rightarrow> run_output" where
  "whole_output r fallback = \<lparr>out_Path = res_Path r, out_Start = int (res_Start r), out_End = int (res_End r),
     out_Bare = res_Bare r, out_Attempts = 0, out_Parts = 1, out_Halvings = 0, out_Hedges = 0,
     out_Fallback = fallback, out_UpstreamStatus = 0\<rparr>"

definition runWhole :: "whole_env \<Rightarrow> surface \<Rightarrow> string \<Rightarrow> tally \<Rightarrow> metrics \<Rightarrow> (engine_error + run_output) \<times> tally \<times> metrics" where
  "runWhole env srf fallback t m =
     (let o1 = whole env srf t m in
      (case wo_answer o1 of Inl e \<Rightarrow> Inl e | Inr r \<Rightarrow> Inr (whole_output r fallback), wo_tally o1, wo_metrics o1))"

section \<open>Lemmas\<close>

definition retried :: "attempt \<Rightarrow> bool" where
  "retried a \<longleftrightarrow> at_Outcome a \<in> {Retry, RetryOnce}"

definition onces :: "attempt list \<Rightarrow> nat" where
  "onces as = length (filter (\<lambda>a. at_Outcome a = RetryOnce) as)"

text \<open>What a run of the loop promises: the calls it made, in order, and what its answer says about the
  last of them.\<close>

definition whole_post :: "whole_env \<Rightarrow> surface \<Rightarrow> int \<Rightarrow> whole_out \<Rightarrow> bool" where
  "whole_post env srf n0 w \<longleftrightarrow>
     (let as = wo_attempts w in
      length as \<le> WholeAttempts \<and> onces as \<le> retryOnceLimit
      \<and> (\<forall>i < length as. we_call env (i + 1) = Inr (as ! i))
      \<and> (\<forall>a \<in> set (butlast as). retried a)
      \<and> ta_attempts (wo_tally w) = n0 + int (length as)
      \<and> (\<forall>t \<in> set (wo_waits w). t \<le> maxBackoff)
      \<and> (case wo_answer w of
           Inr r \<Rightarrow> as \<noteq> [] \<and> at_Outcome (last as) = Success \<and> r = the (at_Result (last as))
         | Inl e \<Rightarrow>
             (case e of
                EngApi x \<Rightarrow> as \<noteq> [] \<and> attemptErr srf (last as) = EngApi x
                  \<and> at_Outcome (last as) \<notin> {Success, Cancelled}
                  \<and> (retried (last as) \<longrightarrow> length as = WholeAttempts \<or> onces as = retryOnceLimit)
              | EngCtx x \<Rightarrow> True
              | EngOwn x \<Rightarrow> False)))"

lemma tally_attempt_count [simp]: "ta_attempts (tally_attempt a t) = ta_attempts t + 1"
  by (simp add: tally_attempt_def Let_def)

lemma onces_snoc: "onces (as @ [a]) = onces as + (if at_Outcome a = RetryOnce then 1 else 0)"
  by (simp add: onces_def)

lemma Backoff_le: "Backoff n r j \<le> maxBackoff"
proof (cases "r > 0")
  case False
  have "min (backoff_loop 1 n firstBackoff) maxBackoff \<ge> 0"
    using backoff_loop_min [of firstBackoff 1 n] by (simp add: firstBackoff_def maxBackoff_def second_def)
  from floor_between [OF this] clamp_range [of j] False show ?thesis
    by (simp add: Backoff_def Let_def)
qed (simp add: Backoff_def)

lemma calls_snoc:
  "\<forall>i < length as. we_call env (i + 1) = Inr (as ! i) \<Longrightarrow> we_call env (length as + 1) = Inr a \<Longrightarrow>
   \<forall>i < length (as @ [a]). we_call env (i + 1) = Inr ((as @ [a]) ! i)"
  by (auto simp: nth_append less_Suc_eq)

lemma whole_loop_post:
  "length as + 1 = n \<Longrightarrow> n \<le> WholeAttempts \<Longrightarrow> onces as = retryOnce \<Longrightarrow> retryOnce < retryOnceLimit \<Longrightarrow>
   \<forall>i < length as. we_call env (i + 1) = Inr (as ! i) \<Longrightarrow> \<forall>a \<in> set as. retried a \<Longrightarrow>
   ta_attempts t = n0 + int (length as) \<Longrightarrow> \<forall>w \<in> set ws. w \<le> maxBackoff \<Longrightarrow>
   whole_post env srf n0 (whole_loop env srf n retryOnce t m as ws)"
proof (induction env srf n retryOnce t m as ws rule: whole_loop.induct)
  case (1 env srf n retryOnce t m as ws)
  note pre = "1.prems"
  show ?case
  proof (cases "we_call env n")
    case (Inl e)
    then have "whole_loop env srf n retryOnce t m as ws = \<lparr>wo_answer = Inl (EngCtx e), wo_tally = t,
        wo_metrics = m, wo_attempts = as, wo_waits = ws\<rparr>" by (subst whole_loop.simps) simp
    then show ?thesis using pre by (auto simp: whole_post_def Let_def dest: in_set_butlastD)
  next
    case (Inr a)
    have calls: "\<forall>i < length (as @ [a]). we_call env (i + 1) = Inr ((as @ [a]) ! i)"
      using calls_snoc [OF pre(5), of a] Inr pre(1) by simp
    have len: "length (as @ [a]) \<le> WholeAttempts" using pre(1,2) by simp
    show ?thesis
    proof (cases "retried a")
      case False
      then have nr: "at_Outcome a \<noteq> Retry" "at_Outcome a \<noteq> RetryOnce" by (auto simp: retried_def)
      let ?ans = "if at_Outcome a = Success then Inr (the (at_Result a))
        else if at_Outcome a = Cancelled then Inl (EngCtx (ctxErr (we_ctx env n))) else Inl (attemptErr srf a)"
      have "whole_loop env srf n retryOnce t m as ws = \<lparr>wo_answer = ?ans, wo_tally = tally_attempt a t,
          wo_metrics = m, wo_attempts = as @ [a], wo_waits = ws\<rparr>"
        using Inr nr by (subst whole_loop.simps) (simp add: Let_def)
      moreover have "onces (as @ [a]) \<le> retryOnceLimit" using pre(3,4) nr by (simp add: onces_snoc)
      moreover have "\<not> retried a" using False .
      ultimately show ?thesis using pre calls len
        by (cases "at_Outcome a = Success"; cases "at_Outcome a = Cancelled")
          (simp_all add: whole_post_def Let_def attemptErr_def split: option.split)
    next
      case True
      let ?once = "if at_Outcome a = RetryOnce then retryOnce + 1 else retryOnce"
      from True have oc: "at_Outcome a \<noteq> Success" "at_Outcome a \<noteq> Cancelled"
        "\<not> (at_Outcome a \<noteq> RetryOnce \<and> at_Outcome a \<noteq> Retry)" by (auto simp: retried_def)
      have once: "onces (as @ [a]) = ?once" using pre(3) by (simp add: onces_snoc)
      have all: "\<forall>x \<in> set (as @ [a]). retried x" using pre(6) True by simp
      show ?thesis
      proof (cases "n \<ge> WholeAttempts \<or> ?once \<ge> retryOnceLimit")
        case stop: True
        have "length (as @ [a]) = WholeAttempts \<or> onces (as @ [a]) = retryOnceLimit" "onces (as @ [a]) \<le> retryOnceLimit"
          using stop pre(1-4) once by (auto split: if_splits)
        moreover have "whole_loop env srf n retryOnce t m as ws = \<lparr>wo_answer = Inl (attemptErr srf a),
            wo_tally = tally_attempt a t, wo_metrics = met_exhaust m, wo_attempts = as @ [a], wo_waits = ws\<rparr>"
          using Inr oc stop by (subst whole_loop.simps) (auto simp: Let_def)
        ultimately show ?thesis using oc pre calls len
          by (simp add: whole_post_def Let_def attemptErr_def split: option.split)
      next
        case go: False
        let ?t = "tally_attempt a t" and ?m = "met_retry (at_Reason a) m"
          and ?w = "Backoff (int n) (at_RetryAfter a) (we_jitter env n)"
        have ws: "\<forall>w \<in> set (ws @ [?w]). w \<le> maxBackoff" using pre(8) Backoff_le by simp
        show ?thesis
        proof (cases "we_sleep env n")
          case None
          have "whole_post env srf n0 (whole_loop env srf (n + 1) ?once ?t ?m (as @ [a]) (ws @ [?w]))"
            using "1.IH" [OF Inr refl refl oc refl go refl refl None] pre calls len once all ws go by auto
          moreover have "whole_loop env srf n retryOnce t m as ws =
              whole_loop env srf (n + 1) ?once ?t ?m (as @ [a]) (ws @ [?w])"
            using Inr oc go None by (subst whole_loop.simps) (auto simp: Let_def)
          ultimately show ?thesis by simp
        next
          case (Some e)
          have "whole_loop env srf n retryOnce t m as ws = \<lparr>wo_answer = Inl (EngCtx e), wo_tally = ?t,
              wo_metrics = ?m, wo_attempts = as @ [a], wo_waits = ws @ [?w]\<rparr>"
            using Inr oc go Some by (subst whole_loop.simps) (auto simp: Let_def)
          moreover have "onces (as @ [a]) \<le> retryOnceLimit" using once go by simp
          ultimately show ?thesis using pre calls len ws by (simp add: whole_post_def Let_def)
        qed
      qed
    qed
  qed
qed

lemma whole_post: "whole_post env srf (ta_attempts t) (whole env srf t m)"
  unfolding whole_def
  by (rule whole_loop_post) (simp_all add: WholeAttempts_def retryOnceLimit_def onces_def)

section \<open>Query parameters\<close>

lemma queryValues_spec:
  "queryValues q nm = (concat (map snd (filter (\<lambda>kv. equal_fold (fst kv) nm) q)),
     list_ex (\<lambda>kv. equal_fold (fst kv) nm) q)"
  by (induction q nm rule: queryValues.induct) auto

lemma withoutParam_none: "queryValues (withoutParam q nm) nm = ([], False)"
  by (auto simp: queryValues_spec withoutParam_def list_ex_iff filter_empty_conv)

section \<open>Properties\<close>

text \<open>The attempt rules of a whole document and of a re-check, for every behaviour of the container:
  the loop returns after at most five attempts, at most two of them a timeout, 500 or 504; every
  attempt but the last ended in a retriable class; the job's count goes up by exactly the attempts
  made and no wait exceeds a minute; a result is the last attempt's; and an error is the last
  attempt's own, retriable only when the attempts ran out.\<close>

theorem whole_attempt_rules:
  "length (wo_attempts (whole env srf t m)) \<le> 5 \<and> onces (wo_attempts (whole env srf t m)) \<le> 2
   \<and> (\<forall>a \<in> set (butlast (wo_attempts (whole env srf t m))). at_Outcome a \<in> {Retry, RetryOnce})
   \<and> ta_attempts (wo_tally (whole env srf t m)) = ta_attempts t + int (length (wo_attempts (whole env srf t m)))
   \<and> (\<forall>w \<in> set (wo_waits (whole env srf t m)). w \<le> 60 * second)
   \<and> (\<forall>r. wo_answer (whole env srf t m) = Inr r \<longrightarrow>
        at_Outcome (last (wo_attempts (whole env srf t m))) = Success
        \<and> r = the (at_Result (last (wo_attempts (whole env srf t m)))))
   \<and> (\<forall>e. wo_answer (whole env srf t m) = Inl (EngApi e) \<longrightarrow>
        attemptErr srf (last (wo_attempts (whole env srf t m))) = EngApi e
        \<and> (retried (last (wo_attempts (whole env srf t m))) \<longrightarrow>
             length (wo_attempts (whole env srf t m)) = 5 \<or> onces (wo_attempts (whole env srf t m)) = 2))"
  using whole_post [of env srf t m]
  by (auto simp: whole_post_def Let_def retried_def WholeAttempts_def retryOnceLimit_def maxBackoff_def)

definition demo_env :: whole_env where
  "demo_env = \<lparr>we_call = \<lambda>n. Inr ((attempt0 Retry)\<lparr>at_Err := Some (err_Internal SurfaceDI [])\<rparr>),
     we_ctx = \<lambda>n. None, we_sleep = \<lambda>n. None, we_jitter = \<lambda>n. None\<rparr>"

lemma whole_attempt_rules_witness: "length (wo_attempts (whole demo_env SurfaceDI tally0 NewMetrics)) \<le> 5"
  using whole_attempt_rules [of demo_env SurfaceDI tally0 NewMetrics] by blast

end
