(* ===== verification/Parts.thy ===== *)
theory Parts
  imports Splitter Whole "HOL-Library.Multiset"
begin

text \<open>
  A split document's parts, \<open>internal/engine/parts.go\<close> and \<open>workdir.go\<close>'s \<open>partName\<close>: the part loop with its
  halving and re-check, the fan-out of parts, and the coverage check before the merge. A part's
  body is a function of what its calls answered; the fan-out is a step relation in which the parts
  of one job finish in any order. Bodies of different parts share only the tally and the counters,
  whose updates commute, so a body is one step. The hedged attempt a body makes is \<open>Hedge\<close>'s.
\<close>

section \<open>Names and queries\<close>

definition partName :: "string \<Rightarrow> int list \<Rightarrow> string \<Rightarrow> string" where
  "partName prefix pages ext = prefix @ ''-'' @ itoa (hd pages) @ ''-'' @ itoa (last pages) @ ext"

text \<open>The fan-out's query, and a re-check's: the only \<open>pages\<close> the container sees is the part's.\<close>

definition part_query :: "query \<Rightarrow> query" where
  "part_query q = withoutParam q ''pages''"

definition recheck_query :: "query \<Rightarrow> part \<Rightarrow> query" where
  "recheck_query q p = part_query q @ [(''pages'', [FormatPages (Pages p)])]"

section \<open>One part\<close>

text \<open>An error of \<open>writeFile\<close> around a cut: the file's own, or the splitter's.\<close>

datatype write_error = FileError string | CutError split_error

record part_env =
  pe_stat_err :: "string option"
  pe_acquire :: "nat \<Rightarrow> go_error option"
  pe_answer :: "nat \<Rightarrow> attempt"
  pe_hedges :: "nat \<Rightarrow> int"
  pe_ctx :: "nat \<Rightarrow> go_error option"
  pe_sleep :: "nat \<Rightarrow> go_error option"
  pe_recut :: "part \<Rightarrow> int list \<Rightarrow> write_error option"
  pe_recut_ctx :: "part \<Rightarrow> go_error option"
  pe_whole :: "query \<Rightarrow> whole_env"
  pe_renamed :: bool
  pe_dir :: string

datatype part_end = PartDone result | PartHalved part part | PartFailed engine_error | PartPanics

text \<open>\<open>add\<close>: the result's file is moved beside the part when the rename works.\<close>

definition add_result :: "part_env \<Rightarrow> part \<Rightarrow> result \<Rightarrow> result" where
  "add_result env p r =
     (if pe_renamed env then r\<lparr>res_Path := pe_dir env @ ''/'' @ partName ''result'' (Pages p) ''.json''\<rparr> else r)"

type_synonym part_out = "part_end \<times> tally \<times> metrics"

definition recheck :: "part_env \<Rightarrow> surface \<Rightarrow> query \<Rightarrow> part \<Rightarrow> tally \<Rightarrow> metrics \<Rightarrow> part_out" where
  "recheck env srf q p t m =
     (let w = whole (pe_whole env (recheck_query q p)) srf t (met_part ''rechecked'' m) in
      (case wo_answer w of Inl e \<Rightarrow> PartFailed e | Inr r \<Rightarrow> PartDone (add_result env p r),
       wo_tally w, wo_metrics w))"

text \<open>The pages of the two halves within the part's own file: its pages are \<open>1..n\<close>.\<close>

definition half_locals :: "part \<Rightarrow> part \<Rightarrow> int list \<times> int list" where
  "half_locals p first =
     (let l = [1..int (length (Pages p))] in (take (length (Pages first)) l, drop (length (Pages first)) l))"

fun recut_fault :: "write_error \<Rightarrow> bool" where
  "recut_fault (CutError e) = (is_unparseable e \<or> e = ErrEncrypted \<or> e = ErrBudget)"
| "recut_fault (FileError m) = False"

definition recut_error :: "part_env \<Rightarrow> surface \<Rightarrow> attempt \<Rightarrow> part \<Rightarrow> int list \<Rightarrow> engine_error option" where
  "recut_error env srf lst h local =
     (case pe_recut env h local of
        None \<Rightarrow> None
      | Some err \<Rightarrow>
          Some (case pe_recut_ctx env h of
                  Some e \<Rightarrow> EngCtx e
                | None \<Rightarrow> if recut_fault err then attemptErr srf lst else EngOwn ''engine: halve part''))"

definition halve :: "part_env \<Rightarrow> surface \<Rightarrow> part \<Rightarrow> attempt \<Rightarrow> tally \<Rightarrow> metrics \<Rightarrow> part_out" where
  "halve env srf p lst t m =
     (case Halve p of
        None \<Rightarrow> (PartPanics, t, m)
      | Some (first, snd_half) \<Rightarrow>
          (case half_locals p first of
             (l1, l2) \<Rightarrow>
               (case recut_error env srf lst first l1 of
                  Some e \<Rightarrow> (PartFailed e, t, m)
                | None \<Rightarrow>
                    (case recut_error env srf lst snd_half l2 of
                       Some e \<Rightarrow> (PartFailed e, t, m)
                     | None \<Rightarrow>
                         (PartHalved first snd_half, t\<lparr>ta_halvings := ta_halvings t + 1\<rparr>,
                          met_part ''halved'' m)))))"

text \<open>The counts of one attempt: its hedge, and itself.\<close>

definition round_tally :: "part_env \<Rightarrow> nat \<Rightarrow> tally \<Rightarrow> tally" where
  "round_tally env n t = tally_attempt (pe_answer env n) (t\<lparr>ta_hedges := ta_hedges t + pe_hedges env n\<rparr>)"

function part_loop :: "part_env \<Rightarrow> surface \<Rightarrow> query \<Rightarrow> part \<Rightarrow> nat \<Rightarrow> tally \<Rightarrow> metrics \<Rightarrow> part_out" where
  "part_loop env srf q p n t m =
     (case pe_acquire env n of
        Some e \<Rightarrow> (PartFailed (EngCtx e), t, m)
      | None \<Rightarrow>
          (let a = pe_answer env n;
               t1 = round_tally env n t
           in if at_Outcome a = Success then
                (PartDone (add_result env p (the (at_Result a))), t1, met_part ''succeeded'' m)
              else if at_Outcome a = Cancelled then (PartFailed (EngCtx (ctxErr (pe_ctx env n))), t1, m)
              else if at_Outcome a = RouteMissing then (PartFailed (attemptErr srf a), t1, m)
              else if at_Outcome a = AnalysisFailed \<or> at_Outcome a = Terminal then recheck env srf q p t1 m
              else if n \<ge> PartAttempts then
                (if length (Pages p) < 2 then recheck env srf q p t1 m else halve env srf p a t1 m)
              else
                (let m1 = met_part ''retried'' (met_retry (at_Reason a) m) in
                 case pe_sleep env n of
                   Some e \<Rightarrow> (PartFailed (EngCtx e), t1, m1)
                 | None \<Rightarrow> part_loop env srf q p (n + 1) t1 m1)))"
  by pat_completeness auto
termination by (relation "measure (\<lambda>(env, srf, q, p, n, r). PartAttempts - n)") auto

declare part_loop.simps [simp del]

definition part_body :: "part_env \<Rightarrow> surface \<Rightarrow> query \<Rightarrow> part \<Rightarrow> tally \<Rightarrow> metrics \<Rightarrow> part_out" where
  "part_body env srf q p t m =
     (case pe_stat_err env of
        Some e \<Rightarrow> (PartFailed (EngOwn (''engine: stat part: '' @ e)), t, m)
      | None \<Rightarrow> part_loop env srf q p 1 t m)"

section \<open>The fan-out\<close>

record fanout =
  fn_active :: "part list"
  fn_results :: "(part \<times> result) list"
  fn_err :: "engine_error option"
  fn_failed :: "part list"
  fn_made :: "part list"
  fn_tally :: tally
  fn_metrics :: metrics

text \<open>\<open>fn_failed\<close> and \<open>fn_made\<close> are history: the parts that failed, and every part a file was cut for.\<close>

definition fan_start :: "part list \<Rightarrow> tally \<Rightarrow> metrics \<Rightarrow> fanout" where
  "fan_start parts t m = \<lparr>fn_active = parts, fn_results = [], fn_err = None, fn_failed = [],
     fn_made = parts, fn_tally = t, fn_metrics = m\<rparr>"

definition fail :: "engine_error \<Rightarrow> fanout \<Rightarrow> fanout" where
  "fail e f = f\<lparr>fn_err := (case fn_err f of None \<Rightarrow> Some e | Some x \<Rightarrow> Some x)\<rparr>"

fun fan_finish :: "part \<Rightarrow> part list \<Rightarrow> part_end \<Rightarrow> fanout \<Rightarrow> fanout" where
  "fan_finish p rest (PartDone r) f = f\<lparr>fn_active := rest, fn_results := fn_results f @ [(p, r)]\<rparr>"
| "fan_finish p rest (PartHalved a b) f = f\<lparr>fn_active := rest @ [a, b], fn_made := fn_made f @ [a, b]\<rparr>"
| "fan_finish p rest (PartFailed e) f = fail e (f\<lparr>fn_active := rest, fn_failed := fn_failed f @ [p]\<rparr>)"
| "fan_finish p rest PartPanics f = f"

inductive fan_step :: "surface \<Rightarrow> query \<Rightarrow> fanout \<Rightarrow> fanout \<Rightarrow> bool" where
  fan_one: "fn_active f = xs @ p # ys \<Longrightarrow> part_body env srf q p (fn_tally f) (fn_metrics f) = (e, t, m) \<Longrightarrow>
    fan_step srf q f ((fan_finish p (xs @ ys) e f)\<lparr>fn_tally := t, fn_metrics := m\<rparr>)"

inductive fan_reach :: "surface \<Rightarrow> query \<Rightarrow> fanout \<Rightarrow> nat \<Rightarrow> fanout \<Rightarrow> bool" for srf q f0 where
  fan_refl: "fan_reach srf q f0 0 f0"
| fan_more: "fan_reach srf q f0 n f \<Longrightarrow> fan_step srf q f f' \<Longrightarrow> fan_reach srf q f0 (Suc n) f'"

text \<open>What \<open>merge\<close> computes before it merges: the pages covered by the results sorted by first page.\<close>

definition by_first :: "(part \<times> result) list \<Rightarrow> (part \<times> result) list" where
  "by_first rs = sort_key (\<lambda>pr. hd (Pages (fst pr))) rs"

definition covered :: "(part \<times> result) list \<Rightarrow> int list" where
  "covered rs = concat (map (Pages \<circ> fst) (by_first rs))"

section \<open>How a body ends\<close>

lemma recheck_end:
  "fst (recheck env srf q p t m) = (case wo_answer (whole (pe_whole env (recheck_query q p)) srf t (met_part ''rechecked'' m))
     of Inl e \<Rightarrow> PartFailed e | Inr r \<Rightarrow> PartDone (add_result env p r))"
  by (simp add: recheck_def Let_def)

lemma halve_end:
  assumes "2 \<le> length (Pages p)"
  shows "(\<exists>e. fst (halve env srf p lst t m) = PartFailed e)
    \<or> (\<exists>a b. fst (halve env srf p lst t m) = PartHalved a b \<and> Halve p = Some (a, b))"
  by (cases "half_locals p (fst (the (Halve p)))")
    (auto simp: halve_def Halve_some [OF assms] half_locals_def Let_def split: option.split)

text \<open>An unfolded round of the part loop, by what its attempt came back as.\<close>

lemma part_loop_round:
  assumes "pe_acquire env n = None"
  shows "part_loop env srf q p n t m =
     (let a = pe_answer env n; t1 = round_tally env n t in
      if at_Outcome a = Success then
        (PartDone (add_result env p (the (at_Result a))), t1, met_part ''succeeded'' m)
      else if at_Outcome a = Cancelled then (PartFailed (EngCtx (ctxErr (pe_ctx env n))), t1, m)
      else if at_Outcome a = RouteMissing then (PartFailed (attemptErr srf a), t1, m)
      else if at_Outcome a = AnalysisFailed \<or> at_Outcome a = Terminal then recheck env srf q p t1 m
      else if n \<ge> PartAttempts then
        (if length (Pages p) < 2 then recheck env srf q p t1 m else halve env srf p a t1 m)
      else
        (case pe_sleep env n of
           Some e \<Rightarrow> (PartFailed (EngCtx e), t1, met_part ''retried'' (met_retry (at_Reason a) m))
         | None \<Rightarrow> part_loop env srf q p (n + 1) t1 (met_part ''retried'' (met_retry (at_Reason a) m))))"
  using assms by (subst part_loop.simps) (simp add: Let_def)

definition good_end :: "part \<Rightarrow> part_end \<Rightarrow> bool" where
  "good_end p e \<longleftrightarrow> e \<noteq> PartPanics \<and> (\<forall>a b. e = PartHalved a b \<longrightarrow> 2 \<le> length (Pages p) \<and> Halve p = Some (a, b))"

lemma recheck_good: "good_end p (fst (recheck env srf q p t m))"
  by (auto simp: recheck_end good_end_def split: sum.split)

lemma part_loop_good: "good_end p (fst (part_loop env srf q p n t m))"
proof (induction env srf q p n t m rule: part_loop.induct)
  case (1 env srf q p n t m)
  show ?case
  proof (cases "pe_acquire env n")
    case (Some e)
    then show ?thesis by (subst part_loop.simps) (simp add: good_end_def)
  next
    case None
    let ?a = "pe_answer env n"
    consider (fin) "at_Outcome ?a \<in> {Success, Cancelled, RouteMissing}"
      | (re) "at_Outcome ?a \<in> {AnalysisFailed, Terminal}"
      | (last) "at_Outcome ?a \<in> {Retry, RetryOnce}" "PartAttempts \<le> n"
      | (more) "at_Outcome ?a \<in> {Retry, RetryOnce}" "\<not> PartAttempts \<le> n"
      by (cases "at_Outcome ?a") auto
    then show ?thesis
    proof cases
      case fin
      then show ?thesis by (auto simp: part_loop_round [OF None] Let_def good_end_def)
    next
      case re
      then show ?thesis by (auto simp: part_loop_round [OF None] Let_def recheck_good)
    next
      case last
      show ?thesis
      proof (cases "length (Pages p) < 2")
        case True
        with last show ?thesis by (auto simp: part_loop_round [OF None] Let_def recheck_good)
      next
        case False
        with last show ?thesis
          using halve_end [of p env srf ?a "round_tally env n t" m]
          by (auto simp: part_loop_round [OF None] Let_def good_end_def)
      qed
    next
      case more
      show ?thesis
      proof (cases "pe_sleep env n")
        case sl: None
        from more have oc: "at_Outcome ?a \<noteq> Success" "at_Outcome ?a \<noteq> Cancelled" "at_Outcome ?a \<noteq> RouteMissing"
          "\<not> (at_Outcome ?a = AnalysisFailed \<or> at_Outcome ?a = Terminal)" by auto
        from "1.IH" [OF None refl refl oc more(2) refl sl] oc more sl show ?thesis
          by (simp add: part_loop_round [OF None] Let_def)
      qed (use more in \<open>auto simp: part_loop_round [OF None] Let_def good_end_def\<close>)
    qed
  qed
qed

lemma part_body_good: "good_end p (fst (part_body env srf q p t m))"
  using part_loop_good [of p env srf q 1 t m]
  by (cases "pe_stat_err env") (simp_all add: part_body_def good_end_def)

section \<open>The pages of a job\<close>

text \<open>All the parts a job's pages are now divided into: running, answered or failed.\<close>

definition content :: "fanout \<Rightarrow> part list" where
  "content f = fn_active f @ map fst (fn_results f) @ fn_failed f"

definition part_ends :: "part \<Rightarrow> int \<times> int" where
  "part_ends p = (hd (Pages p), last (Pages p))"

definition heads :: "part list \<Rightarrow> int set" where "heads L = (\<lambda>p. hd (Pages p)) ` set L"
definition lasts :: "part list \<Rightarrow> int set" where "lasts L = (\<lambda>p. last (Pages p)) ` set L"

definition fan_inv :: "int list \<Rightarrow> fanout \<Rightarrow> bool" where
  "fan_inv pages f \<longleftrightarrow>
     (\<exists>L. mset L = mset (content f) \<and> concat (map Pages L) = pages)
     \<and> (\<forall>p \<in> set (content f). Pages p \<noteq> [])
     \<and> (\<forall>q \<in> set (fn_made f). hd (Pages q) \<in> heads (content f) \<and> last (Pages q) \<in> lasts (content f))
     \<and> distinct (map part_ends (fn_made f))
     \<and> (fn_err f = None \<longleftrightarrow> fn_failed f = [])"

text \<open>In a list of disjoint non-empty parts, the middle of one part is no other part's end.\<close>

lemma other_disjoint:
  assumes "distinct (concat (map Pages L))" and "p \<in> set L" and "x \<in> set L" and "i \<in> set (Pages p)" and "i \<in> set (Pages x)"
  shows "x = p"
proof (rule ccontr)
  assume "x \<noteq> p"
  obtain A B where L: "L = A @ p # B" using assms(2) by (meson split_list)
  with assms(3) \<open>x \<noteq> p\<close> have "x \<in> set A \<or> x \<in> set B" by auto
  with assms(1,4,5) L show False by auto
qed

lemma cut_fresh:
  assumes dist: "distinct (concat (map Pages L))" and p: "p \<in> set L" and ne: "\<forall>x \<in> set L. Pages x \<noteq> []"
    and ab: "Pages p = as @ bs" "as \<noteq> []" "bs \<noteq> []"
  shows "last as \<notin> lasts L" and "hd bs \<notin> heads L" and "last as \<noteq> last bs"
proof -
  have dp: "distinct (Pages p)" using dist p by (auto dest: split_list)
  have la: "last as \<in> set (Pages p)" "last (Pages p) = last bs" and hb: "hd bs \<in> set (Pages p)" "hd (Pages p) = hd as"
    using ab by auto
  show ne_last: "last as \<noteq> last bs"
    using dp ab by (metis IntI distinct_append empty_iff last_in_set)
  have ne_hd: "hd bs \<noteq> hd as" using dp ab by (metis IntI distinct_append empty_iff hd_in_set)
  show "last as \<notin> lasts L"
  proof
    assume "last as \<in> lasts L"
    then obtain x where x: "x \<in> set L" "last (Pages x) = last as" by (auto simp: lasts_def)
    then have "last as \<in> set (Pages x)" using ne by (metis last_in_set)
    then have "x = p" using other_disjoint [OF dist p x(1) la(1)] by blast
    with x(2) la(2) ne_last show False by simp
  qed
  show "hd bs \<notin> heads L"
  proof
    assume "hd bs \<in> heads L"
    then obtain x where x: "x \<in> set L" "hd (Pages x) = hd bs" by (auto simp: heads_def)
    then have "hd bs \<in> set (Pages x)" using ne by (metis hd_in_set)
    then have "x = p" using other_disjoint [OF dist p x(1) hb(1)] by blast
    with x(2) hb(2) ne_hd show False by simp
  qed
qed

lemma heads_mset: "mset L = mset M \<Longrightarrow> heads L = heads M \<and> lasts L = lasts M"
proof -
  assume "mset L = mset M"
  then have "set L = set M" by (rule mset_eq_setD)
  then show ?thesis unfolding heads_def lasts_def by simp
qed

text \<open>Replacing one part by its halves.\<close>

lemma inv_halve:
  assumes inv: "fan_inv pages f" and dist: "distinct pages" and act: "fn_active f = xs @ p # ys"
    and hv: "Pages p = Pages a @ Pages b" "Pages a \<noteq> []" "Pages b \<noteq> []"
  shows "fan_inv pages (f\<lparr>fn_active := (xs @ ys) @ [a, b], fn_made := fn_made f @ [a, b]\<rparr>)" (is "fan_inv pages ?f")
proof -
  from inv obtain L where L: "mset L = mset (content f)" "concat (map Pages L) = pages" by (auto simp: fan_inv_def)
  have "p \<in> set (content f)" using act by (simp add: content_def)
  then have p: "p \<in> set L" using L(1) by (metis mset_eq_setD)
  then obtain A B where AB: "L = A @ p # B" by (meson split_list)
  let ?L = "A @ a # b # B"
  have m: "mset ?L = mset (content ?f)" using L(1) AB act by (simp add: content_def)
  have c: "concat (map Pages ?L) = pages" using L(2) AB hv by simp
  have neL: "\<forall>x \<in> set L. Pages x \<noteq> []" using inv L(1) by (metis fan_inv_def mset_eq_setD)
  have ne: "\<forall>x \<in> set (content ?f). Pages x \<noteq> []"
    using inv act hv by (auto simp: fan_inv_def content_def)
  have distL: "distinct (concat (map Pages L))" using L(2) dist by simp
  note fresh = cut_fresh [OF distL p neL hv]
  have hl: "heads L = heads (content f)" "lasts L = lasts (content f)" using heads_mset [OF L(1)] by simp_all
  have hl': "heads (content ?f) = insert (hd (Pages b)) (heads L)" "lasts (content ?f) = insert (last (Pages a)) (lasts L)"
    using heads_mset [OF m] AB hv by (auto simp: heads_def lasts_def)
  have ends: "hd (Pages a) \<in> heads L" "last (Pages b) \<in> lasts L"
    using p hv by (auto simp: heads_def lasts_def intro: rev_image_eqI)
  have made: "\<forall>q \<in> set (fn_made f). hd (Pages q) \<in> heads L \<and> last (Pages q) \<in> lasts L"
    using inv hl by (simp add: fan_inv_def)
  have "part_ends a \<notin> part_ends ` set (fn_made f)" "part_ends b \<notin> part_ends ` set (fn_made f)" "part_ends a \<noteq> part_ends b"
    using made fresh by (auto simp: part_ends_def)
  then have "distinct (map part_ends (fn_made ?f))" using inv by (auto simp: fan_inv_def)
  moreover have "\<forall>q \<in> set (fn_made ?f). hd (Pages q) \<in> heads (content ?f) \<and> last (Pages q) \<in> lasts (content ?f)"
    unfolding hl' using made ends by auto
  moreover have "(fn_err ?f = None) = (fn_failed ?f = [])" using inv by (simp add: fan_inv_def)
  ultimately show ?thesis unfolding fan_inv_def using m c ne by blast
qed

text \<open>A part that is answered or fails only moves within the content.\<close>

lemma inv_move:
  assumes "fan_inv pages f" and "mset (content f') = mset (content f)" and "fn_made f' = fn_made f"
    and "fn_err f' = None \<longleftrightarrow> fn_failed f' = []"
  shows "fan_inv pages f'"
proof -
  have "heads (content f') = heads (content f)" "lasts (content f') = lasts (content f)"
    using heads_mset [OF assms(2)] by simp_all
  moreover have "set (content f') = set (content f)" using assms(2) by (rule mset_eq_setD)
  ultimately show ?thesis using assms by (simp add: fan_inv_def)
qed

lemma content_simps [simp]:
  "content (f\<lparr>fn_tally := t, fn_metrics := m\<rparr>) = content f"
  by (simp add: content_def)

lemma fan_inv_step:
  assumes "fan_step srf q f f'" and "fan_inv pages f" and "distinct pages"
  shows "fan_inv pages f'"
  using assms(1)
proof cases
  case (fan_one xs p ys env e t m)
  note act = fan_one(2)
  have good: "good_end p e" using part_body_good [of p env srf q "fn_tally f" "fn_metrics f"] fan_one(3) by simp
  have "fan_inv pages (fan_finish p (xs @ ys) e f)"
  proof (cases e)
    case (PartDone r)
    show ?thesis
      by (rule inv_move [OF assms(2)]) (use assms(2) act PartDone in \<open>auto simp: content_def fan_inv_def\<close>)
  next
    case (PartHalved a b)
    with good have h: "Halve p = Some (a, b)" "2 \<le> length (Pages p)" by (auto simp: good_end_def)
    then have "Pages p = Pages a @ Pages b" "Pages a \<noteq> []" "Pages b \<noteq> []"
      by (auto simp: Halve_def Let_def split: if_splits)
    from inv_halve [OF assms(2,3) act this] PartHalved show ?thesis by simp
  next
    case (PartFailed x)
    show ?thesis
      by (rule inv_move [OF assms(2)])
        (use assms(2) act PartFailed in \<open>auto simp: content_def fail_def fan_inv_def split: option.split\<close>)
  next
    case PartPanics
    with good show ?thesis by (simp add: good_end_def)
  qed
  then show ?thesis
    by (rule inv_move) (use fan_one(1) \<open>fan_inv pages (fan_finish p (xs @ ys) e f)\<close> in \<open>auto simp: fan_inv_def\<close>)
qed

text \<open>Every step shrinks the work left.\<close>

definition weight :: "fanout \<Rightarrow> nat" where
  "weight f = sum_list (map (\<lambda>p. 2 * length (Pages p) - 1) (fn_active f))"

lemma weight_step:
  assumes "fan_step srf q f f'" and "\<forall>p \<in> set (fn_active f). Pages p \<noteq> []"
  shows "weight f' < weight f"
  using assms(1)
proof cases
  case (fan_one xs p ys env e t m)
  have good: "good_end p e" using part_body_good [of p env srf q "fn_tally f" "fn_metrics f"] fan_one(3) by simp
  have p: "1 \<le> length (Pages p)" using assms(2) fan_one(2) by (cases "Pages p") auto
  have w: "weight f = weight (f\<lparr>fn_active := xs @ ys\<rparr>) + (2 * length (Pages p) - 1)"
    using fan_one(2) by (simp add: weight_def)
  show ?thesis
  proof (cases e)
    case (PartHalved a b)
    with good have h: "Halve p = Some (a, b)" by (auto simp: good_end_def)
    then have "length (Pages p) = length (Pages a) + length (Pages b)" "1 \<le> length (Pages a)" "1 \<le> length (Pages b)"
      by (auto simp: Halve_def Let_def split: if_splits)
    then show ?thesis using fan_one(1) PartHalved w by (simp add: weight_def)
  qed (use fan_one(1) w p good in \<open>auto simp: weight_def fail_def good_end_def split: option.split\<close>)
qed

lemma fan_reach_inv:
  assumes "fan_reach srf q f0 n f" and "fan_inv pages f0" and "distinct pages"
  shows "fan_inv pages f \<and> n + weight f \<le> weight f0"
  using assms
proof (induction rule: fan_reach.induct)
  case (fan_more n f f')
  then have "fan_inv pages f" "n + weight f \<le> weight f0" by simp_all
  moreover have "\<forall>p \<in> set (fn_active f). Pages p \<noteq> []"
    using \<open>fan_inv pages f\<close> by (auto simp: fan_inv_def content_def)
  ultimately show ?case using fan_inv_step [OF fan_more(2)] weight_step [OF fan_more(2)] fan_more by force
qed simp

lemma fan_start_inv:
  assumes "concat (map Pages parts) = pages" and "\<forall>p \<in> set parts. Pages p \<noteq> []" and "distinct pages"
  shows "fan_inv pages (fan_start parts t m)"
proof -
  have "distinct (map part_ends parts)"
    using assms
  proof (induction parts arbitrary: pages)
    case (Cons p ps)
    have "part_ends p \<notin> part_ends ` set ps"
    proof
      assume "part_ends p \<in> part_ends ` set ps"
      then obtain x where x: "x \<in> set ps" "hd (Pages x) = hd (Pages p)" by (auto simp: part_ends_def)
      have "Pages p \<noteq> []" "Pages x \<noteq> []" using Cons.prems x by auto
      then have "hd (Pages p) \<in> set (Pages p)" "hd (Pages p) \<in> set (Pages x)" using x(2) hd_in_set by metis+
      moreover have "distinct (Pages p @ concat (map Pages ps))" using Cons.prems by simp
      then have "set (Pages p) \<inter> (\<Union>a \<in> set ps. set (Pages a)) = {}" by simp
      ultimately show False using x(1) by blast
    qed
    with Cons show ?case by auto
  qed simp
  with assms show ?thesis
    by (auto simp: fan_inv_def content_def fan_start_def heads_def lasts_def)
qed

text \<open>Sorting by first page puts disjoint ascending parts back in order.\<close>

lemma ascending_heads:
  "sorted_wrt (<) (concat (map Pages L)) \<Longrightarrow> \<forall>p \<in> set L. Pages p \<noteq> [] \<Longrightarrow>
   sorted_wrt (<) (map (\<lambda>p. hd (Pages p)) L)"
proof (induction L)
  case (Cons p L)
  have "hd (Pages p) < hd (Pages x)" if "x \<in> set L" for x
  proof -
    have "hd (Pages p) \<in> set (Pages p)" "hd (Pages x) \<in> set (Pages x)" using Cons.prems that by auto
    then show ?thesis using Cons.prems that by (auto simp: sorted_wrt_append)
  qed
  with Cons show ?case by (auto simp: sorted_wrt_append)
qed simp

lemma covered_pages:
  assumes "mset L = mset (map fst rs)" and "sorted_wrt (<) (concat (map Pages L))" and "\<forall>p \<in> set L. Pages p \<noteq> []"
  shows "covered rs = concat (map Pages L)"
proof -
  let ?k = "\<lambda>p. hd (Pages p)"
  let ?R = "map fst (by_first rs)"
  have ms: "mset ?R = mset L" using assms(1) by (simp add: by_first_def)
  have hs: "sorted_wrt (<) (map ?k L)" using ascending_heads [OF assms(2,3)] .
  have "map ?k ?R = map (\<lambda>pr. ?k (fst pr)) (by_first rs)" by simp
  then have "sorted (map ?k ?R)" unfolding by_first_def by (metis sorted_sort_key)
  moreover have "sorted (map ?k L)" using hs by (simp add: strict_sorted_iff)
  moreover have "mset (map ?k ?R) = mset (map ?k L)" using ms by (metis mset_map)
  ultimately have eq: "map ?k ?R = map ?k L" by (metis properties_for_sort)
  have "distinct (map ?k L)" using hs by (simp add: strict_sorted_iff)
  then have "inj_on ?k (set L)" by (simp add: distinct_map)
  moreover have "set ?R = set L" using ms by (rule mset_eq_setD)
  ultimately have "?R = L" using eq by (intro map_inj_on [OF eq]) simp
  then show ?thesis unfolding covered_def by (metis map_map)
qed

lemma digits_no_dash: "0 \<le> i \<Longrightarrow> CHR ''-'' \<notin> set (itoa i)"
  using itoa_nonneg_digits [of i] by (auto simp: list_all_iff is_digit_def)

lemma partName_inj:
  assumes "partName pre p ext = partName pre q ext" and "0 \<le> hd p" "0 \<le> hd q" "0 \<le> last p" "0 \<le> last q"
  shows "hd p = hd q \<and> last p = last q"
proof -
  from assms(1) have eq: "itoa (hd p) @ CHR ''-'' # (itoa (last p) @ ext) = itoa (hd q) @ CHR ''-'' # (itoa (last q) @ ext)"
    by (simp add: partName_def)
  then have "go_cut (CHR ''-'') (itoa (hd p) @ CHR ''-'' # (itoa (last p) @ ext))
      = go_cut (CHR ''-'') (itoa (hd q) @ CHR ''-'' # (itoa (last q) @ ext))" by (rule arg_cong)
  then have "itoa (hd p) = itoa (hd q)" "itoa (last p) @ ext = itoa (last q) @ ext"
    using assms(2,3) by (simp_all add: go_cut_found digits_no_dash)
  then show ?thesis using assms itoa_inj by simp
qed

lemma fan_covers:
  assumes "concat (map Pages parts) = pages" and "\<forall>p \<in> set parts. Pages p \<noteq> []" and "sorted_wrt (<) pages"
    and "fan_reach srf q (fan_start parts t m) n f" and "fn_active f = []" and "fn_err f = None"
  shows "covered (fn_results f) = pages"
proof -
  have d: "distinct pages" using assms(3) by (simp add: strict_sorted_iff)
  have inv: "fan_inv pages f" using fan_reach_inv [OF assms(4) fan_start_inv [OF assms(1,2) d] d] by blast
  then obtain L where L: "mset L = mset (content f)" "concat (map Pages L) = pages" by (auto simp: fan_inv_def)
  have c: "content f = map fst (fn_results f)" using inv assms(5,6) by (simp add: fan_inv_def content_def)
  have "\<forall>p \<in> set L. Pages p \<noteq> []" using inv L(1) by (metis fan_inv_def mset_eq_setD)
  with covered_pages [of L "fn_results f"] L c assms(3) show ?thesis by simp
qed

text \<open>
  Why a part fails with an API error: the route is missing, the re-check of the original failed with
  it, or its own file could not be cut again.
\<close>

definition fails_for :: "part_env \<Rightarrow> surface \<Rightarrow> query \<Rightarrow> part \<Rightarrow> api_error \<Rightarrow> bool" where
  "fails_for env srf q p x \<longleftrightarrow>
     (\<exists>n \<le> PartAttempts. at_Outcome (pe_answer env n) = RouteMissing \<and> attemptErr srf (pe_answer env n) = EngApi x)
     \<or> (\<exists>t m. wo_answer (whole (pe_whole env (recheck_query q p)) srf t m) = Inl (EngApi x))
     \<or> 2 \<le> length (Pages p) \<and> (\<exists>h l err. pe_recut env h l = Some err \<and> recut_fault err)"

lemma recheck_fails_for: "fst (recheck env srf q p t m) = PartFailed (EngApi x) \<Longrightarrow> fails_for env srf q p x"
  by (auto simp: recheck_end fails_for_def split: sum.splits)

lemma recut_error_fault:
  "recut_error env srf a h l = Some (EngApi x) \<Longrightarrow> \<exists>err. pe_recut env h l = Some err \<and> recut_fault err"
  by (auto simp: recut_error_def split: option.splits if_splits)

lemma halve_fails_for:
  assumes "fst (halve env srf p a t m) = PartFailed (EngApi x)"
  shows "fails_for env srf q p x"
proof -
  from assms obtain f s where h: "Halve p = Some (f, s)" by (auto simp: halve_def split: option.splits)
  then have two: "2 \<le> length (Pages p)" by (auto simp: Halve_def Let_def split: if_splits)
  from assms h obtain g l where "recut_error env srf a g l = Some (EngApi x)"
    by (cases "half_locals p f") (auto simp: halve_def split: option.splits)
  with recut_error_fault two show ?thesis unfolding fails_for_def by blast
qed

lemma part_loop_fails_for:
  "fst (part_loop env srf q p n t m) = PartFailed (EngApi x) \<Longrightarrow> n \<le> PartAttempts \<Longrightarrow> fails_for env srf q p x"
proof (induction env srf q p n t m rule: part_loop.induct)
  case (1 env srf q p n t m)
  show ?case
  proof (cases "pe_acquire env n")
    case (Some e)
    with "1.prems" show ?thesis by (simp add: part_loop.simps [of env srf q p n])
  next
    case None
    let ?a = "pe_answer env n"
    note round = part_loop_round [OF None, of srf q p t m, unfolded Let_def]
    consider (fin) "at_Outcome ?a \<in> {Success, Cancelled}" | (mis) "at_Outcome ?a = RouteMissing"
      | (re) "at_Outcome ?a \<in> {AnalysisFailed, Terminal}"
      | (last) "at_Outcome ?a \<in> {Retry, RetryOnce}" "PartAttempts \<le> n"
      | (more) "at_Outcome ?a \<in> {Retry, RetryOnce}" "\<not> PartAttempts \<le> n"
      by (cases "at_Outcome ?a") auto
    then show ?thesis
    proof cases
      case fin
      with round "1.prems" show ?thesis by (auto split: if_splits)
    next
      case mis
      with round "1.prems" have "attemptErr srf ?a = EngApi x" by simp
      with mis "1.prems"(2) show ?thesis unfolding fails_for_def by blast
    next
      case re
      with round "1.prems"(1) have "fst (recheck env srf q p (round_tally env n t) m) = PartFailed (EngApi x)" by auto
      then show ?thesis by (rule recheck_fails_for)
    next
      case last
      show ?thesis
      proof (cases "length (Pages p) < 2")
        case True
        with last round "1.prems"(1) have "fst (recheck env srf q p (round_tally env n t) m) = PartFailed (EngApi x)" by auto
        then show ?thesis by (rule recheck_fails_for)
      next
        case False
        with last round "1.prems"(1) have "fst (halve env srf p ?a (round_tally env n t) m) = PartFailed (EngApi x)" by auto
        then show ?thesis by (rule halve_fails_for)
      qed
    next
      case more
      from more have oc: "at_Outcome ?a \<noteq> Success" "at_Outcome ?a \<noteq> Cancelled" "at_Outcome ?a \<noteq> RouteMissing"
        "\<not> (at_Outcome ?a = AnalysisFailed \<or> at_Outcome ?a = Terminal)" by auto
      show ?thesis
      proof (cases "pe_sleep env n")
        case sl: None
        with round oc more "1.prems"(1) have "fst (part_loop env srf q p (n + 1) (round_tally env n t)
            (met_part ''retried'' (met_retry (at_Reason ?a) m))) = PartFailed (EngApi x)" by simp
        with "1.IH" [OF None refl refl oc more(2) refl sl] more(2) show ?thesis by simp
      qed (use round oc more "1.prems"(1) in simp)
    qed
  qed
qed

section \<open>Properties\<close>

text \<open>C1. The merge's coverage check never fails: whatever order the parts of a job finish in and
  however they are halved, when the fan-out ends without an error its results, sorted by first page,
  cover exactly the selected pages in order; every page is answered once and none is lost.\<close>

theorem parts_cover:
  assumes "concat (map Pages parts) = pages" and "\<forall>p \<in> set parts. Pages p \<noteq> []" and "sorted_wrt (<) pages"
    and "fan_reach srf q (fan_start parts t m) n f" and "fn_active f = []" and "fn_err f = None"
  shows "covered (fn_results f) = pages"
  by (rule fan_covers [OF assms])

lemma demo_fan_done:
  "fan_reach SurfaceDI [] (fan_start [\<lparr>Pages = [1, 2]\<rparr>] tally0 NewMetrics) 0 (fan_start [\<lparr>Pages = [1, 2]\<rparr>] tally0 NewMetrics)"
  by (rule fan_refl)

definition demo_result :: result where
  "demo_result = \<lparr>res_Path = ''r'', res_Start = 0, res_End = 2, res_Bare = True, res_Status = 200\<rparr>"

definition demo_part_env :: part_env where
  "demo_part_env = \<lparr>pe_stat_err = None, pe_acquire = \<lambda>n. None,
     pe_answer = \<lambda>n. (attempt0 Success)\<lparr>at_Result := Some demo_result\<rparr>, pe_hedges = \<lambda>n. 0,
     pe_ctx = \<lambda>n. None, pe_sleep = \<lambda>n. None, pe_recut = \<lambda>p l. None, pe_recut_ctx = \<lambda>p. None,
     pe_whole = \<lambda>q. demo_env, pe_renamed = False, pe_dir = []\<rparr>"

lemma parts_cover_witness:
  "\<exists>f. fan_reach SurfaceDI [] (fan_start [\<lparr>Pages = [1, 2]\<rparr>] tally0 NewMetrics) (Suc 0) f \<and> covered (fn_results f) = [1, 2]"
proof -
  let ?p = "\<lparr>Pages = [1, 2]\<rparr> :: part" and ?f0 = "fan_start [\<lparr>Pages = [1, 2]\<rparr>] tally0 NewMetrics"
  obtain t m where b: "part_body demo_part_env SurfaceDI [] ?p tally0 NewMetrics = (PartDone demo_result, t, m)"
    by (simp add: part_body_def part_loop_round demo_part_env_def Let_def add_result_def)
  have "fan_step SurfaceDI [] ?f0 ((fan_finish ?p ([] @ []) (PartDone demo_result) ?f0)\<lparr>fn_tally := t, fn_metrics := m\<rparr>)"
    by (rule fan_one) (use b in \<open>simp_all add: fan_start_def\<close>)
  then have r: "fan_reach SurfaceDI [] ?f0 (Suc 0)
      ((fan_finish ?p ([] @ []) (PartDone demo_result) ?f0)\<lparr>fn_tally := t, fn_metrics := m\<rparr>)"
    by (rule fan_more [OF fan_refl])
  have "covered (fn_results ((fan_finish ?p ([] @ []) (PartDone demo_result) ?f0)\<lparr>fn_tally := t, fn_metrics := m\<rparr>)) = [1, 2]"
    by (rule parts_cover [OF _ _ _ r]) (simp_all add: fan_start_def)
  with r show ?thesis by blast
qed

text \<open>C32. A fan-out always ends: over a job of \<open>n\<close> pages at most \<open>2n\<close> part bodies run, halvings included,
  and as long as a part is active it can run to its end.\<close>

theorem fanout_ends:
  assumes "concat (map Pages parts) = pages" and "\<forall>p \<in> set parts. Pages p \<noteq> []" and "sorted_wrt (<) pages"
    and "fan_reach srf q (fan_start parts t m) n f"
  shows "n \<le> 2 * length pages \<and> (fn_active f \<noteq> [] \<longrightarrow> (\<exists>f'. fan_step srf q f f'))"
proof -
  have d: "distinct pages" using assms(3) by (simp add: strict_sorted_iff)
  have "n + weight f \<le> weight (fan_start parts t m)"
    using fan_reach_inv [OF assms(4) fan_start_inv [OF assms(1,2) d] d] by blast
  moreover have "weight (fan_start parts t m) \<le> 2 * length (concat (map Pages parts))" for parts :: "part list"
    by (induction parts) (auto simp: weight_def fan_start_def)
  moreover have "\<exists>f'. fan_step srf q f f'" if ne: "fn_active f \<noteq> []"
  proof -
    obtain p ys where act: "fn_active f = [] @ p # ys" using ne by (cases "fn_active f") auto
    obtain e t' m' where "part_body demo_part_env srf q p (fn_tally f) (fn_metrics f) = (e, t', m')"
      by (cases "part_body demo_part_env srf q p (fn_tally f) (fn_metrics f)")
    from fan_one [OF act this] show ?thesis by blast
  qed
  ultimately show ?thesis using assms(1) by (metis le_add1 le_trans)
qed

lemma fanout_ends_witness: "\<exists>f'. fan_step SurfaceDI [] (fan_start [\<lparr>Pages = [1, 2]\<rparr>] tally0 NewMetrics) f'"
  using fanout_ends [OF _ _ _ demo_fan_done] by (simp add: fan_start_def)

text \<open>No two parts a job ever cuts, halves of halves included, share a file name, so the exclusive
  create of \<open>writeFile\<close> never fails for that reason and no part's file overwrites another's.\<close>

theorem part_files_distinct:
  assumes "concat (map Pages parts) = pages" and "\<forall>p \<in> set parts. Pages p \<noteq> []" and "sorted_wrt (<) pages"
    and "\<forall>i \<in> set pages. 1 \<le> i" and "fan_reach srf q (fan_start parts t m) n f"
  shows "distinct (map (\<lambda>p. partName pre (Pages p) ext) (fn_made f))"
proof -
  have d: "distinct pages" using assms(3) by (simp add: strict_sorted_iff)
  have inv: "fan_inv pages f" using fan_reach_inv [OF assms(5) fan_start_inv [OF assms(1,2) d] d] by blast
  then obtain L where L: "mset L = mset (content f)" "concat (map Pages L) = pages" by (auto simp: fan_inv_def)
  have ne: "Pages p \<noteq> []" if "p \<in> set (content f)" for p using inv that by (simp add: fan_inv_def)
  have pos: "0 \<le> i" if "p \<in> set (content f)" "i \<in> set (Pages p)" for i p
    using that L assms(4) mset_eq_setD [OF L(1)] by force
  have hl: "0 \<le> x" if "x \<in> heads (content f) \<union> lasts (content f)" for x
  proof -
    obtain p where p: "p \<in> set (content f)" "x = hd (Pages p) \<or> x = last (Pages p)"
      using \<open>x \<in> heads (content f) \<union> lasts (content f)\<close> by (auto simp: heads_def lasts_def)
    then have "x \<in> set (Pages p)" using ne [OF p(1)] by auto
    with pos p(1) show ?thesis by blast
  qed
  have made: "0 \<le> hd (Pages p) \<and> 0 \<le> last (Pages p)" if "p \<in> set (fn_made f)" for p
    using inv hl that by (auto simp: fan_inv_def)
  have dist: "distinct (map part_ends (fn_made f))" using inv by (simp add: fan_inv_def)
  show ?thesis
  proof (rule distinct_map [THEN iffD2], intro conjI inj_onI)
    show "distinct (fn_made f)" using dist by (simp add: distinct_map)
    fix p p' assume a: "p \<in> set (fn_made f)" "p' \<in> set (fn_made f)"
      "partName pre (Pages p) ext = partName pre (Pages p') ext"
    from partName_inj [OF a(3)] made [OF a(1)] made [OF a(2)] have "part_ends p = part_ends p'"
      by (simp add: part_ends_def)
    with dist a(1,2) show "p = p'" by (auto simp: distinct_map dest: inj_onD)
  qed
qed

lemma part_files_distinct_witness:
  "distinct (map (\<lambda>p. partName ''part'' (Pages p) ''.pdf'') (fn_made (fan_start [\<lparr>Pages = [1, 2]\<rparr>, \<lparr>Pages = [3]\<rparr>] tally0 NewMetrics)))"
  by (rule part_files_distinct [OF _ _ _ _ fan_refl, of _ "[1, 2, 3]"]) simp_all

text \<open>A re-check asks the container for exactly the part's pages: the query it sends has one \<open>pages\<close>
  value under any spelling, whatever the client's query held, and reading it back by the engine's
  own grammar selects the part's pages.\<close>

theorem recheck_asks_for_the_part:
  assumes "Pages p \<noteq> []" and "sorted_wrt (<) (Pages p)" and "\<forall>i \<in> set (Pages p). 1 \<le> i \<and> i \<le> doc_pages"
    and "doc_pages \<le> max_int"
  shows "queryValues (recheck_query q p) ''pages'' = ([FormatPages (Pages p)], True)
    \<and> (\<exists>rs. ParsePages (FormatPages (Pages p)) = Some rs \<and> Select rs doc_pages = Some (Pages p))"
proof
  have "filter (\<lambda>kv. equal_fold (fst kv) ''pages'') (withoutParam q ''pages'') = []"
    by (auto simp: withoutParam_def filter_empty_conv)
  then show "queryValues (recheck_query q p) ''pages'' = ([FormatPages (Pages p)], True)"
    by (simp add: queryValues_spec recheck_query_def part_query_def)
  have "\<forall>i \<in> set (Pages p). 1 \<le> i \<and> i \<le> max_int" using assms(3,4) by force
  then show "\<exists>rs. ParsePages (FormatPages (Pages p)) = Some rs \<and> Select rs doc_pages = Some (Pages p)"
    using ParsePages_FormatPages [OF assms(1)] Select_runs [OF assms(1,2,3)] by blast
qed

lemma recheck_asks_for_the_part_witness:
  "queryValues (recheck_query [(''PAGES'', [''9''])] \<lparr>Pages = [2, 3]\<rparr>) ''pages'' = ([FormatPages [2, 3]], True)"
  using recheck_asks_for_the_part [of "\<lparr>Pages = [2, 3]\<rparr>" 3 "[(''PAGES'', [''9''])]"] by (simp add: max_int_def)

text \<open>The two cuts of a halving are always good ones: the local pages it asks of the part's own file
  pass the splitter's check, and they are the halves' pages.\<close>

theorem halving_pages:
  assumes "Halve p = Some (a, b)" and "half_locals p a = (l1, l2)"
  shows "checkPages l1 (int (length (Pages p))) = None \<and> checkPages l2 (int (length (Pages p))) = None
    \<and> map (\<lambda>i. Pages p ! nat (i - 1)) l1 = Pages a \<and> map (\<lambda>i. Pages p ! nat (i - 1)) l2 = Pages b"
proof -
  let ?n = "length (Pages p)" and ?k = "length (Pages a)"
  from assms(1) have ab: "Pages p = Pages a @ Pages b" "Pages a \<noteq> []" "Pages b \<noteq> []"
    by (auto simp: Halve_def Let_def split: if_splits)
  have n: "?n = ?k + length (Pages b)" using ab(1) by simp
  have k: "0 < ?k" "?k < ?n" using ab by (simp_all add: n)
  have full: "[1..int ?n] = map (\<lambda>i. int i + 1) [0..<?n]"
    by (rule nth_equalityI) (simp_all add: nth_upto)
  from assms(2) have l: "l1 = map (\<lambda>i. int i + 1) [0..<?k]" "l2 = map (\<lambda>i. int i + 1) [?k..<?n]"
    using k by (simp_all add: half_locals_def Let_def full take_map drop_map)
  have "sorted_wrt (<) l1" "sorted_wrt (<) l2"
    using assms(2) strict_sorted_upto [of 1 "int ?n"]
    by (auto simp: half_locals_def Let_def intro: sorted_wrt_take sorted_wrt_drop)
  note l12 = this [unfolded l]
  have "checkPages l1 (int ?n) = None" "checkPages l2 (int ?n) = None"
    using k l12 by (auto simp: checkPages_ok l)
  moreover have "map (\<lambda>i. Pages p ! nat (i - 1)) l1 = Pages a" "map (\<lambda>i. Pages p ! nat (i - 1)) l2 = Pages b"
    using ab(1) n by (auto simp: l intro!: nth_equalityI simp: nth_append nat_int_add)
  ultimately show ?thesis by simp
qed

lemma halving_pages_witness: "checkPages [1, 2] 3 = None \<and> checkPages [3] 3 = None"
  using halving_pages [of "\<lparr>Pages = [4, 5, 9]\<rparr>" "\<lparr>Pages = [4, 5]\<rparr>" "\<lparr>Pages = [9]\<rparr>" "[1, 2]" "[3]"]
  by (simp add: Halve_def half_locals_def upto.simps)

text \<open>A document fails only as Azure would have failed it whole: when a part's body fails the job with
  an API error, the container does not serve the route at all, or the re-check of the original
  document restricted to the part's pages answered that error, or the part's own file could not be
  cut again. A part's terminal answer and an exhausted single page never fail the job by themselves.\<close>

theorem part_fails_as_whole:
  assumes "fst (part_body env srf q p t m) = PartFailed (EngApi x)"
  shows "(\<exists>n \<le> 3. at_Outcome (pe_answer env n) = RouteMissing \<and> attemptErr srf (pe_answer env n) = EngApi x)
    \<or> (\<exists>t' m'. wo_answer (whole (pe_whole env (recheck_query q p)) srf t' m') = Inl (EngApi x))
    \<or> 2 \<le> length (Pages p) \<and> (\<exists>h l err. pe_recut env h l = Some err \<and> recut_fault err)"
proof -
  from assms have "pe_stat_err env = None" by (cases "pe_stat_err env") (simp_all add: part_body_def)
  with assms have "fst (part_loop env srf q p 1 t m) = PartFailed (EngApi x)" by (simp add: part_body_def)
  then have "fails_for env srf q p x" by (rule part_loop_fails_for) (simp add: PartAttempts_def)
  then show ?thesis by (simp add: fails_for_def PartAttempts_def)
qed

lemma part_fails_as_whole_witness:
  "\<exists>n \<le> 3. at_Outcome (pe_answer (demo_part_env\<lparr>pe_answer := \<lambda>n. (attempt0 RouteMissing)\<lparr>at_Err := Some (err_Internal SurfaceDI [])\<rparr>\<rparr>) n) = RouteMissing"
proof -
  let ?env = "demo_part_env\<lparr>pe_answer := \<lambda>n. (attempt0 RouteMissing)\<lparr>at_Err := Some (err_Internal SurfaceDI [])\<rparr>\<rparr>"
  have "fst (part_body ?env SurfaceDI [] \<lparr>Pages = [1]\<rparr> tally0 NewMetrics) = PartFailed (EngApi (err_Internal SurfaceDI []))"
    by (simp add: part_body_def part_loop_round demo_part_env_def Let_def attemptErr_def)
  from part_fails_as_whole [OF this] show ?thesis by (auto simp: demo_part_env_def)
qed

end
