(* ===== verification/Textunit.thy ===== *)
theory Textunit
  imports GoJson
begin

text \<open>
  The units span offsets are counted in, \<open>internal/textunit/textunit.go\<close>, and the operation ids of
  \<open>internal/ids/ids.go\<close>. Grapheme clusters come from a third-party package: their count is an
  argument. \<open>crypto/rand\<close> is an argument of \<open>ids_New\<close>: sixteen bytes.
\<close>

section \<open>Units\<close>

datatype text_unit = TextElements | UnicodeCodePoint | UTF16CodeUnit | OtherUnit int

definition unit_Parse :: "string \<Rightarrow> text_unit option" where
  "unit_Parse v =
     (if v = [] \<or> v = ''textElements'' then Some TextElements
      else if v = ''unicodeCodePoint'' then Some UnicodeCodePoint
      else if v = ''utf16CodeUnit'' then Some UTF16CodeUnit
      else None)"

fun unit_String :: "text_unit \<Rightarrow> string" where
  "unit_String TextElements = ''textElements''"
| "unit_String UnicodeCodePoint = ''unicodeCodePoint''"
| "unit_String UTF16CodeUnit = ''utf16CodeUnit''"
| "unit_String (OtherUnit n) = ''Unit('' @ itoa n @ '')''"

fun utf16_len :: "nat list \<Rightarrow> nat" where
  "utf16_len [] = 0"
| "utf16_len (r # rs) = (if r > 65535 then 2 else 1) + utf16_len rs"

definition unit_Len :: "(string \<Rightarrow> nat) \<Rightarrow> string \<Rightarrow> text_unit \<Rightarrow> nat" where
  "unit_Len graphemes s u =
     (case u of
        UnicodeCodePoint \<Rightarrow> length (runes (map byte s))
      | UTF16CodeUnit \<Rightarrow> utf16_len (runes (map byte s))
      | _ \<Rightarrow> graphemes s)"

section \<open>Concatenation\<close>

text \<open>Valid UTF-8: no byte decodes as an error of size one.\<close>

function valid_utf8 :: "nat list \<Rightarrow> bool" where
  "valid_utf8 bs =
     (if bs = [] then True
      else let (r, n) = decode_rune bs in
        if r = rune_error \<and> n = 1 then False else valid_utf8 (drop n bs))"
  by pat_completeness auto
termination
proof (relation "measure length")
  fix bs :: "nat list" and x r n
  assume "bs \<noteq> []" and "x = decode_rune bs" and "(r, n) = x"
  then have "1 \<le> n" and "n \<le> length bs" using decode_rune_size [of bs] by (metis snd_conv)+
  then show "(drop n bs, bs) \<in> measure length" by simp
qed simp

declare valid_utf8.simps [simp del]

lemma decode_rune_append:
  assumes "bs \<noteq> []" and "\<not> (fst (decode_rune bs) = rune_error \<and> snd (decode_rune bs) = 1)"
  shows "decode_rune (bs @ cs) = decode_rune bs"
proof -
  from assms(1) obtain b0 r where bs: "bs = b0 # r" by (cases bs) auto
  consider (0) "r = []" | (1) b1 where "r = [b1]" | (2) b1 b2 where "r = [b1, b2]"
    | (3) b1 b2 b3 t where "r = b1 # b2 # b3 # t"
    by (cases r rule: list.exhaust; metis list.exhaust)
  then show ?thesis
  proof cases
    case 0
    with bs assms(2) show ?thesis by (simp add: decode_rune_def split: if_splits)
  next
    case 1
    with bs assms(2) show ?thesis by (simp add: decode_rune_def split: if_splits)
  next
    case 2
    with bs assms(2) show ?thesis by (simp add: decode_rune_def split: if_splits)
  next
    case 3
    with bs show ?thesis by (simp add: decode_rune_def)
  qed
qed

lemma runes_append: "valid_utf8 a \<Longrightarrow> runes (a @ b) = runes a @ runes b"
proof (induction a rule: valid_utf8.induct)
  case (1 a)
  show ?case
  proof (cases "a = []")
    case False
    obtain r n where d: "decode_rune a = (r, n)" by (cases "decode_rune a")
    from "1.prems" False d have v: "\<not> (r = rune_error \<and> n = 1)" "valid_utf8 (drop n a)"
      by (subst (asm) valid_utf8.simps, simp split: if_splits)+
    have n: "n \<le> length a" using decode_rune_size [OF False] d by simp
    have "runes (a @ b) = r # runes (drop n (a @ b))"
      using decode_rune_append [OF False, of b] d v False by (subst runes.simps) simp
    also have "drop n (a @ b) = drop n a @ b" using n by simp
    also have "runes (drop n a @ b) = runes (drop n a) @ runes b"
      using "1.IH" [OF False refl _ v] d by simp
    also have "r # (runes (drop n a) @ runes b) = runes a @ runes b"
      using False d by (subst (3) runes.simps) simp
    finally show ?thesis .
  qed simp
qed

lemma utf16_len_append: "utf16_len (a @ b) = utf16_len a + utf16_len b"
  by (induction a) auto

section \<open>Operation ids\<close>

definition hex_byte :: "nat \<Rightarrow> string" where
  "hex_byte b = [hex_digit (b div 16), hex_digit (b mod 16)]"

definition ids_New :: "nat list \<Rightarrow> string" where
  "ids_New rnd =
     (let b1 = rnd[6 := (rnd ! 6) mod 16 + 64];
          b = b1[8 := (b1 ! 8) mod 64 + 128];
          h = (\<lambda>i j. concat (map hex_byte (take (j - i) (drop i b))))
      in h 0 4 @ ''-'' @ h 4 6 @ ''-'' @ h 6 8 @ ''-'' @ h 8 10 @ ''-'' @ h 10 16)"

definition is_hex :: "char \<Rightarrow> bool" where
  "is_hex c \<longleftrightarrow> (let n = (of_char c :: nat) in
     48 \<le> n \<and> n \<le> 57 \<or> 97 \<le> n \<and> n \<le> 102 \<or> 65 \<le> n \<and> n \<le> 70)"

definition ids_Len :: nat where "ids_Len = 36"

definition ids_Valid :: "string \<Rightarrow> bool" where
  "ids_Valid s \<longleftrightarrow> length s = ids_Len \<and>
     list_all (\<lambda>i. if i \<in> {8, 13, 18, 23} then s ! i = CHR ''-'' else is_hex (s ! i)) [0..<ids_Len]"

definition lower_hex :: "char \<Rightarrow> char" where
  "lower_hex c = (let n = (of_char c :: nat) in if 65 \<le> n \<and> n \<le> 70 then char_of (n + 32) else c)"

definition ids_Normalize :: "string \<Rightarrow> string option" where
  "ids_Normalize s = (if \<not> ids_Valid s then None else Some (map lower_hex s))"

lemma hex_digit_code: "d < 16 \<Longrightarrow> (of_char (hex_digit d) :: nat) = (if d < 10 then 48 + d else 87 + d)"
  by (simp add: hex_digit_def of_char_of)

lemma hex_digit_is_hex: "d < 16 \<Longrightarrow> is_hex (hex_digit d) \<and> lower_hex (hex_digit d) = hex_digit d"
  by (auto simp: is_hex_def lower_hex_def hex_digit_code Let_def)

lemma lower_hex_keeps: "is_hex (lower_hex c) = is_hex c" "lower_hex (lower_hex c) = lower_hex c"
  "(lower_hex c = CHR ''-'') = (c = CHR ''-'')"
proof -
  have "lower_hex c = c" if "\<not> (65 \<le> (of_char c :: nat) \<and> (of_char c :: nat) \<le> 70)"
    using that unfolding lower_hex_def Let_def by (rule if_not_P)
  then consider (up) "65 \<le> (of_char c :: nat)" "(of_char c :: nat) \<le> 70" | (no) "lower_hex c = c" by blast
  then have "is_hex (lower_hex c) = is_hex c \<and> lower_hex (lower_hex c) = lower_hex c
    \<and> (lower_hex c = CHR ''-'') = (c = CHR ''-'')"
  proof cases
    case up
    then have l: "(of_char (lower_hex c) :: nat) = of_char c + 32" by (simp add: lower_hex_def of_char_of)
    have "lower_hex (lower_hex c) = lower_hex c" using l up by (simp add: lower_hex_def [of "lower_hex c"])
    moreover have "lower_hex c \<noteq> CHR ''-''" "c \<noteq> CHR ''-''" using l up by auto
    ultimately show ?thesis using l up by (simp add: is_hex_def Let_def)
  qed simp
  then show "is_hex (lower_hex c) = is_hex c" "lower_hex (lower_hex c) = lower_hex c"
    "(lower_hex c = CHR ''-'') = (c = CHR ''-'')" by blast+
qed

lemma ids_Valid_lower: "ids_Valid (map lower_hex s) = ids_Valid s"
proof (cases "length s = ids_Len")
  case True
  then have "(if i \<in> {8, 13, 18, 23} then map lower_hex s ! i = CHR ''-'' else is_hex (map lower_hex s ! i))
      = (if i \<in> {8, 13, 18, 23} then s ! i = CHR ''-'' else is_hex (s ! i))" if "i \<in> set [0..<ids_Len]" for i
    using that by (simp add: lower_hex_keeps)
  then have "list_all (\<lambda>i. if i \<in> {8, 13, 18, 23} then map lower_hex s ! i = CHR ''-'' else is_hex (map lower_hex s ! i)) [0..<ids_Len]
      = list_all (\<lambda>i. if i \<in> {8, 13, 18, 23} then s ! i = CHR ''-'' else is_hex (s ! i)) [0..<ids_Len]"
    unfolding list_all_iff by (intro ball_cong refl)
  then show ?thesis unfolding ids_Valid_def by simp
qed (simp add: ids_Valid_def)

text \<open>The sixteen bytes after the version and variant bits are set, as the id spells them.\<close>

lemma ids_New_chars:
  assumes "length rnd = 16"
  shows "ids_New rnd = concat (map hex_byte (take 4 rnd)) @ ''-'' @ concat (map hex_byte (take 2 (drop 4 rnd)))
     @ ''-'' @ hex_byte (rnd ! 6 mod 16 + 64) @ hex_byte (rnd ! 7)
     @ ''-'' @ hex_byte (rnd ! 8 mod 64 + 128) @ hex_byte (rnd ! 9) @ ''-'' @ concat (map hex_byte (drop 10 rnd))"
proof -
  obtain b0 b1 b2 b3 b4 b5 b6 b7 b8 b9 b10 b11 b12 b13 b14 b15 where
    "rnd = [b0, b1, b2, b3, b4, b5, b6, b7, b8, b9, b10, b11, b12, b13, b14, b15]"
    using assms by (auto simp: numeral_eq_Suc length_Suc_conv)
  then show ?thesis by (simp add: ids_New_def Let_def)
qed

definition dash_layout :: "string \<Rightarrow> bool" where
  "dash_layout s \<longleftrightarrow> (\<exists>a b c d e. s = a @ ''-'' @ b @ ''-'' @ c @ ''-'' @ d @ ''-'' @ e \<and> length a = 8 \<and> length b = 4
     \<and> length c = 4 \<and> length d = 4 \<and> length e = 12 \<and> list_all is_hex (a @ b @ c @ d @ e))"

lemma dash_layoutI:
  "s = a @ ''-'' @ b @ ''-'' @ c @ ''-'' @ d @ ''-'' @ e \<Longrightarrow> length a = 8 \<Longrightarrow> length b = 4 \<Longrightarrow> length c = 4 \<Longrightarrow>
   length d = 4 \<Longrightarrow> length e = 12 \<Longrightarrow> list_all is_hex (a @ b @ c @ d @ e) \<Longrightarrow> dash_layout s"
  unfolding dash_layout_def by blast

lemma is_hex_dash: "\<not> is_hex (CHR ''-'')"
  by (simp add: is_hex_def)

lemma dash_layout_valid: "dash_layout s \<Longrightarrow> ids_Valid s"
proof -
  assume "dash_layout s"
  then obtain a b c d e where s: "s = a @ ''-'' @ b @ ''-'' @ c @ ''-'' @ d @ ''-'' @ e"
    and len: "length a = 8" "length b = 4" "length c = 4" "length d = 4" "length e = 12"
    and hex: "\<forall>x \<in> set (a @ b @ c @ d @ e). is_hex x" by (auto simp: dash_layout_def list_all_iff)
  have "if i \<in> {8, 13, 18, 23} then s ! i = CHR ''-'' else is_hex (s ! i)" if "i < 36" for i
  proof -
    have nth5: "(a @ x # b @ x # c @ x # d @ x # e) ! i =
       (if i < 8 then a ! i else if i = 8 then x else if i < 13 then b ! (i - 9) else if i = 13 then x
        else if i < 18 then c ! (i - 14) else if i = 18 then x else if i < 23 then d ! (i - 19)
        else if i = 23 then x else e ! (i - 24))" for x
    proof -
      consider "i < 8" | "i = 8" | k where "i = k + 9" "k < 4" | "i = 13" | k where "i = k + 14" "k < 4" | "i = 18"
        | k where "i = k + 19" "k < 4" | "i = 23" | k where "i = k + 24"
      proof -
        have "i < 8 \<or> i = 8 \<or> (\<exists>k. i = k + 9 \<and> k < 4) \<or> i = 13 \<or> (\<exists>k. i = k + 14 \<and> k < 4) \<or> i = 18
          \<or> (\<exists>k. i = k + 19 \<and> k < 4) \<or> i = 23 \<or> (\<exists>k. i = k + 24)" by presburger
        then show ?thesis using that by blast
      qed
      then show ?thesis by cases (simp_all add: nth_append len)
    qed
    have at: "s ! i = (if i < 8 then a ! i else if i = 8 then CHR ''-'' else if i < 13 then b ! (i - 9)
        else if i = 13 then CHR ''-'' else if i < 18 then c ! (i - 14) else if i = 18 then CHR ''-''
        else if i < 23 then d ! (i - 19) else if i = 23 then CHR ''-'' else e ! (i - 24))"
      using nth5 [of "CHR ''-''"] by (simp only: s append_Cons append_Nil)
    have ha: "i < 8 \<Longrightarrow> is_hex (a ! i)" using hex len by simp
    have hb: "9 \<le> i \<Longrightarrow> i < 13 \<Longrightarrow> is_hex (b ! (i - 9))" using hex len by simp
    have hc: "14 \<le> i \<Longrightarrow> i < 18 \<Longrightarrow> is_hex (c ! (i - 14))" using hex len by simp
    have hd: "19 \<le> i \<Longrightarrow> i < 23 \<Longrightarrow> is_hex (d ! (i - 19))" using hex len by simp
    have he: "24 \<le> i \<Longrightarrow> is_hex (e ! (i - 24))" using hex len that by simp
    show ?thesis unfolding at using ha hb hc hd he by simp
  qed
  moreover have "length s = 36" by (simp add: s len)
  ultimately show ?thesis unfolding ids_Valid_def ids_Len_def list_all_iff by simp
qed

lemma map_dashes:
  "\<forall>x \<in> set (a @ b @ c @ d @ e). is_hex x \<and> f x = x \<Longrightarrow> f (CHR ''-'') = CHR ''-'' \<Longrightarrow>
   map f (a @ ''-'' @ b @ ''-'' @ c @ ''-'' @ d @ ''-'' @ e) = a @ ''-'' @ b @ ''-'' @ c @ ''-'' @ d @ ''-'' @ e"
  by (simp add: map_idI)

section \<open>Properties\<close>

text \<open>A minted operation id, from any sixteen random bytes: it is a canonical GUID of 36 characters
  with version 4, it is already in normal form, and it is what any upper-case echo of it normalises
  to only through \<open>Normalize\<close>'s lower-casing, which is idempotent and keeps validity.\<close>

theorem minted_id:
  assumes "length rnd = 16" and "\<forall>b \<in> set rnd. b < 256"
  shows "ids_Valid (ids_New rnd) \<and> ids_Normalize (ids_New rnd) = Some (ids_New rnd)
    \<and> ids_New rnd ! 14 = CHR ''4''
    \<and> (\<forall>s t. ids_Normalize s = Some t \<longrightarrow> ids_Normalize t = Some t \<and> ids_Valid s)"
proof -
  let ?a = "concat (map hex_byte (take 4 rnd))" and ?b = "concat (map hex_byte (take 2 (drop 4 rnd)))"
  let ?c = "hex_byte (rnd ! 6 mod 16 + 64) @ hex_byte (rnd ! 7)"
  let ?d = "hex_byte (rnd ! 8 mod 64 + 128) @ hex_byte (rnd ! 9)" and ?e = "concat (map hex_byte (drop 10 rnd))"
  have hx: "list_all (\<lambda>x. is_hex x \<and> lower_hex x = x) (hex_byte b)" if "b < 256" for b
    using that hex_digit_is_hex [of "b div 16"] hex_digit_is_hex [of "b mod 16"] by (simp add: hex_byte_def)
  have hxs: "list_all (\<lambda>x. is_hex x \<and> lower_hex x = x) (concat (map hex_byte bs))" if "\<forall>b \<in> set bs. b < 256" for bs
    using that by (induction bs) (simp_all add: hx)
  have len: "length (concat (map hex_byte bs)) = 2 * length bs" for bs
    by (induction bs) (auto simp: hex_byte_def)
  have nth: "rnd ! i < 256" if "i < 16" for i using assms that by simp
  have t: "\<forall>b \<in> set (take 4 rnd). b < 256" "\<forall>b \<in> set (take 2 (drop 4 rnd)). b < 256"
      "\<forall>b \<in> set (drop 10 rnd). b < 256"
    using assms(2) by (blast dest: in_set_takeD in_set_dropD)+
  have m: "rnd ! 6 mod 16 + 64 < 256" "rnd ! 8 mod 64 + 128 < 256"
    using mod_less_divisor [of 16 "rnd ! 6"] mod_less_divisor [of 64 "rnd ! 8"] by linarith+
  have all: "list_all (\<lambda>x. is_hex x \<and> lower_hex x = x) (?a @ ?b @ ?c @ ?d @ ?e)"
    unfolding list_all_append
    by (intro conjI hxs hx t m nth) simp_all
  have new: "ids_New rnd = ?a @ ''-'' @ ?b @ ''-'' @ ?c @ ''-'' @ ?d @ ''-'' @ ?e"
    using ids_New_chars [OF assms(1)] by simp
  have lens: "length ?a = 8" "length ?b = 4" "length ?c = 4" "length ?d = 4" "length ?e = 12"
    using assms(1) by (simp_all only: len) (simp_all add: hex_byte_def)
  have hexes: "list_all is_hex (?a @ ?b @ ?c @ ?d @ ?e)" using all unfolding list_all_iff by blast
  have valid: "ids_Valid (ids_New rnd)"
    by (rule dash_layout_valid [OF dash_layoutI [OF new lens hexes]])
  have "map lower_hex (ids_New rnd) = ids_New rnd"
    unfolding new
    by (rule map_dashes) (rule all [unfolded list_all_iff], simp add: lower_hex_def)
  moreover have "ids_New rnd ! 14 = ?c ! 0"
    unfolding new using lens(1,2) by (simp add: nth_append hex_byte_def)
  moreover have "(rnd ! 6 mod 16 + 64) div 16 = 4" by simp
  then have "?c ! 0 = CHR ''4''" using char_of_char [of "CHR ''4''"] by (simp add: hex_byte_def hex_digit_def)
  moreover have "ids_Normalize t = Some t \<and> ids_Valid s" if "ids_Normalize s = Some t" for s t
    using that by (auto simp: ids_Normalize_def ids_Valid_lower lower_hex_keeps split: if_splits)
  ultimately show ?thesis using valid by (simp add: ids_Normalize_def)
qed

lemma minted_id_witness: "ids_New (replicate 16 255) ! 14 = CHR ''4''"
  using minted_id [of "replicate 16 255"] by simp

text \<open>Counting offsets across a join: in code points and in UTF-16 units, the length of a valid
  text followed by another is the sum of their lengths, so shifting a part's spans by the length of
  what precedes it is exact. (For text elements it is not: two texts can join into one grapheme.)\<close>

theorem length_of_join:
  assumes "valid_utf8 (map byte a)" and "u \<in> {UnicodeCodePoint, UTF16CodeUnit}"
  shows "unit_Len g (a @ b) u = unit_Len g a u + unit_Len g b u"
  using assms by (auto simp: unit_Len_def runes_append utf16_len_append)

lemma length_of_join_witness: "unit_Len (\<lambda>s. 0) (''ab'' @ ''c'') UTF16CodeUnit = 3"
proof -
  have "valid_utf8 (map byte ''ab'')" by (simp add: byte_def valid_utf8.simps decode_rune_def rune_error_def)
  from length_of_join [OF this, of UTF16CodeUnit "\<lambda>s. 0" "''c''"] show ?thesis
    by (simp add: unit_Len_def runes_ascii byte_def)
qed

end
