(* ===== verification/Engine.thy ===== *)
theory Engine
  imports Parts Textunit
begin

text \<open>
  One document through the engine, \<open>internal/engine/engine.go\<close> and the files it writes
  (\<open>workdir.go\<close>, \<open>parts.go\<close>'s merge step): the decision between whole and split, the run, and what it
  reports. Arguments stand for the file system's answers, MIME parsing, \<open>jsonx.Members\<close>, base64
  decoding and the merge itself; a \<open>Run\<close> is told what its pieces returned.
\<close>

section \<open>Files\<close>

text \<open>
  \<open>writeFile\<close>: an exclusive create (\<open>create_err\<close>, always an error when the file is there), what \<open>fn\<close>
  wrote and returned, the flush and the close. Any error removes the file it created.
\<close>

definition writeFile :: "string \<Rightarrow> string option \<Rightarrow> string \<times> write_error option \<Rightarrow> string option \<Rightarrow> string option
    \<Rightarrow> files \<Rightarrow> write_error option \<times> files" where
  "writeFile path create_err fn flush_err close_err fs =
     (if fs path \<noteq> None then (Some (FileError ''engine: create: file exists''), fs)
      else case create_err of
        Some e \<Rightarrow> (Some (FileError e), fs)
      | None \<Rightarrow>
          (case fn of
             (written, ferr) \<Rightarrow>
               let err = (case ferr of
                            Some e \<Rightarrow> Some e
                          | None \<Rightarrow> (case flush_err of
                                      Some e \<Rightarrow> Some (FileError e)
                                    | None \<Rightarrow> map_option FileError close_err));
                   fs1 = fs(path \<mapsto> written)
               in case err of
                    Some e \<Rightarrow> (Some e, fs1(path := None))
                  | None \<Rightarrow> (None, fs1)))"

text \<open>\<open>newWorkdir\<close>: the entries it keeps of a stale folder. \<open>same\<close> is \<open>os.SameFile\<close> with the input.\<close>

datatype mkdir_result = MkdirMade | MkdirExists | MkdirFailed string

definition bad_job :: "string \<Rightarrow> bool" where
  "bad_job job \<longleftrightarrow> job = [] \<or> job = ''.'' \<or> job = ''..'' \<or> (\<exists>c \<in> set job. c = CHR ''/'' \<or> c = CHR 0x5C)"

fun remove_stale :: "(string \<Rightarrow> bool) \<Rightarrow> (string \<Rightarrow> string option) \<Rightarrow> string list \<Rightarrow> string + string list" where
  "remove_stale same rm [] = Inr []"
| "remove_stale same rm (ent # ents) =
     (if same ent then map_sum id ((#) ent) (remove_stale same rm ents)
      else case rm ent of
        Some e \<Rightarrow> Inl (''engine: remove stale work file: '' @ e)
      | None \<Rightarrow> remove_stale same rm ents)"

definition newWorkdir :: "string \<Rightarrow> string option \<Rightarrow> mkdir_result \<Rightarrow> string + string list \<Rightarrow> (string \<Rightarrow> bool)
    \<Rightarrow> (string \<Rightarrow> string option) \<Rightarrow> string + string list" where
  "newWorkdir job root_err made listing same rm =
     (if bad_job job then Inl ''engine: job id cannot name a work folder''
      else case root_err of
        Some e \<Rightarrow> Inl (''engine: create work root: '' @ e)
      | None \<Rightarrow>
          (case made of
             MkdirMade \<Rightarrow> Inr []
           | MkdirFailed e \<Rightarrow> Inl (''engine: create work folder: '' @ e)
           | MkdirExists \<Rightarrow>
               (case listing of
                  Inl e \<Rightarrow> Inl (''engine: read stale work folder: '' @ e)
                | Inr ents \<Rightarrow> remove_stale same rm ents)))"

text \<open>\<open>cappedWriter\<close>: \<open>wr\<close> is how much of a write the file takes, and its error.\<close>

record capped =
  cw_left :: int
  cw_over :: bool
  cw_out :: string

definition capped_write :: "(string \<Rightarrow> nat \<times> string option) \<Rightarrow> string \<Rightarrow> capped \<Rightarrow> string option \<times> capped" where
  "capped_write wr p c =
     (if int (length p) > cw_left c then (Some ''engine: merged result exceeds the result ceiling'', c\<lparr>cw_over := True\<rparr>)
      else case wr p of
        (n, err) \<Rightarrow> (err, c\<lparr>cw_left := cw_left c - int n, cw_out := cw_out c @ take n p\<rparr>))"

text \<open>A merge writes chunks and stops at the first error.\<close>

fun capped_run :: "(string \<Rightarrow> nat \<times> string option) \<Rightarrow> string list \<Rightarrow> capped \<Rightarrow> string option \<times> capped" where
  "capped_run wr [] c = (None, c)"
| "capped_run wr (p # ps) c =
     (case capped_write wr p c of
        (Some e, c1) \<Rightarrow> (Some e, c1)
      | (None, c1) \<Rightarrow> capped_run wr ps c1)"

section \<open>The decision\<close>

definition splitFailure :: "go_error option \<Rightarrow> write_error \<Rightarrow> engine_error + string" where
  "splitFailure ctx err =
     (case ctx of
        Some e \<Rightarrow> Inl (EngCtx e)
      | None \<Rightarrow>
          (case err of
             CutError (ErrPanic m) \<Rightarrow> Inr ''panic''
           | CutError ErrEncrypted \<Rightarrow> Inr ''encrypted''
           | CutError ErrBudget \<Rightarrow> Inr ''budget''
           | CutError (ErrUnparseable m) \<Rightarrow> Inr ''unparseable''
           | _ \<Rightarrow> Inl (EngOwn ''engine: split'')))"

definition selectPages :: "query \<Rightarrow> int \<Rightarrow> int list option" where
  "selectPages q pagecount =
     (case queryValues q ''pages'' of
        (vals, given) \<Rightarrow>
          if \<not> given then Some [1..pagecount]
          else case vals of
            [v] \<Rightarrow> (case ParsePages v of None \<Rightarrow> None | Some ranges \<Rightarrow> Select ranges pagecount)
          | _ \<Rightarrow> None)"

definition mergeUnit :: "surface \<Rightarrow> query \<Rightarrow> text_unit option" where
  "mergeUnit srf q =
     (if srf \<noteq> SurfaceDI then Some TextElements
      else case queryValues q ''stringIndexType'' of
        (vals, given) \<Rightarrow>
          if \<not> given then Some TextElements
          else case vals of [v] \<Rightarrow> unit_Parse v | _ \<Rightarrow> None)"

text \<open>\<open>hasPDFHeader\<close> over a readable file's contents.\<close>

definition hasPDFHeader :: "string + string \<Rightarrow> engine_error + bool" where
  "hasPDFHeader file =
     (case file of
        Inl e \<Rightarrow> Inl (EngOwn (''engine: open input: '' @ e))
      | Inr body \<Rightarrow> Inr (IsPDF (take 1024 body)))"

text \<open>The members \<open>decodeBase64Source\<close> looks for: \<open>None\<close> when a \<open>urlSource\<close> is there; the last
  \<open>base64Source\<close> wins.\<close>

fun find_source :: "(string \<times> nat \<times> nat) list \<Rightarrow> (nat \<times> nat) option \<Rightarrow> (nat \<times> nat) option option" where
  "find_source [] v = Some v"
| "find_source ((nm, a, b) # ms) v =
     (if nm = ''urlSource'' then None
      else if nm = ''base64Source'' then find_source ms (Some (a, b))
      else find_source ms v)"

text \<open>The decoded document, \<open>Inr None\<close> when the body has no such PDF: \<open>members\<close> is \<open>jsonx.Members\<close>,
  \<open>b64\<close> the decoder (\<open>None\<close>: it does not decode), \<open>write_err\<close> a failure writing it.\<close>

definition decodeBase64Source :: "(string \<Rightarrow> (string \<times> nat \<times> nat) list option) \<Rightarrow> (string \<Rightarrow> string option)
    \<Rightarrow> string option \<Rightarrow> string + string \<Rightarrow> engine_error + string option" where
  "decodeBase64Source members b64 write_err file =
     (case file of
        Inl e \<Rightarrow> Inl (EngOwn (''engine: open input: '' @ e))
      | Inr body \<Rightarrow>
          (case members body of
             None \<Rightarrow> Inr None
           | Some ms \<Rightarrow>
               (case find_source ms None of
                  Some (Some (a, b)) \<Rightarrow>
                    if b - a < 2 then Inr None
                    else if body ! a \<noteq> quote then Inr None
                    else (case write_err of
                            Some e \<Rightarrow> Inl (EngOwn (''engine: decode base64Source: '' @ e))
                          | None \<Rightarrow>
                              (case b64 (slice body (a + 1) (b - 1)) of
                                 None \<Rightarrow> Inr None
                               | Some pdf \<Rightarrow> if IsPDF (take 1024 pdf) then Inr (Some pdf) else Inr None))
                | _ \<Rightarrow> Inr None)))"

text \<open>What the decision meets: the settings, the PDF to split (\<open>pdfSource\<close>'s answer, \<open>None\<close> for ""), the
  splitter's answer for it, and the cut of each part.\<close>

record decide_env =
  de_SplitPages :: int
  de_splitter :: bool
  de_source :: "engine_error + string option"
  de_open :: "string \<Rightarrow> split_error + int"
  de_cut :: "part \<Rightarrow> write_error option"
  de_ctx :: "go_error option"
  de_dir :: string

record decision =
  dc_fallback :: string
  dc_pages :: "int list"
  dc_parts :: "(part \<times> string) list option"
  dc_unit :: text_unit

definition whole_decision :: "string \<Rightarrow> decision" where
  "whole_decision fallback = \<lparr>dc_fallback = fallback, dc_pages = [], dc_parts = None, dc_unit = TextElements\<rparr>"

definition pdfSource :: "string \<Rightarrow> string \<Rightarrow> engine_error + bool \<Rightarrow> engine_error + string option \<Rightarrow> engine_error + string option" where
  "pdfSource mt path header decoded =
     (let t = go_lower mt in
      if t = ''application/pdf'' \<or> t = ''application/octet-stream'' then
        (case header of Inl e \<Rightarrow> Inl e | Inr ok \<Rightarrow> Inr (if ok then Some path else None))
      else if t = ''application/json'' then decoded
      else Inr None)"

fun cut_parts :: "decide_env \<Rightarrow> part list \<Rightarrow> (part \<times> string) list \<Rightarrow> write_error + (part \<times> string) list" where
  "cut_parts v [] done_parts = Inr done_parts"
| "cut_parts v (p # ps) done_parts =
     (case de_cut v p of
        Some e \<Rightarrow> Inl e
      | None \<Rightarrow> cut_parts v ps (done_parts @ [(p, de_dir v @ ''/'' @ partName ''part'' (Pages p) ''.pdf'')]))"

definition split_failed :: "decide_env \<Rightarrow> write_error \<Rightarrow> engine_error + decision" where
  "split_failed v err =
     (case splitFailure (de_ctx v) err of Inl e \<Rightarrow> Inl e | Inr reason \<Rightarrow> Inr (whole_decision reason))"

definition decide :: "decide_env \<Rightarrow> surface \<Rightarrow> query \<Rightarrow> engine_error + decision" where
  "decide v srf q =
     (if de_SplitPages v \<le> 0 \<or> \<not> de_splitter v then Inr (whole_decision [])
      else case de_source v of
        Inl e \<Rightarrow> Inl e
      | Inr None \<Rightarrow> Inr (whole_decision [])
      | Inr (Some src) \<Rightarrow>
          (case de_open v src of
             Inl e \<Rightarrow> split_failed v (CutError e)
           | Inr pagecount \<Rightarrow>
               (case selectPages q pagecount of
                  None \<Rightarrow> Inr (whole_decision ''pages_param'')
                | Some pages \<Rightarrow>
                    if int (length pages) \<le> de_SplitPages v then Inr (whole_decision [])
                    else (case mergeUnit srf q of
                       None \<Rightarrow> Inr (whole_decision ''string_index_type'')
                     | Some u \<Rightarrow>
                         (case Plan pages (de_SplitPages v) of
                            None \<Rightarrow> Inl (EngOwn ''panic: pdfsplit: Plan'')
                          | Some parts \<Rightarrow>
                              (case cut_parts v parts [] of
                                 Inl err \<Rightarrow> split_failed v err
                               | Inr done_parts \<Rightarrow> Inr \<lparr>dc_fallback = [], dc_pages = pages, dc_parts = Some done_parts,
                                              dc_unit = u\<rparr>))))))"

section \<open>The end of a split run\<close>

datatype merge_error = MergeCheck string | MergeOther string

text \<open>The merge of the sorted results: the chunks it writes and the error it ends with when every
  write succeeds; the file's own failures (a chunk's write, the flush or the close, the stat); and
  the seconds the merge took.\<close>

record split_env =
  se_merge :: "(part \<times> result) list \<Rightarrow> string list \<times> merge_error option"
  se_write :: "string \<Rightarrow> nat \<times> string option"
  se_close_err :: "string option"
  se_took :: real
  se_stat_err :: "string option"
  se_dir :: string
  se_whole :: "query \<Rightarrow> whole_env"

datatype merge_end = Merged run_output | MergeFailed engine_error | MergeUnsafe

definition merge_parts :: "split_env \<Rightarrow> base \<Rightarrow> int list \<Rightarrow> (part \<times> result) list \<Rightarrow> metrics \<Rightarrow> merge_end \<times> metrics" where
  "merge_parts v b pages results m =
     (if covered results \<noteq> pages then (MergeUnsafe, m)
      else let rs = by_first results in
        case se_merge v rs of
          (chunks, merr) \<Rightarrow>
            (case capped_run (se_write v) chunks \<lparr>cw_left = resultLimit b, cw_over = False, cw_out = []\<rparr> of
               (werr, c) \<Rightarrow>
                 if cw_over c then (MergeFailed (EngApi (ResultTooLarge b)), m)
                 else (case werr of
                         Some e \<Rightarrow> (MergeFailed (EngOwn (''engine: merge: '' @ e)), m)
                       | None \<Rightarrow>
                           (case merr of
                              Some (MergeCheck e) \<Rightarrow> (MergeUnsafe, m)
                            | Some (MergeOther e) \<Rightarrow> (MergeFailed (EngOwn (''engine: merge: '' @ e)), m)
                            | None \<Rightarrow>
                                (case se_close_err v of
                                   Some e \<Rightarrow> (MergeFailed (EngOwn (''engine: merge: '' @ e)), m)
                                 | None \<Rightarrow>
                                     (case se_stat_err v of
                                        Some e \<Rightarrow> MergeFailed (EngOwn (''engine: stat merged result: '' @ e))
                                      | None \<Rightarrow>
                                          Merged \<lparr>out_Path = se_dir v @ ''/merged.json'', out_Start = 0,
                                            out_End = int (length (cw_out c)), out_Bare = res_Bare (snd (hd rs)),
                                            out_Attempts = 0, out_Parts = int (length results), out_Halvings = 0,
                                            out_Hedges = 0, out_Fallback = [], out_UpstreamStatus = 0\<rparr>,
                                      met_mergeSeconds (se_took v) m))))))"

text \<open>\<open>split\<close> after \<open>runParts\<close> has ended in the state \<open>f\<close>.\<close>

definition split_end :: "split_env \<Rightarrow> base \<Rightarrow> query \<Rightarrow> int list \<Rightarrow> fanout \<Rightarrow> (engine_error + run_output) \<times> tally \<times> metrics" where
  "split_end v b q pages f =
     (case fn_err f of
        Some e \<Rightarrow> (Inl e, fn_tally f, fn_metrics f)
      | None \<Rightarrow>
          (case merge_parts v b pages (fn_results f) (fn_metrics f) of
             (MergeUnsafe, m) \<Rightarrow>
               runWhole (se_whole v q) (b_surface b) ''merge_check''
                 ((fn_tally f)\<lparr>ta_fallback := ''merge_check'', ta_parts := 1\<rparr>)
                 (met_fallback ''merge_check'' m)
           | (MergeFailed e, m) \<Rightarrow> (Inl e, fn_tally f, m)
           | (Merged out, m) \<Rightarrow> (Inr out, fn_tally f, m)))"

section \<open>The run\<close>

text \<open>The counts and counters \<open>run\<close> sets before it goes whole or split.\<close>

definition run_begin :: "decision \<Rightarrow> tally \<Rightarrow> metrics \<Rightarrow> tally \<times> metrics" where
  "run_begin d t m =
     (let t1 = (if dc_fallback d \<noteq> [] then t\<lparr>ta_fallback := dc_fallback d\<rparr> else t);
          m1 = (if dc_fallback d \<noteq> [] then met_fallback (dc_fallback d) m else m);
          n = (case dc_parts d of None \<Rightarrow> 0 | Some ps \<Rightarrow> int (length ps))
      in (t1\<lparr>ta_parts := max n 1\<rparr>, m1))"

datatype run_error = RunCtx go_error | RunApi api_error

definition minutes :: "(int \<Rightarrow> string) \<Rightarrow> int \<Rightarrow> string" where
  "minutes dur_string d =
     (if d \<ge> 60 * second \<and> d mod (60 * second) = 0 then itoa (go_div d (60 * second)) @ '' minutes''
      else dur_string d)"

text \<open>
  \<open>run\<close> with its effects: what the decision saw (\<open>v\<close>), and for a split job any order in which the
  parts' bodies ran until none was left.
\<close>

inductive job_run :: "decide_env \<Rightarrow> split_env \<Rightarrow> base \<Rightarrow> query \<Rightarrow> tally \<Rightarrow> metrics
    \<Rightarrow> (engine_error + run_output) \<times> tally \<times> metrics \<Rightarrow> bool" for v w b q t m where
  run_undecided: "decide v (b_surface b) q = Inl e \<Longrightarrow> job_run v w b q t m (Inl e, t, m)"
| run_as_whole: "decide v (b_surface b) q = Inr d \<Longrightarrow> dc_parts d = None \<Longrightarrow> run_begin d t m = (t1, m1) \<Longrightarrow>
    job_run v w b q t m (runWhole (se_whole w q) (b_surface b) (dc_fallback d) t1 m1)"
| run_as_parts: "decide v (b_surface b) q = Inr d \<Longrightarrow> dc_parts d = Some cuts \<Longrightarrow> run_begin d t m = (t1, m1) \<Longrightarrow>
    fan_reach (b_surface b) (part_query q) (fan_start (map fst cuts) t1 m1) n f \<Longrightarrow> fn_active f = [] \<Longrightarrow>
    job_run v w b q t m (split_end w b q (dc_pages d) f)"

text \<open>\<open>Run\<close> around \<open>run\<close>: \<open>parent\<close> and \<open>ended\<close> are the caller's and the job's contexts when it fails.\<close>

definition Run :: "(int \<Rightarrow> string) \<Rightarrow> surface \<Rightarrow> string option \<Rightarrow> go_error option \<Rightarrow> bool \<Rightarrow> metrics
    \<Rightarrow> (engine_error + run_output) \<times> tally \<times> metrics \<Rightarrow> run_output option \<times> run_error option \<times> metrics" where
  "Run dur_string srf workdir_err parent ended m0 r =
     (case r of (res, t, m) \<Rightarrow>
        (case workdir_err of
           Some e \<Rightarrow> (None, Some (RunApi (err_Internal srf [])), m0)
         | None \<Rightarrow>
             (case res of
                Inl err \<Rightarrow>
                  (case parent of
                     Some e \<Rightarrow> (None, Some (RunCtx e), m)
                   | None \<Rightarrow>
                       if ended then
                         (Some (failed_output t), Some (RunApi (err_Internal srf
                            (''The analysis did not complete within the job deadline of ''
                             @ minutes dur_string JobDeadline @ ''.''))), m)
                       else
                         (let failed = (failed_output t)\<lparr>out_Fallback := ta_fallback t\<rparr> in
                          case err of
                            EngApi x \<Rightarrow> (Some failed, Some (RunApi x), m)
                          | _ \<Rightarrow> (Some failed, Some (RunApi (err_Internal srf [])), m)))
              | Inr out \<Rightarrow>
                  (Some (out\<lparr>out_Attempts := ta_attempts t, out_Halvings := ta_halvings t,
                             out_Hedges := ta_hedges t\<rparr>), None, met_jobPartCount (out_Parts out) m))))"

section \<open>Lemmas\<close>

lemma cut_parts_spec:
  "cut_parts v ps acc = Inr out \<Longrightarrow>
   out = acc @ map (\<lambda>p. (p, de_dir v @ ''/'' @ partName ''part'' (Pages p) ''.pdf'')) ps"
  by (induction v ps acc rule: cut_parts.induct) (auto split: option.splits)

lemma split_failed_whole: "split_failed v e = Inr d \<Longrightarrow> dc_parts d = None"
  by (auto simp: split_failed_def whole_decision_def split: sum.splits)

lemma decide_cases:
  assumes "decide v srf q = Inr d" and "dc_parts d = Some cuts"
  obtains src pagecount pages parts where
    "0 < de_SplitPages v" and "de_source v = Inr (Some src)" and "de_open v src = Inr pagecount"
    and "selectPages q pagecount = Some pages" and "de_SplitPages v < int (length pages)"
    and "Plan pages (de_SplitPages v) = Some parts" and "dc_pages d = pages"
    and "mergeUnit srf q = Some (dc_unit d)"
    and "cuts = map (\<lambda>p. (p, de_dir v @ ''/'' @ partName ''part'' (Pages p) ''.pdf'')) parts"
proof -
  have w: "dc_parts (whole_decision r) = None" for r by (simp add: whole_decision_def)
  from assms have sp: "0 < de_SplitPages v" using w by (force simp: decide_def split: if_splits)
  from assms w have spl: "de_splitter v" by (force simp: decide_def split: if_splits)
  from assms sp w obtain src where src: "de_source v = Inr (Some src)"
    by (force simp: decide_def split: if_splits sum.splits option.splits)
  from assms sp src w split_failed_whole obtain n where n: "de_open v src = Inr n"
    by (cases "de_open v src") (force simp: decide_def split: if_splits)+
  from assms sp src n w obtain pages where p: "selectPages q n = Some pages"
    by (cases "selectPages q n") (force simp: decide_def split: if_splits)+
  from assms sp src n p w have len: "de_SplitPages v < int (length pages)"
    by (force simp: decide_def split: if_splits)
  from assms sp src n p len w obtain u where u: "mergeUnit srf q = Some u"
    by (cases "mergeUnit srf q") (force simp: decide_def split: if_splits)+
  from assms sp src n p len u obtain parts where pl: "Plan pages (de_SplitPages v) = Some parts"
    by (cases "Plan pages (de_SplitPages v)") (auto simp: decide_def w split: if_splits)
  show ?thesis
  proof (cases "cut_parts v parts []")
    case (Inl e)
    with assms sp src n p len u pl have "split_failed v e = Inr d" by (simp add: decide_def spl)
    with split_failed_whole assms(2) show ?thesis by force
  next
    case (Inr out)
    with assms sp src n p len u pl have d: "d = \<lparr>dc_fallback = [], dc_pages = pages, dc_parts = Some out, dc_unit = u\<rparr>"
      by (simp add: decide_def spl)
    have "cuts = out" and "dc_pages d = pages" and "mergeUnit srf q = Some (dc_unit d)"
      using d assms(2) u by simp_all
    moreover have "out = map (\<lambda>p. (p, de_dir v @ ''/'' @ partName ''part'' (Pages p) ''.pdf'')) parts"
      using cut_parts_spec [OF Inr] by simp
    ultimately show ?thesis using that [OF sp src n p len pl] by blast
  qed
qed

lemma selectPages_shape:
  assumes "selectPages q n = Some pages"
  shows "sorted_wrt (<) pages \<and> (\<forall>i \<in> set pages. 1 \<le> i \<and> i \<le> n)"
proof (cases "snd (queryValues q ''pages'')")
  case False
  with assms have "pages = [1..n]" by (auto simp: selectPages_def split: prod.splits)
  then show ?thesis by (simp add: strict_sorted_upto)
next
  case True
  with assms obtain rs where "Select rs n = Some pages"
    by (auto simp: selectPages_def split: prod.splits list.splits option.splits)
  then show ?thesis using Select_sorted Select_bounds by blast
qed

lemma capped_write_inv:
  "capped_write wr p c = (e, c') \<Longrightarrow> 0 \<le> cw_left c \<Longrightarrow> (\<And>x. fst (wr x) \<le> length x) \<Longrightarrow>
   0 \<le> cw_left c' \<and> int (length (cw_out c')) + cw_left c' = int (length (cw_out c)) + cw_left c"
proof -
  assume a: "capped_write wr p c = (e, c')" "0 \<le> cw_left c" and wr: "\<And>x. fst (wr x) \<le> length x"
  obtain n err where w: "wr p = (n, err)" by (cases "wr p")
  with wr [of p] have "n \<le> length p" by simp
  with a w show ?thesis by (auto simp: capped_write_def split: if_splits)
qed

lemma capped_run_inv:
  "capped_run wr ps c = (e, c') \<Longrightarrow> 0 \<le> cw_left c \<Longrightarrow> (\<And>x. fst (wr x) \<le> length x) \<Longrightarrow>
   0 \<le> cw_left c' \<and> int (length (cw_out c')) + cw_left c' = int (length (cw_out c)) + cw_left c"
proof (induction wr ps c arbitrary: e c' rule: capped_run.induct)
  case (2 wr p ps c)
  obtain e1 c1 where w: "capped_write wr p c = (e1, c1)" by (cases "capped_write wr p c")
  note one = capped_write_inv [OF w "2.prems"(2,3)]
  show ?case
  proof (cases e1)
    case None
    with "2.prems"(1) w have "capped_run wr ps c1 = (e, c')" by simp
    with "2.IH" [OF w [symmetric] None] one "2.prems"(3) show ?thesis by simp
  next
    case (Some x)
    with "2.prems"(1) w one show ?thesis by simp
  qed
qed simp

lemma merge_parts_merged:
  assumes "merge_parts w b pages rs m = (Merged out, m')" and wr: "\<And>x. fst (se_write w x) \<le> length x"
  shows "covered rs = pages \<and> out_Path out = se_dir w @ ''/merged.json'' \<and> out_Parts out = int (length rs)
    \<and> out_End out \<le> resultLimit b \<and> out_Fallback out = []"
proof -
  obtain chunks merr where mg: "se_merge w (by_first rs) = (chunks, merr)" by force
  obtain werr c where cr: "capped_run (se_write w) chunks \<lparr>cw_left = resultLimit b, cw_over = False, cw_out = []\<rparr> = (werr, c)"
    by force
  have "0 \<le> resultLimit b" by (simp add: resultLimit_def)
  then have "int (length (cw_out c)) \<le> resultLimit b" using capped_run_inv [OF cr _ wr] by simp
  with assms(1) show ?thesis
    by (simp add: merge_parts_def mg cr split: if_splits option.splits merge_error.splits) auto
qed

section \<open>Properties\<close>

text \<open>C23. When the engine decides to split, the parts are the client's selection and nothing else: the
  selected pages are what \<open>selectPages\<close> gives for the opened document, ascending pages that exist
  in it, more than \<open>SPLIT_PAGES\<close> of them; the parts in order are exactly those pages, none is empty or
  longer than \<open>SPLIT_PAGES\<close>, there are at least two, and their text unit is the client's.\<close>

theorem decide_split_shape:
  assumes "decide v srf q = Inr d" and "dc_parts d = Some cuts"
  shows "concat (map (Pages \<circ> fst) cuts) = dc_pages d \<and> sorted_wrt (<) (dc_pages d)
    \<and> (\<exists>src n. de_open v src = Inr n \<and> selectPages q n = Some (dc_pages d) \<and> (\<forall>i \<in> set (dc_pages d). 1 \<le> i \<and> i \<le> n))
    \<and> de_SplitPages v < int (length (dc_pages d)) \<and> 2 \<le> length cuts
    \<and> (\<forall>(p, f) \<in> set cuts. Pages p \<noteq> [] \<and> int (length (Pages p)) \<le> de_SplitPages v)
    \<and> mergeUnit srf q = Some (dc_unit d)"
proof -
  obtain src n pages parts where c0: "0 < de_SplitPages v" "de_source v = Inr (Some src)"
    "de_open v src = Inr n" "selectPages q n = Some pages" "de_SplitPages v < int (length pages)"
    "Plan pages (de_SplitPages v) = Some parts" "dc_pages d = pages" "mergeUnit srf q = Some (dc_unit d)"
    "cuts = map (\<lambda>p. (p, de_dir v @ ''/'' @ partName ''part'' (Pages p) ''.pdf'')) parts"
    by (rule decide_cases [OF assms])
  note c = c0(1,4,5,6,7,8,9)
  have one: "1 \<le> de_SplitPages v" using c(1) by simp
  note shape = Plan_parts [OF one c(3,4)]
  have "map (Pages \<circ> fst) cuts = map Pages parts" and "length cuts = length parts"
    and "fst ` set cuts = set parts"
    by (simp_all add: c(7) comp_def image_image)
  then have "concat (map (Pages \<circ> fst) cuts) = dc_pages d \<and> 2 \<le> length cuts
      \<and> (\<forall>(p, f) \<in> set cuts. Pages p \<noteq> [] \<and> int (length (Pages p)) \<le> de_SplitPages v)"
    using shape c(5) by (force simp: case_prod_unfold)
  moreover have "\<exists>src n. de_open v src = Inr n \<and> selectPages q n = Some (dc_pages d) \<and> (\<forall>i \<in> set (dc_pages d). 1 \<le> i \<and> i \<le> n)"
    using selectPages_shape [OF c(2)] c(2,5) c0(3) by blast
  ultimately show ?thesis using selectPages_shape [OF c(2)] c(3,5,6) by simp
qed

definition demo_decide :: decide_env where
  "demo_decide = \<lparr>de_SplitPages = 2, de_splitter = True, de_source = Inr (Some ''in.pdf''),
     de_open = \<lambda>s. Inr 3, de_cut = \<lambda>p. None, de_ctx = None, de_dir = ''w''\<rparr>"

definition demo_cuts :: "(part \<times> string) list" where
  "demo_cuts = map (\<lambda>p. (p, ''w'' @ ''/'' @ partName ''part'' (Pages p) ''.pdf'')) [\<lparr>Pages = [1, 2]\<rparr>, \<lparr>Pages = [3]\<rparr>]"

lemma demo_decided: "decide demo_decide SurfaceRead [] =
   Inr \<lparr>dc_fallback = [], dc_pages = [1, 2, 3], dc_parts = Some demo_cuts, dc_unit = TextElements\<rparr>"
proof -
  have "selectPages [] 3 = Some [1, 2, 3]" by (simp add: selectPages_def upto.simps)
  moreover have "Plan [1, 2, 3] 2 = Some [\<lparr>Pages = [1, 2]\<rparr>, \<lparr>Pages = [3]\<rparr>]" by code_simp
  ultimately show ?thesis
    by (simp add: decide_def demo_decide_def mergeUnit_def demo_cuts_def)
qed

lemma decide_split_shape_witness: "2 \<le> length demo_cuts"
  using decide_split_shape [OF demo_decided] by simp

text \<open>The result ceiling: whatever a merge writes and however the file takes it, the merged file never
  holds more than the ceiling, and once a write would pass it nothing more is written.\<close>

theorem capped_never_exceeds:
  assumes "0 \<le> limit" and "\<And>x. fst (wr x) \<le> length x"
    and "capped_run wr chunks \<lparr>cw_left = limit, cw_over = False, cw_out = []\<rparr> = (err, c)"
  shows "int (length (cw_out c)) \<le> limit \<and> (cw_over c \<longrightarrow> err \<noteq> None)"
proof -
  have over: "capped_run wr ps x = (e, y) \<Longrightarrow> \<not> cw_over x \<Longrightarrow> cw_over y \<Longrightarrow> e \<noteq> None" for ps x e y
  proof (induction wr ps x arbitrary: e y rule: capped_run.induct)
    case (2 wr p ps x)
    obtain e1 x1 where w: "capped_write wr p x = (e1, x1)" by (cases "capped_write wr p x")
    have o: "e1 = None \<Longrightarrow> \<not> cw_over x1" using w "2.prems"(2) by (auto simp: capped_write_def split: if_splits prod.splits)
    show ?case using "2.IH" [OF w [symmetric]] "2.prems" w o by (cases e1) auto
  qed simp
  show ?thesis
    using capped_run_inv [OF assms(3)] assms(1,2) over [OF assms(3)] by auto
qed

lemma capped_never_exceeds_witness:
  "length (cw_out (snd (capped_run (\<lambda>p. (length p, None)) [''abc'', ''de''] \<lparr>cw_left = 4, cw_over = False, cw_out = []\<rparr>))) \<le> 4"
proof -
  obtain err c where r: "capped_run (\<lambda>p. (length p, None)) [''abc'', ''de''] \<lparr>cw_left = 4, cw_over = False, cw_out = []\<rparr> = (err, c)"
    by force
  from capped_never_exceeds [OF _ _ r] r show ?thesis by simp
qed

text \<open>C25. A split job that Azure answers is answered: with the decision's own parts, when the fan-out ends
  without an error in any order, and the merge writes its result within the ceiling, the run's
  output is the merged file, counted as assembled from exactly the results the fan-out has. The
  coverage check cannot send such a job whole.\<close>

theorem split_job_succeeds:
  assumes "decide v srf q = Inr d" and "dc_parts d = Some cuts"
    and "fan_reach srf (part_query q) (fan_start (map fst cuts) t m) n f" and "fn_active f = []" and "fn_err f = None"
    and "se_merge w (by_first (fn_results f)) = (chunks, None)" and "se_close_err w = None" and "se_stat_err w = None"
    and "\<forall>p. se_write w p = (length p, None)" and "int (length (concat chunks)) \<le> resultLimit b"
  shows "\<exists>out. fst (split_end w b q (dc_pages d) f) = Inr out \<and> out_Parts out = int (length (fn_results f))
    \<and> out_Path out = se_dir w @ ''/merged.json'' \<and> out_Start out = 0 \<and> out_End out = int (length (concat chunks))
    \<and> out_Fallback out = []"
proof -
  have ok: "capped_run (se_write w) cs c = (None, c\<lparr>cw_left := cw_left c - int (length (concat cs)), cw_out := cw_out c @ concat cs\<rparr>)"
    if "int (length (concat cs)) \<le> cw_left c" for cs c
    using that
  proof (induction cs arbitrary: c)
    case (Cons p cs)
    let ?c1 = "c\<lparr>cw_left := cw_left c - int (length p), cw_out := cw_out c @ p\<rparr>"
    have "capped_write (se_write w) p c = (None, ?c1)" using Cons.prems assms(9) by (simp add: capped_write_def)
    with Cons.IH [of ?c1] Cons.prems show ?case by simp
  qed simp
  obtain src pc pages parts where c0: "0 < de_SplitPages v" "de_source v = Inr (Some src)"
    "de_open v src = Inr pc" "selectPages q pc = Some pages" "de_SplitPages v < int (length pages)"
    "Plan pages (de_SplitPages v) = Some parts" "dc_pages d = pages" "mergeUnit srf q = Some (dc_unit d)"
    "cuts = map (\<lambda>p. (p, de_dir v @ ''/'' @ partName ''part'' (Pages p) ''.pdf'')) parts"
    by (rule decide_cases [OF assms(1,2)])
  note c = c0(1,4,5,6,7,9)
  have parts: "map fst cuts = parts" using c(6) by (simp add: comp_def)
  have one: "1 \<le> de_SplitPages v" using c(1) by simp
  note shape = Plan_parts [OF one c(3,4)]
  have "covered (fn_results f) = pages"
  proof (rule fan_covers [OF _ _ _ assms(3,4,5)])
    show "concat (map Pages (map fst cuts)) = pages" "\<forall>p \<in> set (map fst cuts). Pages p \<noteq> []"
      using shape by (simp_all add: parts)
    show "sorted_wrt (<) pages" using selectPages_shape [OF c(2)] by simp
  qed
  then show ?thesis
    using assms(5,6,7,8,10) c(5) ok [of chunks "\<lparr>cw_left = resultLimit b, cw_over = False, cw_out = []\<rparr>"]
    by (simp add: split_end_def merge_parts_def)
qed

lemma demo_part_step:
  assumes "fn_active f = p # ys"
  shows "\<exists>t m. fan_step srf q f (f\<lparr>fn_active := ys, fn_results := fn_results f @ [(p, demo_result)], fn_tally := t, fn_metrics := m\<rparr>)"
proof -
  obtain t m where b: "part_body demo_part_env srf q p (fn_tally f) (fn_metrics f) = (PartDone demo_result, t, m)"
    by (simp add: part_body_def part_loop_round demo_part_env_def Let_def add_result_def)
  have "fn_active f = [] @ p # ys" using assms by simp
  from fan_one [OF this b] show ?thesis by (cases f) (auto simp: assms)
qed

lemma split_job_succeeds_witness:
  "\<exists>f out. fan_reach SurfaceRead (part_query []) (fan_start (map fst demo_cuts) tally0 NewMetrics) 2 f
    \<and> fst (split_end \<lparr>se_merge = \<lambda>rs. ([''{}''], None), se_write = \<lambda>p. (length p, None), se_close_err = None, se_took = 1, se_stat_err = None,
        se_dir = ''w'', se_whole = \<lambda>q. demo_env\<rparr> demo_base [] [1, 2, 3] f) = Inr out \<and> out_Parts out = 2"
proof -
  let ?a = "\<lparr>Pages = [1, 2]\<rparr> :: part" and ?b = "\<lparr>Pages = [3]\<rparr> :: part"
  let ?f0 = "fan_start (map fst demo_cuts) tally0 NewMetrics"
  have "fn_active ?f0 = [?a, ?b]" by (simp add: fan_start_def demo_cuts_def)
  from demo_part_step [OF this] obtain f1 where f1: "fan_step SurfaceRead (part_query []) ?f0 f1"
    "fn_active f1 = [?b]" "fn_results f1 = [(?a, demo_result)]" "fn_err f1 = None"
    by (fastforce simp: fan_start_def)
  from demo_part_step [OF f1(2)] f1(3,4) obtain f2 where f2: "fan_step SurfaceRead (part_query []) f1 f2"
    "fn_active f2 = []" "length (fn_results f2) = 2" "fn_err f2 = None"
    by fastforce
  have r: "fan_reach SurfaceRead (part_query []) ?f0 (Suc (Suc 0)) f2"
    by (rule fan_more [OF fan_more [OF fan_refl f1(1)] f2(1)])
  let ?w = "\<lparr>se_merge = \<lambda>rs. ([''{}''], None), se_write = \<lambda>p. (length p, None), se_close_err = None, se_took = 1, se_stat_err = None,
        se_dir = ''w'', se_whole = \<lambda>q. demo_env\<rparr>"
  have lim: "2 \<le> resultLimit demo_base" by (simp add: resultLimit_def demo_base_def NewClient_def)
  obtain out where "fst (split_end ?w demo_base [] [1, 2, 3] f2) = Inr out" "out_Parts out = 2"
    using split_job_succeeds [OF demo_decided _ r f2(2,4), of ?w "[''{}'']" demo_base] f2(3) lim by auto
  with r show ?thesis by (auto simp: numeral_2_eq_2)
qed




definition demo_ok :: whole_env where
  "demo_ok = demo_env\<lparr>we_call := \<lambda>n. Inr ((attempt0 Success)\<lparr>at_Result := Some demo_result\<rparr>)\<rparr>"


end
