(* ===== verification/Blobs.thy ===== *)
theory Blobs
  imports GoJson "HOL-Library.List_Lexorder" "HOL-Library.Char_ord"
begin

text \<open>
  The blob store (\<open>internal/store/blob.go\<close>): one file per artifact of a job under a two-level shard,
  written through a temporary file that is renamed into place. The tree under the blob root is a
  list of files with distinct paths (directory entries other than the shards and their files do not
  occur there). System calls that can fail take their error as an argument; \<open>os.Remove\<close> of the
  store's own temporary file is taken to work.
\<close>

section \<open>Names (sanitize, dir, Path)\<close>

definition safe_rune :: "nat \<Rightarrow> bool" where
  "safe_rune r \<longleftrightarrow> (97 \<le> r \<and> r \<le> 122) \<or> (65 \<le> r \<and> r \<le> 90) \<or> (48 \<le> r \<and> r \<le> 57) \<or> r = 45 \<or> r = 95"

definition sanitize :: "string \<Rightarrow> string" where
  "sanitize s =
     (if s = [] then ''_''
      else let out = map (\<lambda>r. if safe_rune r then char_of r else CHR ''_'') (runes (map byte s))
           in if length out > 128 then take 128 out else out)"

definition blob_dir :: "string \<Rightarrow> string \<times> string" where
  "blob_dir id0 =
     (let s = sanitize id0 in
      if 4 \<le> length s then (take 2 s, take 2 (drop 2 s))
      else if 2 \<le> length s then (take 2 s, ''zz'')
      else (''zz'', ''zz''))"

definition blob_name :: "string \<Rightarrow> string \<Rightarrow> string" where
  "blob_name id0 k = sanitize id0 @ ''.'' @ k"

definition blob_Path :: "string \<Rightarrow> string \<Rightarrow> string \<Rightarrow> string" where
  "blob_Path root id0 k =
     (case blob_dir id0 of (aa, bb) \<Rightarrow> root @ ''/'' @ aa @ ''/'' @ bb @ ''/'' @ blob_name id0 k)"

definition KindInput :: string where "KindInput = ''in''"
definition KindResult :: string where "KindResult = ''res''"
definition KindFigure :: "string \<Rightarrow> string" where "KindFigure f = ''fig-'' @ sanitize f"

section \<open>The tree\<close>

record blob_file =
  bf_dir :: "string \<times> string"
  bf_name :: string
  bf_data :: string
  bf_mtime :: int

definition bf_key :: "blob_file \<Rightarrow> (string \<times> string) \<times> string" where
  "bf_key f = (bf_dir f, bf_name f)"

definition fs_get :: "(string \<times> string) \<times> string \<Rightarrow> blob_file list \<Rightarrow> blob_file option" where
  "fs_get k t = find (\<lambda>f. bf_key f = k) t"

definition fs_del :: "(string \<times> string) \<times> string \<Rightarrow> blob_file list \<Rightarrow> blob_file list" where
  "fs_del k t = filter (\<lambda>f. bf_key f \<noteq> k) t"

definition fs_put :: "blob_file \<Rightarrow> blob_file list \<Rightarrow> blob_file list" where
  "fs_put f t = f # fs_del (bf_key f) t"

definition blob_key :: "string \<Rightarrow> string \<Rightarrow> (string \<times> string) \<times> string" where
  "blob_key id0 k = (blob_dir id0, blob_name id0 k)"

section \<open>The writer\<close>

datatype blob_error = ErrLimitExceeded | ErrNotFound | BlobError string

record blob_writer =
  bw_tmp :: "(string \<times> string) \<times> string"
  bw_final :: "(string \<times> string) \<times> string"
  bw_n :: int
  bw_limit :: int
  bw_done :: bool
  bw_exceeded :: bool

text \<open>\<open>os.CreateTemp\<close> picks the suffix \<open>rnd\<close> so that the name is new.\<close>

definition blob_Create :: "string option \<Rightarrow> string option \<Rightarrow> string \<Rightarrow> int \<Rightarrow> string \<Rightarrow> string \<Rightarrow> int \<Rightarrow> blob_file list
    \<Rightarrow> (blob_error + blob_writer) \<times> blob_file list" where
  "blob_Create mkdir_err temp_err rnd now id0 k limit t =
     (case mkdir_err of
        Some e \<Rightarrow> (Inl (BlobError (''store: create blob dir: '' @ e)), t)
      | None \<Rightarrow>
          (case temp_err of
             Some e \<Rightarrow> (Inl (BlobError (''store: create temp blob: '' @ e)), t)
           | None \<Rightarrow>
               (let tmp = (blob_dir id0, blob_name id0 k @ ''.tmp-'' @ rnd) in
                (Inr \<lparr>bw_tmp = tmp, bw_final = blob_key id0 k, bw_n = 0, bw_limit = limit, bw_done = False,
                      bw_exceeded = False\<rparr>,
                 fs_put \<lparr>bf_dir = fst tmp, bf_name = snd tmp, bf_data = [], bf_mtime = now\<rparr> t))))"

text \<open>A write to the open file: \<open>io\<close> says how many bytes the system took, and with what error.\<close>

definition fs_append :: "(string \<times> string) \<times> string \<Rightarrow> string \<Rightarrow> blob_file list \<Rightarrow> blob_file list" where
  "fs_append k p t = map (\<lambda>f. if bf_key f = k then f\<lparr>bf_data := bf_data f @ p\<rparr> else f) t"

definition blob_Write :: "(string \<Rightarrow> nat \<times> string option) \<Rightarrow> string \<Rightarrow> blob_writer \<Rightarrow> blob_file list
    \<Rightarrow> (int \<times> blob_error option) \<times> blob_writer \<times> blob_file list" where
  "blob_Write io p w t =
     (if bw_limit w > 0 \<and> bw_n w + int (length p) > bw_limit w then
        (let allowed = bw_limit w - bw_n w in
         if allowed > 0 then
           (let q = take (nat allowed) p in
            case io q of
              (n, err) \<Rightarrow>
                (let w1 = w\<lparr>bw_n := bw_n w + int n\<rparr>; t1 = fs_append (bw_tmp w) (take n q) t in
                 case err of
                   Some e \<Rightarrow> ((int n, Some (BlobError e)), w1, t1)
                 | None \<Rightarrow> ((allowed, Some ErrLimitExceeded), w1\<lparr>bw_exceeded := True\<rparr>, t1)))
         else ((max allowed 0, Some ErrLimitExceeded), w\<lparr>bw_exceeded := True\<rparr>, t))
      else
        (case io p of
           (n, err) \<Rightarrow> ((int n, map_option BlobError err), w\<lparr>bw_n := bw_n w + int n\<rparr>,
                        fs_append (bw_tmp w) (take n p) t)))"

record commit_errs =
  ce_sync :: "string option"
  ce_close :: "string option"
  ce_rename :: "string option"
  ce_dir :: "string option"

text \<open>\<open>ce_dir\<close> is \<open>syncDir\<close>'s answer.\<close>

definition blob_Commit :: "commit_errs \<Rightarrow> blob_writer \<Rightarrow> blob_file list
    \<Rightarrow> blob_error option \<times> blob_writer \<times> blob_file list" where
  "blob_Commit v w t =
     (if bw_done w then (Some (BlobError ''store: writer already finished''), w, t)
      else
        (let w1 = w\<lparr>bw_done := True\<rparr>; gone = fs_del (bw_tmp w) t in
         case ce_sync v of
           Some e \<Rightarrow> (Some (BlobError (''store: sync blob: '' @ e)), w1, gone)
         | None \<Rightarrow>
             (case ce_close v of
                Some e \<Rightarrow> (Some (BlobError (''store: close blob: '' @ e)), w1, gone)
              | None \<Rightarrow>
                  (case ce_rename v of
                     Some e \<Rightarrow> (Some (BlobError (''store: install blob: '' @ e)), w1, gone)
                   | None \<Rightarrow>
                       (map_option BlobError (ce_dir v), w1,
                        case fs_get (bw_tmp w) t of
                          None \<Rightarrow> gone
                        | Some f \<Rightarrow> fs_put (f\<lparr>bf_dir := fst (bw_final w), bf_name := snd (bw_final w)\<rparr>) gone)))))"

definition blob_Abort :: "blob_writer \<Rightarrow> blob_file list \<Rightarrow> blob_writer \<times> blob_file list" where
  "blob_Abort w t =
     (if bw_done w then (w, t) else (w\<lparr>bw_done := True\<rparr>, fs_del (bw_tmp w) t))"

text \<open>\<open>io.Copy\<close> into the writer: the chunks the reader gives, then its error, \<open>None\<close> for the end.\<close>

fun copy_in :: "(string \<Rightarrow> nat \<times> string option) \<Rightarrow> string list \<Rightarrow> blob_error option \<Rightarrow> blob_writer \<Rightarrow> blob_file list
    \<Rightarrow> blob_error option \<times> blob_writer \<times> blob_file list" where
  "copy_in io [] rerr w t = (rerr, w, t)"
| "copy_in io (p # ps) rerr w t =
     (case blob_Write io p w t of
        ((n, Some e), w1, t1) \<Rightarrow> (Some e, w1, t1)
      | ((n, None), w1, t1) \<Rightarrow>
          if n \<noteq> int (length p) then (Some (BlobError ''short write''), w1, t1)
          else copy_in io ps rerr w1 t1)"

record write_env =
  we_mkdir :: "string option"
  we_temp :: "string option"
  we_rnd :: string
  we_now :: int
  we_io :: "string \<Rightarrow> nat \<times> string option"
  we_commit :: commit_errs

definition blob_WriteFrom :: "write_env \<Rightarrow> string \<Rightarrow> string \<Rightarrow> string list \<times> blob_error option \<Rightarrow> int \<Rightarrow> blob_file list
    \<Rightarrow> (int \<times> blob_error option) \<times> blob_file list" where
  "blob_WriteFrom v id0 k r limit t =
     (case blob_Create (we_mkdir v) (we_temp v) (we_rnd v) (we_now v) id0 k limit t of
        (Inl e, t1) \<Rightarrow> ((0, Some e), t1)
      | (Inr w, t1) \<Rightarrow>
          (case copy_in (we_io v) (fst r) (snd r) w t1 of
             (Some e, w2, t2) \<Rightarrow> ((bw_n w2, Some e), snd (blob_Abort w2 t2))
           | (None, w2, t2) \<Rightarrow>
               (case blob_Commit (we_commit v) w2 t2 of
                  (err, w3, t3) \<Rightarrow> ((bw_n w2, err), t3))))"

section \<open>Reading and removing\<close>

definition blob_Open :: "string \<Rightarrow> string \<Rightarrow> blob_file list \<Rightarrow> blob_error + string" where
  "blob_Open id0 k t =
     (case fs_get (blob_key id0 k) t of None \<Rightarrow> Inl ErrNotFound | Some f \<Rightarrow> Inr (bf_data f))"

definition blob_Exists :: "string \<Rightarrow> string \<Rightarrow> blob_file list \<Rightarrow> bool" where
  "blob_Exists id0 k t \<longleftrightarrow> fs_get (blob_key id0 k) t \<noteq> None"

text \<open>\<open>rm\<close> gives the error of unlinking a file, if any; a file that is gone is no error.\<close>

definition blob_Remove :: "(string \<Rightarrow> string option) \<Rightarrow> string \<Rightarrow> string \<Rightarrow> blob_file list \<Rightarrow> string option \<times> blob_file list" where
  "blob_Remove rm id0 k t =
     (if fs_get (blob_key id0 k) t = None then (None, t)
      else case rm (blob_name id0 k) of
        Some e \<Rightarrow> (Some e, t)
      | None \<Rightarrow> (None, fs_del (blob_key id0 k) t))"

definition belongs :: "string \<Rightarrow> blob_file \<Rightarrow> bool" where
  "belongs id0 f \<longleftrightarrow> bf_dir f = blob_dir id0 \<and> starts_with (sanitize id0 @ ''.'') (bf_name f)"

text \<open>\<open>readdir\<close> is the error of listing the shard, other than its not being there.\<close>

definition blob_RemoveAll :: "string option \<Rightarrow> (string \<Rightarrow> string option) \<Rightarrow> string \<Rightarrow> blob_file list \<Rightarrow> string list \<times> blob_file list" where
  "blob_RemoveAll readdir rm id0 t =
     (if readdir \<noteq> None then ([the readdir], t)
      else (List.map_filter (\<lambda>f. if belongs id0 f then rm (bf_name f) else None) t,
      filter (\<lambda>f. \<not> (belongs id0 f \<and> rm (bf_name f) = None)) t))"

definition is_temp :: "string \<Rightarrow> bool" where
  "is_temp name \<longleftrightarrow> go_contains ''.tmp-'' name"

text \<open>\<open>info\<close> says whether a file's modification time can be read.\<close>

definition blob_SweepTemp :: "(string \<Rightarrow> bool) \<Rightarrow> (string \<Rightarrow> string option) \<Rightarrow> int \<Rightarrow> int \<Rightarrow> blob_file list \<Rightarrow> nat \<times> blob_file list" where
  "blob_SweepTemp info rm minAge now t =
     (let gone = (\<lambda>f. is_temp (bf_name f) \<and> info (bf_name f) \<and> \<not> now - bf_mtime f < minAge \<and> rm (bf_name f) = None)
      in (length (filter gone t), filter (\<lambda>f. \<not> gone f) t))"

text \<open>\<open>filepath.WalkDir\<close> visits the files in lexical order of their path's elements.\<close>

definition walk :: "blob_file list \<Rightarrow> blob_file list" where
  "walk t = sort_key (\<lambda>f. [fst (bf_dir f), snd (bf_dir f), bf_name f]) t"

definition walk_id :: "blob_file \<Rightarrow> string option" where
  "walk_id f =
     (if is_temp (bf_name f) then None
      else case go_cut (CHR ''.'') (bf_name f) of
        (i, rest, ok) \<Rightarrow> if \<not> ok \<or> i = [] then None else Some i)"

fun ids_loop :: "string \<Rightarrow> nat \<Rightarrow> blob_file list \<Rightarrow> string list \<Rightarrow> string list" where
  "ids_loop after limit [] out = out"
| "ids_loop after limit (f # fs) out =
     (if length out \<ge> limit then ids_loop after limit fs out
      else case walk_id f of
        None \<Rightarrow> ids_loop after limit fs out
      | Some i \<Rightarrow>
          if i \<in> set out then ids_loop after limit fs out
          else if after \<noteq> [] \<and> i \<le> after then ids_loop after limit fs out
          else ids_loop after limit fs (out @ [i]))"

definition blob_IDs :: "string \<Rightarrow> nat \<Rightarrow> blob_file list \<Rightarrow> string list" where
  "blob_IDs after limit t = ids_loop after limit (walk t) []"

definition blob_OlderThan :: "(string \<Rightarrow> bool) \<Rightarrow> string \<Rightarrow> int \<Rightarrow> blob_file list \<Rightarrow> bool" where
  "blob_OlderThan info id0 cutoff t \<longleftrightarrow>
     (\<exists>f \<in> set t. belongs id0 f) \<and> (\<forall>f \<in> set t. belongs id0 f \<longrightarrow> info (bf_name f) \<and> bf_mtime f \<le> cutoff)"

section \<open>Lookups\<close>

lemma fs_get_del: "fs_get k (fs_del k' t) = (if k = k' then None else fs_get k t)"
  by (induction t) (auto simp: fs_get_def fs_del_def)

lemma fs_get_put: "fs_get k (fs_put f t) = (if k = bf_key f then Some f else fs_get k t)"
proof (cases "k = bf_key f")
  case False
  then have "fs_get k (fs_put f t) = fs_get k (fs_del (bf_key f) t)" by (simp add: fs_put_def fs_get_def)
  with False show ?thesis by (simp add: fs_get_del)
qed (simp add: fs_put_def fs_get_def)

lemma bf_key_data [simp]: "bf_key (f\<lparr>bf_data := d\<rparr>) = bf_key f"
  by (simp add: bf_key_def)

lemma fs_get_append:
  "fs_get k (fs_append k' p t) =
     (if k = k' then map_option (\<lambda>f. f\<lparr>bf_data := bf_data f @ p\<rparr>) (fs_get k t) else fs_get k t)"
  by (induction t) (auto simp: fs_get_def fs_append_def)

lemma fs_get_key: "fs_get k t = Some f \<Longrightarrow> bf_key f = k"
  by (auto simp: fs_get_def find_Some_iff)

lemmas fs_simps = fs_get_del fs_get_put fs_get_append

lemma tmp_not_final: "(d, blob_name i k @ ''.tmp-'' @ rnd) \<noteq> blob_key i k"
  by (simp add: blob_key_def blob_name_def)

section \<open>The writer's invariant\<close>

text \<open>An open writer's temporary file holds exactly the bytes counted, within the limit.\<close>

definition writer_inv :: "blob_writer \<Rightarrow> blob_file list \<Rightarrow> bool" where
  "writer_inv w t \<longleftrightarrow> \<not> bw_done w \<and> (0 < bw_limit w \<longrightarrow> bw_n w \<le> bw_limit w)
     \<and> (\<exists>f. fs_get (bw_tmp w) t = Some f \<and> int (length (bf_data f)) = bw_n w)"

definition tmp_data :: "blob_writer \<Rightarrow> blob_file list \<Rightarrow> string" where
  "tmp_data w t = bf_data (the (fs_get (bw_tmp w) t))"

definition same_writer :: "blob_writer \<Rightarrow> blob_file list \<Rightarrow> blob_writer \<Rightarrow> blob_file list \<Rightarrow> bool" where
  "same_writer w t w' t' \<longleftrightarrow> bw_tmp w' = bw_tmp w \<and> bw_final w' = bw_final w \<and> bw_limit w' = bw_limit w
     \<and> (\<forall>k. k \<noteq> bw_tmp w \<longrightarrow> fs_get k t' = fs_get k t)"

lemma writer_append:
  assumes "writer_inv w t" and "n \<le> length p" and "0 < bw_limit w \<longrightarrow> bw_n w + int n \<le> bw_limit w"
  shows "writer_inv (w\<lparr>bw_n := bw_n w + int n, bw_exceeded := x\<rparr>) (fs_append (bw_tmp w) (take n p) t)"
    and "same_writer w t (w\<lparr>bw_n := bw_n w + int n, bw_exceeded := x\<rparr>) (fs_append (bw_tmp w) (take n p) t)"
    and "tmp_data w (fs_append (bw_tmp w) (take n p) t) = tmp_data w t @ take n p"
  using assms by (auto simp: writer_inv_def same_writer_def tmp_data_def fs_get_append)

lemma blob_Write_spec:
  assumes inv: "writer_inv w t" and io: "\<And>q. fst (io q) \<le> length q \<and> (snd (io q) = None \<longrightarrow> fst (io q) = length q)"
    and run: "blob_Write io p w t = ((n, err), w', t')"
  shows "writer_inv w' t' \<and> same_writer w t w' t'
    \<and> (err = None \<longrightarrow> n = int (length p) \<and> tmp_data w' t' = tmp_data w t @ p)
    \<and> (err = Some ErrLimitExceeded \<longleftrightarrow> 0 < bw_limit w \<and> bw_limit w < bw_n w + int (length p)
         \<and> (\<forall>e. err \<noteq> Some (BlobError e)))"
proof (cases "0 < bw_limit w \<and> bw_limit w < bw_n w + int (length p)")
  case over: True
  define q where "q = take (nat (bw_limit w - bw_n w)) p"
  obtain m e where m: "io q = (m, e)" by force
  have le: "m \<le> length q" using io [of q] m by simp
  show ?thesis
  proof (cases "bw_limit w - bw_n w > 0")
    case True
    have "nat (bw_limit w - bw_n w) \<le> length p" using over by linarith
    then have q: "int (length q) = bw_limit w - bw_n w" using True by (simp add: q_def)
    have lim: "0 < bw_limit w \<longrightarrow> bw_n w + int m \<le> bw_limit w" using le q by linarith
    show ?thesis
      using run over True m writer_append(1,2) [OF inv le lim, of "bw_exceeded w"]
        writer_append(1,2) [OF inv le lim, of True] writer_append(3) [OF inv le lim]
      by (cases e) (auto simp: blob_Write_def Let_def q_def [symmetric])
  next
    case False
    with run over inv show ?thesis
      by (auto simp: blob_Write_def writer_inv_def same_writer_def Let_def)
  qed
next
  case False
  obtain m e where m: "io p = (m, e)" by force
  have le: "m \<le> length p" and full: "e = None \<longrightarrow> m = length p" using io [of p] m by auto
  have "0 < bw_limit w \<longrightarrow> bw_n w + int m \<le> bw_limit w" using False le by linarith
  from writer_append(1,2) [OF inv le this, of "bw_exceeded w"] writer_append(3) [OF inv le this] show ?thesis
    using run m False full by (cases e) (auto simp: blob_Write_def tmp_data_def)
qed

lemma copy_in_spec:
  assumes "writer_inv w t" and io: "\<And>q. fst (io q) \<le> length q \<and> (snd (io q) = None \<longrightarrow> fst (io q) = length q)"
    and "copy_in io ps rerr w t = (err, w', t')"
  shows "writer_inv w' t' \<and> same_writer w t w' t'
    \<and> (err = None \<longrightarrow> rerr = None \<and> tmp_data w' t' = tmp_data w t @ concat ps)"
  using assms(1,3)
proof (induction ps arbitrary: w t)
  case Nil
  then show ?case by (simp add: same_writer_def)
next
  case (Cons p ps)
  obtain n e w1 t1 where b: "blob_Write io p w t = ((n, e), w1, t1)" by (metis prod.exhaust)
  note one = blob_Write_spec [OF Cons.prems(1) io b]
  show ?case
  proof (cases e)
    case None
    with Cons.prems(2) b one have "copy_in io ps rerr w1 t1 = (err, w', t')" by simp
    from Cons.IH [OF _ this] one None show ?thesis by (auto simp: same_writer_def)
  next
    case (Some x)
    with Cons.prems(2) b one show ?thesis by auto
  qed
qed

lemma blob_Create_spec:
  assumes "blob_Create mk tm rnd now i k limit t = (Inr w, t1)"
  defines "tmp \<equiv> (blob_dir i, blob_name i k @ ''.tmp-'' @ rnd)"
  shows "bw_tmp w = tmp \<and> bw_final w = blob_key i k \<and> bw_limit w = limit \<and> bw_n w = 0 \<and> writer_inv w t1
    \<and> tmp_data w t1 = [] \<and> (\<forall>x. x \<noteq> tmp \<longrightarrow> fs_get x t1 = fs_get x t)"
  using assms(1)
  by (auto simp: blob_Create_def Let_def writer_inv_def tmp_data_def fs_simps bf_key_def tmp_def split: option.splits)

text \<open>A commit either drops the temporary file, with an error, or installs exactly what it holds.\<close>

lemma blob_Commit_spec:
  assumes "blob_Commit v w t = (err, w', t')" and "writer_inv w t" and "bw_tmp w \<noteq> bw_final w"
  shows "(err \<noteq> None \<and> (\<forall>x. fs_get x t' = (if x = bw_tmp w then None else fs_get x t)))
    \<or> (\<exists>f. bf_data f = tmp_data w t \<and> int (length (bf_data f)) = bw_n w
         \<and> (\<forall>x. fs_get x t' = (if x = bw_final w then Some f else if x = bw_tmp w then None else fs_get x t)))"
proof -
  obtain f where f: "fs_get (bw_tmp w) t = Some f" "int (length (bf_data f)) = bw_n w"
    using assms(2) by (auto simp: writer_inv_def)
  let ?g = "f\<lparr>bf_dir := fst (bw_final w), bf_name := snd (bw_final w)\<rparr>"
  have key: "bf_key ?g = bw_final w" by (simp add: bf_key_def)
  have "t' = fs_del (bw_tmp w) t \<and> err \<noteq> None \<or> t' = fs_put ?g (fs_del (bw_tmp w) t)"
    using assms(1,2) f(1) by (auto simp: blob_Commit_def writer_inv_def Let_def split: option.splits if_splits)
  then show ?thesis
  proof
    assume "t' = fs_del (bw_tmp w) t \<and> err \<noteq> None"
    then show ?thesis by (intro disjI1) (simp add: fs_get_del)
  next
    assume "t' = fs_put ?g (fs_del (bw_tmp w) t)"
    then have "\<forall>x. fs_get x t' = (if x = bw_final w then Some ?g else if x = bw_tmp w then None else fs_get x t)"
      using key by (simp add: fs_simps)
    moreover have "bf_data ?g = tmp_data w t" using f(1) by (simp add: tmp_data_def)
    ultimately show ?thesis using f(2) by (intro disjI2 exI [of _ ?g]) simp
  qed
qed

lemma blob_Abort_spec:
  "writer_inv w t \<Longrightarrow> fs_get x (snd (blob_Abort w t)) = (if x = bw_tmp w then None else fs_get x t)"
  by (simp add: blob_Abort_def writer_inv_def fs_get_del)

section \<open>Names are safe, and tell artifacts apart\<close>

lemma sanitize_safe: "c \<in> set (sanitize s) \<Longrightarrow> c \<noteq> CHR ''.'' \<and> c \<noteq> CHR ''/'' \<and> c \<noteq> CHR 0x5C"
proof -
  assume "c \<in> set (sanitize s)"
  then consider "c = CHR ''_''" | r where "safe_rune r" "c = char_of r"
    by (auto simp: sanitize_def Let_def split: if_splits dest!: in_set_takeD)
  then show ?thesis
  proof cases
    case 2
    then have "r < 256" by (auto simp: safe_rune_def)
    then have "of_char c = r" using 2(2) by (simp add: of_char_of)
    moreover have "r \<noteq> 46 \<and> r \<noteq> 47 \<and> r \<noteq> 92" using 2(1) by (auto simp: safe_rune_def)
    ultimately show ?thesis by auto
  qed simp
qed

lemma sanitize_nonempty [simp]: "sanitize s \<noteq> []"
proof -
  have "runes (map byte s) \<noteq> []" if "s \<noteq> []" using that by (subst runes.simps) (auto simp: Let_def split: prod.splits)
  then show ?thesis by (auto simp: sanitize_def Let_def)
qed

lemma sanitize_length: "length (sanitize s) \<le> 128"
  by (simp add: sanitize_def Let_def)

lemma safe_ascii: "safe_rune r \<Longrightarrow> r < 128"
  by (auto simp: safe_rune_def)

lemma sanitize_id:
  assumes "s \<noteq> []" and "length s \<le> 128" and "\<forall>c \<in> set s. safe_rune (byte c)"
  shows "sanitize s = s"
proof -
  have "runes (map byte s) = map byte s"
    using assms(3) safe_ascii by (intro runes_ascii) (auto simp: list_all_iff)
  moreover have "map (\<lambda>r. if safe_rune r then char_of r else CHR ''_'') (map byte s) = s"
    using assms(3) by (auto simp: byte_def intro: map_idI)
  ultimately show ?thesis using assms(1,2) by (simp add: sanitize_def)
qed

text \<open>The identifier of a blob's name is what is before its only dot.\<close>

lemma cut_prefix:
  assumes "x \<notin> set a" and "x \<notin> set b" and "starts_with (a @ [x]) (b @ x # r)"
  shows "a = b"
proof -
  obtain q where "a @ x # q = b @ x # r" using assms(3) by (auto simp: starts_with_iff)
  then have "takeWhile ((\<noteq>) x) (a @ x # q) = takeWhile ((\<noteq>) x) (b @ x # r)" by simp
  moreover have "takeWhile ((\<noteq>) x) (c @ x # s) = c" if "x \<notin> set c" for c s
    using that by (induction c) auto
  ultimately show ?thesis using assms by simp
qed

lemma belongs_name:
  "belongs i f \<Longrightarrow> bf_key f = blob_key j k \<Longrightarrow> sanitize i = sanitize j"
  using cut_prefix [of "CHR ''.''" "sanitize i" "sanitize j" k] sanitize_safe
  by (auto simp: belongs_def bf_key_def blob_key_def blob_name_def)

lemma key_belongs: "bf_key f = blob_key i k \<Longrightarrow> belongs i f"
  by (auto simp: belongs_def bf_key_def blob_key_def blob_name_def starts_with_iff)

lemma find_filter_same: "(\<And>x. x \<in> set t \<Longrightarrow> P x \<Longrightarrow> Q x) \<Longrightarrow> find P (filter Q t) = find P t"
  by (induction t) auto

section \<open>The walk and its cursor\<close>

text \<open>The first occurrences of a list's elements, and the loop as a filter over them.\<close>

fun firsts :: "'a list \<Rightarrow> 'a list" where
  "firsts [] = []"
| "firsts (x # xs) = x # filter (\<lambda>y. y \<noteq> x) (firsts xs)"

lemma set_firsts [simp]: "set (firsts xs) = set xs"
  by (induction xs) auto

lemma firsts_sorted: "sorted xs \<Longrightarrow> sorted (firsts xs) \<and> distinct (firsts xs)"
  by (induction xs) (auto intro: sorted_wrt_filter)

lemma firsts_sorted_set: "sorted (xs :: 'a :: linorder list) \<Longrightarrow> firsts xs = sorted_list_of_set (set xs)"
  by (rule sorted_distinct_set_unique) (simp_all add: firsts_sorted)

lemma ids_loop_filter:
  "ids_loop after limit fs out = out @ take (limit - length out)
     (filter (\<lambda>i. i \<notin> set out \<and> (after = [] \<or> after < i)) (firsts (List.map_filter walk_id fs)))"
proof (induction fs arbitrary: out)
  case (Cons f fs)
  show ?case
  proof (cases "walk_id f")
    case None
    then show ?thesis by (simp add: Cons.IH List.map_filter_simps)
  next
    case (Some i)
    let ?L = "firsts (List.map_filter walk_id fs)"
    have "limit - length out = Suc (limit - Suc (length out))" if "length out < limit" using that by simp
    moreover have "filter (\<lambda>j. (j \<noteq> i \<and> j \<notin> set out) \<and> (after = [] \<or> after < j)) ?L =
        filter (\<lambda>j. j \<notin> set out \<and> (after = [] \<or> after < j)) (filter (\<lambda>j. j \<noteq> i) ?L)"
      by (simp add: conj_ac)
    moreover have "filter (\<lambda>j. j \<notin> set out \<and> (after = [] \<or> after < j)) (filter (\<lambda>j. j \<noteq> i) ?L) =
        filter (\<lambda>j. j \<notin> set out \<and> (after = [] \<or> after < j)) ?L"
      if "i \<in> set out \<or> (after \<noteq> [] \<and> i \<le> after)"
      using that by (auto intro!: filter_cong simp: not_less)
    ultimately show ?thesis
      using Some by (auto simp: Cons.IH List.map_filter_simps not_less not_le)
  qed
qed (simp add: List.map_filter_simps)

lemma append_order:
  fixes a b x y :: "'a :: linorder list"
  shows "length a = length b \<Longrightarrow> a @ x \<le> b @ y \<longleftrightarrow> a < b \<or> a = b \<and> x \<le> y"
  by (induction a b rule: list_induct2) auto

text \<open>The gateway's ids are 36 safe characters (a canonical GUID): they are their own sanitised form.\<close>

definition plain_id :: "string \<Rightarrow> bool" where
  "plain_id i \<longleftrightarrow> length i = 36 \<and> sanitize i = i"

definition plain_tree :: "blob_file list \<Rightarrow> bool" where
  "plain_tree t \<longleftrightarrow> (\<forall>f \<in> set t. is_temp (bf_name f) \<or> (\<exists>i k. plain_id i \<and> bf_key f = blob_key i k))"

lemma walk_id_plain:
  assumes "plain_tree t" and "f \<in> set t" and "walk_id f = Some i"
  obtains k where "plain_id i" and "bf_name f = i @ ''.'' @ k"
    and "[fst (bf_dir f), snd (bf_dir f), bf_name f] = [take 2 i, take 2 (drop 2 i), i @ ''.'' @ k]"
proof -
  from assms obtain j k where j: "plain_id j" "bf_key f = blob_key j k"
    by (auto simp: plain_tree_def walk_id_def split: if_splits)
  then have n: "bf_name f = j @ ''.'' @ k" and d: "bf_dir f = (take 2 j, take 2 (drop 2 j))"
    by (auto simp: bf_key_def blob_key_def blob_name_def blob_dir_def plain_id_def Let_def)
  have "CHR ''.'' \<notin> set j" using j(1) sanitize_safe [of "CHR ''.''" j] by (auto simp: plain_id_def)
  then have "go_cut (CHR ''.'') (bf_name f) = (j, k, True)" using go_cut_found [of "CHR ''.''" j k] by (simp add: n)
  then have "i = j" using assms(3) by (auto simp: walk_id_def split: if_splits)
  with j n d that show ?thesis by auto
qed

lemma map_filter_sorted:
  assumes "sorted_wrt R xs"
    and "\<And>f g i j. f \<in> set xs \<Longrightarrow> g \<in> set xs \<Longrightarrow> R f g \<Longrightarrow> w f = Some i \<Longrightarrow> w g = Some j \<Longrightarrow> i \<le> j"
  shows "sorted (List.map_filter w xs)"
  using assms
proof (induction xs)
  case (Cons x xs)
  have "sorted (List.map_filter w xs)"
    by (rule Cons.IH) (use Cons.prems in \<open>auto intro: Cons.prems(2)\<close>)
  moreover have "\<forall>i. w x = Some i \<longrightarrow> (\<forall>j \<in> set (List.map_filter w xs). i \<le> j)"
  proof (intro allI impI ballI)
    fix i j assume "w x = Some i" and "j \<in> set (List.map_filter w xs)"
    then obtain y where "y \<in> set xs" "w y = Some j" by (auto simp: List.map_filter_def)
    then show "i \<le> j" using Cons.prems(1) \<open>w x = Some i\<close> by (intro Cons.prems(2) [of x y i j]) auto
  qed
  ultimately show ?case by (cases "w x") (simp_all add: List.map_filter_simps)
qed (simp add: List.map_filter_simps)

lemma walk_sorted:
  assumes "plain_tree t"
  shows "sorted (List.map_filter walk_id (walk t))"
proof -
  let ?key = "\<lambda>f. [fst (bf_dir f), snd (bf_dir f), bf_name f]"
  have le: "i \<le> j" if m: "f \<in> set t" "g \<in> set t" and o: "?key f \<le> ?key g" and w: "walk_id f = Some i" "walk_id g = Some j" for f g i j
  proof -
    obtain k where f: "plain_id i" "?key f = [take 2 i, take 2 (drop 2 i), i @ ''.'' @ k]"
      using walk_id_plain [OF assms m(1) w(1)] by metis
    obtain l where g: "plain_id j" "?key g = [take 2 j, take 2 (drop 2 j), j @ ''.'' @ l]"
      using walk_id_plain [OF assms m(2) w(2)] by metis
    have len: "length i = length j" "length (take 2 i) = length (take 2 j)" "length (take 2 (drop 2 i)) = length (take 2 (drop 2 j))"
      using f(1) g(1) by (simp_all add: plain_id_def)
    have i: "i = take 2 i @ take 2 (drop 2 i) @ drop 4 i" for i :: string
      by (metis add_2_eq_Suc' append_take_drop_id drop_drop numeral_Bit0 one_add_one add.assoc numeral_2_eq_2 plus_nat.simps(2) add_Suc_shift)
    have tails: "drop 4 i \<le> drop 4 j" if "take 2 i = take 2 j" "take 2 (drop 2 i) = take 2 (drop 2 j)" "i @ ''.'' @ k \<le> j @ ''.'' @ l"
    proof -
      from that(3) len(1) have "i \<le> j" by (auto simp: append_order)
      then have "take 2 i @ take 2 (drop 2 i) @ drop 4 i \<le> take 2 j @ take 2 (drop 2 j) @ drop 4 j"
        using i [of i] i [of j] by simp
      with that(1,2) show ?thesis by (simp add: append_order)
    qed
    have "take 2 i @ take 2 (drop 2 i) @ drop 4 i \<le> take 2 j @ take 2 (drop 2 j) @ drop 4 j"
      using o f(2) g(2) len(2,3) tails by (auto simp: append_order)
    then show ?thesis using i [of i] i [of j] by simp
  qed
  have "sorted (map ?key (walk t))" by (simp only: walk_def sorted_sort_key)
  then have "sorted_wrt (\<lambda>f g. ?key f \<le> ?key g) (walk t)" by (simp only: sorted_map)
  moreover have "set (walk t) = set t" by (simp add: walk_def)
  ultimately show ?thesis using le by (intro map_filter_sorted [where R = "\<lambda>f g. ?key f \<le> ?key g"]) blast+
qed

section \<open>Storing a document\<close>

lemma write_from_outcome:
  assumes io: "\<And>q. fst (we_io v q) \<le> length q \<and> (snd (we_io v q) = None \<longrightarrow> fst (we_io v q) = length q)"
    and new: "fs_get (blob_dir i, blob_name i k @ ''.tmp-'' @ we_rnd v) t = None"
    and run: "blob_WriteFrom v i k r limit t = ((n, err), t')"
  shows "(\<forall>x. x \<noteq> blob_key i k \<longrightarrow> fs_get x t' = fs_get x t)
    \<and> (blob_Open i k t' = blob_Open i k t \<or> blob_Open i k t' = Inr (concat (fst r)) \<and> snd r = None)
    \<and> (err = None \<longrightarrow> blob_Open i k t' = Inr (concat (fst r)) \<and> snd r = None
         \<and> n = int (length (concat (fst r))) \<and> (0 < limit \<longrightarrow> n \<le> limit))"
proof -
  define tmp where "tmp = (blob_dir i, blob_name i k @ ''.tmp-'' @ we_rnd v)"
  obtain c t1 where c: "blob_Create (we_mkdir v) (we_temp v) (we_rnd v) (we_now v) i k limit t = (c, t1)" by force
  show ?thesis
  proof (cases c)
    case (Inl e)
    with c run show ?thesis by (auto simp: blob_WriteFrom_def blob_Create_def Let_def split: option.splits)
  next
    case (Inr w)
    note w = blob_Create_spec [OF c [unfolded Inr], folded tmp_def]
    obtain e w2 t2 where cp: "copy_in (we_io v) (fst r) (snd r) w t1 = (e, w2, t2)" by (metis prod.exhaust)
    have inv1: "writer_inv w t1" using w by blast
    note sp = copy_in_spec [OF inv1 io cp]
    have w2: "bw_tmp w2 = tmp" "bw_final w2 = blob_key i k" "bw_limit w2 = limit" "writer_inv w2 t2"
      using sp w by (auto simp: same_writer_def)
    have t2: "fs_get x t2 = fs_get x t" if "x \<noteq> tmp" for x
      using that sp w unfolding same_writer_def by metis
    have fin: "blob_key i k \<noteq> tmp" using tmp_not_final unfolding tmp_def by metis
    have old: "fs_get tmp t = None" using new by (simp add: tmp_def)
    show ?thesis
    proof (cases e)
      case (Some x)
      with run c Inr cp have r': "t' = snd (blob_Abort w2 t2)" "err = Some x" by (auto simp: blob_WriteFrom_def)
      have "fs_get y t' = fs_get y t" for y
        using blob_Abort_spec [OF w2(4), of y] t2 [of y] old r'(1) w2(1) by simp
      then show ?thesis using r' by (simp add: blob_Open_def)
    next
      case None
      obtain e3 w3 t3 where cm: "blob_Commit (we_commit v) w2 t2 = (e3, w3, t3)" by (metis prod.exhaust)
      with run c Inr cp None have r': "err = e3" "t' = t3" "n = bw_n w2" by (auto simp: blob_WriteFrom_def)
      have d: "tmp_data w2 t2 = concat (fst r)" "snd r = None" and lim: "0 < limit \<longrightarrow> bw_n w2 \<le> limit"
        using sp None w w2 by (auto simp: writer_inv_def)
      have ne: "bw_tmp w2 \<noteq> bw_final w2" using w2 fin by simp
      from blob_Commit_spec [OF cm w2(4) ne] show ?thesis
      proof
        assume a: "e3 \<noteq> None \<and> (\<forall>x. fs_get x t3 = (if x = bw_tmp w2 then None else fs_get x t2))"
        have "fs_get y t' = fs_get y t" for y using t2 [of y] old r'(2) spec [OF conjunct2 [OF a], of y] w2(1) by simp
        moreover obtain x where "err = Some x" using a r'(1) by blast
        ultimately show ?thesis by (simp add: blob_Open_def)
      next
        assume "\<exists>f. bf_data f = tmp_data w2 t2 \<and> int (length (bf_data f)) = bw_n w2 \<and>
          (\<forall>x. fs_get x t3 = (if x = bw_final w2 then Some f else if x = bw_tmp w2 then None else fs_get x t2))"
        then obtain f where f: "bf_data f = concat (fst r)" "int (length (bf_data f)) = bw_n w2"
          "\<forall>x. fs_get x t3 = (if x = bw_final w2 then Some f else if x = bw_tmp w2 then None else fs_get x t2)"
          using d(1) by auto
        have "fs_get y t' = (if y = blob_key i k then Some f else fs_get y t)" for y
          using t2 [of y] old r'(2) spec [OF f(3), of y] w2(1,2) by simp
        then show ?thesis using d(2) f(1,2) lim r'(3) by (simp add: blob_Open_def)
      qed
    qed
  qed
qed

lemma blob_stored:
  assumes "\<And>q. fst (we_io v q) \<le> length q \<and> (snd (we_io v q) = None \<longrightarrow> fst (we_io v q) = length q)"
    and "fs_get (blob_dir i, blob_name i k @ ''.tmp-'' @ we_rnd v) t = None"
    and "blob_WriteFrom v i k r limit t = ((n, None), t')"
  shows "blob_Open i k t' = Inr (concat (fst r)) \<and> n = int (length (concat (fst r))) \<and> (0 < limit \<longrightarrow> n \<le> limit)"
proof -
  note w = conjunct2 [OF conjunct2 [OF write_from_outcome [OF assms]]]
  from mp [OF w refl] show ?thesis by blast
qed

section \<open>Properties\<close>


definition demo_write :: write_env where
  "demo_write = \<lparr>we_mkdir = None, we_temp = None, we_rnd = ''1'', we_now = 0, we_io = (\<lambda>p. (length p, None)),
     we_commit = \<lparr>ce_sync = None, ce_close = None, ce_rename = None, ce_dir = None\<rparr>\<rparr>"


text \<open>Removing a job's artifacts removes them all and nothing else: when every unlink works, none of
  the job's artifacts of any kind is left, whole or temporary, and no artifact of a job with another
  (sanitised) id is touched, whether or not the unlinks work.\<close>

theorem remove_all_exact:
  assumes "blob_RemoveAll None rm i t = (errs, t')"
  shows "((\<forall>x. rm x = None) \<longrightarrow> errs = [] \<and> (\<forall>f \<in> set t'. \<not> belongs i f) \<and> (\<forall>k. \<not> blob_Exists i k t'))
    \<and> (sanitize j \<noteq> sanitize i \<longrightarrow> fs_get (blob_key j k) t' = fs_get (blob_key j k) t)"
proof -
  have t': "t' = filter (\<lambda>f. \<not> (belongs i f \<and> rm (bf_name f) = None)) t"
    and e: "errs = List.map_filter (\<lambda>f. if belongs i f then rm (bf_name f) else None) t"
    using assms by (auto simp: blob_RemoveAll_def)
  have "fs_get (blob_key j k) t' = fs_get (blob_key j k) t" if "sanitize j \<noteq> sanitize i"
    unfolding fs_get_def t' by (rule find_filter_same) (use that belongs_name in metis)
  moreover have "(\<forall>f \<in> set t'. \<not> belongs i f) \<and> errs = []" if "\<forall>x. rm x = None"
    using that t' e by (induction t) (auto simp: List.map_filter_def)
  moreover have "\<not> blob_Exists i k t'" if "\<forall>f \<in> set t'. \<not> belongs i f" for k
    using that key_belongs by (force simp: blob_Exists_def fs_get_def find_Some_iff in_set_conv_nth)
  ultimately show ?thesis by blast
qed

lemma remove_all_exact_witness:
  "\<not> blob_Exists ''ab'' ''in'' (snd (blob_RemoveAll None (\<lambda>x. None) ''ab''
      [\<lparr>bf_dir = (''ab'', ''zz''), bf_name = ''ab.in'', bf_data = [], bf_mtime = 0\<rparr>]))"
proof -
  obtain e t' where r: "blob_RemoveAll None (\<lambda>x. None) ''ab''
      [\<lparr>bf_dir = (''ab'', ''zz''), bf_name = ''ab.in'', bf_data = [], bf_mtime = 0\<rparr>] = (e, t')" by force
  from remove_all_exact [OF r] r show ?thesis by simp
qed

text \<open>The sweep's cursor misses nothing: in a store of gateway ids, each call returns the next ids in
  order after the cursor, as many as asked for, and fewer only when there are no more. So successive
  calls that pass back the last id returned go through every id of the store, once each.\<close>

theorem ids_cursor:
  assumes "plain_tree t"
  shows "blob_IDs after limit t =
    take limit (filter (\<lambda>i. after = [] \<or> after < i) (sorted_list_of_set (set (List.map_filter walk_id t))))"
proof -
  have "set (List.map_filter walk_id (walk t)) = set (List.map_filter walk_id t)"
    by (simp add: List.map_filter_def walk_def)
  then show ?thesis
    using firsts_sorted_set [OF walk_sorted [OF assms]] by (simp add: blob_IDs_def ids_loop_filter)
qed

definition demo_a :: string where "demo_a = ''aaaaaaaaaaaaaaaaaaaaaaaaaaaaaaaaaaaa''"
definition demo_b :: string where "demo_b = ''bbbbbbbbbbbbbbbbbbbbbbbbbbbbbbbbbbbb''"

definition demo_tree :: "blob_file list" where
  "demo_tree = [\<lparr>bf_dir = (''bb'', ''bb''), bf_name = demo_b @ ''.in'', bf_data = [], bf_mtime = 0\<rparr>,
     \<lparr>bf_dir = (''aa'', ''aa''), bf_name = demo_a @ ''.res'', bf_data = [], bf_mtime = 0\<rparr>]"

lemma demo_plain: "plain_tree demo_tree"
proof -
  have "plain_id demo_a" and "plain_id demo_b"
    by (simp_all add: plain_id_def sanitize_id demo_a_def demo_b_def safe_rune_def byte_def)
  moreover have "map bf_key demo_tree = [blob_key demo_b ''in'', blob_key demo_a ''res'']" 
    using calculation
    by (simp add: demo_tree_def bf_key_def blob_key_def blob_dir_def blob_name_def plain_id_def Let_def)
      (simp add: demo_a_def demo_b_def)
  ultimately show ?thesis by (auto simp: plain_tree_def demo_tree_def)
qed

lemma ids_cursor_witness: "blob_IDs demo_a 5 demo_tree = [demo_b]"
proof -
  have "List.map_filter walk_id demo_tree = [demo_b, demo_a]" by code_simp
  moreover have "sorted_list_of_set {demo_b, demo_a} = [demo_a, demo_b]"
    by (rule sorted_distinct_set_unique) (simp_all add: demo_a_def demo_b_def insert_commute less_list_code)
  moreover have "demo_a < demo_b" by code_simp
  moreover have "demo_a \<noteq> []" by (simp add: demo_a_def)
  ultimately show ?thesis using ids_cursor [OF demo_plain, of demo_a 5] by simp
qed

end
