(* ===== verification/Store.thy ===== *)
theory Store
  imports Blobs Complex_Main
begin

text \<open>
  The job table (\<open>internal/store/db.go\<close>). The database is the list of its rows in insertion order;
  a statement is executed whole or, with an error of the driver (the argument \<open>err\<close>), not at all.
  Times are in Unix seconds, as the columns hold them. \<open>ORDER BY\<close> is a stable sort of the rows in
  insertion order; SQLite leaves the order of ties open.
\<close>

section \<open>Jobs\<close>

datatype job_status = NotStarted | Running | Succeeded | Failed

record stored_job =
  j_ID :: string
  j_Surface :: string
  j_ModelID :: string
  j_APIVersion :: string
  j_Status :: job_status
  j_CreatedAt :: int
  j_UpdatedAt :: int
  j_ExpiresAt :: int
  j_Query :: string
  j_ContentType :: string
  j_InputPath :: string
  j_InputBytes :: int
  j_ResultPath :: string
  j_ResultBytes :: int
  j_ErrorJSON :: string
  j_Attempts :: int
  j_LeaseOwner :: string
  j_LeaseUntil :: int
  j_UpStatus :: int
  j_UpstreamMS :: int
  j_ClientReqID :: string
  j_Prefix :: string
  j_UpstreamAttempts :: int
  j_UpstreamParts :: int

type_synonym db = "stored_job list"

definition row_of :: "string \<Rightarrow> db \<Rightarrow> stored_job option" where
  "row_of i d = find (\<lambda>r. j_ID r = i) d"

text \<open>\<open>UPDATE jobs SET \<dots> WHERE p\<close>, with the rows affected.\<close>

definition db_update :: "(stored_job \<Rightarrow> bool) \<Rightarrow> (stored_job \<Rightarrow> stored_job) \<Rightarrow> db \<Rightarrow> nat \<times> db" where
  "db_update p f d = (length (filter p d), map (\<lambda>r. if p r then f r else r) d)"

section \<open>Writes\<close>

text \<open>\<open>Create\<close> inserts fourteen columns; the others take their declared defaults.\<close>

definition inserted :: "stored_job \<Rightarrow> stored_job" where
  "inserted j = j\<lparr>j_ResultPath := [], j_ResultBytes := 0, j_ErrorJSON := [], j_Attempts := 0,
     j_LeaseOwner := [], j_LeaseUntil := 0, j_UpStatus := 0, j_UpstreamMS := 0,
     j_UpstreamAttempts := 0, j_UpstreamParts := 0\<rparr>"

definition db_Create :: "string option \<Rightarrow> stored_job \<Rightarrow> db \<Rightarrow> string option \<times> db" where
  "db_Create err j d =
     (case err of
        Some e \<Rightarrow> (Some (''store: create job: '' @ e), d)
      | None \<Rightarrow>
          if row_of (j_ID j) d \<noteq> None then (Some ''store: create job: UNIQUE constraint failed: jobs.id'', d)
          else (None, d @ [inserted j]))"

datatype get_error = ErrNoJob | GetFailed string

definition db_Get :: "string option \<Rightarrow> string \<Rightarrow> db \<Rightarrow> get_error + stored_job" where
  "db_Get err i d =
     (case err of
        Some e \<Rightarrow> Inl (GetFailed (''store: get job: '' @ e))
      | None \<Rightarrow> (case row_of i d of None \<Rightarrow> Inl ErrNoJob | Some j \<Rightarrow> Inr j))"

definition db_MarkRunning :: "string option \<Rightarrow> string \<Rightarrow> string \<Rightarrow> int \<Rightarrow> int \<Rightarrow> db \<Rightarrow> string option \<times> db" where
  "db_MarkRunning err i owner lease now d =
     (if err \<noteq> None then (err, d)
      else (None, snd (db_update (\<lambda>r. j_ID r = i)
             (\<lambda>r. r\<lparr>j_Status := Running, j_LeaseOwner := owner, j_LeaseUntil := lease, j_UpdatedAt := now,
                    j_Attempts := j_Attempts r + 1\<rparr>) d)))"

definition db_Heartbeat :: "string option \<Rightarrow> string \<Rightarrow> int \<Rightarrow> db \<Rightarrow> string option \<times> db" where
  "db_Heartbeat err i lease d =
     (if err \<noteq> None then (err, d)
      else (None, snd (db_update (\<lambda>r. j_ID r = i \<and> j_Status r = Running) (\<lambda>r. r\<lparr>j_LeaseUntil := lease\<rparr>) d)))"

definition db_Succeed :: "string option \<Rightarrow> string \<Rightarrow> string \<Rightarrow> int \<Rightarrow> int \<Rightarrow> int \<Rightarrow> int \<Rightarrow> int \<Rightarrow> db
    \<Rightarrow> (bool \<times> string option) \<times> db" where
  "db_Succeed err i path bytes ms attempts parts now d =
     (if err \<noteq> None then ((False, err), d)
      else case db_update (\<lambda>r. j_ID r = i)
             (\<lambda>r. r\<lparr>j_Status := Succeeded, j_ResultPath := path, j_ResultBytes := bytes, j_UpstreamMS := ms,
                    j_UpstreamAttempts := attempts, j_UpstreamParts := parts, j_UpdatedAt := now,
                    j_LeaseOwner := [], j_LeaseUntil := 0, j_InputPath := []\<rparr>) d of
        (n, d1) \<Rightarrow> ((n > 0, None), d1))"

definition db_Fail :: "string option \<Rightarrow> string \<Rightarrow> string \<Rightarrow> int \<Rightarrow> int \<Rightarrow> int \<Rightarrow> int \<Rightarrow> int \<Rightarrow> db
    \<Rightarrow> (bool \<times> string option) \<times> db" where
  "db_Fail err i json status ms attempts parts now d =
     (if err \<noteq> None then ((False, err), d)
      else case db_update (\<lambda>r. j_ID r = i)
             (\<lambda>r. r\<lparr>j_Status := Failed, j_ErrorJSON := json, j_UpStatus := status, j_UpstreamMS := ms,
                    j_UpstreamAttempts := attempts, j_UpstreamParts := parts, j_UpdatedAt := now,
                    j_LeaseOwner := [], j_LeaseUntil := 0\<rparr>) d of
        (n, d1) \<Rightarrow> ((n > 0, None), d1))"

definition db_Requeue :: "string option \<Rightarrow> string \<Rightarrow> int \<Rightarrow> int \<Rightarrow> db \<Rightarrow> string option \<times> db" where
  "db_Requeue err i now lease d =
     (if err \<noteq> None then (err, d)
      else (None, snd (db_update (\<lambda>r. j_ID r = i)
             (\<lambda>r. r\<lparr>j_Status := NotStarted, j_LeaseOwner := ''requeued'', j_LeaseUntil := lease,
                    j_UpdatedAt := now\<rparr>) d)))"

section \<open>Scans\<close>

definition db_Orphaned :: "int \<Rightarrow> int \<Rightarrow> nat \<Rightarrow> db \<Rightarrow> db" where
  "db_Orphaned now before limit d =
     take limit (sort_key j_CreatedAt (filter
       (\<lambda>r. ((j_Status r = NotStarted \<and> j_CreatedAt r < before \<and> j_LeaseUntil r < now)
             \<or> (j_Status r = Running \<and> j_LeaseUntil r < now)) \<and> now \<le> j_ExpiresAt r) d))"

definition db_Abandoned :: "int \<Rightarrow> nat \<Rightarrow> db \<Rightarrow> db" where
  "db_Abandoned now limit d =
     take limit (sort_key j_CreatedAt (filter
       (\<lambda>r. (j_Status r = NotStarted \<or> j_Status r = Running) \<and> now \<le> j_ExpiresAt r) d))"

definition db_Expired :: "int \<Rightarrow> nat \<Rightarrow> db \<Rightarrow> db" where
  "db_Expired now limit d =
     take limit (sort_key j_ExpiresAt (filter
       (\<lambda>r. j_ExpiresAt r < now
          \<and> (j_Status r = Succeeded \<or> j_Status r = Failed
             \<or> (j_Status r = Running \<and> j_LeaseUntil r < now) \<or> j_Status r = NotStarted)) d))"

text \<open>Sorted by the first key, ties by the second.\<close>

definition db_EvictionCandidates :: "int \<Rightarrow> nat \<Rightarrow> db \<Rightarrow> db" where
  "db_EvictionCandidates now limit d =
     take limit (sort_key (\<lambda>r. if now \<le> j_ExpiresAt r then (1 :: int) else 0) (sort_key j_UpdatedAt
       (filter (\<lambda>r. j_Status r = Succeeded \<or> j_Status r = Failed) d)))"

definition db_Recent :: "nat \<Rightarrow> db \<Rightarrow> db" where
  "db_Recent limit d = take limit (sort_key (\<lambda>r. - j_UpdatedAt r) d)"

section \<open>Delete, Exists, Stats\<close>

text \<open>\<open>Delete\<close>: the row first, then the artifacts.\<close>

definition db_Delete :: "string option \<Rightarrow> string option \<Rightarrow> (string \<Rightarrow> string option) \<Rightarrow> string \<Rightarrow> db \<times> blob_file list
    \<Rightarrow> string list \<times> db \<times> blob_file list" where
  "db_Delete err readdir rm i s =
     (case s of
        (d, t) \<Rightarrow>
          (case err of
             Some e \<Rightarrow> ([e], d, t)
           | None \<Rightarrow>
               (case blob_RemoveAll readdir rm i t of
                  (errs, t1) \<Rightarrow> (errs, filter (\<lambda>r. j_ID r \<noteq> i) d, t1))))"

definition db_Exists :: "string option \<Rightarrow> string \<Rightarrow> db \<Rightarrow> bool \<times> string option" where
  "db_Exists err i d =
     (case err of
        Some e \<Rightarrow> (False, Some (''store: job exists: '' @ e))
      | None \<Rightarrow> (row_of i d \<noteq> None, None))"

record counts =
  cn_NotStarted :: nat
  cn_Running :: nat
  cn_Succeeded :: nat
  cn_Failed :: nat
  cn_Total :: nat

fun add_group :: "job_status \<Rightarrow> nat \<Rightarrow> counts \<Rightarrow> counts" where
  "add_group NotStarted n c = c\<lparr>cn_NotStarted := n, cn_Total := cn_Total c + n\<rparr>"
| "add_group Running n c = c\<lparr>cn_Running := n, cn_Total := cn_Total c + n\<rparr>"
| "add_group Succeeded n c = c\<lparr>cn_Succeeded := n, cn_Total := cn_Total c + n\<rparr>"
| "add_group Failed n c = c\<lparr>cn_Failed := n, cn_Total := cn_Total c + n\<rparr>"

definition counts0 :: counts where
  "counts0 = \<lparr>cn_NotStarted = 0, cn_Running = 0, cn_Succeeded = 0, cn_Failed = 0, cn_Total = 0\<rparr>"

text \<open>\<open>GROUP BY surface, status\<close>, in any order of the groups.\<close>

definition db_groups :: "db \<Rightarrow> (string \<times> job_status \<times> nat) list" where
  "db_groups d = map (\<lambda>(s, st). (s, st, length (filter (\<lambda>r. j_Surface r = s \<and> j_Status r = st) d)))
     (remdups (map (\<lambda>r. (j_Surface r, j_Status r)) d))"

fun stats_loop :: "(string \<times> job_status \<times> nat) list \<Rightarrow> (string \<Rightarrow> counts option) \<Rightarrow> (string \<Rightarrow> counts option)" where
  "stats_loop [] out = out"
| "stats_loop ((s, st, n) # gs) out =
     stats_loop gs (out(s \<mapsto> add_group st n (case out s of None \<Rightarrow> counts0 | Some c \<Rightarrow> c)))"

definition db_Stats :: "db \<Rightarrow> (string \<Rightarrow> counts option)" where
  "db_Stats d = stats_loop (db_groups d) Map.empty"

section \<open>The volume\<close>

text \<open>\<open>usage\<close> is \<open>diskUsage\<close>'s answer: free and total bytes, or an error.\<close>

definition DiskUsage :: "(nat \<times> nat) option \<Rightarrow> real option" where
  "DiskUsage usage =
     (case usage of
        None \<Rightarrow> None
      | Some (free, all_bytes) \<Rightarrow> if all_bytes = 0 then None else Some (real (all_bytes - free) / real all_bytes))"

section \<open>Lemmas\<close>

lemma row_of_update:
  assumes "\<And>r. j_ID (f r) = j_ID r"
  shows "row_of i (snd (db_update p f d)) = map_option (\<lambda>r. if p r then f r else r) (row_of i d)"
  using assms by (induction d) (auto simp: row_of_def db_update_def)

lemma ids_update: "(\<And>r. j_ID (f r) = j_ID r) \<Longrightarrow> map j_ID (snd (db_update p f d)) = map j_ID d"
  by (induction d) (auto simp: db_update_def)

lemma row_of_some: "row_of i d = Some j \<Longrightarrow> j_ID j = i \<and> j \<in> set d"
  by (auto simp: row_of_def find_Some_iff)

lemma row_of_none: "row_of i d = None \<longleftrightarrow> i \<notin> j_ID ` set d"
  by (auto simp: row_of_def find_None_iff)

lemma row_of_mem: "distinct (map j_ID d) \<Longrightarrow> r \<in> set d \<Longrightarrow> row_of (j_ID r) d = Some r"
  by (induction d) (auto simp: row_of_def)

lemma affected_update: "fst (db_update (\<lambda>r. j_ID r = i) f d) > 0 \<longleftrightarrow> row_of i d \<noteq> None"
  by (auto simp: db_update_def row_of_none length_greater_0_conv filter_empty_conv)

text \<open>An update of one job by its id: the rows affected, and every job's row afterwards.\<close>

lemma update_row:
  assumes "db_update (\<lambda>r. j_ID r = i) f d = (n, d')" and "\<And>r. j_ID (f r) = j_ID r"
  shows "(0 < n \<longleftrightarrow> row_of i d \<noteq> None) \<and> row_of k d' = (if k = i then map_option f (row_of i d) else row_of k d)"
proof -
  have d': "d' = snd (db_update (\<lambda>r. j_ID r = i) f d)" and n: "n = fst (db_update (\<lambda>r. j_ID r = i) f d)"
    using assms(1) by simp_all
  have "row_of k d' = map_option (\<lambda>r. if j_ID r = i then f r else r) (row_of k d)"
    unfolding d' by (rule row_of_update) (rule assms(2))
  then have "row_of k d' = (if k = i then map_option f (row_of i d) else row_of k d)"
    by (cases "row_of k d") (auto dest: row_of_some)
  then show ?thesis using affected_update [of i f d] n by simp
qed

lemma row_of_append: "row_of i (d @ [j]) = (case row_of i d of None \<Rightarrow> if j_ID j = i then Some j else None | Some r \<Rightarrow> Some r)"
  by (induction d) (auto simp: row_of_def)

lemma row_of_delete: "row_of i (filter (\<lambda>r. j_ID r \<noteq> k) d) = (if i = k then None else row_of i d)"
  by (induction d) (auto simp: row_of_def)

text \<open>A stable sort of a sorted list sorts by both keys.\<close>

lemma lex_sorted:
  assumes "sorted (map f xs)" and "\<And>k. sorted (map g (filter (\<lambda>x. f x = k) xs))"
  shows "sorted_wrt (\<lambda>a b. f a < f b \<or> f a = f b \<and> g a \<le> g b) xs"
  using assms
proof (induction xs)
  case (Cons x xs)
  have "sorted (map g (filter (\<lambda>x. f x = k) xs))" for k
    using Cons.prems(2) [of k] by (cases "f x = k") simp_all
  moreover have "f x < f y \<or> f x = f y \<and> g x \<le> g y" if "y \<in> set xs" for y
  proof (cases "f y = f x")
    case True
    with Cons.prems(2) [of "f x"] that show ?thesis by auto
  next
    case False
    with Cons.prems(1) that show ?thesis by force
  qed
  ultimately show ?case using Cons by simp
qed simp

lemma lex_sort_key: "sorted_wrt (\<lambda>a b. f a < f b \<or> f a = f b \<and> g a \<le> g b) (sort_key f (sort_key g xs))"
proof (rule lex_sorted)
  fix k
  have "filter (\<lambda>x. f x = k) (sort_key f (sort_key g xs)) = filter (\<lambda>x. f x = k) (sort_key g xs)"
    by (rule sort_key_stable)
  then show "sorted (map g (filter (\<lambda>x. f x = k) (sort_key f (sort_key g xs))))"
    by (simp add: sorted_filter)
qed simp

lemma take_sort_all: "length xs \<le> n \<Longrightarrow> set (take n (sort_key f xs)) = set xs"
  by simp

lemma filter_limit: "length d \<le> n \<Longrightarrow> length (filter p d) \<le> n"
  using length_filter_le [of p d] by linarith

section \<open>Properties\<close>

text \<open>The maintenance scans divide the jobs among them. A running job whose lease is live is in none
  of them, so nothing reclaims or deletes work in progress. An unfinished job whose lease has lapsed
  is found by the reclaim pass exactly while it has not expired and by the expiry sweep exactly
  afterwards, so none is stranded; every unfinished, unexpired job is found at boot, whatever its
  lease; and eviction takes finished jobs only, expired ones first, then the longest unchanged. (The
  limits are at least the table's length here.)\<close>

theorem store_scans:
  assumes "r \<in> set d" and "length d \<le> limit"
  shows "(j_Status r = Running \<and> now \<le> j_LeaseUntil r \<longrightarrow>
        r \<notin> set (db_Orphaned now before limit d) \<union> set (db_Expired now limit d) \<union> set (db_EvictionCandidates now limit d))
    \<and> (j_Status r \<in> {NotStarted, Running} \<and> j_LeaseUntil r < now \<and> j_CreatedAt r < before \<longrightarrow>
        (r \<in> set (db_Orphaned now before limit d) \<longleftrightarrow> now \<le> j_ExpiresAt r)
        \<and> (r \<in> set (db_Expired now limit d) \<longleftrightarrow> j_ExpiresAt r < now))
    \<and> (j_Status r \<in> {NotStarted, Running} \<longrightarrow> (r \<in> set (db_Abandoned now limit d) \<longleftrightarrow> now \<le> j_ExpiresAt r))
    \<and> (r \<in> set (db_EvictionCandidates now limit d) \<longleftrightarrow> j_Status r \<in> {Succeeded, Failed})
    \<and> sorted_wrt (\<lambda>a b. (j_ExpiresAt a < now \<and> now \<le> j_ExpiresAt b)
        \<or> ((now \<le> j_ExpiresAt a \<longleftrightarrow> now \<le> j_ExpiresAt b) \<and> j_UpdatedAt a \<le> j_UpdatedAt b))
        (db_EvictionCandidates now limit d)"
proof -
  have 1: "r \<in> set (db_Orphaned now before limit d) \<longleftrightarrow>
      ((j_Status r = NotStarted \<and> j_CreatedAt r < before \<and> j_LeaseUntil r < now)
        \<or> (j_Status r = Running \<and> j_LeaseUntil r < now)) \<and> now \<le> j_ExpiresAt r"
    using assms by (simp add: db_Orphaned_def take_sort_all filter_limit del: take_all take_all_iff)
  have 2: "r \<in> set (db_Expired now limit d) \<longleftrightarrow> j_ExpiresAt r < now
      \<and> (j_Status r = Succeeded \<or> j_Status r = Failed \<or> (j_Status r = Running \<and> j_LeaseUntil r < now) \<or> j_Status r = NotStarted)"
    using assms by (simp add: db_Expired_def take_sort_all filter_limit del: take_all take_all_iff)
  have 3: "r \<in> set (db_Abandoned now limit d) \<longleftrightarrow> (j_Status r = NotStarted \<or> j_Status r = Running) \<and> now \<le> j_ExpiresAt r"
    using assms by (simp add: db_Abandoned_def take_sort_all filter_limit del: take_all take_all_iff)
  have 4: "r \<in> set (db_EvictionCandidates now limit d) \<longleftrightarrow> j_Status r = Succeeded \<or> j_Status r = Failed"
    using assms by (simp add: db_EvictionCandidates_def take_sort_all filter_limit del: take_all take_all_iff)
  have 5: "sorted_wrt (\<lambda>a b. (j_ExpiresAt a < now \<and> now \<le> j_ExpiresAt b)
        \<or> ((now \<le> j_ExpiresAt a \<longleftrightarrow> now \<le> j_ExpiresAt b) \<and> j_UpdatedAt a \<le> j_UpdatedAt b))
        (db_EvictionCandidates now limit d)"
    unfolding db_EvictionCandidates_def
    by (rule sorted_wrt_take, rule sorted_wrt_mono_rel [OF _ lex_sort_key]) (auto split: if_splits)
  show ?thesis using 1 2 3 4 5 by (cases "j_Status r") auto
qed

definition demo_job :: stored_job where
  "demo_job = \<lparr>j_ID = ''a'', j_Surface = ''di'', j_ModelID = [], j_APIVersion = [], j_Status = NotStarted,
     j_CreatedAt = 0, j_UpdatedAt = 0, j_ExpiresAt = 1000, j_Query = [], j_ContentType = [], j_InputPath = [],
     j_InputBytes = 4, j_ResultPath = [], j_ResultBytes = 0, j_ErrorJSON = [], j_Attempts = 0, j_LeaseOwner = [],
     j_LeaseUntil = 0, j_UpStatus = 0, j_UpstreamMS = 0, j_ClientReqID = [], j_Prefix = [],
     j_UpstreamAttempts = 0, j_UpstreamParts = 0\<rparr>"

lemma store_scans_witness: "demo_job \<in> set (db_Orphaned 500 200 256 [demo_job])"
  using store_scans [of demo_job "[demo_job]" 256 500 200] by (simp add: demo_job_def)

end
