(* ===== verification/Jobs.thy ===== *)
theory Jobs
  imports Store Engine Sched Textunit
begin

text \<open>
  The asynchronous job lifecycle (\<open>internal/jobs/manager.go\<close>): admission, claims, the queue, one
  worker's run of a job and what it leaves in the table and the blob store. The manager's state
  holds what its goroutines share; each operation here is one goroutine's step between two points
  where others can act. Times are Unix seconds. Logging is left out.
\<close>

definition SurfaceDI_name :: string where "SurfaceDI_name = ''di''"
definition SurfaceRead_name :: string where "SurfaceRead_name = ''read''"

definition leaseDuration :: int where "leaseDuration = 2 * 60"

section \<open>Timestamps\<close>

text \<open>\<open>Time.Format\<close> with the layout \<open>2006-01-02T15:04:05Z\<close>, for the years 0 to 9999: the civil date of a
  day number, counted in eras of 400 years from 1 March of year 0.\<close>

definition civil :: "int \<Rightarrow> int \<times> int \<times> int" where
  "civil days =
     (let z = days + 719468;
          era = z div 146097;
          doe = z mod 146097;
          yoe = (doe - doe div 1460 + doe div 36524 - doe div 146096) div 365;
          doy = doe - (365 * yoe + yoe div 4 - yoe div 100);
          mp = (5 * doy + 2) div 153;
          d = doy - (153 * mp + 2) div 5 + 1;
          m = (if mp < 10 then mp + 3 else mp - 9)
      in (yoe + era * 400 + (if m \<le> 2 then 1 else 0), m, d))"

definition pad :: "nat \<Rightarrow> int \<Rightarrow> string" where
  "pad n i = (let s = itoa i in replicate (n - length s) (CHR ''0'') @ s)"

definition format_time :: "int \<Rightarrow> string" where
  "format_time t =
     (case civil (t div 86400) of
        (y, m, d) \<Rightarrow>
          (let s = t mod 86400 in
           pad 4 y @ ''-'' @ pad 2 m @ ''-'' @ pad 2 d @ ''T'' @ pad 2 (s div 3600) @ '':''
             @ pad 2 (s div 60 mod 60) @ '':'' @ pad 2 (s mod 60) @ ''Z''))"

section \<open>Runners and the manager\<close>

record runner =
  rn_surface :: surface
  rn_admits :: chan
  rn_queue :: "string list"
  rn_qcap :: nat
  rn_workers :: nat
  rn_metadata :: chan

text \<open>\<open>make(chan, capacity)\<close> panics (\<open>None\<close>) on a negative capacity.\<close>

definition newRunner :: "surface \<Rightarrow> int \<Rightarrow> int \<Rightarrow> runner option" where
  "newRunner srf inflight0 queueDepth =
     (let inflight = (if inflight0 < 1 then 1 else inflight0); capacity = inflight + queueDepth in
      if capacity < 0 then None
      else Some \<lparr>rn_surface = srf, rn_admits = \<lparr>ch_cap = nat capacity, ch_len = 0\<rparr>, rn_queue = [],
                 rn_qcap = nat capacity, rn_workers = nat inflight, rn_metadata = \<lparr>ch_cap = 4, ch_len = 0\<rparr>\<rparr>)"

record mgr =
  mg_runners :: "string \<Rightarrow> runner option"
  mg_claims :: "string set"
  mg_cursor :: string
  mg_db :: db
  mg_tree :: "blob_file list"

definition set_runner :: "string \<Rightarrow> runner \<Rightarrow> mgr \<Rightarrow> mgr" where
  "set_runner s r m = m\<lparr>mg_runners := (mg_runners m)(s \<mapsto> r)\<rparr>"

text \<open>\<open>New\<close>: a surface whose limits are not given has no engine and gets no runner.\<close>

definition add_runner :: "string \<Rightarrow> surface \<Rightarrow> int option \<Rightarrow> int \<Rightarrow> mgr \<Rightarrow> mgr option" where
  "add_runner nm srf inflight depth m =
     (case inflight of
        None \<Rightarrow> Some m
      | Some n \<Rightarrow> (case newRunner srf n depth of None \<Rightarrow> None | Some r \<Rightarrow> Some (set_runner nm r m)))"

definition mgr_New :: "int option \<Rightarrow> int option \<Rightarrow> int \<Rightarrow> db \<Rightarrow> blob_file list \<Rightarrow> mgr option" where
  "mgr_New di read_limit depth d t =
     (case add_runner SurfaceDI_name SurfaceDI di depth
             \<lparr>mg_runners = Map.empty, mg_claims = {}, mg_cursor = [], mg_db = d, mg_tree = t\<rparr> of
        None \<Rightarrow> None
      | Some m \<Rightarrow> add_runner SurfaceRead_name SurfaceRead read_limit depth m)"

section \<open>Admission\<close>

datatype admit_error = ErrBusy | UnknownSurface string

definition Admit :: "string \<Rightarrow> mgr \<Rightarrow> admit_error + mgr" where
  "Admit s m =
     (case mg_runners m s of
        None \<Rightarrow> Inl (UnknownSurface s)
      | Some r \<Rightarrow>
          (case try_send (rn_admits r) of
             None \<Rightarrow> Inl ErrBusy
           | Some c \<Rightarrow> Inr (set_runner s (r\<lparr>rn_admits := c\<rparr>) m)))"

text \<open>The first call of the release function \<open>Admit\<close> returns; later calls do nothing (\<open>sync.Once\<close>).\<close>

definition admit_release :: "bool \<Rightarrow> string \<Rightarrow> mgr \<Rightarrow> mgr" where
  "admit_release released s m =
     (if released then m
      else case mg_runners m s of
        None \<Rightarrow> m
      | Some r \<Rightarrow> set_runner s (r\<lparr>rn_admits := recv (rn_admits r)\<rparr>) m)"

definition AdmitMetadata :: "string \<Rightarrow> mgr \<Rightarrow> admit_error + mgr" where
  "AdmitMetadata s m =
     (case mg_runners m s of
        None \<Rightarrow> Inl ErrBusy
      | Some r \<Rightarrow>
          (case try_send (rn_metadata r) of
             None \<Rightarrow> Inl ErrBusy
           | Some c \<Rightarrow> Inr (set_runner s (r\<lparr>rn_metadata := c\<rparr>) m)))"

definition metadata_release :: "bool \<Rightarrow> string \<Rightarrow> mgr \<Rightarrow> mgr" where
  "metadata_release released s m =
     (if released then m
      else case mg_runners m s of
        None \<Rightarrow> m
      | Some r \<Rightarrow> set_runner s (r\<lparr>rn_metadata := recv (rn_metadata r)\<rparr>) m)"

section \<open>Claims and the queue\<close>

definition claimed :: "string \<Rightarrow> mgr \<Rightarrow> bool" where
  "claimed i m \<longleftrightarrow> i \<in> mg_claims m"

definition claim :: "string \<Rightarrow> mgr \<Rightarrow> bool \<times> mgr" where
  "claim i m = (if i \<in> mg_claims m then (False, m) else (True, m\<lparr>mg_claims := insert i (mg_claims m)\<rparr>))"

definition unclaim :: "string \<Rightarrow> mgr \<Rightarrow> mgr" where
  "unclaim i m = m\<lparr>mg_claims := mg_claims m - {i}\<rparr>"

text \<open>\<open>Track\<close>, and its release: \<open>owned\<close> says whether the claim was taken.\<close>

definition Track :: "string \<Rightarrow> mgr \<Rightarrow> bool \<times> mgr" where
  "Track i m = claim i m"

definition track_release :: "bool \<Rightarrow> bool \<Rightarrow> string \<Rightarrow> mgr \<Rightarrow> mgr" where
  "track_release owned released i m = (if owned \<and> \<not> released then unclaim i m else m)"

definition Enqueue :: "string \<Rightarrow> string \<Rightarrow> mgr \<Rightarrow> admit_error option \<times> mgr" where
  "Enqueue s i m =
     (case mg_runners m s of
        None \<Rightarrow> (Some (UnknownSurface s), m)
      | Some r \<Rightarrow>
          (case claim i m of
             (False, m1) \<Rightarrow> (None, m1)
           | (True, m1) \<Rightarrow>
               if length (rn_queue r) < rn_qcap r then
                 (None, set_runner s (r\<lparr>rn_queue := rn_queue r @ [i]\<rparr>) m1)
               else (Some ErrBusy, unclaim i m1)))"

text \<open>A worker's receive from its runner's queue; \<open>None\<close> blocks.\<close>

definition worker_take :: "string \<Rightarrow> mgr \<Rightarrow> (string \<times> mgr) option" where
  "worker_take s m =
     (case mg_runners m s of
        None \<Rightarrow> None
      | Some r \<Rightarrow> (case rn_queue r of [] \<Rightarrow> None | i # q \<Rightarrow> Some (i, set_runner s (r\<lparr>rn_queue := q\<rparr>) m)))"

definition inflight_total :: "string list \<Rightarrow> mgr \<Rightarrow> nat" where
  "inflight_total names m =
     sum_list (map (\<lambda>s. case mg_runners m s of None \<Rightarrow> 0 | Some r \<Rightarrow> ch_len (rn_admits r)) names)"

record capacity_row =
  cp_inFlight :: nat
  cp_limit :: nat
  cp_workers :: nat
  cp_queued :: nat
  cp_upstream :: sched_stats
  cp_metadataInUse :: nat

definition Capacity :: "(string \<Rightarrow> sched_stats) \<Rightarrow> mgr \<Rightarrow> (string \<Rightarrow> capacity_row option)" where
  "Capacity st m = (\<lambda>s. map_option (\<lambda>r. \<lparr>cp_inFlight = ch_len (rn_admits r), cp_limit = ch_cap (rn_admits r),
     cp_workers = rn_workers r, cp_queued = length (rn_queue r), cp_upstream = st s,
     cp_metadataInUse = ch_len (rn_metadata r)\<rparr>) (mg_runners m s))"

section \<open>The end of a job\<close>

record fail_env =
  fv_fail_err :: "string option"
  fv_readdir :: "string option"
  fv_rm :: "string \<Rightarrow> string option"
  fv_now :: int

definition failJob :: "fail_env \<Rightarrow> string \<Rightarrow> api_error \<Rightarrow> int \<Rightarrow> int \<Rightarrow> int \<Rightarrow> int \<Rightarrow> mgr \<Rightarrow> mgr" where
  "failJob v i e status ms attempts parts m =
     (case db_Fail (fv_fail_err v) i (marshal (wire_error (OperationError e))) status ms attempts parts (fv_now v) (mg_db m) of
        ((ok, err), d) \<Rightarrow>
          if \<not> ok then m\<lparr>mg_db := d, mg_tree := snd (blob_RemoveAll (fv_readdir v) (fv_rm v) i (mg_tree m))\<rparr>
          else m\<lparr>mg_db := d, mg_tree := snd (blob_Remove (fv_rm v) i KindInput (mg_tree m))\<rparr>)"

definition result_prefix :: "int \<Rightarrow> int \<Rightarrow> string" where
  "result_prefix created now =
     [CHR ''{'', CHR 0x22] @ ''status'' @ [CHR 0x22, CHR '':'', CHR 0x22] @ ''succeeded'' @ [CHR 0x22, CHR '','', CHR 0x22]
       @ ''createdDateTime'' @ [CHR 0x22, CHR '':'', CHR 0x22] @ format_time created @ [CHR 0x22, CHR '','', CHR 0x22]
       @ ''lastUpdatedDateTime'' @ [CHR 0x22, CHR '':'', CHR 0x22] @ format_time now @ [CHR 0x22, CHR '','', CHR 0x22]
       @ ''analyzeResult'' @ [CHR 0x22, CHR '':'']"

text \<open>What the composition meets: the engine's file (its range comes in chunks, then an error or the
  end), the blob's own system calls and the table's answer.\<close>

record finish_env =
  fe_open_err :: "string option"
  fe_blob :: write_env
  fe_chunks :: "string list"
  fe_read_err :: "blob_error option"
  fe_succeed_err :: "string option"
  fe_readdir :: "string option"
  fe_rm :: "string \<Rightarrow> string option"
  fe_now :: int
  fe_root :: string

text \<open>The three writes of the envelope, each of which ends it on an error.\<close>

definition write_envelope :: "finish_env \<Rightarrow> string \<Rightarrow> blob_writer \<Rightarrow> blob_file list
    \<Rightarrow> blob_error option \<times> blob_writer \<times> blob_file list" where
  "write_envelope v prefix w t =
     (case blob_Write (we_io (fe_blob v)) prefix w t of
        ((n1, Some e), w1, t1) \<Rightarrow> (Some e, w1, t1)
      | ((n1, None), w1, t1) \<Rightarrow>
          (case copy_in (we_io (fe_blob v)) (fe_chunks v) (fe_read_err v) w1 t1 of
             (Some e, w2, t2) \<Rightarrow> (Some e, w2, t2)
           | (None, w2, t2) \<Rightarrow>
               (case blob_Write (we_io (fe_blob v)) ''}'' w2 t2 of
                  ((n3, err), w3, t3) \<Rightarrow> (err, w3, t3))))"

definition finish :: "finish_env \<Rightarrow> stored_job \<Rightarrow> run_output \<Rightarrow> int \<Rightarrow> mgr \<Rightarrow> (string + int) \<times> mgr" where
  "finish v j out ms m =
     (case fe_open_err v of
        Some e \<Rightarrow> (Inl (''jobs: reopen engine output: '' @ e), m)
      | None \<Rightarrow>
          (let b = fe_blob v in
           case blob_Create (we_mkdir b) (we_temp b) (we_rnd b) (we_now b) (j_ID j) KindResult 0 (mg_tree m) of
             (Inl e, t) \<Rightarrow> (Inl ''store: create blob'', m\<lparr>mg_tree := t\<rparr>)
           | (Inr w, t) \<Rightarrow>
               (case write_envelope v (result_prefix (j_CreatedAt j) (fe_now v)) w t of
                  (Some e, w1, t1) \<Rightarrow> (Inl ''jobs: write result'', m\<lparr>mg_tree := snd (blob_Abort w1 t1)\<rparr>)
                | (None, w1, t1) \<Rightarrow>
                    (case blob_Commit (we_commit b) w1 t1 of
                       (Some e, w2, t2) \<Rightarrow> (Inl ''store: commit blob'', m\<lparr>mg_tree := t2\<rparr>)
                     | (None, w2, t2) \<Rightarrow>
                         (case db_Succeed (fe_succeed_err v) (j_ID j) (blob_Path (fe_root v) (j_ID j) KindResult) (bw_n w1)
                                 ms (out_Attempts out) (out_Parts out) (fe_now v) (mg_db m) of
                            ((ok, Some e), d) \<Rightarrow> (Inl e, m\<lparr>mg_tree := t2, mg_db := d\<rparr>)
                          | ((False, None), d) \<Rightarrow>
                              (Inr (bw_n w1), m\<lparr>mg_db := d,
                                 mg_tree := snd (blob_RemoveAll (fe_readdir v) (fe_rm v) (j_ID j) t2)\<rparr>)
                          | ((True, None), d) \<Rightarrow>
                              (Inr (bw_n w1), m\<lparr>mg_db := d,
                                 mg_tree := snd (blob_Remove (fe_rm v) (j_ID j) KindInput t2)\<rparr>))))))"

section \<open>A worker's run of a job\<close>

record run_env =
  rv_get_err :: "string option"
  rv_mark_err :: "string option"
  rv_now :: int
  rv_ctx_done :: bool
  rv_ms :: int
  rv_finish :: finish_env
  rv_fail :: fail_env

text \<open>The start: the job to analyse, or \<open>None\<close> when there is nothing to do.\<close>

definition job_start :: "run_env \<Rightarrow> string \<Rightarrow> string \<Rightarrow> mgr \<Rightarrow> stored_job option \<times> mgr" where
  "job_start v owner i m =
     (case db_Get (rv_get_err v) i (mg_db m) of
        Inl e \<Rightarrow> (None, m)
      | Inr j \<Rightarrow>
          if j_Status j = Succeeded \<or> j_Status j = Failed then (None, m)
          else (case db_MarkRunning (rv_mark_err v) i owner (rv_now v + leaseDuration) (rv_now v) (mg_db m) of
                  (Some e, d) \<Rightarrow> (None, m\<lparr>mg_db := d\<rparr>)
                | (None, d) \<Rightarrow> (Some j, m\<lparr>mg_db := d\<rparr>)))"

fun is_cancel :: "go_error \<Rightarrow> bool" where
  "is_cancel (Leaf s) = (s = ''context canceled'' \<or> s = ''context deadline exceeded'')"
| "is_cancel (UrlError s None) = False"
| "is_cancel (UrlError s (Some e)) = is_cancel e"
| "is_cancel (Wrapped s e) = is_cancel e"

text \<open>The settlement, given what the engine's \<open>Run\<close> returned for the job.\<close>

definition job_settle :: "run_env \<Rightarrow> surface \<Rightarrow> stored_job \<Rightarrow> run_output option \<Rightarrow> run_error option \<Rightarrow> mgr \<Rightarrow> mgr" where
  "job_settle v srf j out err m =
     (case err of
        Some x \<Rightarrow>
          (let attempts = (case out of None \<Rightarrow> 0 | Some q \<Rightarrow> out_Attempts q);
               parts = (case out of None \<Rightarrow> 0 | Some q \<Rightarrow> out_Parts q);
               ms = (case out of None \<Rightarrow> 0 | Some q \<Rightarrow> rv_ms v);
               status = (case out of None \<Rightarrow> 0 | Some q \<Rightarrow> out_UpstreamStatus q)
           in if rv_ctx_done v \<or> (case x of RunCtx e \<Rightarrow> is_cancel e | RunApi a \<Rightarrow> False) then m
              else failJob (rv_fail v) (j_ID j) (case x of RunApi a \<Rightarrow> a | RunCtx e \<Rightarrow> err_Internal srf [])
                     status ms attempts parts m)
      | None \<Rightarrow>
          (case out of
             None \<Rightarrow> m
           | Some q \<Rightarrow>
               (case finish (rv_finish v) j q (rv_ms v) m of
                  (Inl e, m1) \<Rightarrow>
                    failJob (rv_fail v) (j_ID j) (err_Internal srf ''The result could not be stored.'') 0 (rv_ms v)
                      (out_Attempts q) (out_Parts q) m1
                | (Inr n, m1) \<Rightarrow> m1)))"

text \<open>The deferred end: the claim is dropped, then the slot is given back.\<close>

definition job_end :: "string \<Rightarrow> string \<Rightarrow> mgr \<Rightarrow> mgr" where
  "job_end s i m = admit_release False s (unclaim i m)"

definition run_job :: "run_env \<Rightarrow> string \<Rightarrow> runner \<Rightarrow> string \<Rightarrow> string \<Rightarrow> (stored_job \<Rightarrow> run_output option \<times> run_error option) \<Rightarrow> mgr \<Rightarrow> mgr" where
  "run_job v s r owner i eng m =
     (case job_start v owner i m of
        (None, m1) \<Rightarrow> job_end s i m1
      | (Some j, m1) \<Rightarrow> (case eng j of (out, err) \<Rightarrow> job_end s i (job_settle v (rn_surface r) j out err m1)))"

section \<open>What a finished job leaves\<close>

lemma same_writer_trans:
  "same_writer w t w1 t1 \<Longrightarrow> same_writer w1 t1 w2 t2 \<Longrightarrow> same_writer w t w2 t2"
  by (simp add: same_writer_def)

lemma write_envelope_spec:
  assumes inv: "writer_inv w t"
    and io: "\<And>q. fst (we_io (fe_blob v) q) \<le> length q \<and> (snd (we_io (fe_blob v) q) = None \<longrightarrow> fst (we_io (fe_blob v) q) = length q)"
    and run: "write_envelope v p w t = (err, w', t')"
  shows "writer_inv w' t' \<and> same_writer w t w' t'
    \<and> (err = None \<longrightarrow> fe_read_err v = None \<and> tmp_data w' t' = tmp_data w t @ p @ concat (fe_chunks v) @ ''}'')"
proof -
  obtain n1 e1 w1 t1 where b1: "blob_Write (we_io (fe_blob v)) p w t = ((n1, e1), w1, t1)" by (metis prod.exhaust)
  note s1 = blob_Write_spec [OF inv io b1]
  show ?thesis
  proof (cases e1)
    case (Some x)
    with run b1 s1 show ?thesis by (auto simp: write_envelope_def)
  next
    case None
    then have i1: "writer_inv w1 t1" using s1 by simp
    obtain e2 w2 t2 where b2: "copy_in (we_io (fe_blob v)) (fe_chunks v) (fe_read_err v) w1 t1 = (e2, w2, t2)"
      by (metis prod.exhaust)
    note s2 = copy_in_spec [OF i1 io b2]
    show ?thesis
    proof (cases e2)
      case (Some x)
      with run b1 b2 None s1 s2 show ?thesis by (auto simp: write_envelope_def intro: same_writer_trans)
    next
      case two: None
      then have i2: "writer_inv w2 t2" using s2 by simp
      obtain n3 e3 w3 t3 where b3: "blob_Write (we_io (fe_blob v)) ''}'' w2 t2 = ((n3, e3), w3, t3)" by (metis prod.exhaust)
      note s3 = blob_Write_spec [OF i2 io b3]
      have "err = e3" "w' = w3" "t' = t3" using run b1 b2 b3 None two by (simp_all add: write_envelope_def)
      moreover have "same_writer w t w3 t3" using s1 s2 s3 same_writer_trans by blast
      ultimately show ?thesis using s1 s2 s3 None two by auto
    qed
  qed
qed

lemma remove_input:
  assumes "\<And>x. rm x = None"
  shows "fs_get x (snd (blob_Remove rm i k t)) = (if x = blob_key i k then None else fs_get x t)"
  using assms by (auto simp: blob_Remove_def fs_get_del)

lemma kinds_differ [simp]: "blob_key i KindResult \<noteq> blob_key i KindInput"
  by (simp add: blob_key_def blob_name_def KindResult_def KindInput_def)

lemma removed_all:
  assumes "\<And>x. rm x = None"
  shows "\<not> blob_Exists i k (snd (blob_RemoveAll None rm i t))"
  using assms key_belongs
  by (force simp: blob_RemoveAll_def blob_Exists_def fs_get_def find_Some_iff in_set_conv_nth dest!: nth_mem)

text \<open>The table's answer to \<open>Succeed\<close>.\<close>

lemma db_Succeed_row:
  "db_Succeed None i path bytes ms a p now d = ((ok, None), d') \<Longrightarrow>
   (ok \<longleftrightarrow> row_of i d \<noteq> None) \<and>
   row_of i d' = map_option (\<lambda>r. r\<lparr>j_Status := Succeeded, j_ResultPath := path, j_ResultBytes := bytes, j_UpstreamMS := ms,
                    j_UpstreamAttempts := a, j_UpstreamParts := p, j_UpdatedAt := now,
                    j_LeaseOwner := [], j_LeaseUntil := 0, j_InputPath := []\<rparr>) (row_of i d)"
  by (auto simp: db_Succeed_def split: prod.splits dest!: update_row [where k = i])

lemma finish_outcome:
  assumes io: "\<And>q. fst (we_io (fe_blob v) q) \<le> length q \<and> (snd (we_io (fe_blob v) q) = None \<longrightarrow> fst (we_io (fe_blob v) q) = length q)"
    and rm: "\<And>x. fe_rm v x = None" and rd: "fe_readdir v = None"
    and run: "finish v j out ms m = (res, m')"
  shows "case res of
      Inl e \<Rightarrow> mg_db m' = mg_db m
    | Inr n \<Rightarrow>
        (case row_of (j_ID j) (mg_db m) of
           None \<Rightarrow> \<forall>k. \<not> blob_Exists (j_ID j) k (mg_tree m')
         | Some r \<Rightarrow>
             blob_Open (j_ID j) KindResult (mg_tree m') =
               Inr (result_prefix (j_CreatedAt j) (fe_now v) @ concat (fe_chunks v) @ ''}'')
             \<and> n = int (length (result_prefix (j_CreatedAt j) (fe_now v) @ concat (fe_chunks v) @ ''}''))
             \<and> fe_read_err v = None \<and> \<not> blob_Exists (j_ID j) KindInput (mg_tree m')
             \<and> (\<exists>r'. row_of (j_ID j) (mg_db m') = Some r' \<and> j_Status r' = Succeeded \<and> j_ResultBytes r' = n))"
proof (cases "fe_open_err v")
  case (Some e)
  with run show ?thesis by (auto simp: finish_def)
next
  case opened: None
  let ?b = "fe_blob v" and ?i = "j_ID j"
  obtain c t where c: "blob_Create (we_mkdir ?b) (we_temp ?b) (we_rnd ?b) (we_now ?b) ?i KindResult 0 (mg_tree m) = (c, t)" by force
  show ?thesis
  proof (cases c)
    case (Inl e)
    with run opened c show ?thesis by (auto simp: finish_def Let_def)
  next
    case (Inr w)
    note cr = blob_Create_spec [OF c [unfolded Inr]]
    obtain e1 w1 t1 where en: "write_envelope v (result_prefix (j_CreatedAt j) (fe_now v)) w t = (e1, w1, t1)"
      by (metis prod.exhaust)
    have inv: "writer_inv w t" using cr by blast
    note sp = write_envelope_spec [OF inv io en]
    show ?thesis
    proof (cases e1)
      case (Some e)
      with run opened c Inr en show ?thesis by (auto simp: finish_def Let_def)
    next
      case None
      obtain e2 w2 t2 where cm: "blob_Commit (we_commit ?b) w1 t1 = (e2, w2, t2)" by (metis prod.exhaust)
      show ?thesis
      proof (cases e2)
        case (Some e)
        with run opened c Inr en None cm show ?thesis by (auto simp: finish_def Let_def)
      next
        case committed: None
        have w1: "writer_inv w1 t1" "bw_final w1 = blob_key ?i KindResult" "bw_tmp w1 \<noteq> bw_final w1"
          using sp cr tmp_not_final by (auto simp: same_writer_def)
        from blob_Commit_spec [OF cm w1(1,3)] committed obtain f where
          f1: "bf_data f = tmp_data w1 t1" "int (length (bf_data f)) = bw_n w1"
          and f2: "\<forall>x. fs_get x t2 = (if x = bw_final w1 then Some f else if x = bw_tmp w1 then None else fs_get x t1)"
          by blast
        note f = f1 spec [OF f2, of "bw_final w1", unfolded w1(2), simplified]
        have data: "tmp_data w1 t1 = result_prefix (j_CreatedAt j) (fe_now v) @ concat (fe_chunks v) @ ''}''"
          and rderr: "fe_read_err v = None"
          using sp None cr by auto
        obtain ok e3 d where sc: "db_Succeed (fe_succeed_err v) ?i (blob_Path (fe_root v) ?i KindResult) (bw_n w1)
            ms (out_Attempts out) (out_Parts out) (fe_now v) (mg_db m) = ((ok, e3), d)" by (metis prod.exhaust)
        show ?thesis
        proof (cases e3)
          case (Some e)
          with run opened c Inr en None cm committed sc show ?thesis
            by (cases "fe_succeed_err v") (auto simp: finish_def Let_def db_Succeed_def split: prod.splits)
        next
          case stored: None
          then have "fe_succeed_err v = None" using sc by (auto simp: db_Succeed_def split: if_splits)
          note row = db_Succeed_row [OF sc [unfolded this stored]]
          show ?thesis
          proof (cases ok)
            case False
            with run opened c Inr en None cm committed sc stored
            have "res = Inr (bw_n w1)" "mg_tree m' = snd (blob_RemoveAll (fe_readdir v) (fe_rm v) ?i t2)"
              by (auto simp: finish_def Let_def)
            then show ?thesis using False row removed_all [of "fe_rm v"] rm rd by simp
          next
            case True
            with run opened c Inr en None cm committed sc stored
            have r: "res = Inr (bw_n w1)" "mg_tree m' = snd (blob_Remove (fe_rm v) ?i KindInput t2)" "mg_db m' = d"
              by (auto simp: finish_def Let_def)
            obtain q where q: "row_of ?i (mg_db m) = Some q" using row True by auto
            have "fs_get (blob_key ?i KindResult) (mg_tree m') = Some f" "fs_get (blob_key ?i KindInput) (mg_tree m') = None"
              using r(2) f(3) remove_input [of "fe_rm v"] rm by simp_all
            then show ?thesis using r(1,3) row q f data rderr by (simp add: blob_Open_def blob_Exists_def)
          qed
        qed
      qed
    qed
  qed
qed

lemma finish_keeps_rows:
  assumes "finish v j out ms m = (res, m')"
  shows "map j_ID (mg_db m') = map j_ID (mg_db m)"
proof -
  have "map j_ID (snd (db_Succeed e i p n ms a b now d)) = map j_ID d" for e i p n ms a b now d
    by (simp add: db_Succeed_def split_def ids_update)
  then have "map j_ID d' = map j_ID d" if "db_Succeed e i p n ms a b now d = (x, d')" for e i p n ms a b now d x d'
    using that by (metis snd_conv)
  then show ?thesis using assms
    by (auto simp: finish_def Let_def split: option.splits sum.splits prod.splits if_splits bool.splits)
qed

section \<open>A run that finishes\<close>

definition demo_finish :: finish_env where
  "demo_finish = \<lparr>fe_open_err = None, fe_blob = demo_write, fe_chunks = [''{}''], fe_read_err = None,
     fe_succeed_err = None, fe_readdir = None, fe_rm = (\<lambda>x. None), fe_now = 10, fe_root = ''/data/blobs''\<rparr>"

definition demo_out :: run_output where
  "demo_out = \<lparr>out_Path = ''r'', out_Start = 0, out_End = 2, out_Bare = True, out_Attempts = 1, out_Parts = 1,
     out_Halvings = 0, out_Hedges = 0, out_Fallback = [], out_UpstreamStatus = 0\<rparr>"

definition demo_running :: mgr where
  "demo_running = \<lparr>mg_runners = Map.empty, mg_claims = {''a''}, mg_cursor = [],
     mg_db = [demo_job\<lparr>j_Status := Running, j_Attempts := 1\<rparr>],
     mg_tree = [\<lparr>bf_dir = (''zz'', ''zz''), bf_name = ''a.in'', bf_data = ''%PDF'', bf_mtime = 0\<rparr>]\<rparr>"

lemma demo_finishes: "\<exists>n m'. finish demo_finish demo_job demo_out 5 demo_running = (Inr n, m')"
proof -
  have "sanitize ''a'' = ''a''" by (simp add: sanitize_id safe_rune_def byte_def)
  then show ?thesis
    by (simp add: finish_def demo_finish_def demo_write_def demo_job_def demo_running_def blob_Create_def Let_def
        write_envelope_def blob_Write_def blob_Commit_def db_Succeed_def db_update_def split: prod.splits)
qed

end
