(* ===== verification/Recover.thy ===== *)
theory Recover
  imports Jobs
begin

text \<open>
  Recovery and maintenance (\<open>internal/jobs/recover.go\<close>): re-reading and claiming the jobs a dead
  worker left, feeding them to the queue, and the sweeps of expired jobs, work folders, orphaned
  artifacts and, under disk pressure, results. \<open>recoverOne\<close> is split where other goroutines can act:
  between its re-reading of the row and what it does about it.
\<close>

definition maxAttempts :: int where "maxAttempts = 3"
definition recoverBatch :: nat where "recoverBatch = 256"
definition workAge :: int where "workAge = 60 * 60"

section \<open>One abandoned job\<close>

record recover_env =
  rc_get_err :: "string option"
  rc_requeue_err :: "string option"
  rc_now :: int
  rc_fail :: fail_env

text \<open>The re-read row, when the job is still unfinished.\<close>

definition recover_read :: "recover_env \<Rightarrow> string \<Rightarrow> mgr \<Rightarrow> stored_job option" where
  "recover_read v i m =
     (case db_Get (rc_get_err v) i (mg_db m) of
        Inl e \<Rightarrow> None
      | Inr j \<Rightarrow> if j_Status j = Succeeded \<or> j_Status j = Failed then None else Some j)"

definition recover_claim :: "recover_env \<Rightarrow> surface \<Rightarrow> stored_job \<Rightarrow> mgr \<Rightarrow> bool \<times> mgr" where
  "recover_claim v srf j m =
     (if \<not> blob_Exists (j_ID j) KindInput (mg_tree m) then
        (False, failJob (rc_fail v) (j_ID j)
           (err_Internal srf ''The analysis was interrupted and could not be resumed.'') 0 0 0 0 m)
      else if maxAttempts \<le> j_Attempts j then
        (False, failJob (rc_fail v) (j_ID j)
           (err_Internal srf ''The analysis was interrupted repeatedly and could not be completed.'') 0 0 0 0 m)
      else case claim (j_ID j) m of
        (False, m1) \<Rightarrow> (False, m1)
      | (True, m1) \<Rightarrow>
          (case db_Requeue (rc_requeue_err v) (j_ID j) (rc_now v) (rc_now v + leaseDuration) (mg_db m1) of
             (Some e, d) \<Rightarrow> (False, unclaim (j_ID j) (m1\<lparr>mg_db := d\<rparr>))
           | (None, d) \<Rightarrow> (True, m1\<lparr>mg_db := d\<rparr>)))"

definition recoverOne :: "recover_env \<Rightarrow> surface \<Rightarrow> string \<Rightarrow> mgr \<Rightarrow> bool \<times> mgr" where
  "recoverOne v srf i m =
     (case recover_read v i m of None \<Rightarrow> (False, m) | Some j \<Rightarrow> recover_claim v srf j m)"

text \<open>The pass over the scanned jobs: the ids and surfaces now claimed for the feeder. \<open>cancelled_at\<close>
  says, job by job, whether the caller's context had ended: the pass then claims nothing further and
  feeds nothing.\<close>

fun recover_loop :: "(nat \<Rightarrow> bool) \<Rightarrow> (string \<Rightarrow> recover_env) \<Rightarrow> nat \<Rightarrow> db \<Rightarrow> (string \<times> string) list \<Rightarrow> mgr
    \<Rightarrow> (string \<times> string) list option \<times> mgr" where
  "recover_loop ctx_at v n [] got m = (Some got, m)"
| "recover_loop ctx_at v n (j # js) got m =
     (if ctx_at n then (None, m)
      else case mg_runners m (j_Surface j) of
        None \<Rightarrow> recover_loop ctx_at v (n + 1) js got m
      | Some r \<Rightarrow>
          (case recoverOne (v (j_ID j)) (rn_surface r) (j_ID j) m of
             (True, m1) \<Rightarrow> recover_loop ctx_at v (n + 1) js (got @ [(j_Surface j, j_ID j)]) m1
           | (False, m1) \<Rightarrow> recover_loop ctx_at v (n + 1) js got m1))"

definition recover :: "(nat \<Rightarrow> bool) \<Rightarrow> (string \<Rightarrow> recover_env) \<Rightarrow> string option \<Rightarrow> int \<Rightarrow> bool \<Rightarrow> mgr
    \<Rightarrow> (string \<times> string) list option \<times> mgr" where
  "recover ctx_at v scan_err now atBoot m =
     (if scan_err \<noteq> None then (None, m)
      else recover_loop ctx_at v 0
        (if atBoot then db_Abandoned now recoverBatch (mg_db m)
         else db_Orphaned now (now - 2 * leaseDuration) recoverBatch (mg_db m)) [] m)"

section \<open>The feeder\<close>

text \<open>One claimed job waits for a slot and then for room in the queue; \<open>None\<close> is still blocked, and
  when the manager's context has ended the select may take that branch (\<open>quit\<close>).\<close>

definition feed_admit :: "bool \<Rightarrow> string \<Rightarrow> string \<Rightarrow> mgr \<Rightarrow> (bool \<times> mgr) option" where
  "feed_admit quit s i m =
     (case mg_runners m s of
        None \<Rightarrow> Some (False, unclaim i m)
      | Some r \<Rightarrow>
          if quit then Some (False, unclaim i m)
          else (case try_send (rn_admits r) of
                  None \<Rightarrow> None
                | Some c \<Rightarrow> Some (True, set_runner s (r\<lparr>rn_admits := c\<rparr>) m)))"

definition feed_send :: "bool \<Rightarrow> string \<Rightarrow> string \<Rightarrow> mgr \<Rightarrow> (bool \<times> mgr) option" where
  "feed_send quit s i m =
     (if quit then Some (False, unclaim i (admit_release False s m))
      else case mg_runners m s of
        None \<Rightarrow> None
      | Some r \<Rightarrow>
          if length (rn_queue r) < rn_qcap r then Some (True, set_runner s (r\<lparr>rn_queue := rn_queue r @ [i]\<rparr>) m)
          else None)"

section \<open>Sweeps\<close>

record sweep_env =
  sv_delete_err :: "string \<Rightarrow> string option"
  sv_exists_err :: "string \<Rightarrow> string option"
  sv_readdir :: "string \<Rightarrow> string option"
  sv_rm :: "string \<Rightarrow> string option"
  sv_info :: "string \<Rightarrow> bool"

fun delete_all :: "sweep_env \<Rightarrow> string list \<Rightarrow> mgr \<Rightarrow> mgr" where
  "delete_all v [] m = m"
| "delete_all v (i # is) m =
     (case db_Delete (sv_delete_err v i) (sv_readdir v i) (sv_rm v) i (mg_db m, mg_tree m) of
        (errs, d, t) \<Rightarrow> delete_all v is (m\<lparr>mg_db := d, mg_tree := t\<rparr>))"

definition sweep_expired :: "sweep_env \<Rightarrow> string option \<Rightarrow> int \<Rightarrow> mgr \<Rightarrow> mgr" where
  "sweep_expired v scan_err now m =
     (if scan_err \<noteq> None then m else delete_all v (map j_ID (db_Expired now 512 (mg_db m))) m)"

text \<open>The work folders: name, whether it is a directory, its modification time if it can be read, and
  whether removing it works.\<close>

record work_entry =
  wk_name :: string
  wk_dir :: bool
  wk_mtime :: "int option"
  wk_removes :: bool

definition work_stale :: "int \<Rightarrow> mgr \<Rightarrow> work_entry \<Rightarrow> bool" where
  "work_stale now m e \<longleftrightarrow> wk_dir e \<and> \<not> claimed (wk_name e) m
     \<and> (case wk_mtime e of None \<Rightarrow> False | Some t \<Rightarrow> t \<le> now - workAge)"

definition sweepWork :: "int \<Rightarrow> mgr \<Rightarrow> work_entry list \<Rightarrow> work_entry list" where
  "sweepWork now m es = filter (\<lambda>e. \<not> (work_stale now m e \<and> wk_removes e)) es"

text \<open>\<open>usage n\<close> is \<open>DiskUsage\<close> as it is asked for the \<open>n\<close>-th time.\<close>

fun evict_loop :: "sweep_env \<Rightarrow> (nat \<Rightarrow> real option) \<Rightarrow> real \<Rightarrow> nat \<Rightarrow> string list \<Rightarrow> mgr \<Rightarrow> mgr" where
  "evict_loop v usage mark n [] m = m"
| "evict_loop v usage mark n (i # is) m =
     (case db_Delete (sv_delete_err v i) (sv_readdir v i) (sv_rm v) i (mg_db m, mg_tree m) of
        (e # errs, d, t) \<Rightarrow> evict_loop v usage mark n is (m\<lparr>mg_db := d, mg_tree := t\<rparr>)
      | ([], d, t) \<Rightarrow>
          (case usage n of
             Some u \<Rightarrow> if u < mark then m\<lparr>mg_db := d, mg_tree := t\<rparr>
                       else evict_loop v usage mark (n + 1) is (m\<lparr>mg_db := d, mg_tree := t\<rparr>)
           | None \<Rightarrow> evict_loop v usage mark (n + 1) is (m\<lparr>mg_db := d, mg_tree := t\<rparr>)))"

definition evictUnderPressure :: "sweep_env \<Rightarrow> (nat \<Rightarrow> real option) \<Rightarrow> real \<Rightarrow> string option \<Rightarrow> int \<Rightarrow> mgr \<Rightarrow> mgr" where
  "evictUnderPressure v usage mark scan_err now m =
     (case usage 0 of
        None \<Rightarrow> m
      | Some u \<Rightarrow>
          if u < mark then m
          else if scan_err \<noteq> None then m
          else evict_loop v usage mark 1 (map j_ID (db_EvictionCandidates now 256 (mg_db m))) m)"

definition DiskPressure :: "real option \<Rightarrow> real \<Rightarrow> bool" where
  "DiskPressure usage mark = (case usage of None \<Rightarrow> False | Some u \<Rightarrow> mark + (1 - mark) / 2 \<le> u)"

fun orphan_loop :: "sweep_env \<Rightarrow> (nat \<Rightarrow> bool) \<Rightarrow> int \<Rightarrow> nat \<Rightarrow> string list \<Rightarrow> mgr \<Rightarrow> mgr" where
  "orphan_loop v ctx_at cutoff n [] m = m"
| "orphan_loop v ctx_at cutoff n (i # is) m =
     (if ctx_at n then m
      else case db_Exists (sv_exists_err v i) i (mg_db m) of
        (there, Some e) \<Rightarrow> orphan_loop v ctx_at cutoff (n + 1) is m
      | (there, None) \<Rightarrow>
          if there \<or> \<not> blob_OlderThan (sv_info v) i cutoff (mg_tree m) then orphan_loop v ctx_at cutoff (n + 1) is m
          else orphan_loop v ctx_at cutoff (n + 1) is
                 (m\<lparr>mg_tree := snd (blob_RemoveAll (sv_readdir v i) (sv_rm v) i (mg_tree m))\<rparr>))"

definition orphan_batch :: nat where "orphan_batch = 512"

definition sweepOrphanBlobs :: "sweep_env \<Rightarrow> (nat \<Rightarrow> bool) \<Rightarrow> string option \<Rightarrow> int \<Rightarrow> mgr \<Rightarrow> mgr" where
  "sweepOrphanBlobs v ctx_at scan_err now m =
     (if scan_err \<noteq> None then m
      else
        (let is = blob_IDs (mg_cursor m) orphan_batch (mg_tree m);
             m1 = m\<lparr>mg_cursor := (if length is < orphan_batch then [] else last is)\<rparr>
         in orphan_loop v ctx_at (now - 60 * 60) 0 is m1))"

record scan_errs =
  se_expired :: "string option"
  se_ids :: "string option"
  se_orphaned :: "string option"
  se_evict :: "string option"

definition sweepOnce :: "sweep_env \<Rightarrow> (nat \<Rightarrow> bool) \<Rightarrow> scan_errs \<Rightarrow> (string \<Rightarrow> recover_env) \<Rightarrow> (nat \<Rightarrow> real option) \<Rightarrow> real
    \<Rightarrow> int \<Rightarrow> bool \<Rightarrow> work_entry list \<Rightarrow> mgr \<Rightarrow> (string \<times> string) list option \<times> work_entry list \<times> mgr" where
  "sweepOnce v ctx_at errs rv usage mark now reclaim es m =
     (let m1 = sweep_expired v (se_expired errs) now m;
          m2 = m1\<lparr>mg_tree := snd (blob_SweepTemp (sv_info v) (sv_rm v) (60 * 60) now (mg_tree m1))\<rparr>;
          m3 = sweepOrphanBlobs v ctx_at (se_ids errs) now m2;
          es1 = sweepWork now m3 es
      in case (if reclaim then recover ctx_at rv (se_orphaned errs) now False m3 else (None, m3)) of
           (fed, m4) \<Rightarrow> (fed, es1, evictUnderPressure v usage mark (se_evict errs) now m4))"

section \<open>Lemmas\<close>

lemma orphan_loop_db: "mg_db (orphan_loop v c old n is m) = mg_db m"
  by (induction v c old n "is" m rule: orphan_loop.induct) (auto split: prod.splits option.splits)

lemma remove_all_other:
  "sanitize j \<noteq> sanitize i \<Longrightarrow> fs_get (blob_key j k) (snd (blob_RemoveAll rd rm i t)) = fs_get (blob_key j k) t"
  using belongs_name by (auto simp: blob_RemoveAll_def fs_get_def intro!: find_filter_same)

lemma orphan_loop_keeps:
  assumes "row_of j (mg_db m) \<noteq> None" and "\<forall>i \<in> set is. sanitize i = i" and "sanitize j = j"
  shows "fs_get (blob_key j k) (mg_tree (orphan_loop v c old n is m)) = fs_get (blob_key j k) (mg_tree m)"
  using assms
proof (induction v c old n "is" m rule: orphan_loop.induct)
  case (2 v ctx_at cutoff n i js m)
  show ?case
  proof (cases "ctx_at n \<or> sv_exists_err v i \<noteq> None \<or> row_of i (mg_db m) \<noteq> None
      \<or> \<not> blob_OlderThan (sv_info v) i cutoff (mg_tree m)")
    case True
    with 2 show ?thesis by (auto simp: db_Exists_def split: option.splits)
  next
    case False
    then have "sanitize j \<noteq> sanitize i" using "2.prems" by auto
    with False 2 show ?thesis by (simp add: db_Exists_def remove_all_other)
  qed
qed simp

lemma failJob_other:
  "k \<noteq> i \<Longrightarrow> row_of k (mg_db (failJob v i e st ms a p m)) = row_of k (mg_db m)"
  by (auto simp: failJob_def db_Fail_def split: prod.splits if_splits dest!: update_row [where k = k])

section \<open>Properties\<close>

text \<open>C27. The orphan sweep never touches a job that has a row: whatever the batch, the cursor, the ages and
  the failures met, no artifact of such a job is removed and the table is not changed. A read
  failure of the table never counts as "no such job".\<close>

theorem orphan_sweep_safe:
  assumes "plain_tree (mg_tree m)" and "row_of j (mg_db m) \<noteq> None" and "plain_id j"
  shows "fs_get (blob_key j k) (mg_tree (sweepOrphanBlobs v c e now m)) = fs_get (blob_key j k) (mg_tree m)
    \<and> mg_db (sweepOrphanBlobs v c e now m) = mg_db m"
proof -
  have "sanitize i = i" if "i \<in> set (blob_IDs (mg_cursor m) orphan_batch (mg_tree m))" for i
  proof -
    from that have "i \<in> set (List.map_filter walk_id (walk (mg_tree m)))"
      by (auto simp: blob_IDs_def ids_loop_filter dest!: in_set_takeD)
    then obtain f where f: "f \<in> set (mg_tree m)" "walk_id f = Some i"
      by (auto simp: List.map_filter_def walk_def)
    from walk_id_plain [OF assms(1) f] show ?thesis by (auto simp: plain_id_def)
  qed
  moreover have "sanitize j = j" using assms(3) by (simp add: plain_id_def)
  ultimately show ?thesis
    using assms(2) by (simp add: sweepOrphanBlobs_def Let_def orphan_loop_keeps orphan_loop_db)
qed

definition demo_sweep :: sweep_env where
  "demo_sweep = \<lparr>sv_delete_err = (\<lambda>i. None), sv_exists_err = (\<lambda>i. None), sv_readdir = (\<lambda>i. None),
     sv_rm = (\<lambda>x. None), sv_info = (\<lambda>x. True)\<rparr>"

definition demo_blobs :: mgr where
  "demo_blobs = \<lparr>mg_runners = Map.empty, mg_claims = {}, mg_cursor = [], mg_db = [demo_job\<lparr>j_ID := demo_b\<rparr>],
     mg_tree = demo_tree\<rparr>"

lemma orphan_sweep_safe_witness:
  "fs_get (blob_key demo_b ''in'') (mg_tree (sweepOrphanBlobs demo_sweep (\<lambda>n. False) None 100000 demo_blobs))
     = fs_get (blob_key demo_b ''in'') demo_tree"
proof -
  have p: "plain_tree (mg_tree demo_blobs)" using demo_plain by (simp add: demo_blobs_def)
  have r: "row_of demo_b (mg_db demo_blobs) \<noteq> None" by (simp add: row_of_def demo_blobs_def)
  have i: "plain_id demo_b" by (simp add: plain_id_def sanitize_id demo_b_def safe_rune_def byte_def)
  from orphan_sweep_safe [OF p r i] show ?thesis by (simp add: demo_blobs_def)
qed

text \<open>\<open>recoverOne\<close> on its own: it touches no other job's row; a job that has finished is left exactly as
  it is; it takes a job only with its input at hand, attempts to spare and no claim on it, and leaves
  it claimed, not started and under a fresh lease, so the next pass does not take it again; and a
  job already claimed here that could be run again is left exactly as it is.\<close>

theorem recover_one_contract:
  assumes "recoverOne v srf i m = (ok, m')"
  shows "(\<forall>k. k \<noteq> i \<longrightarrow> row_of k (mg_db m') = row_of k (mg_db m))
    \<and> (\<forall>j. row_of i (mg_db m) = Some j \<and> j_Status j \<in> {Succeeded, Failed} \<longrightarrow> \<not> ok \<and> m' = m)
    \<and> (ok \<longrightarrow> \<not> claimed i m \<and> claimed i m' \<and> blob_Exists i KindInput (mg_tree m) \<and> mg_tree m' = mg_tree m
        \<and> (\<exists>j. row_of i (mg_db m') = Some j \<and> j_Status j = NotStarted \<and> j_Attempts j < maxAttempts
             \<and> j_LeaseUntil j = rc_now v + leaseDuration))
    \<and> (claimed i m \<and> blob_Exists i KindInput (mg_tree m)
        \<and> (\<forall>j. row_of i (mg_db m) = Some j \<longrightarrow> j_Attempts j < maxAttempts) \<longrightarrow> \<not> ok \<and> m' = m)"
proof (cases "recover_read v i m")
  case None
  with assms show ?thesis by (auto simp: recoverOne_def)
next
  case (Some j)
  then have j: "row_of i (mg_db m) = Some j" "j_ID j = i" "j_Status j \<notin> {Succeeded, Failed}"
    by (auto simp: recover_read_def db_Get_def split: sum.splits option.splits if_splits dest: row_of_some)
  from Some assms have c: "recover_claim v srf j m = (ok, m')" by (simp add: recoverOne_def)
  consider (failed) "\<not> blob_Exists i KindInput (mg_tree m) \<or> maxAttempts \<le> j_Attempts j"
    | (dup) "blob_Exists i KindInput (mg_tree m)" "j_Attempts j < maxAttempts" "i \<in> mg_claims m"
    | (new) "blob_Exists i KindInput (mg_tree m)" "j_Attempts j < maxAttempts" "i \<notin> mg_claims m"
    by linarith
  then show ?thesis
  proof cases
    case failed
    then have "\<not> ok \<and> (\<exists>e. m' = failJob (rc_fail v) i e 0 0 0 0 m)"
      using c j(2) by (auto simp: recover_claim_def split: if_splits)
    with failed j show ?thesis using failJob_other by fastforce
  next
    case dup
    with c j show ?thesis by (auto simp: recover_claim_def claim_def claimed_def)
  next
    case new
    show ?thesis
    proof (cases "rc_requeue_err v")
      case (Some e)
      with new c j have "\<not> ok" "m' = unclaim i (m\<lparr>mg_claims := insert i (mg_claims m)\<rparr>)"
        by (auto simp: recover_claim_def claim_def db_Requeue_def)
      then show ?thesis using new j by (auto simp: unclaim_def claimed_def)
    next
      case None
      obtain n d where d: "db_update (\<lambda>r. j_ID r = i) (\<lambda>r. r\<lparr>j_Status := NotStarted, j_LeaseOwner := ''requeued'',
          j_LeaseUntil := rc_now v + leaseDuration, j_UpdatedAt := rc_now v\<rparr>) (mg_db m) = (n, d)" by force
      with None new c j have "ok" "m' = m\<lparr>mg_claims := insert i (mg_claims m), mg_db := d\<rparr>"
        by (auto simp: recover_claim_def claim_def db_Requeue_def)
      then show ?thesis using new j update_row [OF d] by (auto simp: claimed_def)
    qed
  qed
qed

definition demo_recover :: recover_env where
  "demo_recover = \<lparr>rc_get_err = None, rc_requeue_err = None, rc_now = 500,
     rc_fail = \<lparr>fv_fail_err = None, fv_readdir = None, fv_rm = (\<lambda>x. None), fv_now = 500\<rparr>\<rparr>"

lemma recover_one_contract_witness:
  "recoverOne demo_recover SurfaceDI ''a'' (demo_running\<lparr>mg_db := [demo_job\<lparr>j_Status := Succeeded\<rparr>]\<rparr>)
     = (False, demo_running\<lparr>mg_db := [demo_job\<lparr>j_Status := Succeeded\<rparr>]\<rparr>)"
proof -
  let ?m = "demo_running\<lparr>mg_db := [demo_job\<lparr>j_Status := Succeeded\<rparr>]\<rparr>"
  obtain ok m' where r: "recoverOne demo_recover SurfaceDI ''a'' ?m = (ok, m')" by force
  have "row_of ''a'' (mg_db ?m) = Some (demo_job\<lparr>j_Status := Succeeded\<rparr>)" by (simp add: row_of_def demo_job_def)
  from recover_one_contract [OF r, THEN conjunct2, THEN conjunct1, rule_format, OF conjI [OF this]]
  have "\<not> ok \<and> m' = ?m" by simp
  with r show ?thesis by simp
qed

text \<open>C24. The race that remains: when the worker finishes the job after \<open>recoverOne\<close> has re-read its row
  and before it looks for the input, the row is succeeded with its result stored, and \<open>recoverOne\<close>,
  finding the input gone, then marks the job failed. The re-read narrows the window that the comment
  describes; it does not close it, because \<open>Fail\<close> updates the row whatever its status and the claim
  is checked only afterwards.\<close>

theorem recover_race:
  assumes "recover_read v i m = Some j" and "finish w k out ms m = (Inr n, m1)" and "j_ID k = i"
    and "fv_fail_err (rc_fail v) = None"
    and "\<And>q. fst (we_io (fe_blob w) q) \<le> length q \<and> (snd (we_io (fe_blob w) q) = None \<longrightarrow> fst (we_io (fe_blob w) q) = length q)"
    and "\<And>x. fe_rm w x = None" and "fe_readdir w = None"
  shows "\<exists>r1 r2. row_of i (mg_db (job_end s i m1)) = Some r1 \<and> j_Status r1 = Succeeded
    \<and> (\<exists>env. blob_Open i KindResult (mg_tree (job_end s i m1)) = Inr env)
    \<and> row_of i (mg_db (snd (recover_claim v srf j (job_end s i m1)))) = Some r2 \<and> j_Status r2 = Failed"
proof -
  have j: "row_of i (mg_db m) = Some j" "j_ID j = i"
    using assms(1) by (auto simp: recover_read_def db_Get_def split: sum.splits option.splits if_splits dest: row_of_some)
  from finish_outcome [OF assms(5,6,7,2)] j(1) assms(3) obtain r1 where
    r1: "row_of i (mg_db m1) = Some r1" "j_Status r1 = Succeeded" "\<exists>env. blob_Open i KindResult (mg_tree m1) = Inr env"
    and gone: "\<not> blob_Exists i KindInput (mg_tree m1)"
    by auto
  let ?m = "job_end s i m1"
  have same: "mg_db ?m = mg_db m1" "mg_tree ?m = mg_tree m1"
    by (auto simp: job_end_def unclaim_def admit_release_def set_runner_def split: option.splits)
  let ?e = "err_Internal srf ''The analysis was interrupted and could not be resumed.''"
  obtain c d where d: "db_update (\<lambda>r. j_ID r = i) (\<lambda>r. r\<lparr>j_Status := Failed,
       j_ErrorJSON := marshal (wire_error (OperationError ?e)), j_UpStatus := 0, j_UpstreamMS := 0,
       j_UpstreamAttempts := 0, j_UpstreamParts := 0, j_UpdatedAt := fv_now (rc_fail v),
       j_LeaseOwner := [], j_LeaseUntil := 0\<rparr>) (mg_db m1) = (c, d)" by force
  have "snd (recover_claim v srf j ?m) = failJob (rc_fail v) i ?e 0 0 0 0 ?m"
    using gone same j(2) by (simp add: recover_claim_def)
  also have "mg_db \<dots> = d" using assms(4) same d by (auto simp: failJob_def db_Fail_def)
  finally show ?thesis using update_row [OF d, of i] r1 same by auto
qed

lemma recover_race_witness:
  "\<exists>m1 r1 r2. row_of ''a'' (mg_db m1) = Some r1 \<and> j_Status r1 = Succeeded
     \<and> row_of ''a'' (mg_db (snd (recover_claim demo_recover SurfaceDI (demo_job\<lparr>j_Status := Running, j_Attempts := 1\<rparr>) m1))) = Some r2
     \<and> j_Status r2 = Failed"
proof -
  obtain n m1 where f: "finish demo_finish demo_job demo_out 5 demo_running = (Inr n, m1)" using demo_finishes by blast
  have r: "recover_read demo_recover ''a'' demo_running = Some (demo_job\<lparr>j_Status := Running, j_Attempts := 1\<rparr>)"
    by (simp add: recover_read_def demo_recover_def db_Get_def row_of_def demo_running_def demo_job_def)
  have "j_ID demo_job = ''a''" by (simp add: demo_job_def)
  from recover_race [OF r f this, of "''di''" SurfaceDI] show ?thesis
    by (auto simp: demo_recover_def demo_finish_def demo_write_def)
qed

end
