(* ===== verification/Traffic.thy ===== *)
theory Traffic
  imports Recover
begin

text \<open>
  One surface's traffic: submits, workers, the recovery feeder and every other user of the shared
  claims, interleaved in any order. The operations are those of \<open>Jobs\<close> and \<open>Recover\<close>; the world adds
  what each goroutine holds, which the program keeps in its goroutines' own variables.
\<close>

record world =
  w_m :: mgr
  w_submits :: nat           \<comment> \<open>submits holding a slot and not yet enqueued\<close>
  w_running :: "string list" \<comment> \<open>jobs a worker of the surface is running\<close>
  w_feed :: "string list"    \<comment> \<open>jobs claimed by recovery, without a slot\<close>
  w_fed :: "string list"     \<comment> \<open>jobs of the feeder that hold a slot\<close>
  w_others :: "string list"  \<comment> \<open>claims of the other surface and of tracked requests\<close>

text \<open>
  A submit enqueues a fresh id, which nobody has claimed (ids are minted from random bytes). The last
  rule covers everything that leaves this surface's runner and the claims alone: a worker's start
  and settlement of a job, the sweeps, and the other surface's runner.
\<close>

inductive traffic :: "string \<Rightarrow> world \<Rightarrow> world \<Rightarrow> bool" for s where
  t_admit: "Admit s (w_m w) = Inr m' \<Longrightarrow> traffic s w (w\<lparr>w_m := m', w_submits := Suc (w_submits w)\<rparr>)"
| t_refuse: "w_submits w = Suc n \<Longrightarrow> traffic s w (w\<lparr>w_m := admit_release False s (w_m w), w_submits := n\<rparr>)"
| t_enqueue: "w_submits w = Suc n \<Longrightarrow> \<not> claimed i (w_m w) \<Longrightarrow> Enqueue s i (w_m w) = (None, m') \<Longrightarrow>
    traffic s w (w\<lparr>w_m := m', w_submits := n\<rparr>)"
| t_take: "worker_take s (w_m w) = Some (i, m') \<Longrightarrow> mg_runners (w_m w) s = Some r \<Longrightarrow>
    length (w_running w) < rn_workers r \<Longrightarrow> traffic s w (w\<lparr>w_m := m', w_running := i # w_running w\<rparr>)"
| t_end: "w_running w = xs @ i # ys \<Longrightarrow> traffic s w (w\<lparr>w_m := job_end s i (w_m w), w_running := xs @ ys\<rparr>)"
| t_recover: "recoverOne v srf i (w_m w) = (True, m') \<Longrightarrow> traffic s w (w\<lparr>w_m := m', w_feed := w_feed w @ [i]\<rparr>)"
| t_feed_admit: "w_feed w = xs @ i # ys \<Longrightarrow> feed_admit quit s i (w_m w) = Some (ok, m') \<Longrightarrow>
    traffic s w (w\<lparr>w_m := m', w_feed := xs @ ys, w_fed := (if ok then i # w_fed w else w_fed w)\<rparr>)"
| t_feed_send: "w_fed w = xs @ i # ys \<Longrightarrow> feed_send quit s i (w_m w) = Some (ok, m') \<Longrightarrow>
    traffic s w (w\<lparr>w_m := m', w_fed := xs @ ys\<rparr>)"
| t_claim: "claim i (w_m w) = (True, m') \<Longrightarrow> traffic s w (w\<lparr>w_m := m', w_others := i # w_others w\<rparr>)"
| t_unclaim: "w_others w = xs @ i # ys \<Longrightarrow> traffic s w (w\<lparr>w_m := unclaim i (w_m w), w_others := xs @ ys\<rparr>)"
| t_other: "mg_runners m' s = mg_runners (w_m w) s \<Longrightarrow> mg_claims m' = mg_claims (w_m w) \<Longrightarrow>
    traffic s w (w\<lparr>w_m := m'\<rparr>)"

inductive traffic_reach :: "string \<Rightarrow> world \<Rightarrow> world \<Rightarrow> bool" for s w0 where
  tr_start: "traffic_reach s w0 w0"
| tr_step: "traffic_reach s w0 w \<Longrightarrow> traffic s w w' \<Longrightarrow> traffic_reach s w0 w'"

definition world0 :: "mgr \<Rightarrow> world" where
  "world0 m = \<lparr>w_m = m, w_submits = 0, w_running = [], w_feed = [], w_fed = [], w_others = []\<rparr>"

section \<open>The invariant\<close>

definition owned :: "runner \<Rightarrow> world \<Rightarrow> string list" where
  "owned r w = rn_queue r @ w_running w @ w_feed w @ w_fed w @ w_others w"

definition traffic_ok :: "runner \<Rightarrow> world \<Rightarrow> bool" where
  "traffic_ok r w \<longleftrightarrow>
     ch_len (rn_admits r) = w_submits w + length (rn_queue r) + length (w_running w) + length (w_fed w)
     \<and> ch_len (rn_admits r) \<le> ch_cap (rn_admits r) \<and> rn_qcap r = ch_cap (rn_admits r)
     \<and> length (w_running w) \<le> rn_workers r
     \<and> distinct (owned r w) \<and> mg_claims (w_m w) = set (owned r w)"

definition traffic_inv :: "string \<Rightarrow> world \<Rightarrow> bool" where
  "traffic_inv s w \<longleftrightarrow> (\<exists>r. mg_runners (w_m w) s = Some r \<and> traffic_ok r w)"

lemma failJob_shared [simp]:
  "mg_runners (failJob v i e st ms a p m) = mg_runners m" "mg_claims (failJob v i e st ms a p m) = mg_claims m"
  by (auto simp: failJob_def split: prod.splits)

lemma recoverOne_true:
  assumes "recoverOne v srf i m = (True, m')"
  shows "i \<notin> mg_claims m \<and> mg_claims m' = insert i (mg_claims m) \<and> mg_runners m' = mg_runners m"
proof -
  from assms obtain j where j: "recover_read v i m = Some j" "recover_claim v srf j m = (True, m')"
    by (auto simp: recoverOne_def split: option.splits)
  then have "j_ID j = i"
    by (auto simp: recover_read_def db_Get_def split: sum.splits option.splits if_splits dest: row_of_some)
  with j(2) show ?thesis
    by (auto simp: recover_claim_def claim_def db_Requeue_def split: if_splits prod.splits)
qed

lemma traffic_keeps:
  assumes "traffic s w w'" and "mg_runners (w_m w) s = Some r" and ok: "traffic_ok r w"
  shows "\<exists>r'. mg_runners (w_m w') s = Some r' \<and> traffic_ok r' w' \<and> ch_cap (rn_admits r') = ch_cap (rn_admits r)"
  using assms
proof cases
  case (t_admit m')
  then show ?thesis using assms(2) ok
    by (auto simp: Admit_def try_send_def set_runner_def traffic_ok_def owned_def split: if_splits)
next
  case (t_refuse n)
  then show ?thesis using assms(2) ok
    by (auto simp: admit_release_def recv_def set_runner_def traffic_ok_def owned_def)
next
  case (t_enqueue n i m')
  then show ?thesis using assms(2) ok
    by (auto simp: Enqueue_def claim_def claimed_def set_runner_def traffic_ok_def owned_def split: if_splits)
next
  case (t_take i m' r0)
  then show ?thesis using assms(2) ok
    by (auto simp: worker_take_def set_runner_def traffic_ok_def owned_def split: list.splits)
next
  case (t_end xs i ys)
  then show ?thesis using assms(2) ok
    by (auto simp: job_end_def unclaim_def admit_release_def recv_def set_runner_def traffic_ok_def owned_def)
next
  case (t_recover v srf i m')
  then show ?thesis using assms(2) ok recoverOne_true [OF t_recover(2)]
    by (auto simp: traffic_ok_def owned_def)
next
  case (t_feed_admit xs i ys quit ok' m')
  then show ?thesis using assms(2) ok
    by (auto simp: feed_admit_def unclaim_def try_send_def set_runner_def traffic_ok_def owned_def split: if_splits)
next
  case (t_feed_send xs i ys quit ok' m')
  then show ?thesis using assms(2) ok
    by (auto simp: feed_send_def unclaim_def admit_release_def recv_def set_runner_def traffic_ok_def owned_def split: if_splits)
next
  case (t_claim i m')
  then show ?thesis using assms(2) ok by (auto simp: claim_def traffic_ok_def owned_def split: if_splits)
next
  case (t_unclaim xs i ys)
  then show ?thesis using assms(2) ok by (auto simp: unclaim_def traffic_ok_def owned_def)
next
  case (t_other m')
  then show ?thesis using assms(2) ok by (auto simp: traffic_ok_def owned_def)
qed

lemma traffic_reach_ok:
  assumes "traffic_reach s w0 w" and "mg_runners (w_m w0) s = Some r0" and "traffic_ok r0 w0"
  shows "\<exists>r. mg_runners (w_m w) s = Some r \<and> traffic_ok r w \<and> ch_cap (rn_admits r) = ch_cap (rn_admits r0)"
  using assms
proof (induction rule: traffic_reach.induct)
  case (tr_step w w')
  then obtain r where "mg_runners (w_m w) s = Some r" "traffic_ok r w" "ch_cap (rn_admits r) = ch_cap (rn_admits r0)"
    by blast
  with traffic_keeps [OF tr_step.hyps(2)] show ?case by metis
qed auto

lemma new_runner_ok:
  assumes "newRunner srf inflight depth = Some r" and "mg_claims m = {}"
  shows "traffic_ok r (world0 m) \<and> ch_cap (rn_admits r) = nat (max 1 inflight + depth)"
  using assms by (auto simp: newRunner_def Let_def traffic_ok_def world0_def owned_def max_def split: if_splits)

section \<open>Properties\<close>


definition demo_runner :: runner where
  "demo_runner = \<lparr>rn_surface = SurfaceDI, rn_admits = \<lparr>ch_cap = 2, ch_len = 0\<rparr>, rn_queue = [], rn_qcap = 2,
     rn_workers = 2, rn_metadata = \<lparr>ch_cap = 4, ch_len = 0\<rparr>\<rparr>"

definition demo_mgr :: mgr where
  "demo_mgr = \<lparr>mg_runners = [''di'' \<mapsto> demo_runner], mg_claims = {}, mg_cursor = [], mg_db = [], mg_tree = []\<rparr>"


end
