(* ===== verification/Httpx.thy ===== *)
theory Httpx
  imports Upstream
begin

text \<open>
  The plumbing of \<open>internal/httpx/httpx.go\<close> that decides what a client sees: the base URL of the poll
  address and the authority check behind it, JSON replies, \<open>Retry-After\<close> and the gzip test. Middleware
  that only logs is left out. \<open>net.ParseIP\<close> is the argument \<open>parseIP\<close>.
\<close>

section \<open>Replies\<close>

record reply =
  rp_status :: int
  rp_headers :: "(string \<times> string) list"
  rp_body :: string

text \<open>\<open>Header.Set\<close>, \<open>Del\<close> and \<open>Add\<close> on headers with canonical names.\<close>

definition hdr_set :: "string \<Rightarrow> string \<Rightarrow> (string \<times> string) list \<Rightarrow> (string \<times> string) list" where
  "hdr_set k v hs = filter (\<lambda>h. fst h \<noteq> k) hs @ [(k, v)]"

definition hdr_get :: "string \<Rightarrow> (string \<times> string) list \<Rightarrow> string option" where
  "hdr_get k hs = map_of hs k"

definition reply_of :: "http_response \<Rightarrow> reply" where
  "reply_of r = \<lparr>rp_status = rsp_status r,
     rp_headers = (case rsp_content_type r of None \<Rightarrow> [] | Some c \<Rightarrow> [(''Content-Type'', c)])
       @ [(''Content-Length'', itoa (rsp_content_length r))]
       @ (case rsp_retry_after r of None \<Rightarrow> [] | Some n \<Rightarrow> [(''Retry-After'', itoa n)]),
     rp_body = rsp_body r\<rparr>"

definition isHeadOnly :: "int \<Rightarrow> bool" where
  "isHeadOnly status \<longleftrightarrow> status = 204 \<or> status = 304"

text \<open>\<open>WriteJSON\<close>, over the headers set before; marshalling the values it is given cannot fail.\<close>

definition WriteJSON :: "(string \<times> string) list \<Rightarrow> int \<Rightarrow> wire \<Rightarrow> reply" where
  "WriteJSON hs status v =
     (let body = marshal v in
      \<lparr>rp_status = status,
       rp_headers = hdr_set ''Content-Length'' (itoa (int (length body)))
         (hdr_set ''Content-Type'' ''application/json; charset=utf-8'' hs),
       rp_body = (if isHeadOnly status then [] else body)\<rparr>)"

definition SetRetryAfter :: "int \<Rightarrow> (string \<times> string) list \<Rightarrow> (string \<times> string) list" where
  "SetRetryAfter seconds hs = hdr_set ''Retry-After'' (itoa (if seconds < 1 then 1 else seconds)) hs"

section \<open>The base URL\<close>

definition last_index :: "char \<Rightarrow> string \<Rightarrow> nat option" where
  "last_index c s = (if c \<in> set s then Some (length s - 1 - length (takeWhile ((\<noteq>) c) (rev s))) else None)"

definition cutLast :: "char \<Rightarrow> string \<Rightarrow> string \<times> string \<times> bool" where
  "cutLast c s = (case last_index c s of None \<Rightarrow> (s, [], False) | Some i \<Rightarrow> (take i s, drop (i + 1) s, True))"

definition authority_bad :: "char list" where
  "authority_bad = ''/?#@'' @ [CHR 0x5C, CHR '' '', CHR 0x09, CHR 0x0D, CHR 0x0A, CHR 0x22, CHR 0x27] @ ''<>''"

definition host_char :: "char \<Rightarrow> bool" where
  "host_char c \<longleftrightarrow>
     (let n = (of_char c :: nat) in 97 \<le> n \<and> n \<le> 122 \<or> 65 \<le> n \<and> n \<le> 90 \<or> 48 \<le> n \<and> n \<le> 57)
     \<or> c \<in> set ''.-_[]:''"

text \<open>The host, and the port when there is one; \<open>None\<close> is an early \<open>return false\<close>.\<close>

definition split_authority :: "(string \<Rightarrow> bool) \<Rightarrow> string \<Rightarrow> (string \<times> string option) option" where
  "split_authority parseIP s =
     (if starts_with ''['' s then
        (case last_index (CHR '']'') s of
           None \<Rightarrow> None
         | Some e \<Rightarrow>
             if \<not> parseIP (drop 1 (take e s)) then None
             else (case drop (e + 1) s of
                     [] \<Rightarrow> Some (take (e + 1) s, None)
                   | c # rest \<Rightarrow> if c \<noteq> CHR '':'' then None else Some (take (e + 1) s, Some rest)))
      else
        (case cutLast (CHR '':'') s of
           (host, port, hasPort) \<Rightarrow>
             if \<exists>c \<in> set host. c \<in> set ''[]:'' then None
             else Some (host, if hasPort then Some port else None)))"

definition validAuthority :: "(string \<Rightarrow> bool) \<Rightarrow> string \<Rightarrow> bool" where
  "validAuthority parseIP s =
     (if s = [] \<or> length s > 255 then False
      else if \<exists>c \<in> set s. c \<in> set authority_bad then False
      else case split_authority parseIP s of
        None \<Rightarrow> False
      | Some (host, port) \<Rightarrow>
          if host = [] then False
          else if (case port of None \<Rightarrow> False
                   | Some p \<Rightarrow> p = [] \<or> length p > 5 \<or> \<not> list_all is_digit p) then False
          else list_all host_char host)"

definition trim_right :: "char \<Rightarrow> string \<Rightarrow> string" where
  "trim_right c s = rev (dropWhile ((=) c) (rev s))"

definition Resolve :: "(string \<Rightarrow> bool) \<Rightarrow> string \<Rightarrow> string \<Rightarrow> bool \<Rightarrow> string" where
  "Resolve parseIP configured host tls =
     (if configured \<noteq> [] then trim_right (CHR ''/'') configured
      else if \<not> validAuthority parseIP host then []
      else (if tls then ''https'' else ''http'') @ ''://'' @ host)"

section \<open>Accept-Encoding\<close>

definition AcceptsGzip :: "string \<Rightarrow> bool" where
  "AcceptsGzip v = list_ex (\<lambda>p. equal_fold (go_trim_space (hd (go_split (CHR '';'') p))) ''gzip'') (go_split (CHR '','') v)"

section \<open>Lemmas\<close>

lemma split_authority_parts:
  assumes "split_authority parseIP s = Some (host, port)"
  shows "s = host @ (case port of None \<Rightarrow> [] | Some p \<Rightarrow> CHR '':'' # p)"
proof -
  have at: "s = take i s @ c # drop (i + 1) s" if "last_index c s = Some i" for c i
  proof -
    let ?w = "takeWhile ((\<noteq>) c) (rev s)"
    from that have m: "c \<in> set (rev s)" and i: "i = length s - 1 - length ?w"
      by (auto simp: last_index_def split: if_splits)
    have lt: "length ?w < length (rev s)"
      using m by (metis (mono_tags, lifting) length_takeWhile_le nat_less_le takeWhile_eq_all_conv takeWhile_eq_take take_all)
    then have "rev s ! length ?w = c" using nth_length_takeWhile [of "(\<noteq>) c" "rev s"] by simp
    then have "s ! i = c" using lt i by (simp add: rev_nth)
    moreover have "i < length s" using lt i by simp
    ultimately show ?thesis using id_take_nth_drop [of i s] by simp
  qed
  show ?thesis
  proof (cases "starts_with ''['' s")
    case True
    with assms obtain e where e: "last_index (CHR '']'') s = Some e" by (auto simp: split_authority_def split: option.splits)
    have "s = take (e + 1) s @ drop (e + 1) s" by simp
    then show ?thesis using assms True e
      by (auto simp: split_authority_def split: list.splits if_splits option.splits simp del: append_take_drop_id)
  next
    case False
    show ?thesis
    proof (cases "last_index (CHR '':'') s")
      case None
      with assms False show ?thesis by (auto simp: split_authority_def cutLast_def split: if_splits)
    next
      case (Some i)
      with assms False have "host = take i s" "port = Some (drop (i + 1) s)"
        by (auto simp: split_authority_def cutLast_def split: if_splits)
      with at [OF Some] show ?thesis by simp
    qed
  qed
qed

lemma digit_host: "is_digit c \<Longrightarrow> host_char c"
  by (simp add: is_digit_def host_char_def Let_def)

lemma valid_host_chars:
  assumes "validAuthority parseIP s"
  shows "s \<noteq> [] \<and> length s \<le> 255 \<and> list_all host_char s"
proof -
  obtain host port where sp: "split_authority parseIP s = Some (host, port)"
    and h: "list_all host_char host" and p: "\<forall>q. port = Some q \<longrightarrow> list_all is_digit q"
    and l: "s \<noteq> []" "length s \<le> 255"
    using assms by (auto simp: validAuthority_def split: option.splits if_splits prod.splits)
  have "host_char (CHR '':'')" by (simp add: host_char_def)
  then show ?thesis using split_authority_parts [OF sp] h p l digit_host
    by (cases port) (auto simp: list_all_iff)
qed

section \<open>Properties\<close>



end
