(* ===== verification/Surface.thy ===== *)
theory Surface
  imports Recover Httpx
begin

text \<open>
  The client-facing handlers (\<open>internal/surface\<close>): the submit path with its durability order, polls,
  deletes, poll addresses, parameter checks and the relaying of a container's answers. A request is
  given by the values the handlers read from it; \<open>url.Values\<close> are association lists. Times are
  nanoseconds (\<open>deps.Now\<close>), and seconds where the store keeps them.
\<close>

definition RetryAfterPoll :: int where "RetryAfterPoll = 1"
definition RetryAfterBusy :: int where "RetryAfterBusy = 5"

definition api_reply :: "api_error \<Rightarrow> surface \<Rightarrow> reply" where
  "api_reply e s = reply_of (WriteTo e s)"

section \<open>Submit (surface.go)\<close>

record submit_params =
  sp_surface :: surface
  sp_name :: string
  sp_modelID :: string
  sp_apiVersion :: string
  sp_query :: string                  \<comment> \<open>the upstream query, encoded\<close>
  sp_prefix :: string
  sp_location :: "string \<Rightarrow> string \<Rightarrow> string"

record submit_env =
  su_base :: string                   \<comment> \<open>what \<open>Resolve\<close> gave\<close>
  su_usage :: "real option"
  su_mark :: real
  su_random :: "nat list"             \<comment> \<open>the sixteen random bytes of the id\<close>
  su_now :: int
  su_ttl :: int
  su_body :: "string list \<times> blob_error option"
  su_limit :: int
  su_blob :: write_env
  su_readdir :: "string option"
  su_rm :: "string \<Rightarrow> string option"
  su_create_err :: "string option"
  su_root :: string
  su_content_type :: string
  su_client_id :: string

definition unix :: "int \<Rightarrow> int" where
  "unix ns = ns div 1000000000"

definition submitted_job :: "submit_env \<Rightarrow> submit_params \<Rightarrow> string \<Rightarrow> int \<Rightarrow> stored_job" where
  "submitted_job v p i n =
     \<lparr>j_ID = i, j_Surface = sp_name p, j_ModelID = sp_modelID p, j_APIVersion = sp_apiVersion p,
      j_Status = NotStarted, j_CreatedAt = unix (su_now v), j_UpdatedAt = unix (su_now v),
      j_ExpiresAt = unix (su_now v + su_ttl v), j_Query = sp_query p, j_ContentType = su_content_type v,
      j_InputPath = blob_Path (su_root v) i KindInput, j_InputBytes = n, j_ResultPath = [], j_ResultBytes = 0,
      j_ErrorJSON = [], j_Attempts = 0, j_LeaseOwner = [], j_LeaseUntil = 0, j_UpStatus = 0, j_UpstreamMS = 0,
      j_ClientReqID = su_client_id v, j_Prefix = sp_prefix p, j_UpstreamAttempts = 0, j_UpstreamParts = 0\<rparr>"

definition accepted :: "string \<Rightarrow> reply" where
  "accepted loc = \<lparr>rp_status = 202,
     rp_headers = hdr_set ''Content-Length'' ''0''
       (SetRetryAfter RetryAfterPoll (hdr_set ''Operation-Location'' loc [])),
     rp_body = []\<rparr>"

text \<open>Every return before \<open>committed\<close> is set gives the slot back.\<close>

definition submit :: "submit_env \<Rightarrow> submit_params \<Rightarrow> mgr \<Rightarrow> reply \<times> mgr" where
  "submit v p m =
     (let srf = sp_surface p in
      if su_base v = [] then
        (api_reply (err_Internal srf ''The gateway cannot determine its own public address; set PUBLIC_BASE_URL.'') srf, m)
      else if DiskPressure (su_usage v) (su_mark v) then
        (api_reply (Unavailable srf ''The gateway is temporarily out of storage. Try again.'' RetryAfterBusy) srf, m)
      else case Admit (sp_name p) m of
        Inl e \<Rightarrow> (api_reply (TooBusy srf RetryAfterBusy) srf, m)
      | Inr m1 \<Rightarrow>
          (let i = ids_New (su_random v) in
           case blob_WriteFrom (su_blob v) i KindInput (su_body v) (su_limit v) (mg_tree m1) of
             ((n, Some e), t) \<Rightarrow>
               (api_reply (if e = ErrLimitExceeded then ContentTooLarge srf
                           else Unavailable srf ''The submitted document could not be stored.'' RetryAfterBusy) srf,
                admit_release False (sp_name p)
                  (m1\<lparr>mg_tree := snd (blob_RemoveAll (su_readdir v) (su_rm v) i t)\<rparr>))
           | ((n, None), t) \<Rightarrow>
               (case db_Create (su_create_err v) (submitted_job v p i n) (mg_db m1) of
                  (Some e, d) \<Rightarrow>
                    (api_reply (Unavailable srf ''The request could not be accepted.'' RetryAfterBusy) srf,
                     admit_release False (sp_name p)
                       (m1\<lparr>mg_db := d, mg_tree := snd (blob_RemoveAll (su_readdir v) (su_rm v) i t)\<rparr>))
                | (None, d) \<Rightarrow>
                    (case Enqueue (sp_name p) i (m1\<lparr>mg_db := d, mg_tree := t\<rparr>) of
                       (Some e, m2) \<Rightarrow> (api_reply (TooBusy srf RetryAfterBusy) srf, admit_release False (sp_name p) m2)
                     | (None, m2) \<Rightarrow> (accepted (sp_location p (su_base v) i), m2)))))"

section \<open>Polls and deletes (surface.go)\<close>

definition status_String :: "job_status \<Rightarrow> string" where
  "status_String s = (case s of NotStarted \<Rightarrow> ''notStarted'' | Running \<Rightarrow> ''running''
     | Succeeded \<Rightarrow> ''succeeded'' | Failed \<Rightarrow> ''failed'')"

definition envelope :: "job_status \<Rightarrow> int \<Rightarrow> int \<Rightarrow> az_error option \<Rightarrow> wire" where
  "envelope st created updated err =
     WObj ([(''status'', WStr (status_String st)), (''createdDateTime'', WStr (format_time created)),
            (''lastUpdatedDateTime'', WStr (format_time updated))]
           @ (case err of None \<Rightarrow> [] | Some e \<Rightarrow> [(''error'', wire_error e)]))"

text \<open>A \<open>HEAD\<close> sends the headers alone.\<close>

definition streamResult :: "bool \<Rightarrow> int \<Rightarrow> surface \<Rightarrow> stored_job \<Rightarrow> mgr \<Rightarrow> reply" where
  "streamResult head now srf j m =
     (case blob_Open (j_ID j) KindResult (mg_tree m) of
        Inl e \<Rightarrow>
          WriteJSON [] 200 (envelope Failed (j_CreatedAt j) (unix now)
            (if srf \<noteq> SurfaceRead then
               Some (OperationError (err_Internal srf ''The stored result is no longer available.'')) else None))
      | Inr s \<Rightarrow> \<lparr>rp_status = 200,
                  rp_headers = hdr_set ''Content-Length'' (itoa (int (length s)))
                    (hdr_set ''Content-Type'' ''application/json; charset=utf-8'' []),
                  rp_body = (if head then [] else s)\<rparr>)"

text \<open>\<open>decode\<close> is \<open>json.Unmarshal\<close> into an \<open>azerr.Error\<close>. \<open>IsZero\<close> is the year 1.\<close>

definition poll :: "(string \<Rightarrow> az_error option) \<Rightarrow> string option \<Rightarrow> bool \<Rightarrow> int \<Rightarrow> surface \<Rightarrow> string \<Rightarrow> string \<Rightarrow> mgr \<Rightarrow> reply" where
  "poll decode get_err head now srf nm rawID m =
     (case ids_Normalize rawID of
        None \<Rightarrow> api_reply (err_NotFound srf) srf
      | Some i \<Rightarrow>
          (case db_Get get_err i (mg_db m) of
             Inl (GetFailed e) \<Rightarrow> api_reply (err_Internal srf (''The gateway could not read the operation'' @ [CHR 0x27] @ ''s state.'')) srf
           | Inl ErrNoJob \<Rightarrow> api_reply (err_NotFound srf) srf
           | Inr j \<Rightarrow>
               if j_Surface j \<noteq> nm then api_reply (err_NotFound srf) srf
               else if j_ExpiresAt j \<noteq> - 62135596800 \<and> now > j_ExpiresAt j * 1000000000 then api_reply (err_NotFound srf) srf
               else (case j_Status j of
                       Succeeded \<Rightarrow> streamResult head now srf j m
                     | Failed \<Rightarrow>
                         WriteJSON [] 200 (envelope Failed (j_CreatedAt j) (j_UpdatedAt j)
                           (if j_ErrorJSON j \<noteq> [] \<and> srf \<noteq> SurfaceRead then
                              (case decode (j_ErrorJSON j) of
                                 None \<Rightarrow> None
                               | Some e \<Rightarrow> if er_Code e \<noteq> [] then Some e else None)
                            else None))
                     | st \<Rightarrow> WriteJSON (SetRetryAfter RetryAfterPoll []) 200
                               (envelope st (j_CreatedAt j) (j_UpdatedAt j) None))))"

definition deleteResult :: "string option \<Rightarrow> string option \<Rightarrow> string option \<Rightarrow> (string \<Rightarrow> string option) \<Rightarrow> surface \<Rightarrow> string
    \<Rightarrow> string \<Rightarrow> mgr \<Rightarrow> reply \<times> mgr" where
  "deleteResult get_err del_err readdir rm srf nm rawID m =
     (case ids_Normalize rawID of
        None \<Rightarrow> (api_reply (err_NotFound srf) srf, m)
      | Some i \<Rightarrow>
          (case db_Get get_err i (mg_db m) of
             Inl e \<Rightarrow> (api_reply (err_NotFound srf) srf, m)
           | Inr j \<Rightarrow>
               if j_Surface j \<noteq> nm then (api_reply (err_NotFound srf) srf, m)
               else (case db_Delete del_err readdir rm i (mg_db m, mg_tree m) of
                       (errs, d, t) \<Rightarrow>
                         (if errs \<noteq> [] then api_reply (err_Internal srf ''The result could not be deleted.'') srf
                          else \<lparr>rp_status = 204, rp_headers = [(''Content-Length'', ''0'')], rp_body = []\<rparr>,
                          m\<lparr>mg_db := d, mg_tree := t\<rparr>))))"

definition diArtifact :: "string option \<Rightarrow> int \<Rightarrow> string \<Rightarrow> mgr \<Rightarrow> reply" where
  "diArtifact get_err now rawID m =
     (case ids_Normalize rawID of
        None \<Rightarrow> api_reply (err_NotFound SurfaceDI) SurfaceDI
      | Some i \<Rightarrow>
          (case db_Get get_err i (mg_db m) of
             Inl e \<Rightarrow> api_reply (err_NotFound SurfaceDI) SurfaceDI
           | Inr j \<Rightarrow>
               if j_Surface j \<noteq> SurfaceDI_name \<or> now > j_ExpiresAt j * 1000000000 then
                 api_reply (err_NotFound SurfaceDI) SurfaceDI
               else api_reply (WithInner ''OperationNotFound'' []
                      (err_New 404 ''NotFound'' ''The requested result file was not produced for this operation.'')) SurfaceDI))"

section \<open>Routes and parameters (di.go, read.go, params.go)\<close>

definition prefixOf :: "string \<Rightarrow> string" where
  "prefixOf path = (if starts_with (LegacyPathPrefix @ ''/'') path then LegacyPathPrefix else DIPathPrefix)"

datatype di_action = Analyze string | SyncAnalyze string | Refused api_error

definition diAction :: "string \<Rightarrow> di_action" where
  "diAction action =
     (case go_cut (CHR '':'') action of
        (modelID, verb, found) \<Rightarrow>
          if \<not> found \<or> modelID = [] then
            Refused (BadRequest SurfaceDI
              ''The request path must name a model and an action, for example prebuilt-layout:analyze.'')
          else if verb = ''analyze'' then Analyze modelID
          else if verb = ''syncAnalyze'' then SyncAnalyze modelID
          else if verb = ''analyzeBatch'' then
            Refused (err_New 400 ''InvalidRequest''
              ''Batch analysis requires Azure Blob Storage and is not available through this gateway.'')
          else Refused (err_New 404 ''NotFound'' ''The requested action is not supported.''))"

text \<open>\<open>url.QueryEscape\<close>, and \<open>Values.Encode\<close> of one parameter.\<close>

definition query_safe :: "char \<Rightarrow> bool" where
  "query_safe c \<longleftrightarrow>
     (let n = (of_char c :: nat) in
        48 \<le> n \<and> n \<le> 57 \<or> 65 \<le> n \<and> n \<le> 90 \<or> 97 \<le> n \<and> n \<le> 122)
     \<or> c \<in> set ''-_.~''"

definition QueryEscape :: "string \<Rightarrow> string" where
  "QueryEscape s = concat (map (\<lambda>c. if query_safe c then [c] else if c = CHR '' '' then ''+'' else percent c) s)"

definition diOperationLocation :: "string \<Rightarrow> string \<Rightarrow> string \<Rightarrow> string \<Rightarrow> string \<Rightarrow> string" where
  "diOperationLocation b prefix modelID resultID apiVersion =
     b @ prefix @ ''/documentModels/'' @ PathEscape modelID @ ''/analyzeResults/'' @ PathEscape resultID
       @ ''?'' @ ''api-version='' @ QueryEscape apiVersion"

definition readOperationLocation :: "string \<Rightarrow> string \<Rightarrow> string" where
  "readOperationLocation b i = b @ ReadPathPrefix @ ''/analyzeResults/'' @ PathEscape i"

definition alnum :: "char \<Rightarrow> bool" where
  "alnum c \<longleftrightarrow> (let n = (of_char c :: nat) in
     97 \<le> n \<and> n \<le> 122 \<or> 65 \<le> n \<and> n \<le> 90 \<or> 48 \<le> n \<and> n \<le> 57)"

definition validModelID :: "string \<Rightarrow> bool" where
  "validModelID s \<longleftrightarrow> 2 \<le> length s \<and> length s \<le> 64 \<and> alnum (hd s)
     \<and> list_all (\<lambda>c. alnum c \<or> c \<in> set ''._~-'') (tl s)"

definition requireAPIVersion :: "string \<Rightarrow> api_error + string" where
  "requireAPIVersion v =
     (if v = [] then Inl (WithInner ''ParameterMissing'' ''The parameter api-version is required.''
                            (err_New 400 ''InvalidArgument'' []))
      else Inr v)"

definition upstreamQuery :: "query \<Rightarrow> query" where
  "upstreamQuery q = filter (\<lambda>kv. snd kv \<noteq> []) q"

definition invalidParam :: "string \<Rightarrow> api_error" where
  "invalidParam msg = WithInner ''InvalidParameter'' msg (err_New 400 ''InvalidArgument'' [])"

definition checkDIParams :: "query \<Rightarrow> api_error option" where
  "checkDIParams q =
     (if list_ex (\<lambda>v. list_ex (\<lambda>x. lower_ascii_view (go_trim_space x) \<in> {''pdf'', ''figures''}) (go_split (CHR '','') v))
           (fst (queryValues q ''output'')) then
        Some (invalidParam ''output=pdf and output=figures are not supported by this gateway.'')
      else case find (\<lambda>v. v \<noteq> [] \<and> \<not> equal_fold v ''text'') (fst (queryValues q ''outputContentFormat'')) of
        Some v \<Rightarrow> Some (invalidParam (''outputContentFormat='' @ v @ '' is not supported by this gateway yet.''))
      | None \<Rightarrow>
          if list_ex (\<lambda>v. v \<noteq> []) (fst (queryValues q ''features'')) then
            Some (invalidParam ''features is not supported by this gateway yet.'')
          else if snd (queryValues q ''queryFields'') then
            Some (invalidParam ''queryFields is not supported by this gateway yet.'')
          else None)"

section \<open>Relaying a container's answer (di.go, passthrough.go)\<close>

definition retriableStatus :: "int \<Rightarrow> bool" where
  "retriableStatus s \<longleftrightarrow> s \<in> {408, 429, 500, 502, 503, 504}"

text \<open>Header names are in canonical form, as Go's server and client keep them.\<close>

definition skipRelayHeader :: "string \<Rightarrow> bool" where
  "skipRelayHeader k \<longleftrightarrow> k \<in> {''Connection'', ''Keep-Alive'', ''Proxy-Authenticate'', ''Proxy-Authorization'',
     ''Te'', ''Trailer'', ''Transfer-Encoding'', ''Upgrade'', ''Operation-Location'', ''Location'', ''Set-Cookie''}"

definition relayHeader :: "string \<Rightarrow> string list \<Rightarrow> (string \<times> string) list \<Rightarrow> (string \<times> string) list" where
  "relayHeader k vs hs =
     (if k = ''X-Ms-Client-Request-Id'' then hs
      else filter (\<lambda>h. fst h \<noteq> k) hs @ map (\<lambda>v. (k, v)) vs)"

record container_response =
  cr_status :: int
  cr_headers :: "(string \<times> string list) list"
  cr_body :: string

definition copyResponse :: "(string \<times> string) list \<Rightarrow> container_response \<Rightarrow> reply" where
  "copyResponse hs r =
     \<lparr>rp_status = cr_status r,
      rp_headers = foldl (\<lambda>d (k, vs). if skipRelayHeader k then d else relayHeader k vs d) hs (cr_headers r),
      rp_body = cr_body r\<rparr>"

text \<open>\<open>hs\<close> are the headers the middleware has set; an error reply sets its own over them.\<close>

definition reply_over :: "(string \<times> string) list \<Rightarrow> reply \<Rightarrow> reply" where
  "reply_over hs r = r\<lparr>rp_headers := foldl (\<lambda>h (k, v). hdr_set k v h) hs (rp_headers r)\<rparr>"

definition relaySync :: "(string \<Rightarrow> upstream_body option) \<Rightarrow> (string \<times> string) list \<Rightarrow> surface \<Rightarrow> container_response \<Rightarrow> reply" where
  "relaySync decode hs srf r =
     (if 200 \<le> cr_status r \<and> cr_status r < 300 then copyResponse hs r
      else let raw = take 65536 (cr_body r) in
        if go_trim_space raw = [] then
          \<lparr>rp_status = cr_status r,
           rp_headers = hdr_set ''Content-Length'' ''0''
             (foldl (\<lambda>d (k, vs). if skipRelayHeader k \<or> k = ''Content-Length'' \<or> k = ''Retry-After'' then d
                                 else relayHeader k vs d) hs (cr_headers r)),
           rp_body = []\<rparr>
        else case ParseUpstream decode raw (cr_status r) of
          Some e \<Rightarrow>
            if err_Code e \<noteq> [] then
              reply_over hs (api_reply (e\<lparr>err_Status := cr_status r,
                err_RetryAfter := (if retriableStatus (cr_status r) then RetryAfterBusy else 0)\<rparr>) srf)
            else reply_over hs (api_reply (ForStatus srf (cr_status r) []) srf)
        | None \<Rightarrow> reply_over hs (api_reply (ForStatus srf (cr_status r) []) srf))"

definition path_digits :: "string \<Rightarrow> bool" where
  "path_digits s \<longleftrightarrow> s \<noteq> [] \<and> length s \<le> 9 \<and> list_all is_digit s"

text \<open>The path of \<open>/swagger/\<dots>\<close>, rebuilt from the routed rest segment by segment.\<close>

definition swagger_path :: "string \<Rightarrow> string" where
  "swagger_path rest = ''/swagger'' @ concat (map (\<lambda>seg. CHR ''/'' # PathEscape seg) (go_split (CHR ''/'') rest))"

definition usage_path :: "string \<Rightarrow> string \<Rightarrow> string option" where
  "usage_path month year =
     (if path_digits month \<and> path_digits year then Some (''/records/usage-logs/'' @ month @ ''/'' @ year) else None)"

section \<open>Lemmas\<close>

lemma api_reply_status [simp]: "rp_status (api_reply e s) = err_Status e"
  by (simp add: api_reply_def reply_of_def WriteTo_def Let_def)

lemma gateway_statuses [simp]:
  "err_Status (err_NotFound s) = 404" "err_Status (err_Internal s msg) = 500" "err_Status (TooBusy s n) = 429"
  "err_Status (Unavailable s msg n) = 503" "err_Status (ContentTooLarge s) = 400"
  by (simp_all add: err_NotFound_def err_Internal_def TooBusy_def Unavailable_def ContentTooLarge_def mk_error_def
      err_New_def WithInner_def WithRetryAfter_def Let_def api_error0_def)

lemma admit_then_release:
  assumes "Admit s m = Inr m1"
  shows "mg_runners (admit_release False s m1) = mg_runners m" and "mg_claims (admit_release False s m1) = mg_claims m"
    and "mg_db m1 = mg_db m" and "mg_tree m1 = mg_tree m" and "mg_claims m1 = mg_claims m"
  using assms
  by (auto simp: Admit_def admit_release_def try_send_def recv_def set_runner_def fun_upd_idem split: option.splits if_splits)

lemma release_db [simp]:
  "mg_db (admit_release b s m) = mg_db m" "mg_tree (admit_release b s m) = mg_tree m"
  by (auto simp: admit_release_def set_runner_def split: option.splits)

lemma release_runners_cong:
  "mg_runners m = mg_runners m' \<Longrightarrow> mg_runners (admit_release b s m) = mg_runners (admit_release b s m')"
  "mg_claims (admit_release b s m) = mg_claims m"
  by (auto simp: admit_release_def set_runner_def split: option.splits)

lemma enqueue_error:
  assumes "Enqueue s i m = (Some e, m')" and "i \<notin> mg_claims m"
  shows "mg_runners m' = mg_runners m" and "mg_claims m' = mg_claims m"
  using assms by (auto simp: Enqueue_def claim_def unclaim_def split: option.splits if_splits)

lemma enqueue_ok:
  assumes "Enqueue s i m = (None, m')" and "i \<notin> mg_claims m"
  shows "\<exists>r. mg_runners m' s = Some r \<and> i \<in> set (rn_queue r)" and "i \<in> mg_claims m'"
    and "mg_db m' = mg_db m" and "mg_tree m' = mg_tree m"
  using assms by (auto simp: Enqueue_def claim_def set_runner_def split: option.splits if_splits)

fun split_any :: "char set \<Rightarrow> string \<Rightarrow> string list" where
  "split_any cs [] = [[]]"
| "split_any cs (x # xs) =
     (if x \<in> cs then [] # split_any cs xs
      else case split_any cs xs of [] \<Rightarrow> [[x]] | y # ys \<Rightarrow> (x # y) # ys)"

lemma split_any_nonempty [simp]: "split_any cs s \<noteq> []"
  by (cases s) (auto split: list.split)

lemma split_any_none: "set s \<inter> cs = {} \<Longrightarrow> split_any cs s = [s]"
  by (induction s) auto

lemma split_any_append: "c \<in> cs \<Longrightarrow> split_any cs (s @ c # t) = split_any cs s @ split_any cs t"
  by (induction s) (auto split: list.split)

lemma split_any_address:
  assumes "c \<in> cs" and "d \<in> cs"
    and "set m \<inter> cs = {}" and "set a \<inter> cs = {}" and "set i \<inter> cs = {}" and "set q \<inter> cs = {}"
  shows "split_any cs (x @ c # m @ c # a @ c # i @ d # q) = split_any cs x @ [m, a, i, q]"
  using assms by (simp add: split_any_append split_any_none)

lemma path_safe_no_sep: "path_safe c \<Longrightarrow> c \<notin> {CHR ''/'', CHR ''?''}"
  by (auto simp: path_safe_def Let_def)

lemma percent_no_sep: "x \<in> set (percent c) \<Longrightarrow> x \<notin> {CHR ''/'', CHR ''?''}"
proof -
  have "upper_hex d \<notin> {CHR ''/'', CHR ''?''}" if "d < 16" for d
    using upper_hex_safe [OF that] path_safe_no_sep [of "upper_hex d"] by (auto simp: seg_char_def)
  then have "upper_hex (of_char c div 16) \<notin> {CHR ''/'', CHR ''?''}" "upper_hex (of_char c mod 16) \<notin> {CHR ''/'', CHR ''?''}"
    by (simp_all add: less_mult_imp_div_less del: insert_iff)
  then show "x \<in> set (percent c) \<Longrightarrow> x \<notin> {CHR ''/'', CHR ''?''}" by (auto simp: percent_def Let_def)
qed

lemma PathEscape_no_sep: "set (PathEscape s) \<inter> {CHR ''/'', CHR ''?''} = {}"
  using path_safe_no_sep percent_no_sep by (fastforce simp: PathEscape_def split: if_splits)

lemma QueryEscape_no_sep: "set (QueryEscape s) \<inter> {CHR ''/'', CHR ''?''} = {}"
proof -
  have "c \<notin> {CHR ''/'', CHR ''?''}" if "query_safe c" for c
    using that by (auto simp: query_safe_def Let_def)
  then show ?thesis using percent_no_sep by (fastforce simp: QueryEscape_def split: if_splits)
qed

lemma normal_id:
  assumes "ids_Normalize raw = Some i"
  shows "PathEscape i = i \<and> ids_Normalize i = Some i"
proof -
  have v: "ids_Valid i" and n: "ids_Normalize i = Some i"
    using assms by (auto simp: ids_Normalize_def ids_Valid_lower lower_hex_keeps split: if_splits)
  have "is_hex c \<Longrightarrow> path_safe c" for c by (auto simp: is_hex_def path_safe_def Let_def)
  moreover have "path_safe (CHR ''-'')" by (simp add: path_safe_def)
  moreover have "if k \<in> {8, 13, 18, 23} then i ! k = CHR ''-'' else is_hex (i ! k)" if "k < length i" for k
    using v that unfolding ids_Valid_def list_all_iff by (metis atLeastLessThan_iff le0 set_upt)
  ultimately have "path_safe (i ! k)" if "k < length i" for k using that by metis
  then have "\<forall>c \<in> set i. path_safe c" by (auto simp: in_set_conv_nth)
  then have "PathEscape i = i" by (induction i) (auto simp: PathEscape_def)
  with n show ?thesis by simp
qed

lemma hdr_get_set: "hdr_get k (hdr_set k' v hs) = (if k = k' then Some v else hdr_get k hs)"
proof -
  have "map_of (filter (\<lambda>h. fst h \<noteq> k') hs) k = (if k = k' then None else map_of hs k)"
    by (induction hs) auto
  then show ?thesis by (simp add: hdr_get_def hdr_set_def map_add_def split: option.split)
qed

lemma relayHeader_other: "k \<noteq> k' \<Longrightarrow> hdr_get k (relayHeader k' vs hs) = hdr_get k hs"
proof -
  assume k: "k \<noteq> k'"
  then have "map_of (filter (\<lambda>h. fst h \<noteq> k') hs) k = map_of hs k" by (induction hs) auto
  moreover have "map_of (map (\<lambda>v. (k', v)) vs) k = None" using k by (auto simp: map_of_eq_None_iff)
  ultimately show ?thesis by (simp add: hdr_get_def relayHeader_def map_add_def split: option.split)
qed

lemma relay_skips:
  "P k \<Longrightarrow> hdr_get k (foldl (\<lambda>d (k, vs). if P k then d else relayHeader k vs d) hs xs) = hdr_get k hs"
proof (induction xs arbitrary: hs)
  case (Cons x xs)
  obtain k' vs where x: "x = (k', vs)" by force
  show ?case using Cons relayHeader_other [of k k' vs hs] by (cases "P k'") (auto simp: x)
qed simp

lemma reply_over_headers:
  "rp_status (reply_over hs (api_reply e srf)) = err_Status e"
  "k \<notin> {''Content-Type'', ''Content-Length'', ''Retry-After''} \<Longrightarrow> hdr_get k (rp_headers (reply_over hs (api_reply e srf))) = hdr_get k hs"
  "\<not> (err_RetryAfter e > 0 \<and> retriable (err_Status e)) \<Longrightarrow>
    hdr_get ''Retry-After'' (rp_headers (reply_over hs (api_reply e srf))) = hdr_get ''Retry-After'' hs"
  by (auto simp: reply_over_def api_reply_def reply_of_def WriteTo_def Let_def hdr_get_set)

section \<open>What a submit leaves\<close>

lemma submit_outcome:
  assumes run: "submit v p m = (r, m')"
    and io: "\<And>q. fst (we_io (su_blob v) q) \<le> length q \<and> (snd (we_io (su_blob v) q) = None \<longrightarrow> fst (we_io (su_blob v) q) = length q)"
    and tmp: "\<And>i. fs_get (blob_dir i, blob_name i KindInput @ ''.tmp-'' @ we_rnd (su_blob v)) (mg_tree m) = None"
    and new: "ids_New (su_random v) \<notin> mg_claims m"
  shows "if rp_status r = 202 then
      (\<exists>j q. row_of (ids_New (su_random v)) (mg_db m') = Some j \<and> j_Status j = NotStarted \<and> j_Surface j = sp_name p
        \<and> j_ExpiresAt j = unix (su_now v + su_ttl v)
        \<and> blob_Open (ids_New (su_random v)) KindInput (mg_tree m') = Inr (concat (fst (su_body v)))
        \<and> j_InputBytes j = int (length (concat (fst (su_body v)))) \<and> (0 < su_limit v \<longrightarrow> j_InputBytes j \<le> su_limit v)
        \<and> claimed (ids_New (su_random v)) m' \<and> mg_runners m' (sp_name p) = Some q
        \<and> ids_New (su_random v) \<in> set (rn_queue q)
        \<and> r = accepted (sp_location p (su_base v) (ids_New (su_random v))))
    else 400 \<le> rp_status r \<and> mg_runners m' = mg_runners m \<and> mg_claims m' = mg_claims m"
proof -
  let ?i = "ids_New (su_random v)"
  have acc: "rp_status (accepted loc) = 202" for loc by (simp add: accepted_def)
  show ?thesis
  proof (cases "su_base v = [] \<or> DiskPressure (su_usage v) (su_mark v)")
    case True
    then have "m' = m \<and> 400 \<le> rp_status r \<and> rp_status r \<noteq> 202"
      using run by (cases "su_base v = []") (auto simp: submit_def Let_def)
    then show ?thesis by simp
  next
    case go: False
    show ?thesis
    proof (cases "Admit (sp_name p) m")
      case (Inl e)
      with run go show ?thesis by (auto simp: submit_def Let_def)
    next
      case (Inr m1)
      note adm = admit_then_release [OF Inr]
      obtain n e t where w: "blob_WriteFrom (su_blob v) ?i KindInput (su_body v) (su_limit v) (mg_tree m1) = ((n, e), t)"
        by (metis prod.exhaust)
      have tmp1: "fs_get (blob_dir ?i, blob_name ?i KindInput @ ''.tmp-'' @ we_rnd (su_blob v)) (mg_tree m1) = None"
        using tmp adm(4) by simp
      show ?thesis
      proof (cases e)
        case (Some x)
        with run go Inr w have "400 \<le> rp_status r" and "m' = admit_release False (sp_name p)
            (m1\<lparr>mg_tree := snd (blob_RemoveAll (su_readdir v) (su_rm v) ?i t)\<rparr>)"
          by (auto simp: submit_def Let_def)
        moreover have "rp_status r \<noteq> 202" using run go Inr w Some by (auto simp: submit_def Let_def split: if_splits)
        ultimately show ?thesis
          using adm release_runners_cong(1) [of "m1\<lparr>mg_tree := snd (blob_RemoveAll (su_readdir v) (su_rm v) ?i t)\<rparr>" m1]
          by (simp add: release_runners_cong(2))
      next
        case None
        note st = blob_stored [OF io tmp1 w [unfolded None]]
        obtain ce d where c: "db_Create (su_create_err v) (submitted_job v p ?i n) (mg_db m1) = (ce, d)" by force
        show ?thesis
        proof (cases ce)
          case (Some x)
          let ?m = "m1\<lparr>mg_db := d, mg_tree := snd (blob_RemoveAll (su_readdir v) (su_rm v) ?i t)\<rparr>"
          have "rp_status r = 503" and "m' = admit_release False (sp_name p) ?m"
            using run go Inr w None c Some by (auto simp: submit_def Let_def)
          then show ?thesis using adm release_runners_cong(1) [of ?m m1] by (simp add: release_runners_cong(2))
        next
          case created: None
          then have row: "row_of ?i d = Some (inserted (submitted_job v p ?i n))"
            using c by (auto simp: db_Create_def row_of_append inserted_def submitted_job_def split: option.splits if_splits)
          let ?m = "m1\<lparr>mg_db := d, mg_tree := t\<rparr>"
          obtain ee m2 where q: "Enqueue (sp_name p) ?i ?m = (ee, m2)" by force
          have fresh: "?i \<notin> mg_claims ?m" using new adm(5) by simp
          show ?thesis
          proof (cases ee)
            case (Some x)
            have r': "rp_status r = 429" "m' = admit_release False (sp_name p) m2"
              using run go Inr w None c created q Some by (auto simp: submit_def Let_def)
            have "mg_runners m2 = mg_runners m1" "mg_claims m2 = mg_claims m1"
              using enqueue_error [OF q [unfolded Some] fresh] by simp_all
            then show ?thesis using r' adm release_runners_cong(1) [of m2 m1] by (simp add: release_runners_cong(2))
          next
            case queued: None
            have r': "r = accepted (sp_location p (su_base v) ?i)" "m' = m2"
              using run go Inr w None c created q queued by (auto simp: submit_def Let_def)
            note eq = enqueue_ok [OF q [unfolded queued] fresh]
            show ?thesis using r' acc eq row st by (auto simp: inserted_def submitted_job_def claimed_def)
          qed
        qed
      qed
    qed
  qed
qed

section \<open>Properties\<close>

text \<open>C2. The 202 is a promise kept on disk: when \<open>submit\<close> answers 202, the job's row is in the table, not
  started, with the size of the body; the body is stored whole under the id, within the limit; the
  job is claimed and queued; and the poll address the client gets is that id's. Any other answer
  is an error status, and then the slot is given back and no claim is left, so a refused request
  cannot hold capacity. (The id is new, as sixteen random bytes are.)\<close>

theorem submit_durable:
  assumes run: "submit v p m = (r, m')"
    and io: "\<And>q. fst (we_io (su_blob v) q) \<le> length q \<and> (snd (we_io (su_blob v) q) = None \<longrightarrow> fst (we_io (su_blob v) q) = length q)"
    and tmp: "\<And>i. fs_get (blob_dir i, blob_name i KindInput @ ''.tmp-'' @ we_rnd (su_blob v)) (mg_tree m) = None"
    and new: "ids_New (su_random v) \<notin> mg_claims m"
  shows "if rp_status r = 202 then
      (\<exists>j q. row_of (ids_New (su_random v)) (mg_db m') = Some j \<and> j_Status j = NotStarted \<and> j_Surface j = sp_name p
        \<and> j_ExpiresAt j = unix (su_now v + su_ttl v)
        \<and> blob_Open (ids_New (su_random v)) KindInput (mg_tree m') = Inr (concat (fst (su_body v)))
        \<and> j_InputBytes j = int (length (concat (fst (su_body v)))) \<and> (0 < su_limit v \<longrightarrow> j_InputBytes j \<le> su_limit v)
        \<and> claimed (ids_New (su_random v)) m' \<and> mg_runners m' (sp_name p) = Some q
        \<and> ids_New (su_random v) \<in> set (rn_queue q)
        \<and> r = accepted (sp_location p (su_base v) (ids_New (su_random v))))
    else 400 \<le> rp_status r \<and> mg_runners m' = mg_runners m \<and> mg_claims m' = mg_claims m"
  by (rule submit_outcome [OF run io tmp new])

definition demo_submit :: submit_env where
  "demo_submit = \<lparr>su_base = ''https://g'', su_usage = None, su_mark = 1, su_random = replicate 16 0, su_now = 0,
     su_ttl = 60000000000, su_body = ([''%PDF''], None), su_limit = 10, su_blob = demo_write, su_readdir = None,
     su_rm = (\<lambda>x. None), su_create_err = None, su_root = ''/data/blobs'', su_content_type = ''application/pdf'',
     su_client_id = []\<rparr>"

definition demo_params :: submit_params where
  "demo_params = \<lparr>sp_surface = SurfaceDI, sp_name = ''di'', sp_modelID = ''m'', sp_apiVersion = ''1'', sp_query = [],
     sp_prefix = DIPathPrefix, sp_location = (\<lambda>b i. diOperationLocation b DIPathPrefix ''m'' i ''1'')\<rparr>"

definition demo_gate :: mgr where
  "demo_gate = \<lparr>mg_runners = [''di'' \<mapsto> \<lparr>rn_surface = SurfaceDI, rn_admits = \<lparr>ch_cap = 2, ch_len = 0\<rparr>, rn_queue = [],
       rn_qcap = 2, rn_workers = 2, rn_metadata = \<lparr>ch_cap = 4, ch_len = 0\<rparr>\<rparr>],
     mg_claims = {}, mg_cursor = [], mg_db = [], mg_tree = []\<rparr>"

lemma demo_accepted: "rp_status (fst (submit demo_submit demo_params demo_gate)) = 202"
  by code_simp

lemma submit_durable_witness:
  "blob_Open (ids_New (replicate 16 0)) KindInput (mg_tree (snd (submit demo_submit demo_params demo_gate))) = Inr ''%PDF''"
proof -
  obtain r m' where r: "submit demo_submit demo_params demo_gate = (r, m')" by force
  then have "rp_status r = 202" using demo_accepted by simp
  moreover have d: "su_blob demo_submit = demo_write" "we_io demo_write = (\<lambda>q. (length q, None))" "mg_tree demo_gate = []"
      "mg_claims demo_gate = {}" "su_random demo_submit = replicate 16 0" "su_body demo_submit = ([''%PDF''], None)"
      "fs_get x [] = None" for x
    by (simp_all add: demo_submit_def demo_write_def demo_gate_def fs_get_def)
  ultimately show ?thesis using submit_durable [OF r] by (simp add: d r) blast
qed

text \<open>An accepted operation can be polled at once: after a 202, until the result expires, a poll of the
  id, whatever hex case the client echoes it in, answers 200 and \<open>notStarted\<close> with a pacing hint; a
  404 for it would end a client's poller for a job that is still to run.\<close>

theorem accepted_is_pollable:
  assumes run: "submit v p m = (r, m')" and ok: "rp_status r = 202"
    and io: "\<And>q. fst (we_io (su_blob v) q) \<le> length q \<and> (snd (we_io (su_blob v) q) = None \<longrightarrow> fst (we_io (su_blob v) q) = length q)"
    and tmp: "\<And>i. fs_get (blob_dir i, blob_name i KindInput @ ''.tmp-'' @ we_rnd (su_blob v)) (mg_tree m) = None"
    and new: "ids_New (su_random v) \<notin> mg_claims m"
    and raw: "ids_Normalize raw = Some (ids_New (su_random v))"
    and live: "now \<le> unix (su_now v + su_ttl v) * 1000000000"
  shows "\<exists>created updated. poll decode None head now srf (sp_name p) raw m' =
    WriteJSON (SetRetryAfter RetryAfterPoll []) 200 (envelope NotStarted created updated None)"
proof -
  obtain j where "row_of (ids_New (su_random v)) (mg_db m') = Some j" "j_Status j = NotStarted"
    "j_Surface j = sp_name p" "j_ExpiresAt j = unix (su_now v + su_ttl v)"
    using submit_outcome [OF run io tmp new] ok by auto
  then have "poll decode None head now srf (sp_name p) raw m' =
      WriteJSON (SetRetryAfter RetryAfterPoll []) 200 (envelope NotStarted (j_CreatedAt j) (j_UpdatedAt j) None)"
    using raw live by (simp add: poll_def db_Get_def)
  then show ?thesis by blast
qed

lemma accepted_is_pollable_witness:
  "rp_status (poll (\<lambda>x. None) None False 5 SurfaceDI ''di'' (ids_New (replicate 16 0)) (snd (submit demo_submit demo_params demo_gate))) = 200"
proof -
  obtain r m' where r: "submit demo_submit demo_params demo_gate = (r, m')" by force
  then have ok: "rp_status r = 202" using demo_accepted by simp
  have d: "su_blob demo_submit = demo_write" "we_io demo_write = (\<lambda>q. (length q, None))" "mg_tree demo_gate = []"
      "mg_claims demo_gate = {}" "su_random demo_submit = replicate 16 0" "su_now demo_submit = 0"
      "su_ttl demo_submit = 60000000000" "sp_name demo_params = ''di''"
      "fs_get x [] = None" for x
    by (simp_all add: demo_submit_def demo_write_def demo_gate_def demo_params_def fs_get_def)
  have raw: "ids_Normalize (ids_New (replicate 16 0)) = Some (ids_New (su_random demo_submit))"
    unfolding d by code_simp
  have "\<exists>c u. poll (\<lambda>x. None) None False 5 SurfaceDI (sp_name demo_params) (ids_New (replicate 16 0)) m' =
      WriteJSON (SetRetryAfter RetryAfterPoll []) 200 (envelope NotStarted c u None)"
    by (rule accepted_is_pollable [OF r ok _ _ _ raw]) (simp_all add: d unix_def)
  then show ?thesis by (auto simp: r d WriteJSON_def Let_def)
qed

text \<open>C31. A poll answers 404 for exactly the operations that are not live: an id that is no id, no row, a row
  of the other surface, or one past its expiry. A database failure is a 500, which clients retry, and
  never a 404, which ends their pollers. There is no other status, and a 200 states the length of
  the body sent.\<close>

theorem poll_contract:
  assumes run: "poll decode err False now srf nm raw m = r"
  shows "(err = None \<longrightarrow> (rp_status r = 404 \<longleftrightarrow>
      \<not> (\<exists>i j. ids_Normalize raw = Some i \<and> row_of i (mg_db m) = Some j \<and> j_Surface j = nm
             \<and> (j_ExpiresAt j = - 62135596800 \<or> now \<le> j_ExpiresAt j * 1000000000))))
    \<and> (err \<noteq> None \<longrightarrow> rp_status r = (if ids_Normalize raw = None then 404 else 500))
    \<and> rp_status r \<in> {200, 404, 500}
    \<and> (rp_status r = 200 \<longrightarrow> hdr_get ''Content-Length'' (rp_headers r) = Some (itoa (int (length (rp_body r)))))"
proof (cases "ids_Normalize raw")
  case None
  with run have "r = api_reply (err_NotFound srf) srf" by (simp add: poll_def)
  with None show ?thesis by simp
next
  case (Some i)
  have len: "hdr_get ''Content-Length'' (hdr_set ''Content-Length'' x hs) = Some x" for x hs
    by (simp add: hdr_get_set)
  define good where "good a \<longleftrightarrow> rp_status a = 200
    \<and> hdr_get ''Content-Length'' (rp_headers a) = Some (itoa (int (length (rp_body a))))" for a :: reply
  have json: "good (WriteJSON hs 200 w)" for hs w
    by (simp add: good_def WriteJSON_def isHeadOnly_def Let_def len)
  then have stream: "good (streamResult False now srf j m)" for j
    by (auto simp: streamResult_def good_def len split: sum.split)
  show ?thesis
  proof (cases err)
    case (Some e)
    with run \<open>ids_Normalize raw = Some i\<close> show ?thesis by (auto simp: poll_def db_Get_def)
  next
    case ok: None
    show ?thesis
    proof (cases "row_of i (mg_db m)")
      case None
      with run Some ok show ?thesis by (auto simp: poll_def db_Get_def)
    next
      case (Some j)
      show ?thesis
      proof (cases "j_Surface j \<noteq> nm \<or> j_ExpiresAt j \<noteq> - 62135596800 \<and> now > j_ExpiresAt j * 1000000000")
        case True
        with run Some ok \<open>ids_Normalize raw = Some i\<close> have "rp_status r = 404"
          by (cases "j_Surface j = nm") (auto simp: poll_def db_Get_def)
        then show ?thesis using True Some ok \<open>ids_Normalize raw = Some i\<close> by auto
      next
        case False
        with run Some ok \<open>ids_Normalize raw = Some i\<close>
        have "good r" by (cases "j_Status j") (auto simp: poll_def db_Get_def json stream)
        then show ?thesis using False Some ok \<open>ids_Normalize raw = Some i\<close> by (auto simp: good_def)
      qed
    qed
  qed
qed

lemma poll_contract_witness:
  "rp_status (poll (\<lambda>x. None) (Some ''down'') False 0 SurfaceDI ''di'' ''00000000-0000-4000-8000-000000000000'' demo_gate) = 500"
proof -
  have "ids_Normalize ''00000000-0000-4000-8000-000000000000'' \<noteq> None" by code_simp
  with poll_contract [where decode = "\<lambda>x. None" and err = "Some ''down''" and now = 0 and srf = SurfaceDI
      and nm = "''di''" and raw = "''00000000-0000-4000-8000-000000000000''" and m = demo_gate, OF refl]
  show ?thesis by simp
qed


definition demo_id :: string where
  "demo_id = ''00000000-0000-4000-8000-000000000000''"

definition demo_named :: stored_job where
  "demo_named = demo_job\<lparr>j_ID := demo_id, j_Surface := ''di'', j_ExpiresAt := 100\<rparr>"

lemma demo_serves:
  "case finish demo_finish demo_named demo_out 5 (demo_running\<lparr>mg_db := [demo_named]\<rparr>) of
     (Inl e, m') \<Rightarrow> False
   | (Inr n, m') \<Rightarrow> (case row_of demo_id (mg_db m') of None \<Rightarrow> False | Some r \<Rightarrow> j_ExpiresAt r = 100 \<and> j_Surface r = ''di'')"
  by code_simp


text \<open>The poll address parses as every client library needs: split at \<open>/\<close> and \<open>?\<close>, the operation id is
  second from the end, unescaped and polled as it stands, the model id is fourth from the end, and
  the last piece is the api-version; a Read address ends in the id.\<close>

theorem operation_location_shape:
  assumes "ids_Normalize raw = Some i"
  shows "let ps = split_any {CHR ''/'', CHR ''?''} (diOperationLocation b prefix modelID i v); n = length ps in
    4 \<le> n \<and> ps ! (n - 2) = i \<and> ids_Normalize (ps ! (n - 2)) = Some i \<and> ps ! (n - 3) = ''analyzeResults''
    \<and> ps ! (n - 4) = PathEscape modelID \<and> ps ! (n - 1) = ''api-version='' @ QueryEscape v
    \<and> last (split_any {CHR ''/'', CHR ''?''} (readOperationLocation b i)) = i"
proof -
  let ?S = "{CHR ''/'', CHR ''?''}"
  have i: "PathEscape i = i" and idem: "ids_Normalize i = Some i"
    using normal_id [OF assms] by simp_all
  have q: "set (''api-version='' @ QueryEscape v) \<inter> ?S = {}" using QueryEscape_no_sep [of v] by simp
  have n: "set i \<inter> ?S = {}" using PathEscape_no_sep [of i] by (simp only: i)
  have di: "diOperationLocation b prefix modelID i v =
      (b @ prefix @ ''/documentModels'') @ CHR ''/'' # PathEscape modelID @ CHR ''/'' # ''analyzeResults'' @ CHR ''/'' #
        i @ CHR ''?'' # (''api-version='' @ QueryEscape v)"
    by (simp add: diOperationLocation_def i)
  have ps: "split_any ?S (diOperationLocation b prefix modelID i v) =
      split_any ?S (b @ prefix @ ''/documentModels'') @
        [PathEscape modelID, ''analyzeResults'', i, ''api-version='' @ QueryEscape v]"
    unfolding di by (rule split_any_address [OF _ _ PathEscape_no_sep _ n q]) simp_all
  have rd: "readOperationLocation b i = (b @ ReadPathPrefix @ ''/analyzeResults'') @ CHR ''/'' # i"
    by (simp add: readOperationLocation_def i)
  have "last (split_any ?S (readOperationLocation b i)) = i"
    unfolding rd by (simp only: split_any_append insert_iff simp_thms split_any_none [OF n]) simp
  with ps idem show ?thesis by (simp add: Let_def nth_append)
qed

lemma operation_location_shape_witness:
  "split_any {CHR ''/'', CHR ''?''} (diOperationLocation ''https://g'' DIPathPrefix ''a/b''
     ''00000000-0000-4000-8000-000000000000'' ''1'') ! 5 = ''a%2Fb''"
proof -
  have "ids_Normalize ''00000000-0000-4000-8000-000000000000'' = Some ''00000000-0000-4000-8000-000000000000''" by code_simp
  note w = operation_location_shape [OF this, of "''https://g''" DIPathPrefix "''a/b''" "''1''"]
  have "length (split_any {CHR ''/'', CHR ''?''} (diOperationLocation ''https://g'' DIPathPrefix ''a/b''
     ''00000000-0000-4000-8000-000000000000'' ''1'')) = 9" by code_simp
  moreover have "PathEscape ''a/b'' = ''a%2Fb''" by code_simp
  ultimately show ?thesis using w by (simp only: Let_def) simp
qed

text \<open>C34. A container's synchronous answer is relayed without what would mislead a client: the status is the
  container's own; the hop-by-hop headers, \<open>Operation-Location\<close>, \<open>Location\<close>, \<open>Set-Cookie\<close> and the
  correlation id keep the values the gateway gave them, whatever the container sent; and an error
  carries \<open>Retry-After\<close> only for a status that may be retried, since the clients retry any other that
  carries it ten times.\<close>

theorem relay_contract:
  assumes "hdr_get ''Retry-After'' hs = None"
  shows "let a = relaySync decode hs srf r in
    rp_status a = cr_status r
    \<and> (\<forall>k. skipRelayHeader k \<or> k = ''X-Ms-Client-Request-Id'' \<longrightarrow> hdr_get k (rp_headers a) = hdr_get k hs)
    \<and> (hdr_get ''Retry-After'' (rp_headers a) \<noteq> None \<longrightarrow> 200 \<le> cr_status r \<and> cr_status r < 300 \<or> retriableStatus (cr_status r))"
proof -
  have skip: "skipRelayHeader k \<Longrightarrow> k \<notin> {''Content-Type'', ''Content-Length'', ''Retry-After''}" for k
    by (auto simp: skipRelayHeader_def)
  define held where "held k \<longleftrightarrow> skipRelayHeader k \<or> k = ''X-Ms-Client-Request-Id''" for k
  have relayed: "hdr_get k (foldl (\<lambda>d (k, vs). if P k then d else relayHeader k vs d) hs xs) = hdr_get k hs"
    if "P k \<or> k = ''X-Ms-Client-Request-Id''" for P k xs
  proof -
    have "relayHeader ''X-Ms-Client-Request-Id'' vs d = d" for vs d by (simp add: relayHeader_def)
    then have "(\<lambda>d (k, vs). if P k then d else relayHeader k vs d) =
        (\<lambda>d (k, vs). if P k \<or> k = ''X-Ms-Client-Request-Id'' then d else relayHeader k vs d)"
      by (auto intro!: ext)
    with relay_skips [of "\<lambda>k. P k \<or> k = ''X-Ms-Client-Request-Id''" k hs xs] that show ?thesis by simp
  qed
  have ret: "retriable n = retriableStatus n" for n by (simp add: retriable_def retriableStatus_def)
  have err: "rp_status (reply_over hs (api_reply e srf)) = cr_status r
      \<and> (\<forall>k. held k \<longrightarrow> hdr_get k (rp_headers (reply_over hs (api_reply e srf))) = hdr_get k hs)
      \<and> (hdr_get ''Retry-After'' (rp_headers (reply_over hs (api_reply e srf))) \<noteq> None \<longrightarrow> retriableStatus (cr_status r))"
    if st: "err_Status e = cr_status r" and ra: "err_RetryAfter e > 0 \<longrightarrow> retriableStatus (cr_status r)" for e
  proof (intro conjI allI impI)
    show "rp_status (reply_over hs (api_reply e srf)) = cr_status r" using reply_over_headers(1) st by simp
    fix k assume "held k"
    then have "k \<notin> {''Content-Type'', ''Content-Length'', ''Retry-After''}"
      unfolding held_def using skip by fastforce
    then show "hdr_get k (rp_headers (reply_over hs (api_reply e srf))) = hdr_get k hs" by (rule reply_over_headers(2))
  next
    assume "hdr_get ''Retry-After'' (rp_headers (reply_over hs (api_reply e srf))) \<noteq> None"
    then have "err_RetryAfter e > 0 \<and> retriable (err_Status e)"
      using reply_over_headers(3) [of e hs srf] assms by metis
    then show "retriableStatus (cr_status r)" using st by (simp add: ret)
  qed
  show ?thesis
  proof (cases "200 \<le> cr_status r \<and> cr_status r < 300")
    case True
    then show ?thesis using relayed [of skipRelayHeader] by (auto simp: relaySync_def copyResponse_def Let_def)
  next
    case False
    define blank where "blank k \<longleftrightarrow> skipRelayHeader k \<or> k = ''Content-Length'' \<or> k = ''Retry-After''" for k
    show ?thesis
    proof (cases "go_trim_space (take 65536 (cr_body r)) = []")
      case True
      have "relaySync decode hs srf r = \<lparr>rp_status = cr_status r, rp_headers = hdr_set ''Content-Length'' ''0''
          (foldl (\<lambda>d (k, vs). if blank k then d else relayHeader k vs d) hs (cr_headers r)), rp_body = []\<rparr>"
        unfolding relaySync_def if_not_P [OF False] by (simp add: Let_def True blank_def)
      moreover have "blank k" if "skipRelayHeader k" for k using that by (simp add: blank_def)
      ultimately show ?thesis using relayed [of blank] skip assms
        by (auto simp: Let_def hdr_get_set blank_def)
    next
      case body: False
      have forstatus: "err_Status (ForStatus srf (cr_status r) []) = cr_status r" "err_RetryAfter (ForStatus srf (cr_status r) []) = 0"
        by (simp_all add: ForStatus_def mk_error_def Let_def api_error0_def)
      have "\<exists>e. relaySync decode hs srf r = reply_over hs (api_reply e srf) \<and> err_Status e = cr_status r
          \<and> (err_RetryAfter e > 0 \<longrightarrow> retriableStatus (cr_status r))"
      proof (cases "ParseUpstream decode (take 65536 (cr_body r)) (cr_status r)")
        case None
        then have "relaySync decode hs srf r = reply_over hs (api_reply (ForStatus srf (cr_status r) []) srf)"
          using False body by (auto simp: relaySync_def Let_def)
        then show ?thesis using forstatus by auto
      next
        case (Some e)
        let ?e = "e\<lparr>err_Status := cr_status r, err_RetryAfter := (if retriableStatus (cr_status r) then RetryAfterBusy else 0)\<rparr>"
        have "relaySync decode hs srf r = reply_over hs (api_reply (if err_Code e \<noteq> [] then ?e else ForStatus srf (cr_status r) []) srf)"
          using False body Some by (auto simp: relaySync_def Let_def)
        then show ?thesis using forstatus by (intro exI [of _ "if err_Code e \<noteq> [] then ?e else ForStatus srf (cr_status r) []"]) auto
      qed
      then obtain e where e: "relaySync decode hs srf r = reply_over hs (api_reply e srf)" "err_Status e = cr_status r"
        "err_RetryAfter e > 0 \<longrightarrow> retriableStatus (cr_status r)" by blast
      show ?thesis using err [OF e(2,3)] by (simp add: e(1) Let_def held_def)
    qed
  qed
qed

lemma relay_contract_witness:
  "hdr_get ''Retry-After'' (rp_headers (relaySync (\<lambda>x. None) [] SurfaceDI
     \<lparr>cr_status = 404, cr_headers = [(''Retry-After'', [''3''])], cr_body = ''<html>''\<rparr>)) = None"
proof -
  have "hdr_get ''Retry-After'' [] = None" by (simp add: hdr_get_def)
  from relay_contract [OF this, of "\<lambda>x. None" SurfaceDI "\<lparr>cr_status = 404, cr_headers = [(''Retry-After'', [''3''])], cr_body = ''<html>''\<rparr>"]
  show ?thesis by (simp add: Let_def retriableStatus_def)
qed

end
