(* ===== verification/Order.thy ===== *)
theory Order
  imports Prelude "HOL-Library.Sublist"
begin

text \<open>
  The member order of a merged result (\<open>internal/merge/order.go\<close>): one order that keeps the order of
  every part's members, found by placing each list's names after one another and then sorting
  topologically, the earliest name first.
\<close>

text \<open>\<open>slices.Index\<close> of a name that is there.\<close>

definition index_of :: "'a \<Rightarrow> 'a list \<Rightarrow> nat" where
  "index_of x xs = length (takeWhile ((\<noteq>) x) xs)"

fun place_names :: "'a option \<Rightarrow> 'a list \<Rightarrow> 'a list \<Rightarrow> 'a list" where
  "place_names prev [] pref = pref"
| "place_names prev (n # ns) pref = place_names (Some n) ns
     (if n \<in> set pref then pref
      else (let at = (case prev of None \<Rightarrow> 0 | Some q \<Rightarrow> index_of q pref + 1) in take at pref @ n # drop at pref))"

definition preferred :: "'a list list \<Rightarrow> 'a list" where
  "preferred ls = foldl (\<lambda>pref l. place_names None l pref) [] ls"

definition before_of :: "'a list list \<Rightarrow> 'a list \<Rightarrow> nat \<Rightarrow> nat list" where
  "before_of ls pref j = concat (map (\<lambda>l. concat (map (\<lambda>i. if index_of (l ! i) pref = j
     then [index_of (l ! (i - 1)) pref] else []) [1..<length l])) ls)"

function order_loop :: "'a list \<Rightarrow> (nat \<Rightarrow> nat list) \<Rightarrow> bool list \<Rightarrow> 'a list \<Rightarrow> 'a list option" where
  "order_loop pref bef placed order =
     (if length order < length pref then
        (case find (\<lambda>j. \<not> placed ! j \<and> \<not> list_ex (\<lambda>i. \<not> placed ! i) (bef j)) [0..<length pref] of
           None \<Rightarrow> None
         | Some j \<Rightarrow> order_loop pref bef (placed[j := True]) (order @ [pref ! j]))
      else Some order)"
  by pat_completeness auto
termination by (relation "measure (\<lambda>(pref, bef, placed, order). length pref - length order)") auto

declare order_loop.simps [simp del]

definition mergeOrder :: "'a list list \<Rightarrow> 'a list option" where
  "mergeOrder ls =
     (let pref = preferred ls in order_loop pref (before_of ls pref) (replicate (length pref) False) [])"

section \<open>Positions\<close>

lemma index_of_Cons: "index_of x (y # ys) = (if x = y then 0 else index_of x ys + 1)"
  by (simp add: index_of_def)

lemma index_of_nth: "x \<in> set xs \<Longrightarrow> index_of x xs < length xs \<and> xs ! index_of x xs = x"
  by (induction xs) (auto simp: index_of_Cons index_of_def)

lemma index_of_at: "distinct xs \<Longrightarrow> i < length xs \<Longrightarrow> index_of (xs ! i) xs = i"
  using index_of_nth [of "xs ! i" xs] nth_mem [of i xs] nth_eq_iff_index_eq [of xs "index_of (xs ! i) xs" i] by blast

lemma index_of_append: "index_of x (xs @ ys) = (if x \<in> set xs then index_of x xs else length xs + index_of x ys)"
  by (induction xs) (auto simp: index_of_Cons)

definition rises :: "'a list \<Rightarrow> 'a list \<Rightarrow> bool" where
  "rises l ord \<longleftrightarrow> set l \<subseteq> set ord \<and> sorted_wrt (\<lambda>a b. index_of a ord < index_of b ord) l"

lemma rises_subseq: "rises l ord \<Longrightarrow> subseq l ord"
proof (induction ord arbitrary: l)
  case (Cons x xs)
  have tail: "rises ys xs" if "set ys \<subseteq> set (x # xs)" "x \<notin> set ys"
    "sorted_wrt (\<lambda>a b. index_of a (x # xs) < index_of b (x # xs)) ys" for ys
    unfolding rises_def
  proof
    show "set ys \<subseteq> set xs" using that by auto
    show "sorted_wrt (\<lambda>a b. index_of a xs < index_of b xs) ys"
      by (rule sorted_wrt_mono_rel [OF _ that(3)]) (use that(2) in \<open>auto simp: index_of_Cons split: if_splits\<close>)
  qed
  show ?case
  proof (cases l)
    case (Cons y ys)
    have later: "index_of y (x # xs) < index_of z (x # xs)" if "z \<in> set ys" for z
      using Cons.prems that by (simp add: rises_def Cons)
    have ys: "x \<notin> set ys" using later [of x] by (auto simp: index_of_Cons)
    have "set ys \<subseteq> set (x # xs)" "sorted_wrt (\<lambda>a b. index_of a (x # xs) < index_of b (x # xs)) ys"
      using Cons.prems by (auto simp: rises_def Cons)
    show ?thesis
    proof (cases "y = x")
      case True
      then show ?thesis using Cons.IH [OF tail] ys Cons.prems by (simp add: rises_def Cons)
    next
      case False
      then have "rises l xs" using tail [of l] Cons.prems ys by (simp add: rises_def Cons)
      then show ?thesis by (intro list_emb.list_emb_Cons Cons.IH)
    qed
  qed simp
qed (simp add: rises_def)

lemma subseq_rises: "subseq l ord \<Longrightarrow> distinct ord \<Longrightarrow> rises l ord"
proof (induction rule: list_emb.induct)
  case (list_emb_Cons xs ys y)
  then show ?case
    by (auto simp: rises_def index_of_Cons intro: sorted_wrt_mono_rel [rotated])
next
  case (list_emb_Cons2 x y xs ys)
  then show ?case
    by (auto simp: rises_def index_of_Cons intro: sorted_wrt_mono_rel [rotated])
qed (simp add: rises_def)

lemma rises_steps:
  assumes "set l \<subseteq> set ord" and "\<And>i. 0 < i \<Longrightarrow> i < length l \<Longrightarrow> index_of (l ! (i - 1)) ord < index_of (l ! i) ord"
  shows "rises l ord"
proof -
  have "sorted_wrt (\<lambda>a b. index_of a ord < index_of b ord) l"
  proof (rule sorted_wrt_iff_nth_Suc_transp [THEN iffD2])
    show "transp (\<lambda>a b. index_of a ord < index_of b ord)" by (auto intro: transpI)
    show "\<forall>i. Suc i < length l \<longrightarrow> index_of (l ! i) ord < index_of (l ! Suc i) ord" using assms(2) [of "Suc i" for i] by simp
  qed
  with assms(1) show ?thesis by (simp add: rises_def)
qed

section \<open>The preferred order\<close>

lemma place_names_spec:
  assumes "distinct pref" and "\<forall>q. prev = Some q \<longrightarrow> q \<in> set pref"
  shows "distinct (place_names prev ns pref) \<and> set (place_names prev ns pref) = set ns \<union> set pref"
  using assms
proof (induction prev ns pref rule: place_names.induct)
  case (2 prev n ns pref)
  have ins: "distinct (take k pref @ n # drop k pref) \<and> set (take k pref @ n # drop k pref) = insert n (set pref)"
    if "n \<notin> set pref" for k
  proof -
    have "distinct (take k pref @ drop k pref)" using 2(2) by simp
    then have "distinct (take k pref) \<and> distinct (drop k pref) \<and> set (take k pref) \<inter> set (drop k pref) = {}"
      unfolding distinct_append by blast
    moreover have "set (take k pref) \<union> set (drop k pref) = set pref" by (metis append_take_drop_id set_append)
    ultimately show ?thesis using that by auto
  qed
  show ?case using 2 ins by (auto simp: Let_def)
qed simp

lemma preferred_spec: "distinct (preferred ls) \<and> set (preferred ls) = \<Union> (set ` set ls)"
proof -
  have "distinct (foldl (\<lambda>pref l. place_names None l pref) p ls)
      \<and> set (foldl (\<lambda>pref l. place_names None l pref) p ls) = set p \<union> \<Union> (set ` set ls)" if "distinct p" for p
    using that by (induction ls arbitrary: p) (auto simp: place_names_spec)
  then show ?thesis by (simp add: preferred_def)
qed

section \<open>The topological sort\<close>

text \<open>An edge: some list puts \<open>a\<close> right before \<open>b\<close>.\<close>

definition edge :: "'a list list \<Rightarrow> 'a \<Rightarrow> 'a \<Rightarrow> bool" where
  "edge ls a b \<longleftrightarrow> (\<exists>l \<in> set ls. \<exists>i. 0 < i \<and> i < length l \<and> l ! (i - 1) = a \<and> l ! i = b)"

lemma before_of_edges:
  assumes "j < length (preferred ls)"
  shows "set (before_of ls (preferred ls) j) = (\<lambda>a. index_of a (preferred ls)) ` {a. edge ls a (preferred ls ! j)}"
proof -
  let ?p = "preferred ls"
  have at: "index_of b ?p = j \<longleftrightarrow> b = ?p ! j" if "b \<in> set ?p" for b
    using index_of_nth [OF that] index_of_at [of ?p j] assms preferred_spec [of ls] by metis
  have "x \<in> set (before_of ls ?p j) \<longleftrightarrow>
      (\<exists>l \<in> set ls. \<exists>i. 0 < i \<and> i < length l \<and> index_of (l ! i) ?p = j \<and> x = index_of (l ! (i - 1)) ?p)" for x
  proof -
    have "x \<in> set (before_of ls ?p j) \<longleftrightarrow> (\<exists>l \<in> set ls. \<exists>i \<in> set [1..<length l].
        x \<in> set (if index_of (l ! i) ?p = j then [index_of (l ! (i - 1)) ?p] else []))"
      by (simp add: before_of_def Bex_def del: set_upt) blast
    then show ?thesis by (auto simp: Suc_le_eq Bex_def split: if_splits)
  qed
  moreover have "index_of (l ! i) ?p = j \<longleftrightarrow> l ! i = ?p ! j" if "l \<in> set ls" "i < length l" for l i
    using that preferred_spec [of ls] nth_mem [of i l] by (intro at) blast
  ultimately have mem: "x \<in> set (before_of ls ?p j) \<longleftrightarrow>
      (\<exists>l \<in> set ls. \<exists>i. 0 < i \<and> i < length l \<and> l ! i = ?p ! j \<and> x = index_of (l ! (i - 1)) ?p)" for x
    by metis
  show ?thesis
  proof (intro set_eqI iffI)
    fix x assume "x \<in> set (before_of ls ?p j)"
    then obtain l i where l: "l \<in> set ls" "0 < i" "i < length l" "l ! i = ?p ! j" "x = index_of (l ! (i - 1)) ?p"
      using mem by blast
    then have "edge ls (l ! (i - 1)) (?p ! j)" unfolding edge_def by blast
    then show "x \<in> (\<lambda>a. index_of a ?p) ` {a. edge ls a (?p ! j)}" using l(5) by blast
  next
    fix x assume "x \<in> (\<lambda>a. index_of a ?p) ` {a. edge ls a (?p ! j)}"
    then show "x \<in> set (before_of ls ?p j)" using mem unfolding edge_def by blast
  qed
qed

text \<open>What the sort keeps: the names placed are those in the order, and every name placed has the names
  before it placed earlier.\<close>

definition placing :: "'a list list \<Rightarrow> bool list \<Rightarrow> 'a list \<Rightarrow> bool" where
  "placing ls placed ord \<longleftrightarrow>
     (let p = preferred ls in length placed = length p \<and> distinct ord
        \<and> set ord = {p ! i | i. i < length p \<and> placed ! i}
        \<and> (\<forall>a b. edge ls a b \<and> b \<in> set ord \<longrightarrow> a \<in> set ord \<and> index_of a ord < index_of b ord))"

lemma edge_mem: "edge ls a b \<Longrightarrow> a \<in> set (preferred ls) \<and> b \<in> set (preferred ls)"
proof -
  assume "edge ls a b"
  then obtain l i where "l \<in> set ls" "0 < i" "i < length l" "l ! (i - 1) = a" "l ! i = b" by (auto simp: edge_def)
  then have "a \<in> set l" "b \<in> set l" using nth_mem [of "i - 1" l] nth_mem [of i l] by auto
  with \<open>l \<in> set ls\<close> show ?thesis using preferred_spec [of ls] by auto
qed

lemma placed_iff:
  assumes "placing ls placed ord" and "i < length (preferred ls)"
  shows "placed ! i \<longleftrightarrow> preferred ls ! i \<in> set ord"
  using assms preferred_spec [of ls] nth_eq_iff_index_eq [of "preferred ls"]
  by (auto simp: placing_def Let_def)

lemma free_iff:
  assumes "placing ls placed ord" and "j < length (preferred ls)"
  shows "\<not> list_ex (\<lambda>i. \<not> placed ! i) (before_of ls (preferred ls) j) \<longleftrightarrow> (\<forall>a. edge ls a (preferred ls ! j) \<longrightarrow> a \<in> set ord)"
proof -
  have "placed ! index_of a (preferred ls) \<longleftrightarrow> a \<in> set ord" if "edge ls a (preferred ls ! j)" for a
    using placed_iff [OF assms(1)] index_of_nth [of a "preferred ls"] edge_mem [OF that] by metis
  then show ?thesis using before_of_edges [OF assms(2)] by (auto simp: list_ex_iff)
qed

lemma placing_step:
  assumes "placing ls placed ord" and j: "j < length (preferred ls)" "\<not> placed ! j"
    and free: "\<forall>a. edge ls a (preferred ls ! j) \<longrightarrow> a \<in> set ord"
  shows "placing ls (placed[j := True]) (ord @ [preferred ls ! j])"
proof -
  let ?p = "preferred ls" and ?n = "preferred ls ! j"
  have new: "?n \<notin> set ord" using placed_iff [OF assms(1) j(1)] j(2) by simp
  have len: "length placed = length ?p" using assms(1) by (simp add: placing_def Let_def)
  have "set (ord @ [?n]) = {?p ! i | i. i < length ?p \<and> placed[j := True] ! i}"
    using assms(1) j len by (auto simp: placing_def Let_def nth_list_update split: if_splits)
  moreover have "a \<in> set (ord @ [?n]) \<and> index_of a (ord @ [?n]) < index_of b (ord @ [?n])"
    if e: "edge ls a b" "b \<in> set (ord @ [?n])" for a b
  proof (cases "b \<in> set ord")
    case True
    then have "a \<in> set ord" "index_of a ord < index_of b ord"
      using assms(1) e(1) True unfolding placing_def Let_def by blast+
    then show ?thesis using True by (simp add: index_of_append)
  next
    case False
    then have b: "b = ?n" using e(2) by simp
    then have "a \<in> set ord" using free e(1) by blast
    then show ?thesis using b new index_of_nth [of a ord] by (simp add: index_of_append)
  qed
  moreover have "distinct (ord @ [?n])" "length (placed[j := True]) = length ?p"
    using assms(1) new len by (simp_all add: placing_def Let_def)
  ultimately show ?thesis unfolding placing_def Let_def by blast
qed

lemma order_loop_sound:
  assumes "placing ls placed ord"
    and "order_loop (preferred ls) (before_of ls (preferred ls)) placed ord = Some out"
  shows "\<exists>placed'. placing ls placed' out \<and> length (preferred ls) \<le> length out"
  using assms
proof (induction "preferred ls" "before_of ls (preferred ls)" placed ord rule: order_loop.induct)
  case (1 placed ord)
  show ?case
  proof (cases "length ord < length (preferred ls)")
    case True
    then obtain j where j: "find (\<lambda>j. \<not> placed ! j \<and> \<not> list_ex (\<lambda>i. \<not> placed ! i) (before_of ls (preferred ls) j))
        [0..<length (preferred ls)] = Some j"
      using 1(3) by (subst (asm) order_loop.simps) (auto split: option.splits)
    then have p: "j < length (preferred ls)" "\<not> placed ! j" "\<not> list_ex (\<lambda>i. \<not> placed ! i) (before_of ls (preferred ls) j)"
      by (auto simp: find_Some_iff)
    from placing_step [OF 1(2) p(1,2)] free_iff [OF 1(2) p(1)] p(3)
    have "placing ls (placed[j := True]) (ord @ [preferred ls ! j])" by blast
    moreover have "order_loop (preferred ls) (before_of ls (preferred ls)) (placed[j := True]) (ord @ [preferred ls ! j]) = Some out"
      using 1(3) True j by (subst (asm) order_loop.simps) simp
    ultimately show ?thesis using 1(1) [OF True j] by blast
  next
    case False
    then have "out = ord" using 1(3) by (subst (asm) order_loop.simps) simp
    then show ?thesis using 1(2) False by auto
  qed
qed

lemma order_loop_stuck:
  assumes "placing ls placed ord"
    and "order_loop (preferred ls) (before_of ls (preferred ls)) placed ord = None"
  shows "\<exists>placed' ord'. placing ls placed' ord' \<and> set ord' \<noteq> set (preferred ls)
    \<and> (\<forall>b \<in> set (preferred ls) - set ord'. \<exists>a. edge ls a b \<and> a \<notin> set ord')"
  using assms
proof (induction "preferred ls" "before_of ls (preferred ls)" placed ord rule: order_loop.induct)
  case (1 placed ord)
  have less: "length ord < length (preferred ls)" using 1(3) by (subst (asm) order_loop.simps) (auto split: if_splits)
  let ?free = "\<lambda>j. \<not> placed ! j \<and> \<not> list_ex (\<lambda>i. \<not> placed ! i) (before_of ls (preferred ls) j)"
  show ?case
  proof (cases "find ?free [0..<length (preferred ls)]")
    case None
    have "\<exists>a. edge ls a b \<and> a \<notin> set ord" if b: "b \<in> set (preferred ls) - set ord" for b
    proof -
      obtain j where j: "j < length (preferred ls)" "preferred ls ! j = b" using b by (auto simp: in_set_conv_nth)
      then have "\<not> placed ! j" using placed_iff [OF 1(2) j(1)] b by simp
      then show ?thesis using None j free_iff [OF 1(2) j(1)] by (auto simp: find_None_iff)
    qed
    moreover have "set ord \<noteq> set (preferred ls)"
    proof
      assume "set ord = set (preferred ls)"
      moreover have "distinct ord" using 1(2) by (simp add: placing_def Let_def)
      ultimately show False using less preferred_spec [of ls] distinct_card [of ord] distinct_card [of "preferred ls"] by simp
    qed
    ultimately show ?thesis using 1(2) by blast
  next
    case (Some j)
    then have p: "j < length (preferred ls)" "\<not> placed ! j" "\<not> list_ex (\<lambda>i. \<not> placed ! i) (before_of ls (preferred ls) j)"
      by (auto simp: find_Some_iff)
    from placing_step [OF 1(2) p(1,2)] free_iff [OF 1(2) p(1)] p(3)
    have "placing ls (placed[j := True]) (ord @ [preferred ls ! j])" by blast
    moreover have "order_loop (preferred ls) (before_of ls (preferred ls)) (placed[j := True]) (ord @ [preferred ls ! j]) = None"
      using 1(3) less Some by (subst (asm) order_loop.simps) simp
    ultimately show ?thesis using 1(1) [OF less Some] by blast
  qed
qed

lemma placing_start: "placing ls (replicate (length (preferred ls)) False) []"
  by (auto simp: placing_def Let_def)

lemma edge_rises: "rises l ord \<Longrightarrow> 0 < i \<Longrightarrow> i < length l \<Longrightarrow> index_of (l ! (i - 1)) ord < index_of (l ! i) ord"
  by (simp add: rises_def sorted_wrt_iff_nth_less)

lemma edge_index:
  assumes "edge ls a b" and "\<forall>l \<in> set ls. subseq l ord" and "distinct ord"
  shows "index_of a ord < index_of b ord"
proof -
  obtain l i where l: "l \<in> set ls" "0 < i" "i < length l" "l ! (i - 1) = a" "l ! i = b"
    using assms(1) by (auto simp: edge_def)
  then show ?thesis using edge_rises [OF subseq_rises l(2,3)] assms(2,3) by blast
qed

lemma mergeOrder_some:
  assumes "mergeOrder ls = Some ord"
  shows "distinct ord \<and> set ord = \<Union> (set ` set ls) \<and> (\<forall>l \<in> set ls. subseq l ord)"
proof -
  from assms obtain placed where p: "placing ls placed ord" "length (preferred ls) \<le> length ord"
    using order_loop_sound [OF placing_start] by (auto simp: mergeOrder_def Let_def)
  have d: "distinct ord" and sub: "set ord \<subseteq> set (preferred ls)" using p(1) by (auto simp: placing_def Let_def)
  have "card (set (preferred ls)) \<le> card (set ord)"
    using p(2) d preferred_spec [of ls] distinct_card [of "preferred ls"] distinct_card [of ord] by linarith
  then have all: "set ord = set (preferred ls)" using sub by (simp add: card_seteq)
  have "subseq l ord" if l: "l \<in> set ls" for l
  proof (rule rises_subseq [OF rises_steps])
    show "set l \<subseteq> set ord" using l all preferred_spec [of ls] by auto
    fix i assume i: "0 < i" "i < length l"
    then have e: "edge ls (l ! (i - 1)) (l ! i)" using l by (auto simp: edge_def)
    have keeps: "\<forall>a b. edge ls a b \<and> b \<in> set ord \<longrightarrow> a \<in> set ord \<and> index_of a ord < index_of b ord"
      using p(1) unfolding placing_def Let_def by blast
    show "index_of (l ! (i - 1)) ord < index_of (l ! i) ord"
      using spec [OF spec [OF keeps]] e edge_mem [OF e] all by blast
  qed
  with d all preferred_spec [of ls] show ?thesis by auto
qed

lemma mergeOrder_none:
  assumes "mergeOrder ls = None" and "distinct ord" and "\<forall>l \<in> set ls. subseq l ord"
  shows False
proof -
  from assms(1) obtain placed fin where p: "placing ls placed fin" "set fin \<noteq> set (preferred ls)"
    and stuck: "\<forall>b \<in> set (preferred ls) - set fin. \<exists>a. edge ls a b \<and> a \<notin> set fin"
    using order_loop_stuck [OF placing_start, of ls] by (auto simp: mergeOrder_def Let_def)
  have rises: "index_of a ord < index_of b ord" if "edge ls a b" for a b
    using edge_index [OF that assms(3,2)] .
  let ?left = "set (preferred ls) - set fin"
  have "set fin \<subseteq> set (preferred ls)" using p(1) by (auto simp: placing_def Let_def)
  then have "?left \<noteq> {}" using p(2) by blast
  then obtain b0 where "b0 \<in> ?left" by blast
  then obtain b where b: "b \<in> ?left" "\<forall>c. c \<in> ?left \<longrightarrow> index_of b ord \<le> index_of c ord"
    using ex_has_least_nat [of "\<lambda>c. c \<in> ?left" b0 "\<lambda>c. index_of c ord"] by blast
  obtain a where a: "edge ls a b" "a \<notin> set fin" using stuck b(1) by blast
  then have "a \<in> ?left" using edge_mem [OF a(1)] by simp
  then show False using b(2) rises [OF a(1)] by (meson leD)
qed

text \<open>When the preferred order keeps every list, the sort returns it.\<close>

lemma order_loop_preferred:
  assumes "\<And>a b. edge ls a b \<Longrightarrow> index_of a (preferred ls) < index_of b (preferred ls)"
    and "placing ls placed ord" and "ord = take (length ord) (preferred ls)"
  shows "order_loop (preferred ls) (before_of ls (preferred ls)) placed ord = Some (preferred ls)"
  using assms(2,3)
proof (induction "preferred ls" "before_of ls (preferred ls)" placed ord rule: order_loop.induct)
  case (1 placed ord)
  let ?p = "preferred ls" and ?k = "length ord"
  have d: "distinct ?p" using preferred_spec [of ls] by simp
  show ?case
  proof (cases "?k < length ?p")
    case True
    have mem: "?p ! i \<in> set ord \<longleftrightarrow> i < ?k" if "i < length ?p" for i
    proof -
      have "?p ! i \<in> set (take ?k ?p) \<longleftrightarrow> i < ?k"
        using that d True by (auto simp: in_set_conv_nth nth_eq_iff_index_eq)
      then show ?thesis using 1(3) by simp
    qed
    have placed: "placed ! i \<longleftrightarrow> i < ?k" if "i < length ?p" for i using placed_iff [OF 1(2) that] mem [OF that] by simp
    have free: "\<forall>a. edge ls a (?p ! ?k) \<longrightarrow> a \<in> set ord"
    proof (intro allI impI)
      fix a assume e: "edge ls a (?p ! ?k)"
      have "index_of a ?p < ?k" using assms(1) [OF e] index_of_at [OF d True] by simp
      then show "a \<in> set ord" using mem [of "index_of a ?p"] index_of_nth [of a ?p] edge_mem [OF e] True by simp
    qed
    have f: "find (\<lambda>j. \<not> placed ! j \<and> \<not> list_ex (\<lambda>i. \<not> placed ! i) (before_of ls ?p j)) [0..<length ?p] = Some ?k"
      using True placed free_iff [OF 1(2) True] free by (auto simp: find_Some_iff intro!: exI [of _ ?k])
    have "placing ls (placed[?k := True]) (ord @ [?p ! ?k])"
      using placing_step [OF 1(2) True] placed [OF True] free by simp
    moreover have "ord @ [?p ! ?k] = take (length (ord @ [?p ! ?k])) ?p"
      using True 1(3) take_Suc_conv_app_nth [OF True] by simp
    ultimately have "order_loop ?p (before_of ls ?p) (placed[?k := True]) (ord @ [?p ! ?k]) = Some ?p"
      using 1(1) [OF True f] by blast
    then show ?thesis using True f by (subst order_loop.simps) simp
  next
    case False
    then show ?thesis using 1(3) by (subst order_loop.simps) simp
  qed
qed

lemma mergeOrder_preferred:
  assumes "\<forall>l \<in> set ls. subseq l (preferred ls)"
  shows "mergeOrder ls = Some (preferred ls)"
proof -
  have "index_of a (preferred ls) < index_of b (preferred ls)" if "edge ls a b" for a b
    using edge_index [OF that assms] preferred_spec [of ls] by blast
  then show ?thesis
    using order_loop_preferred [of ls, OF _ placing_start] by (simp add: mergeOrder_def Let_def)
qed

section \<open>Properties\<close>

text \<open>C39. The merged member order is right and complete: an order that is returned has every member once and
  keeps every part's own order; one is refused only when no order keeps them all; and the order of
  first placement is kept as it is whenever it keeps every part's.\<close>

theorem merge_order_spec:
  "case mergeOrder ls of
     Some ord \<Rightarrow> distinct ord \<and> set ord = \<Union> (set ` set ls) \<and> (\<forall>l \<in> set ls. subseq l ord)
       \<and> ((\<forall>l \<in> set ls. subseq l (preferred ls)) \<longrightarrow> ord = preferred ls)
   | None \<Rightarrow> \<not> (\<exists>ord. distinct ord \<and> (\<forall>l \<in> set ls. subseq l ord))"
proof (cases "mergeOrder ls")
  case None
  then show ?thesis using mergeOrder_none [OF None] by auto
next
  case (Some ord)
  then show ?thesis using mergeOrder_some [OF Some] mergeOrder_preferred [of ls] by auto
qed

lemma merge_order_spec_witness:
  "mergeOrder [''ac'', ''abc''] = Some ''abc'' \<and> subseq ''ac'' ''abc'' \<and> mergeOrder [''ab'', ''ba''] = None"
proof -
  have m: "mergeOrder [''ac'', ''abc''] = Some ''abc''" "mergeOrder [''ab'', ''ba''] = None" by code_simp+
  with merge_order_spec [of "[''ac'', ''abc'']"] show ?thesis by simp
qed

end
