(* ===== verification/Rewrite.thy ===== *)
theory Rewrite
  imports GoJson Jsonx
begin

text \<open>
  The streaming rewriter of \<open>internal/jsonx/rewrite.go\<close> and \<open>object.go\<close>: it copies one JSON value byte for
  byte and offers every scalar to a visitor, which may replace it. The walker's buffer, its run marks
  and its switch of output on and off come to this: each scanner gives the bytes it consumed and the
  input left, and the bytes are output or dropped where the code has the output on or off. The reader
  delivers its bytes and ends; its failures, and the writer's, are left out, and on an error the
  output so far is not kept. A visitor carries a state, as the code's visitors do.
\<close>

section \<open>Scanning\<close>

datatype path_elem = Key string | Index int

datatype json_kind = KString | KNumber | KBool | KNull | KLongString

type_synonym 's visitor = "'s \<Rightarrow> path_elem list \<Rightarrow> json_kind \<Rightarrow> string \<Rightarrow> string option \<times> 's"

datatype json_error = ErrSyntax | NotAnObject | BadRange

definition MaxVisitString :: nat where "MaxVisitString = 4096"
definition maxDepth :: nat where "maxDepth = 10000"

text \<open>The whitespace consumed, and the input from the next byte on; the caller finds the end of input.\<close>

definition take_space :: "string \<Rightarrow> string \<times> string" where
  "take_space s = (takeWhile isSpace s, dropWhile isSpace s)"

text \<open>\<open>finish\<close>: only whitespace may follow; it is consumed.\<close>

definition finish_space :: "string \<Rightarrow> json_error + string" where
  "finish_space s = (if dropWhile isSpace s = [] then Inr s else Inl ErrSyntax)"

definition isHex :: "char \<Rightarrow> bool" where
  "isHex c \<longleftrightarrow> is_digit c \<or> (let n = (of_char c :: nat) in 97 \<le> n \<and> n \<le> 102 \<or> 65 \<le> n \<and> n \<le> 70)"

definition escape_char :: "char \<Rightarrow> bool" where
  "escape_char c \<longleftrightarrow> c = quote \<or> c = backslash \<or> c \<in> set ''/bfnrt''"

text \<open>The rest of a string after its opening quote: what is consumed, closing quote included, and the input left.\<close>

fun scan_body :: "string \<Rightarrow> (string \<times> string) option" where
  "scan_body [] = None"
| "scan_body (c # s) =
     (if c = quote then Some ([c], s)
      else if (of_char c :: nat) < 32 then None
      else if c = backslash then
        (case s of
           [] \<Rightarrow> None
         | e # s1 \<Rightarrow>
             if escape_char e then map_option (\<lambda>(b, r). (c # e # b, r)) (scan_body s1)
             else if e = CHR ''u'' then
               (case s1 of
                  h1 # h2 # h3 # h4 # s2 \<Rightarrow>
                    if isHex h1 \<and> isHex h2 \<and> isHex h3 \<and> isHex h4 then
                      map_option (\<lambda>(b, r). (c # e # h1 # h2 # h3 # h4 # b, r)) (scan_body s2)
                    else None
                | _ \<Rightarrow> None)
             else None)
      else map_option (\<lambda>(b, r). (c # b, r)) (scan_body s))"

text \<open>A string from its opening quote.\<close>

fun scan_string :: "string \<Rightarrow> (string \<times> string) option" where
  "scan_string (c # s) = (if c = quote then map_option (\<lambda>(b, r). (c # b, r)) (scan_body s) else None)"
| "scan_string [] = None"

datatype num_state = NumStart | NumSign | NumZero | NumInt | NumDot | NumFrac | NumE | NumESign | NumExp

definition lead_digit :: "char \<Rightarrow> num_state option" where
  "lead_digit c = (if c = CHR ''0'' then Some NumZero else if is_digit c then Some NumInt else None)"

fun numberStep :: "num_state \<Rightarrow> char \<Rightarrow> num_state option" where
  "numberStep NumStart c = (if c = CHR ''-'' then Some NumSign else lead_digit c)"
| "numberStep NumSign c = lead_digit c"
| "numberStep NumZero c = (if c = CHR ''.'' then Some NumDot else if c = CHR ''e'' \<or> c = CHR ''E'' then Some NumE else None)"
| "numberStep NumInt c =
     (if is_digit c then Some NumInt else if c = CHR ''.'' then Some NumDot
      else if c = CHR ''e'' \<or> c = CHR ''E'' then Some NumE else None)"
| "numberStep NumDot c = (if is_digit c then Some NumFrac else None)"
| "numberStep NumFrac c =
     (if is_digit c then Some NumFrac else if c = CHR ''e'' \<or> c = CHR ''E'' then Some NumE else None)"
| "numberStep NumE c =
     (if c = CHR ''+'' \<or> c = CHR ''-'' then Some NumESign else if is_digit c then Some NumExp else None)"
| "numberStep NumESign c = (if is_digit c then Some NumExp else None)"
| "numberStep NumExp c = (if is_digit c then Some NumExp else None)"

definition numberComplete :: "num_state \<Rightarrow> bool" where
  "numberComplete st \<longleftrightarrow> st = NumZero \<or> st = NumInt \<or> st = NumFrac \<or> st = NumExp"

text \<open>The longest run the grammar's automaton accepts, and where it ends.\<close>

fun number_run :: "num_state \<Rightarrow> string \<Rightarrow> string \<times> string \<times> num_state" where
  "number_run st [] = ([], [], st)"
| "number_run st (c # s) =
     (case numberStep st c of
        None \<Rightarrow> ([], c # s, st)
      | Some st1 \<Rightarrow> (case number_run st1 s of (n, r, st2) \<Rightarrow> (c # n, r, st2)))"

definition scan_number :: "string \<Rightarrow> (string \<times> string) option" where
  "scan_number s =
     (case number_run NumStart s of
        (n, r, st) \<Rightarrow> if MaxVisitString < length n \<or> \<not> numberComplete st then None else Some (n, r))"

definition scan_literal :: "string \<Rightarrow> string \<Rightarrow> (string \<times> string) option" where
  "scan_literal lit s = (if starts_with lit s then Some (lit, drop (length lit) s) else None)"

section \<open>Names\<close>

definition hex_of :: "char \<Rightarrow> nat" where
  "hex_of c = (let n = (of_char c :: nat) in if n \<le> 57 then n - 48 else if 97 \<le> n then n - 87 else n - 55)"

definition hex4 :: "char \<Rightarrow> char \<Rightarrow> char \<Rightarrow> char \<Rightarrow> nat" where
  "hex4 a b c d = ((hex_of a * 16 + hex_of b) * 16 + hex_of c) * 16 + hex_of d"

definition encode_rune :: "nat \<Rightarrow> string" where
  "encode_rune r =
     (if r < 128 then [char_of r]
      else if r < 2048 then [char_of (192 + r div 64), char_of (128 + r mod 64)]
      else if r < 65536 then
        [char_of (224 + r div 4096), char_of (128 + r div 64 mod 64), char_of (128 + r mod 64)]
      else [char_of (240 + r div 262144), char_of (128 + r div 4096 mod 64), char_of (128 + r div 64 mod 64),
            char_of (128 + r mod 64)])"

definition escaped_char :: "char \<Rightarrow> char" where
  "escaped_char e = (if e = CHR ''b'' then CHR 0x08 else if e = CHR ''f'' then CHR 0x0C else if e = CHR ''n'' then CHR 0x0A
     else if e = CHR ''r'' then CHR 0x0D else if e = CHR ''t'' then CHR 0x09 else e)"

text \<open>\<open>json.Unmarshal\<close> of a well-formed string's body: escapes are resolved, surrogate pairs joined, and what
  is no rune becomes \<open>U+FFFD\<close>.\<close>

function unquote :: "string \<Rightarrow> string" where
  "unquote s =
     (case s of
        [] \<Rightarrow> []
      | c # t \<Rightarrow>
          if c = backslash then
            (case t of
               [] \<Rightarrow> []
             | e # t1 \<Rightarrow>
                 if e \<noteq> CHR ''u'' then escaped_char e # unquote t1
                 else
                   (let r = hex4 (t1 ! 0) (t1 ! 1) (t1 ! 2) (t1 ! 3); t2 = drop 4 t1 in
                    if 55296 \<le> r \<and> r < 57344 then
                      (let r2 = hex4 (t2 ! 2) (t2 ! 3) (t2 ! 4) (t2 ! 5) in
                       if r < 56320 \<and> starts_with [backslash, CHR ''u''] t2 \<and> 56320 \<le> r2 \<and> r2 < 57344 then
                         encode_rune ((r - 55296) * 1024 + (r2 - 56320) + 65536) @ unquote (drop 6 t2)
                       else encode_rune rune_error @ unquote t2)
                    else encode_rune r @ unquote t2))
          else
            (case decode_rune (map byte s) of (r, n) \<Rightarrow> encode_rune r @ unquote (drop n s)))"
  by pat_completeness auto
termination
proof (relation "measure length")
  fix s c t r n assume s: "s = c # t" and d: "(r, n) = decode_rune (map byte s)"
  have "1 \<le> n" using decode_rune_size [of "map byte s"] d s by (metis list.map_disc_iff list.distinct(1) snd_conv)
  then show "(drop n s, s) \<in> measure length" using s by simp
qed auto

declare unquote.simps [simp del]

text \<open>A member name, checked for length and decoded.\<close>

definition read_name :: "string \<Rightarrow> (string \<times> string \<times> string) option" where
  "read_name s =
     (case scan_string s of
        None \<Rightarrow> None
      | Some (raw, r) \<Rightarrow>
          if maxNameBytes < length raw then None
          else Some (raw, if backslash \<in> set raw then unquote (butlast (tl raw)) else butlast (tl raw), r))"

text \<open>\<open>member\<close>: the space, the name, the colon; the bytes consumed, the raw and decoded names, the input left.\<close>

definition member_head :: "string \<Rightarrow> (string \<times> string \<times> string \<times> string) option" where
  "member_head s =
     (case take_space s of
        (w1, s1) \<Rightarrow>
          (case read_name s1 of
             None \<Rightarrow> None
           | Some (raw, nm, s2) \<Rightarrow>
               (case take_space s2 of
                  (w2, []) \<Rightarrow> None
                | (w2, c # s3) \<Rightarrow> if c = CHR '':'' then Some (w1 @ raw @ w2 @ [c], raw, nm, s3) else None)))"

section \<open>Values\<close>

text \<open>A scalar is replaced when the visitor says so; a string longer than the limit only goes past it.\<close>

definition visit_scalar :: "'s visitor \<Rightarrow> 's \<Rightarrow> path_elem list \<Rightarrow> json_kind \<Rightarrow> string \<Rightarrow> string \<times> 's" where
  "visit_scalar v st path k raw =
     (if k = KString \<and> MaxVisitString < length raw then (raw, snd (v st path KLongString []))
      else case v st path k raw of
        (None, st1) \<Rightarrow> (raw, st1)
      | (Some rep, st1) \<Rightarrow> (rep, st1))"

text \<open>One scalar from its first byte.\<close>

definition scan_scalar :: "string \<Rightarrow> (json_kind \<times> string \<times> string) option" where
  "scan_scalar s =
     (case s of
        [] \<Rightarrow> None
      | c # t \<Rightarrow>
          if c = quote then map_option (Pair KString) (scan_string s)
          else if c = CHR ''t'' then map_option (Pair KBool) (scan_literal ''true'' s)
          else if c = CHR ''f'' then map_option (Pair KBool) (scan_literal ''false'' s)
          else if c = CHR ''n'' then map_option (Pair KNull) (scan_literal ''null'' s)
          else if c = CHR ''-'' \<or> is_digit c then map_option (Pair KNumber) (scan_number s)
          else None)"

lemma take_space_len: "length (snd (take_space s)) \<le> length s"
  by (simp add: take_space_def length_dropWhile_le)

lemma scan_body_sum: "scan_body s = Some (b, r) \<Longrightarrow> s = b @ r \<and> b \<noteq> []"
proof (induction s arbitrary: b r rule: scan_body.induct)
  case (2 c s)
  show ?case
  proof (cases "c = quote \<or> (of_char c :: nat) < 32")
    case True
    with 2(4) show ?thesis by (auto split: if_splits)
  next
    case plain: False
    show ?thesis
    proof (cases "c = backslash")
      case False
      with 2(3) [of _ r] 2(4) plain show ?thesis by (auto simp del: of_char_of)
    next
      case True
      then obtain e s1 where s: "s = e # s1" using 2(4) plain by (cases s) auto
      show ?thesis
      proof (cases "escape_char e")
        case esc: True
        then obtain b1 where "scan_body s1 = Some (b1, r)" "b = c # e # b1" using 2(4) plain True s by auto
        with 2(1) [of e s1 b1 r] plain True s esc show ?thesis by simp
      next
        case False
        have u: "e = CHR ''u''" using 2(4) plain True s False by (auto split: if_splits)
        have "\<exists>h1 h2 h3 h4 s2. s1 = h1 # h2 # h3 # h4 # s2"
          using 2(4) plain True s False u by (auto split: list.splits)
        then obtain h1 h2 h3 h4 s2 where s1: "s1 = h1 # h2 # h3 # h4 # s2" by blast
        have hex: "isHex h1 \<and> isHex h2 \<and> isHex h3 \<and> isHex h4"
          using 2(4) plain True s False u s1 by (auto split: if_splits)
        then obtain b1 where "scan_body s2 = Some (b1, r)" "b = c # e # h1 # h2 # h3 # h4 # b1"
          using 2(4) plain True s False u s1 by auto
        with 2(2) [OF _ _ _ s False u s1 refl refl refl hex, of b1 r] plain True s s1 show ?thesis by simp
      qed
    qed
  qed
qed simp

lemma scan_string_sum: "scan_string s = Some (b, r) \<Longrightarrow> s = b @ r \<and> b \<noteq> []"
  by (cases s) (auto split: if_splits dest: scan_body_sum)

lemma number_run_sum: "number_run st s = (n, r, st') \<Longrightarrow> s = n @ r"
  by (induction st s arbitrary: n r rule: number_run.induct) (auto split: option.splits prod.splits)

lemma scan_number_sum: "scan_number s = Some (n, r) \<Longrightarrow> s = n @ r \<and> n \<noteq> []"
  using number_run_sum [of NumStart s]
  by (cases s) (auto simp: scan_number_def numberComplete_def split: prod.splits if_splits option.splits)

lemma scan_literal_sum: "scan_literal lit s = Some (b, r) \<Longrightarrow> lit \<noteq> [] \<Longrightarrow> s = b @ r \<and> b \<noteq> []"
  by (auto simp: scan_literal_def starts_with_iff split: if_splits)

lemma scan_scalar_sum: "scan_scalar s = Some (k, raw, r) \<Longrightarrow> s = raw @ r \<and> raw \<noteq> []"
  by (auto simp: scan_scalar_def split: list.splits if_splits dest: scan_body_sum scan_number_sum scan_literal_sum)

lemma member_head_sum: "member_head s = Some (h, raw, nm, r) \<Longrightarrow> s = h @ r \<and> h \<noteq> []"
proof -
  assume a: "member_head s = Some (h, raw, nm, r)"
  have sp: "x = takeWhile isSpace x @ dropWhile isSpace x" for x by simp
  from a obtain s2 where n: "read_name (dropWhile isSpace s) = Some (raw, nm, s2)" "dropWhile isSpace s2 = CHR '':'' # r"
    "h = takeWhile isSpace s @ raw @ takeWhile isSpace s2 @ [CHR '':'']"
    by (auto simp: member_head_def take_space_def split: option.splits list.splits if_splits)
  then have "dropWhile isSpace s = raw @ s2"
    using scan_string_sum [of "dropWhile isSpace s"] by (auto simp: read_name_def split: option.splits if_splits)
  then show ?thesis using sp [of s] sp [of s2] n(2,3) by simp
qed

lemma take_space_shorter: "take_space s = (w, c # t) \<Longrightarrow> length t < length s"
proof -
  assume "take_space s = (w, c # t)"
  then have "dropWhile isSpace s = c # t" by (simp add: take_space_def)
  then show ?thesis using length_dropWhile_le [of isSpace s] by simp
qed

lemma take_space_shorter': "(w, c # t) = take_space s \<Longrightarrow> length t < length s"
  using take_space_shorter [of s w c t] by simp

lemma take_space_shorter2: "(w, c # t) = take_space s \<Longrightarrow> (w', d # t') = take_space t \<Longrightarrow> length t' < length s"
  using take_space_shorter' [of w c t s] take_space_shorter' [of w' d t' t] by simp

lemma member_head_shorter: "(w, c # t) = take_space s \<Longrightarrow> member_head t = Some (h, raw, nm, r) \<Longrightarrow> length r < length s"
  using take_space_shorter' [of w c t s] member_head_sum [of t h raw nm r] by auto

lemma scan_scalar_shorter: "(w, c # t) = take_space s \<Longrightarrow> scan_scalar (c # t) = Some (k, raw, r) \<Longrightarrow> length r < length s"
  using take_space_shorter' [of w c t s] scan_scalar_sum [of "c # t" k raw r] by (cases raw) auto

text \<open>
  \<open>value\<close>: one value from the input, its containers kept on the path, which grows and shrinks above
  \<open>floor\<close>. \<open>ended\<close> tells which of its two loops runs: the one before a value, or the one after a value has
  ended, which closes containers and moves to the next sibling.
\<close>

function walk :: "'s visitor \<Rightarrow> bool \<Rightarrow> nat \<Rightarrow> path_elem list \<Rightarrow> 's \<Rightarrow> string \<Rightarrow> string
    \<Rightarrow> json_error + (string \<times> 's \<times> string)" where
  "walk v ended flr path st out s =
     (if ended then
        (if length path = flr then Inr (out, st, s)
         else case take_space s of
           (w, []) \<Rightarrow> Inl ErrSyntax
         | (w, c # t) \<Rightarrow>
             (case last path of
                Index i \<Rightarrow>
                  if c = CHR '','' then walk v False flr (butlast path @ [Index (i + 1)]) st (out @ w @ [c]) t
                  else if c = CHR '']'' then walk v True flr (butlast path) st (out @ w @ [c]) t
                  else Inl ErrSyntax
              | Key k \<Rightarrow>
                  if c = CHR '','' then
                    (case member_head t of
                       None \<Rightarrow> Inl ErrSyntax
                     | Some (h, raw, nm, r) \<Rightarrow> walk v False flr (butlast path @ [Key nm]) st (out @ w @ c # h) r)
                  else if c = CHR ''}'' then walk v True flr (butlast path) st (out @ w @ [c]) t
                  else Inl ErrSyntax))
      else case take_space s of
        (w, []) \<Rightarrow> Inl ErrSyntax
      | (w, c # t) \<Rightarrow>
          if c = CHR ''{'' \<or> c = CHR ''['' then
            (if maxDepth \<le> length path - flr then Inl ErrSyntax
             else case take_space t of
               (w1, []) \<Rightarrow> Inl ErrSyntax
             | (w1, d # t1) \<Rightarrow>
                 if c = CHR ''{'' \<and> d = CHR ''}'' \<or> c = CHR ''['' \<and> d = CHR '']'' then
                   walk v True flr path st (out @ w @ c # w1 @ [d]) t1
                 else if c = CHR ''{'' then
                   (case member_head t of
                      None \<Rightarrow> Inl ErrSyntax
                    | Some (h, raw, nm, r) \<Rightarrow> walk v False flr (path @ [Key nm]) st (out @ w @ c # h) r)
                 else walk v False flr (path @ [Index 0]) st (out @ w @ [c]) t)
          else (case scan_scalar (c # t) of
                  None \<Rightarrow> Inl ErrSyntax
                | Some (k, raw, r) \<Rightarrow>
                    (case visit_scalar v st path k raw of (o1, st1) \<Rightarrow> walk v True flr path st1 (out @ w @ o1) r)))"
  by pat_completeness auto

termination
  by (relation "measure (\<lambda>(v, e, f, p, st, out, s). length s)")
    (auto dest: take_space_shorter' take_space_shorter2 member_head_shorter scan_scalar_shorter)

declare walk.simps [simp del]

text \<open>\<open>Rewrite\<close>: the value, then nothing but whitespace.\<close>

definition json_Rewrite :: "'s visitor \<Rightarrow> path_elem list \<Rightarrow> 's \<Rightarrow> string \<Rightarrow> json_error + (string \<times> 's)" where
  "json_Rewrite v prefix st s =
     (case walk v False (length prefix) prefix st [] s of
        Inl e \<Rightarrow> Inl e
      | Inr (out, st1, r) \<Rightarrow> (case finish_space r of Inl e \<Rightarrow> Inl e | Inr w \<Rightarrow> Inr (out @ w, st1)))"

section \<open>The texts\<close>

text \<open>
  JSON as the grammar of RFC 8259 gives it, and what a visitor makes of it: \<open>visits v d p st t st' o\<close>
  says that \<open>t\<close> is a value nested at most \<open>d\<close> deep, that visiting its scalars in order at the paths below
  \<open>p\<close> takes the state from \<open>st\<close> to \<open>st'\<close>, and that \<open>o\<close> is \<open>t\<close> with the replacements made.
\<close>

definition spaces :: "string \<Rightarrow> bool" where
  "spaces w \<longleftrightarrow> list_all isSpace w"

definition string_unit :: "string \<Rightarrow> bool" where
  "string_unit u \<longleftrightarrow>
     (\<exists>c. u = [c] \<and> c \<noteq> quote \<and> c \<noteq> backslash \<and> 32 \<le> (of_char c :: nat))
     \<or> (\<exists>e. u = [backslash, e] \<and> escape_char e)
     \<or> (\<exists>a b c d. u = [backslash, CHR ''u'', a, b, c, d] \<and> isHex a \<and> isHex b \<and> isHex c \<and> isHex d)"

definition string_text :: "string \<Rightarrow> bool" where
  "string_text s \<longleftrightarrow> (\<exists>us. s = quote # concat us @ [quote] \<and> list_all string_unit us)"

definition digits1 :: "string \<Rightarrow> bool" where
  "digits1 s \<longleftrightarrow> s \<noteq> [] \<and> list_all is_digit s"

definition exp_text :: "string \<Rightarrow> bool" where
  "exp_text s \<longleftrightarrow> s = [] \<or> (\<exists>e sn ds. s = e # sn @ ds \<and> e \<in> set ''eE'' \<and> sn \<in> {[], ''+'', ''-''} \<and> digits1 ds)"

definition frac_text :: "string \<Rightarrow> bool" where
  "frac_text s \<longleftrightarrow> (\<exists>fp ep. s = fp @ ep \<and> (fp = [] \<or> (\<exists>ds. fp = CHR ''.'' # ds \<and> digits1 ds)) \<and> exp_text ep)"

definition int_text :: "string \<Rightarrow> bool" where
  "int_text s \<longleftrightarrow> (\<exists>ip r. s = ip @ r \<and> (ip = ''0'' \<or> digits1 ip \<and> hd ip \<noteq> CHR ''0'') \<and> frac_text r)"

definition number_text :: "string \<Rightarrow> bool" where
  "number_text s \<longleftrightarrow> int_text s \<or> (\<exists>t. s = CHR ''-'' # t \<and> int_text t)"

definition scalar_text :: "json_kind \<Rightarrow> string \<Rightarrow> bool" where
  "scalar_text k s = (case k of KString \<Rightarrow> string_text s | KNumber \<Rightarrow> number_text s \<and> length s \<le> MaxVisitString
     | KBool \<Rightarrow> s = ''true'' \<or> s = ''false'' | KNull \<Rightarrow> s = ''null'' | KLongString \<Rightarrow> False)"

definition name_of :: "string \<Rightarrow> string" where
  "name_of raw = (if backslash \<in> set raw then unquote (butlast (tl raw)) else butlast (tl raw))"

definition head_text :: "string \<Rightarrow> string \<Rightarrow> bool" where
  "head_text h nm \<longleftrightarrow> (\<exists>w1 raw w2. h = w1 @ raw @ w2 @ '':'' \<and> spaces w1 \<and> spaces w2 \<and> string_text raw
     \<and> length raw \<le> maxNameBytes \<and> nm = name_of raw)"

inductive visits :: "'s visitor \<Rightarrow> nat \<Rightarrow> path_elem list \<Rightarrow> 's \<Rightarrow> string \<Rightarrow> 's \<Rightarrow> string \<Rightarrow> bool"
  and visits_items :: "'s visitor \<Rightarrow> nat \<Rightarrow> path_elem list \<Rightarrow> int \<Rightarrow> 's \<Rightarrow> string \<Rightarrow> 's \<Rightarrow> string \<Rightarrow> bool"
  and visits_members :: "'s visitor \<Rightarrow> nat \<Rightarrow> path_elem list \<Rightarrow> string \<Rightarrow> 's \<Rightarrow> string \<Rightarrow> 's \<Rightarrow> string \<Rightarrow> bool"
  for v where
  rw_scalar: "scalar_text k raw \<Longrightarrow> visit_scalar v st p k raw = (o1, st1) \<Longrightarrow> visits v d p st raw st1 o1"
| rw_no_items: "spaces w \<Longrightarrow> visits v (Suc d) p st (''['' @ w @ '']'') st (''['' @ w @ '']'')"
| rw_no_members: "spaces w \<Longrightarrow> visits v (Suc d) p st (''{'' @ w @ ''}'') st (''{'' @ w @ ''}'')"
| rw_array: "visits_items v d p 0 st t st1 o1 \<Longrightarrow> visits v (Suc d) p st (''['' @ t @ '']'') st1 (''['' @ o1 @ '']'')"
| rw_object: "head_text h nm \<Longrightarrow> visits_members v d p nm st t st1 o1 \<Longrightarrow>
    visits v (Suc d) p st (''{'' @ h @ t @ ''}'') st1 (''{'' @ h @ o1 @ ''}'')"
| rw_item: "spaces w1 \<Longrightarrow> visits v d (p @ [Index i]) st t st1 o1 \<Longrightarrow> spaces w2 \<Longrightarrow>
    visits_items v d p i st (w1 @ t @ w2) st1 (w1 @ o1 @ w2)"
| rw_items: "spaces w1 \<Longrightarrow> visits v d (p @ [Index i]) st t st1 o1 \<Longrightarrow> spaces w2 \<Longrightarrow>
    visits_items v d p (i + 1) st1 u st2 o2 \<Longrightarrow>
    visits_items v d p i st (w1 @ t @ w2 @ '','' @ u) st2 (w1 @ o1 @ w2 @ '','' @ o2)"
| rw_member: "spaces w1 \<Longrightarrow> visits v d (p @ [Key nm]) st t st1 o1 \<Longrightarrow> spaces w2 \<Longrightarrow>
    visits_members v d p nm st (w1 @ t @ w2) st1 (w1 @ o1 @ w2)"
| rw_members: "spaces w1 \<Longrightarrow> visits v d (p @ [Key nm]) st t st1 o1 \<Longrightarrow> spaces w2 \<Longrightarrow> head_text h nm2 \<Longrightarrow>
    visits_members v d p nm2 st1 u st2 o2 \<Longrightarrow>
    visits_members v d p nm st (w1 @ t @ w2 @ '','' @ h @ u) st2 (w1 @ o1 @ w2 @ '','' @ h @ o2)"

section \<open>Scanners and texts\<close>

lemma take_space_spaces: "spaces w \<Longrightarrow> t \<noteq> [] \<Longrightarrow> \<not> isSpace (hd t) \<Longrightarrow> take_space (w @ t) = (w, t)"
  by (cases t) (auto simp: take_space_def spaces_def list_all_iff takeWhile_append dropWhile_append)

lemma take_space_eq: "take_space s = (w, t) \<Longrightarrow> s = w @ t \<and> spaces w \<and> (t = [] \<or> \<not> isSpace (hd t))"
  by (auto simp: take_space_def spaces_def list_all_iff hd_dropWhile dest: set_takeWhileD)

lemma scan_body_unit: "string_unit u \<Longrightarrow> scan_body (u @ s) = map_option (\<lambda>(b, r). (u @ b, r)) (scan_body s)"
  unfolding string_unit_def
  by (auto simp: quote_def backslash_def escape_char_def option.map_comp comp_def split_def)

lemma scan_body_units: "list_all string_unit us \<Longrightarrow> scan_body (concat us @ quote # r) = Some (concat us @ [quote], r)"
  by (induction us) (auto simp: scan_body_unit)

lemma scan_string_text: "string_text s \<Longrightarrow> scan_string (s @ r) = Some (s, r)"
  by (auto simp: string_text_def scan_body_units)

lemma scan_body_text: "scan_body s = Some (b, r) \<Longrightarrow> \<exists>us. b = concat us @ [quote] \<and> list_all string_unit us"
proof (induction s arbitrary: b r rule: scan_body.induct)
  case (2 c s)
  have more: "\<exists>us. u @ b1 = concat us @ [quote] \<and> list_all string_unit us"
    if u: "string_unit u" and b: "\<exists>us. b1 = concat us @ [quote] \<and> list_all string_unit us" for u b1
  proof -
    obtain us where "b1 = concat us @ [quote]" "list_all string_unit us" using b by blast
    with u show ?thesis by (intro exI [of _ "u # us"]) simp
  qed
  show ?case
  proof (cases "c = quote \<or> (of_char c :: nat) < 32")
    case True
    with 2(4) show ?thesis by (auto split: if_splits intro: exI [of _ "[]"])
  next
    case plain: False
    show ?thesis
    proof (cases "c = backslash")
      case False
      then obtain b1 where b1: "scan_body s = Some (b1, r)" "b = [c] @ b1" using 2(4) plain by auto
      have "string_unit [c]" using plain False by (simp add: string_unit_def)
      from more [OF this 2(3) [OF _ _ False b1(1)]] plain b1(2) show ?thesis by simp
    next
      case True
      then obtain e s1 where s: "s = e # s1" using 2(4) plain by (cases s) auto
      show ?thesis
      proof (cases "escape_char e")
        case esc: True
        then obtain b1 where b1: "scan_body s1 = Some (b1, r)" "b = [c, e] @ b1" using 2(4) plain True s by auto
        have "string_unit [c, e]" using True esc by (auto simp: string_unit_def)
        from more [OF this 2(1) [OF _ _ True s esc b1(1)]] plain b1(2) show ?thesis by simp
      next
        case False
        have u: "e = CHR ''u''" using 2(4) plain True s False by (auto split: if_splits)
        have "\<exists>h1 h2 h3 h4 s2. s1 = h1 # h2 # h3 # h4 # s2"
          using 2(4) plain True s False u by (auto split: list.splits)
        then obtain h1 h2 h3 h4 s2 where s1: "s1 = h1 # h2 # h3 # h4 # s2" by blast
        have hex: "isHex h1 \<and> isHex h2 \<and> isHex h3 \<and> isHex h4"
          using 2(4) plain True s False u s1 by (auto split: if_splits)
        then obtain b1 where b1: "scan_body s2 = Some (b1, r)" "b = [c, e, h1, h2, h3, h4] @ b1"
          using 2(4) plain True s False u s1 by auto
        have "string_unit [c, e, h1, h2, h3, h4]" using True u hex by (auto simp: string_unit_def)
        from more [OF this 2(2) [OF _ _ True s False u s1 refl refl refl hex b1(1)]] plain b1(2) show ?thesis by simp
      qed
    qed
  qed
qed simp

lemma scan_string_iff: "scan_string s = Some (t, r) \<longleftrightarrow> s = t @ r \<and> string_text t"
proof
  assume a: "scan_string s = Some (t, r)"
  then obtain s' b where "s = quote # s'" "scan_body s' = Some (b, r)" "t = quote # b"
    by (cases s) (auto split: if_splits)
  then show "s = t @ r \<and> string_text t" using scan_body_text scan_string_sum [OF a] by (fastforce simp: string_text_def)
qed (auto simp: scan_string_text)

lemma string_text_head: "string_text s \<Longrightarrow> \<exists>t. s = quote # t"
  by (auto simp: string_text_def)

subsection \<open>Numbers\<close>

text \<open>What each state of the automaton has still to read for the number to be complete.\<close>

definition digits_then :: "(string \<Rightarrow> bool) \<Rightarrow> string \<Rightarrow> bool" where
  "digits_then P s \<longleftrightarrow> (\<exists>ds r. s = ds @ r \<and> list_all is_digit ds \<and> P r)"

fun num_rest :: "num_state \<Rightarrow> string \<Rightarrow> bool" where
  "num_rest NumStart s = (int_text s \<or> (\<exists>t. s = CHR ''-'' # t \<and> int_text t))"
| "num_rest NumSign s = int_text s"
| "num_rest NumZero s = frac_text s"
| "num_rest NumInt s = digits_then frac_text s"
| "num_rest NumDot s = (\<exists>ds r. s = ds @ r \<and> digits1 ds \<and> exp_text r)"
| "num_rest NumFrac s = digits_then exp_text s"
| "num_rest NumE s = (\<exists>sn ds. s = sn @ ds \<and> sn \<in> {[], ''+'', ''-''} \<and> digits1 ds)"
| "num_rest NumESign s = digits1 s"
| "num_rest NumExp s = list_all is_digit s"

lemma num_rest_nil: "num_rest st [] \<longleftrightarrow> numberComplete st"
  by (cases st) (auto simp: numberComplete_def int_text_def frac_text_def exp_text_def digits_then_def digits1_def)

lemma digits_then_Cons: "digits_then P (c # s) \<longleftrightarrow> P (c # s) \<or> is_digit c \<and> digits_then P s"
proof
  assume "digits_then P (c # s)"
  then obtain ds r where "c # s = ds @ r" "list_all is_digit ds" "P r" unfolding digits_then_def by blast
  then show "P (c # s) \<or> is_digit c \<and> digits_then P s" unfolding digits_then_def by (cases ds) auto
next
  assume "P (c # s) \<or> is_digit c \<and> digits_then P s"
  then consider "P (c # s)" | ds r where "is_digit c" "s = ds @ r" "list_all is_digit ds" "P r"
    unfolding digits_then_def by blast
  then show "digits_then P (c # s)"
  proof cases
    case 1
    then show ?thesis unfolding digits_then_def by (intro exI [of _ "[]"] exI [of _ "c # s"]) simp
  next
    case 2
    then show ?thesis unfolding digits_then_def by (intro exI [of _ "c # ds"] exI [of _ r]) simp
  qed
qed

lemma digits1_then: "(\<exists>ds r. c # s = ds @ r \<and> digits1 ds \<and> P r) \<longleftrightarrow> is_digit c \<and> digits_then P s"
proof
  assume "\<exists>ds r. c # s = ds @ r \<and> digits1 ds \<and> P r"
  then obtain ds r where "c # s = ds @ r" "digits1 ds" "P r" by blast
  then show "is_digit c \<and> digits_then P s" unfolding digits_then_def digits1_def by (cases ds) auto
next
  assume "is_digit c \<and> digits_then P s"
  then obtain ds r where "s = ds @ r" "list_all is_digit ds" "P r" "is_digit c" unfolding digits_then_def by blast
  then show "\<exists>ds r. c # s = ds @ r \<and> digits1 ds \<and> P r" unfolding digits1_def by (intro exI [of _ "c # ds"] exI [of _ r]) simp
qed

lemma exp_text_Cons: "exp_text (c # s) \<longleftrightarrow> c \<in> set ''eE'' \<and> num_rest NumE s"
  by (auto simp: exp_text_def)

lemma frac_text_Cons: "frac_text (c # s) \<longleftrightarrow> c = CHR ''.'' \<and> num_rest NumDot s \<or> exp_text (c # s)"
proof
  assume "frac_text (c # s)"
  then obtain fp ep where f: "c # s = fp @ ep" "fp = [] \<or> (\<exists>ds. fp = CHR ''.'' # ds \<and> digits1 ds)" "exp_text ep"
    unfolding frac_text_def by blast
  then show "c = CHR ''.'' \<and> num_rest NumDot s \<or> exp_text (c # s)" by (cases fp) auto
next
  assume "c = CHR ''.'' \<and> num_rest NumDot s \<or> exp_text (c # s)"
  then consider "exp_text (c # s)" | ds r where "c = CHR ''.''" "s = ds @ r" "digits1 ds" "exp_text r" by auto
  then show "frac_text (c # s)"
  proof cases
    case 1
    then show ?thesis unfolding frac_text_def by (intro exI [of _ "[]"] exI [of _ "c # s"]) simp
  next
    case 2
    then show ?thesis unfolding frac_text_def by (intro exI [of _ "c # ds"] exI [of _ r]) simp
  qed
qed

lemma int_text_Cons:
  "int_text (c # s) \<longleftrightarrow> c = CHR ''0'' \<and> frac_text s \<or> c \<noteq> CHR ''0'' \<and> is_digit c \<and> digits_then frac_text s"
proof
  assume "int_text (c # s)"
  then obtain ip r where f: "c # s = ip @ r" "ip = ''0'' \<or> digits1 ip \<and> hd ip \<noteq> CHR ''0''" "frac_text r"
    unfolding int_text_def by blast
  then show "c = CHR ''0'' \<and> frac_text s \<or> c \<noteq> CHR ''0'' \<and> is_digit c \<and> digits_then frac_text s"
    unfolding digits_then_def digits1_def by (cases ip) auto
next
  assume "c = CHR ''0'' \<and> frac_text s \<or> c \<noteq> CHR ''0'' \<and> is_digit c \<and> digits_then frac_text s"
  then consider "c = CHR ''0''" "frac_text s"
    | ds r where "c \<noteq> CHR ''0''" "is_digit c" "s = ds @ r" "list_all is_digit ds" "frac_text r"
    unfolding digits_then_def by blast
  then show "int_text (c # s)"
  proof cases
    case 1
    then show ?thesis unfolding int_text_def by (intro exI [of _ "''0''"] exI [of _ s]) simp
  next
    case 2
    then show ?thesis unfolding int_text_def digits1_def by (intro exI [of _ "c # ds"] exI [of _ r]) simp
  qed
qed

lemma expo_Cons: "num_rest NumE (c # s) \<longleftrightarrow> c \<in> set ''+-'' \<and> digits1 s \<or> is_digit c \<and> list_all is_digit s"
proof
  assume "num_rest NumE (c # s)"
  then obtain sn ds where "c # s = sn @ ds" "sn \<in> {[], ''+'', ''-''}" "digits1 ds" by auto
  then show "c \<in> set ''+-'' \<and> digits1 s \<or> is_digit c \<and> list_all is_digit s"
    by (cases sn) (auto simp: digits1_def)
next
  assume "c \<in> set ''+-'' \<and> digits1 s \<or> is_digit c \<and> list_all is_digit s"
  then consider "c \<in> set ''+-''" "digits1 s" | "is_digit c" "list_all is_digit s" by blast
  then show "num_rest NumE (c # s)"
  proof cases
    case 1
    then have "c # s = [c] @ s \<and> [c] \<in> {[], ''+'', ''-''} \<and> digits1 s" by auto
    then show ?thesis unfolding num_rest.simps by blast
  next
    case 2
    then have "c # s = [] @ (c # s) \<and> [] \<in> {[], ''+'', ''-''} \<and> digits1 (c # s)" by (simp add: digits1_def)
    then show ?thesis unfolding num_rest.simps by blast
  qed
qed

lemma digit_not: "is_digit c \<Longrightarrow> c \<notin> set ''-+.eE''"
  by (auto simp: is_digit_def)

lemma num_rest_Cons: "num_rest st (c # s) \<longleftrightarrow> (\<exists>st'. numberStep st c = Some st' \<and> num_rest st' s)"
proof (cases st)
  case NumStart
  then show ?thesis using digit_not [of c] by (auto simp: int_text_Cons lead_digit_def)
next
  case NumSign
  then show ?thesis by (auto simp: int_text_Cons lead_digit_def)
next
  case NumZero
  then show ?thesis by (auto simp: frac_text_Cons exp_text_Cons)
next
  case NumInt
  then show ?thesis using digit_not [of c] by (auto simp: digits_then_Cons frac_text_Cons exp_text_Cons)
next
  case NumDot
  then show ?thesis by (auto simp: digits1_then)
next
  case NumFrac
  then show ?thesis using digit_not [of c] by (auto simp: digits_then_Cons exp_text_Cons)
next
  case NumE
  then show ?thesis unfolding NumE expo_Cons using digit_not [of c] by auto
next
  case NumESign
  then show ?thesis by (auto simp: digits1_def)
next
  case NumExp
  then show ?thesis by auto
qed

lemma number_text_rest: "number_text s \<longleftrightarrow> num_rest NumStart s"
  by (simp add: number_text_def)

text \<open>The automaton reads the longest run it can; a text read in full is in the grammar, and a text of the
  grammar is read in full before a byte that cannot continue a number.\<close>

lemma number_run_rest:
  "number_run st s = (n, r, st') \<Longrightarrow> s = n @ r \<and> (num_rest st n \<longleftrightarrow> numberComplete st') \<and> (r = [] \<or> numberStep st' (hd r) = None)"
proof (induction st s arbitrary: n r rule: number_run.induct)
  case (2 st c s)
  show ?case
  proof (cases "numberStep st c")
    case None
    with 2(2) show ?thesis by (auto simp: num_rest_nil)
  next
    case (Some st1)
    then obtain n1 where "number_run st1 s = (n1, r, st')" "n = c # n1" using 2(2) by (auto split: prod.splits)
    with 2(1) [OF Some, of n1 r] Some show ?thesis by (simp add: num_rest_Cons)
  qed
qed (simp add: num_rest_nil)

definition delimiter :: "string \<Rightarrow> bool" where
  "delimiter r \<longleftrightarrow> r = [] \<or> isSpace (hd r) \<or> hd r \<in> set '',]}''"

lemma delimiter_stops: "delimiter r \<Longrightarrow> r \<noteq> [] \<Longrightarrow> numberStep st (hd r) = None"
  by (cases st) (auto simp: delimiter_def isSpace_def lead_digit_def is_digit_def)

lemma number_run_text: "num_rest st n \<Longrightarrow> delimiter r \<Longrightarrow> \<exists>st'. number_run st (n @ r) = (n, r, st') \<and> numberComplete st'"
proof (induction n arbitrary: st)
  case Nil
  then show ?case using delimiter_stops [of r st] by (cases r) (auto simp: num_rest_nil)
next
  case (Cons c n)
  then obtain st1 where "numberStep st c = Some st1" "num_rest st1 n" by (auto simp: num_rest_Cons)
  with Cons.IH [of st1] Cons.prems(2) show ?case by auto
qed

lemma scan_number_text: "number_text n \<Longrightarrow> length n \<le> MaxVisitString \<Longrightarrow> delimiter r \<Longrightarrow> scan_number (n @ r) = Some (n, r)"
  using number_run_text [of NumStart n r] by (auto simp: scan_number_def number_text_rest)

lemma scan_number_some: "scan_number s = Some (n, r) \<Longrightarrow> s = n @ r \<and> number_text n \<and> length n \<le> MaxVisitString"
  using number_run_rest [of NumStart s] by (auto simp: scan_number_def number_text_rest split: prod.splits if_splits)

subsection \<open>Scalars and member heads\<close>

lemma number_text_head: "number_text n \<Longrightarrow> \<exists>c t. n = c # t \<and> (c = CHR ''-'' \<or> is_digit c)"
proof -
  assume "number_text n"
  moreover have "n \<noteq> []" using num_rest_nil [of NumStart] calculation by (auto simp: number_text_rest numberComplete_def)
  ultimately show ?thesis
    by (cases n) (auto simp: number_text_def int_text_Cons is_digit_def)
qed

lemma scan_scalar_text:
  assumes "scalar_text k t" and "delimiter r"
  shows "scan_scalar (t @ r) = Some (k, t, r) \<and> t \<noteq> [] \<and> \<not> isSpace (hd t) \<and> hd t \<notin> set ''{[''"
proof (cases k)
  case KString
  with assms have "string_text t" by (simp add: scalar_text_def)
  with scan_string_text [OF this, of r] string_text_head [OF this] KString show ?thesis
    by (auto simp: scan_scalar_def quote_def isSpace_def simp del: scan_string.simps)
next
  case KNumber
  with assms have n: "number_text t" "length t \<le> MaxVisitString" by (auto simp: scalar_text_def)
  from number_text_head [OF n(1)] obtain c u where t: "t = c # u" "c = CHR ''-'' \<or> is_digit c" by blast
  have "c \<noteq> quote" "c \<notin> set ''tfn{[''" "\<not> isSpace c" using t(2) by (auto simp: quote_def is_digit_def isSpace_def)
  with scan_number_text [OF n assms(2)] t KNumber show ?thesis by (auto simp: scan_scalar_def)
next
  case KBool
  with assms show ?thesis
    by (auto simp: scalar_text_def scan_scalar_def scan_literal_def quote_def isSpace_def starts_with_iff)
next
  case KNull
  with assms show ?thesis
    by (auto simp: scalar_text_def scan_scalar_def scan_literal_def quote_def isSpace_def starts_with_iff)
next
  case KLongString
  with assms show ?thesis by (simp add: scalar_text_def)
qed

lemma scan_scalar_some: "scan_scalar s = Some (k, t, r) \<Longrightarrow> s = t @ r \<and> scalar_text k t"
proof (cases s)
  case (Cons c u)
  assume a: "scan_scalar s = Some (k, t, r)"
  consider "c = quote" "k = KString" "scan_string s = Some (t, r)"
    | "k = KBool" "scan_literal ''true'' s = Some (t, r)" | "k = KBool" "scan_literal ''false'' s = Some (t, r)"
    | "k = KNull" "scan_literal ''null'' s = Some (t, r)" | "k = KNumber" "scan_number s = Some (t, r)"
    using a Cons by (auto simp: scan_scalar_def simp del: scan_string.simps split: if_splits)
  then show ?thesis
  proof cases
    case 1
    then show ?thesis by (simp add: scan_string_iff scalar_text_def)
  next
    case 5
    then show ?thesis using scan_number_some [of s t r] by (simp add: scalar_text_def)
  qed (auto simp: scan_literal_def scalar_text_def starts_with_iff split: if_splits)
qed (simp add: scan_scalar_def)

lemma member_head_text:
  assumes "head_text h nm"
  shows "\<exists>raw. member_head (h @ r) = Some (h, raw, nm, r)"
proof -
  obtain w1 raw w2 where h: "h = w1 @ raw @ w2 @ '':''" "spaces w1" "spaces w2" "string_text raw"
    "length raw \<le> maxNameBytes" "nm = name_of raw" using assms by (auto simp: head_text_def)
  obtain t where t: "raw = quote # t" using string_text_head [OF h(4)] by blast
  have "take_space (w1 @ raw @ w2 @ '':'' @ r) = (w1, raw @ w2 @ '':'' @ r)"
    using t by (intro take_space_spaces [OF h(2)]) (auto simp: quote_def isSpace_def)
  moreover have "take_space (w2 @ '':'' @ r) = (w2, '':'' @ r)" by (intro take_space_spaces [OF h(3)]) (auto simp: isSpace_def)
  moreover have "read_name (raw @ w2 @ '':'' @ r) = Some (raw, nm, w2 @ '':'' @ r)"
    using scan_string_text [OF h(4)] h(5,6) by (simp add: read_name_def name_of_def)
  ultimately show ?thesis using h(1) by (simp add: member_head_def)
qed

lemma member_head_some:
  assumes "member_head s = Some (h, raw, nm, r)"
  shows "s = h @ r \<and> head_text h nm"
proof -
  obtain w1 s1 s2 w2 where n: "take_space s = (w1, s1)" "read_name s1 = Some (raw, nm, s2)" "take_space s2 = (w2, CHR '':'' # r)"
    "h = w1 @ raw @ w2 @ [CHR '':'']"
    using assms by (auto simp: member_head_def split: option.splits list.splits if_splits prod.splits)
  then have "scan_string s1 = Some (raw, s2)" "length raw \<le> maxNameBytes" "nm = name_of raw"
    by (auto simp: read_name_def name_of_def split: option.splits if_splits)
  then show ?thesis using take_space_eq [OF n(1)] take_space_eq [OF n(3)] n(4)
    unfolding head_text_def scan_string_iff by auto
qed

section \<open>The walker and the grammar\<close>

lemma walk_before:
  "walk v False flr path st out s =
     (case take_space s of
        (w, []) \<Rightarrow> Inl ErrSyntax
      | (w, c # t) \<Rightarrow>
          if c = CHR ''{'' \<or> c = CHR ''['' then
            (if maxDepth \<le> length path - flr then Inl ErrSyntax
             else case take_space t of
               (w1, []) \<Rightarrow> Inl ErrSyntax
             | (w1, d # t1) \<Rightarrow>
                 if c = CHR ''{'' \<and> d = CHR ''}'' \<or> c = CHR ''['' \<and> d = CHR '']'' then
                   walk v True flr path st (out @ w @ c # w1 @ [d]) t1
                 else if c = CHR ''{'' then
                   (case member_head t of
                      None \<Rightarrow> Inl ErrSyntax
                    | Some (h, raw, nm, r) \<Rightarrow> walk v False flr (path @ [Key nm]) st (out @ w @ c # h) r)
                 else walk v False flr (path @ [Index 0]) st (out @ w @ [c]) t)
          else (case scan_scalar (c # t) of
                  None \<Rightarrow> Inl ErrSyntax
                | Some (k, raw, r) \<Rightarrow>
                    (case visit_scalar v st path k raw of (o1, st1) \<Rightarrow> walk v True flr path st1 (out @ w @ o1) r)))"
  by (subst walk.simps) simp

lemma walk_done: "length path = flr \<Longrightarrow> walk v True flr path st out s = Inr (out, st, s)"
  by (subst walk.simps) simp

lemma walk_item:
  assumes "flr \<le> length path" and "spaces w" and "\<not> isSpace c"
  shows "walk v True flr (path @ [Index i]) st out (w @ c # t) =
    (if c = CHR '','' then walk v False flr (path @ [Index (i + 1)]) st (out @ w @ [c]) t
     else if c = CHR '']'' then walk v True flr path st (out @ w @ [c]) t
     else Inl ErrSyntax)"
  using assms take_space_spaces [of w "c # t"] by (subst walk.simps) simp

lemma walk_member:
  assumes "flr \<le> length path" and "spaces w" and "\<not> isSpace c"
  shows "walk v True flr (path @ [Key k]) st out (w @ c # t) =
    (if c = CHR '','' then
       (case member_head t of
          None \<Rightarrow> Inl ErrSyntax
        | Some (h, raw, nm, r) \<Rightarrow> walk v False flr (path @ [Key nm]) st (out @ w @ c # h) r)
     else if c = CHR ''}'' then walk v True flr path st (out @ w @ [c]) t
     else Inl ErrSyntax)"
  using assms take_space_spaces [of w "c # t"] by (subst walk.simps) (simp split: option.split)

lemma delimiter_spaces: "spaces w \<Longrightarrow> delimiter r \<Longrightarrow> delimiter (w @ r)"
  by (cases w) (auto simp: delimiter_def spaces_def)

text \<open>Completeness: a text of the grammar is walked, with the replacements its visits give.\<close>

lemma visits_head:
  "visits v d p st t st' o' \<Longrightarrow> t \<noteq> [] \<and> \<not> isSpace (hd t) \<and> hd t \<notin> set '']}''"
  "visits_items v d p i st t st' o' \<Longrightarrow> \<exists>w c u. t = w @ c # u \<and> spaces w \<and> \<not> isSpace c \<and> c \<notin> set '']}''"
  "visits_members v d p nm st t st' o' \<Longrightarrow> True"
proof (induction rule: visits_visits_items_visits_members.inducts)
  case (rw_scalar k raw st p o1 st1 d)
  have "hd raw \<notin> set '']}''"
    using rw_scalar(1) number_text_head [of raw]
    by (auto simp: scalar_text_def quote_def is_digit_def dest!: string_text_head split: json_kind.splits)
  with scan_scalar_text [OF rw_scalar(1), of "[]"] show ?case by (simp add: delimiter_def)
next
  case (rw_item w1 d p i st t st1 o1 w2)
  then show ?case by (cases t) force+
next
  case (rw_items w1 d p i st t st1 o1 w2 u st2 o2)
  then show ?case by (cases t) force+
qed (auto simp: isSpace_def)

lemma walk_scalar:
  assumes "scan_scalar (t @ r) = Some (k, t, r)" and "t \<noteq> []" and "\<not> isSpace (hd t)" and "hd t \<notin> set ''{[''"
    and "spaces w" and "visit_scalar v st p k t = (o1, st1)"
  shows "walk v False flr p st out (w @ t @ r) = walk v True flr p st1 (out @ w @ o1) r"
proof -
  obtain c u where t: "t = c # u" using assms(2) by (cases t) auto
  then have "take_space (w @ t @ r) = (w, c # u @ r)" using take_space_spaces [OF assms(5), of "c # u @ r"] assms(3) by simp
  then show ?thesis using assms t by (subst walk_before) simp
qed

lemma walk_open:
  assumes "spaces w" and "\<not> maxDepth \<le> length p - flr" and "take_space s = (w1, c # u)"
  shows "c \<noteq> CHR '']'' \<Longrightarrow> walk v False flr p st out (w @ CHR ''['' # s) = walk v False flr (p @ [Index 0]) st (out @ w @ ''['') s"
    and "c \<noteq> CHR ''}'' \<Longrightarrow> member_head s = Some (h, raw, nm, r) \<Longrightarrow>
      walk v False flr p st out (w @ CHR ''{'' # s) = walk v False flr (p @ [Key nm]) st (out @ w @ CHR ''{'' # h) r"
    and "c = CHR '']'' \<Longrightarrow> walk v False flr p st out (w @ CHR ''['' # s) = walk v True flr p st (out @ w @ ''['' @ w1 @ '']'') u"
    and "c = CHR ''}'' \<Longrightarrow> walk v False flr p st out (w @ CHR ''{'' # s) = walk v True flr p st (out @ w @ ''{'' @ w1 @ ''}'') u"
proof -
  have t: "take_space (w @ b # s) = (w, b # s)" if "b \<in> set ''{[''" for b
    using take_space_spaces [OF assms(1), of "b # s"] that by (auto simp: isSpace_def)
  show "c \<noteq> CHR '']'' \<Longrightarrow> walk v False flr p st out (w @ CHR ''['' # s) = walk v False flr (p @ [Index 0]) st (out @ w @ ''['') s"
    using t [of "CHR ''[''"] assms(2,3) by (subst walk_before) simp
  show "c \<noteq> CHR ''}'' \<Longrightarrow> member_head s = Some (h, raw, nm, r) \<Longrightarrow>
      walk v False flr p st out (w @ CHR ''{'' # s) = walk v False flr (p @ [Key nm]) st (out @ w @ CHR ''{'' # h) r"
    using t [of "CHR ''{''"] assms(2,3) by (subst walk_before) simp
  show "c = CHR '']'' \<Longrightarrow> walk v False flr p st out (w @ CHR ''['' # s) = walk v True flr p st (out @ w @ ''['' @ w1 @ '']'') u"
    using t [of "CHR ''[''"] assms(2,3) by (subst walk_before) simp
  show "c = CHR ''}'' \<Longrightarrow> walk v False flr p st out (w @ CHR ''{'' # s) = walk v True flr p st (out @ w @ ''{'' @ w1 @ ''}'') u"
    using t [of "CHR ''{''"] assms(2,3) by (subst walk_before) simp
qed

lemma head_text_first: "head_text h nm \<Longrightarrow> \<exists>w c u. h = w @ c # u \<and> spaces w \<and> \<not> isSpace c \<and> c \<noteq> CHR ''}''"
  by (auto simp: head_text_def quote_def isSpace_def dest!: string_text_head) blast

lemma visits_walk:
  "visits v d p st t st' o' \<Longrightarrow> flr \<le> length p \<Longrightarrow> d + (length p - flr) \<le> maxDepth \<Longrightarrow> spaces w \<Longrightarrow> delimiter r \<Longrightarrow>
     walk v False flr p st out (w @ t @ r) = walk v True flr p st' (out @ w @ o') r"
  "visits_items v d p i st t st' o' \<Longrightarrow> flr \<le> length p \<Longrightarrow> Suc d + (length p - flr) \<le> maxDepth \<Longrightarrow>
     walk v False flr (p @ [Index i]) st out (t @ CHR '']'' # r) = walk v True flr p st' (out @ o' @ '']'') r"
  "visits_members v d p nm st t st' o' \<Longrightarrow> flr \<le> length p \<Longrightarrow> Suc d + (length p - flr) \<le> maxDepth \<Longrightarrow>
     walk v False flr (p @ [Key nm]) st out (t @ CHR ''}'' # r) = walk v True flr p st' (out @ o' @ ''}'') r"
proof (induction arbitrary: out w r and out r and out r rule: visits_visits_items_visits_members.inducts)
  case (rw_scalar k raw st p o1 st1 d)
  then show ?case using scan_scalar_text [OF rw_scalar(1) \<open>delimiter r\<close>] walk_scalar [of raw r k w v st p o1 st1 flr out] by blast
next
  case (rw_no_items u d p st)
  have ts: "take_space (u @ CHR '']'' # r) = (u, CHR '']'' # r)"
    using take_space_spaces [OF rw_no_items(1), of "CHR '']'' # r"] by (simp add: isSpace_def)
  have nd: "\<not> maxDepth \<le> length p - flr" using rw_no_items(3) by simp
  show ?case using walk_open(3) [where v = v, OF rw_no_items(4) nd ts refl] by simp
next
  case (rw_no_members u d p st)
  have ts: "take_space (u @ CHR ''}'' # r) = (u, CHR ''}'' # r)"
    using take_space_spaces [OF rw_no_members(1), of "CHR ''}'' # r"] by (simp add: isSpace_def)
  have nd: "\<not> maxDepth \<le> length p - flr" using rw_no_members(3) by simp
  show ?case using walk_open(4) [where v = v, OF rw_no_members(4) nd ts refl] by simp
next
  case (rw_array d p st t st1 o1)
  obtain u c x where t: "t = u @ c # x" "spaces u" "\<not> isSpace c" "c \<notin> set '']}''" using visits_head(2) [OF rw_array(1)] by blast
  have ts: "take_space (t @ CHR '']'' # r) = (u, c # x @ CHR '']'' # r)"
    using take_space_spaces [OF t(2), of "c # x @ CHR '']'' # r"] t by simp
  have nd: "\<not> maxDepth \<le> length p - flr" and ne: "c \<noteq> CHR '']''" using rw_array(4) t(4) by auto
  show ?case using walk_open(1) [where v = v, OF rw_array(5) nd ts ne] rw_array(2) [OF rw_array(3,4)] by simp
next
  case (rw_object h nm d p st t st1 o1)
  obtain u c x where t: "h = u @ c # x" "spaces u" "\<not> isSpace c" "c \<noteq> CHR ''}''" using head_text_first [OF rw_object(1)] by blast
  have ts: "take_space (h @ t @ CHR ''}'' # r) = (u, c # x @ t @ CHR ''}'' # r)"
    using take_space_spaces [OF t(2), of "c # x @ t @ CHR ''}'' # r"] t by simp
  obtain raw where mh: "member_head (h @ t @ CHR ''}'' # r) = Some (h, raw, nm, t @ CHR ''}'' # r)"
    using member_head_text [OF rw_object(1)] by blast
  have nd: "\<not> maxDepth \<le> length p - flr" using rw_object(5) by simp
  show ?case using walk_open(2) [where v = v, OF rw_object(6) nd ts t(4) mh] rw_object(3) [OF rw_object(4,5)] by simp
next
  case (rw_item w1 d p i st t st1 o1 w2)
  have "delimiter (w2 @ CHR '']'' # r)" by (rule delimiter_spaces [OF \<open>spaces w2\<close>]) (simp add: delimiter_def)
  with rw_item.IH(2) [where w = w1 and r = "w2 @ CHR '']'' # r" and out = out] rw_item.prems \<open>spaces w1\<close>
    walk_item [where v = v and c = "CHR '']''", OF rw_item.prems(1) \<open>spaces w2\<close>] show ?case by (simp add: isSpace_def)
next
  case (rw_items w1 d p i st t st1 o1 w2 u st2 o2)
  have "delimiter (w2 @ CHR '','' # u @ CHR '']'' # r)" by (rule delimiter_spaces [OF \<open>spaces w2\<close>]) (simp add: delimiter_def)
  with rw_items.IH(2) [where w = w1 and r = "w2 @ CHR '','' # u @ CHR '']'' # r" and out = out] rw_items.IH(4) rw_items.prems \<open>spaces w1\<close>
    walk_item [where v = v and c = "CHR '',''", OF rw_items.prems(1) \<open>spaces w2\<close>] show ?case by (simp add: isSpace_def)
next
  case (rw_member w1 d p nm st t st1 o1 w2)
  have "delimiter (w2 @ CHR ''}'' # r)" by (rule delimiter_spaces [OF \<open>spaces w2\<close>]) (simp add: delimiter_def)
  with rw_member.IH(2) [where w = w1 and r = "w2 @ CHR ''}'' # r" and out = out] rw_member.prems \<open>spaces w1\<close>
    walk_member [where v = v and c = "CHR ''}''", OF rw_member.prems(1) \<open>spaces w2\<close>] show ?case by (simp add: isSpace_def)
next
  case (rw_members w1 d p nm st t st1 o1 w2 h nm2 u st2 o2)
  have "delimiter (w2 @ CHR '','' # h @ u @ CHR ''}'' # r)" by (rule delimiter_spaces [OF \<open>spaces w2\<close>]) (simp add: delimiter_def)
  moreover obtain raw where "member_head (h @ u @ CHR ''}'' # r) = Some (h, raw, nm2, u @ CHR ''}'' # r)"
    using member_head_text [OF \<open>head_text h nm2\<close>] by blast
  ultimately show ?case
    using rw_members.IH(2) [where w = w1 and r = "w2 @ CHR '','' # h @ u @ CHR ''}'' # r" and out = out] rw_members.IH(4) rw_members.prems \<open>spaces w1\<close>
      walk_member [where v = v and c = "CHR '',''", OF rw_members.prems(1) \<open>spaces w2\<close>] by (simp add: isSpace_def)
qed

text \<open>Soundness: what the walker accepts is a text of the grammar, and what it put out is what the visits give.\<close>

lemma walk_item_inv:
  assumes "walk v True flr (p @ [Index i]) st out r = Inr R" and "flr \<le> length p"
  obtains w c x where "r = w @ c # x" and "spaces w"
    and "c = CHR '','' \<and> walk v False flr (p @ [Index (i + 1)]) st (out @ w @ '','') x = Inr R
       \<or> c = CHR '']'' \<and> walk v True flr p st (out @ w @ '']'') x = Inr R"
proof (cases "snd (take_space r)")
  case Nil
  with assms show ?thesis by (subst (asm) walk.simps) (simp split: prod.splits)
next
  case (Cons c x)
  then have t: "take_space r = (fst (take_space r), c # x)" by (metis prod.collapse)
  with take_space_eq [OF this] assms walk_item [OF assms(2), of "fst (take_space r)" c v i st out x]
  show ?thesis by (intro that [of "fst (take_space r)" c x]) (auto split: if_splits)
qed

lemma walk_member_inv:
  assumes "walk v True flr (p @ [Key k]) st out r = Inr R" and "flr \<le> length p"
  obtains (comma) w h nm x where "r = w @ CHR '','' # h @ x" and "spaces w" and "head_text h nm"
      and "walk v False flr (p @ [Key nm]) st (out @ w @ CHR '','' # h) x = Inr R"
    | (brace) w x where "r = w @ CHR ''}'' # x" and "spaces w" and "walk v True flr p st (out @ w @ ''}'') x = Inr R"
proof (cases "snd (take_space r)")
  case Nil
  with assms show ?thesis by (subst (asm) walk.simps) (simp split: prod.splits)
next
  case (Cons c x)
  define w where "w = fst (take_space r)"
  with Cons have "take_space r = (w, c # x)" by (metis prod.collapse)
  from take_space_eq [OF this] have e: "r = w @ c # x" "spaces w" "\<not> isSpace c" by auto
  have r: "walk v True flr (p @ [Key k]) st out (w @ c # x) = Inr R" using assms(1) e(1) by simp
  show ?thesis
  proof (cases "c = CHR '',''")
    case True
    with r obtain h raw nm y where "member_head x = Some (h, raw, nm, y)"
      "walk v False flr (p @ [Key nm]) st (out @ w @ CHR '','' # h) y = Inr R"
      unfolding walk_member [OF assms(2) e(2,3)] by (auto split: option.splits)
    then show ?thesis using comma [of w h y nm] member_head_some [of x h raw nm y] e True by auto
  next
    case False
    with r show ?thesis unfolding walk_member [OF assms(2) e(2,3)] using brace [OF _ e(2)] e(1)
      by (auto split: if_splits)
  qed
qed

lemma walk_before_inv:
  assumes "walk v False flr p st out s = Inr R"
  obtains (scalar) w k t r o1 st1 where "s = w @ t @ r" and "spaces w" and "scalar_text k t"
      and "visit_scalar v st p k t = (o1, st1)" and "walk v True flr p st1 (out @ w @ o1) r = Inr R"
    | (array0) w u r where "s = w @ CHR ''['' # u @ CHR '']'' # r" and "spaces w" and "spaces u"
      and "length p - flr < maxDepth" and "walk v True flr p st (out @ w @ CHR ''['' # u @ '']'') r = Inr R"
    | (object0) w u r where "s = w @ CHR ''{'' # u @ CHR ''}'' # r" and "spaces w" and "spaces u"
      and "length p - flr < maxDepth" and "walk v True flr p st (out @ w @ CHR ''{'' # u @ ''}'') r = Inr R"
    | (array) w r where "s = w @ CHR ''['' # r" and "spaces w" and "length p - flr < maxDepth"
      and "walk v False flr (p @ [Index 0]) st (out @ w @ ''['') r = Inr R"
    | (object) w h nm r where "s = w @ CHR ''{'' # h @ r" and "spaces w" and "head_text h nm"
      and "length p - flr < maxDepth" and "walk v False flr (p @ [Key nm]) st (out @ w @ CHR ''{'' # h) r = Inr R"
proof -
  obtain w x where tx: "take_space s = (w, x)" by fastforce
  with assms obtain c t where x: "x = c # t" by (subst (asm) walk_before) (cases x; simp)
  have e: "s = w @ c # t" "spaces w" using take_space_eq [OF tx] x by auto
  note a = trans [OF walk_before [symmetric] assms, unfolded tx x, simplified]
  show ?thesis
  proof (cases "c = CHR ''{'' \<or> c = CHR ''[''")
    case False
    with a obtain k raw r o1 st1 where "scan_scalar (c # t) = Some (k, raw, r)" "visit_scalar v st p k raw = (o1, st1)"
      "walk v True flr p st1 (out @ w @ o1) r = Inr R" by (auto split: option.splits prod.splits)
    then show ?thesis using scalar [of w raw r k o1 st1] scan_scalar_some [of "c # t" k raw r] e by simp
  next
    case True
    obtain u y where ty: "take_space t = (u, y)" by fastforce
    with a True obtain d t1 where y: "y = d # t1" and dep: "length p - flr < maxDepth" by (cases y) (auto split: if_splits)
    have f: "t = u @ d # t1" "spaces u" using take_space_eq [OF ty] y by auto
    note b = a [unfolded ty y]
    consider "c = CHR ''{''" "d = CHR ''}''" | "c = CHR ''[''" "d = CHR '']''"
      | "c = CHR ''{''" "d \<noteq> CHR ''}''" | "c = CHR ''[''" "d \<noteq> CHR '']''" using True by blast
    then show ?thesis
    proof cases
      case 1
      then show ?thesis using b object0 [of w u t1] e f dep by simp
    next
      case 2
      then show ?thesis using b array0 [of w u t1] e f dep by simp
    next
      case 3
      then obtain h raw nm r where "member_head t = Some (h, raw, nm, r)"
        "walk v False flr (p @ [Key nm]) st (out @ w @ CHR ''{'' # h) r = Inr R" using b dep by (auto split: option.splits)
      then show ?thesis using object [of w h r nm] member_head_some [of t h raw nm r] e 3 dep by simp
    next
      case 4
      then show ?thesis using b array [of w t] e dep by simp
    qed
  qed
qed

text \<open>What it means that the walker, run to its end from the input \<open>s\<close>, reads a value, the items of an array or the
  members of an object first.\<close>

definition reads_value :: "'s visitor \<Rightarrow> nat \<Rightarrow> string \<times> 's \<times> string \<Rightarrow> string \<Rightarrow> bool" where
  "reads_value v flr R s \<longleftrightarrow> (\<forall>p st out. flr \<le> length p \<longrightarrow> walk v False flr p st out s = Inr R \<longrightarrow>
     (\<exists>w t o1 st1 r. s = w @ t @ r \<and> spaces w \<and> visits v (maxDepth - (length p - flr)) p st t st1 o1
        \<and> walk v True flr p st1 (out @ w @ o1) r = Inr R))"

definition reads_items :: "'s visitor \<Rightarrow> nat \<Rightarrow> string \<times> 's \<times> string \<Rightarrow> string \<Rightarrow> bool" where
  "reads_items v flr R s \<longleftrightarrow> (\<forall>p st out i. flr \<le> length p \<longrightarrow> walk v False flr (p @ [Index i]) st out s = Inr R \<longrightarrow>
     (\<exists>t o1 st1 r. s = t @ CHR '']'' # r \<and> visits_items v (maxDepth - Suc (length p - flr)) p i st t st1 o1
        \<and> walk v True flr p st1 (out @ o1 @ '']'') r = Inr R))"

definition reads_members :: "'s visitor \<Rightarrow> nat \<Rightarrow> string \<times> 's \<times> string \<Rightarrow> string \<Rightarrow> bool" where
  "reads_members v flr R s \<longleftrightarrow> (\<forall>p st out nm. flr \<le> length p \<longrightarrow> walk v False flr (p @ [Key nm]) st out s = Inr R \<longrightarrow>
     (\<exists>t o1 st1 r. s = t @ CHR ''}'' # r \<and> visits_members v (maxDepth - Suc (length p - flr)) p nm st t st1 o1
        \<and> walk v True flr p st1 (out @ o1 @ ''}'') r = Inr R))"

lemma reads_valueD:
  assumes "reads_value v flr R s" and "flr \<le> length p" and "walk v False flr p st out s = Inr R"
  obtains w t o1 st1 r where "s = w @ t @ r" and "spaces w" and "visits v (maxDepth - (length p - flr)) p st t st1 o1"
    and "walk v True flr p st1 (out @ w @ o1) r = Inr R"
  using assms(1) [unfolded reads_value_def, rule_format, OF assms(2,3)] by (elim exE conjE) (rule that)

lemma reads_itemsD:
  assumes "reads_items v flr R s" and "flr \<le> length p" and "walk v False flr (p @ [Index i]) st out s = Inr R"
  obtains t o1 st1 r where "s = t @ CHR '']'' # r" and "visits_items v (maxDepth - Suc (length p - flr)) p i st t st1 o1"
    and "walk v True flr p st1 (out @ o1 @ '']'') r = Inr R"
  using assms(1) [unfolded reads_items_def, rule_format, OF assms(2,3)] by (elim exE conjE) (rule that)

lemma reads_membersD:
  assumes "reads_members v flr R s" and "flr \<le> length p" and "walk v False flr (p @ [Key nm]) st out s = Inr R"
  obtains t o1 st1 r where "s = t @ CHR ''}'' # r" and "visits_members v (maxDepth - Suc (length p - flr)) p nm st t st1 o1"
    and "walk v True flr p st1 (out @ o1 @ ''}'') r = Inr R"
  using assms(1) [unfolded reads_members_def, rule_format, OF assms(2,3)] by (elim exE conjE) (rule that)

lemma reads_value_step:
  assumes it: "\<And>t. length t < length s \<Longrightarrow> reads_items v flr R t" and me: "\<And>t. length t < length s \<Longrightarrow> reads_members v flr R t"
  shows "reads_value v flr R s"
  unfolding reads_value_def
proof (intro allI impI)
  fix p st out assume fl: "flr \<le> length p" and w: "walk v False flr p st out s = Inr R"
  let ?R = "\<lambda>w t o1 st1 r. s = w @ t @ r \<and> spaces w \<and> visits v (maxDepth - (length p - flr)) p st t st1 o1
    \<and> walk v True flr p st1 (out @ w @ o1) r = Inr R"
  have d: "maxDepth - (length p - flr) = Suc (maxDepth - Suc (length p - flr))" if "length p - flr < maxDepth" using that by simp
  from w show "\<exists>w t o1 st1 r. ?R w t o1 st1 r"
  proof (cases rule: walk_before_inv)
    case (scalar w k t r o1 st1)
    then have "?R w t o1 st1 r" by (auto intro: rw_scalar)
    then show ?thesis by blast
  next
    case (array0 w u r)
    then have "?R w (''['' @ u @ '']'') (''['' @ u @ '']'') st r" unfolding d [OF array0(4)] using rw_no_items [OF array0(3)] by simp
    then show ?thesis by blast
  next
    case (object0 w u r)
    then have "?R w (''{'' @ u @ ''}'') (''{'' @ u @ ''}'') st r" unfolding d [OF object0(4)] using rw_no_members [OF object0(3)] by simp
    then show ?thesis by blast
  next
    case (array w r)
    have l: "length r < length s" using array(1) by simp
    obtain t o1 st1 r1 where i: "r = t @ CHR '']'' # r1" "visits_items v (maxDepth - Suc (length p - flr)) p 0 st t st1 o1"
      "walk v True flr p st1 ((out @ w @ ''['') @ o1 @ '']'') r1 = Inr R" by (rule reads_itemsD [OF it [OF l] fl array(4)])
    then have "?R w (''['' @ t @ '']'') (''['' @ o1 @ '']'') st1 r1" unfolding d [OF array(3)]
      using array(1,2) rw_array [OF i(2)] by simp
    then show ?thesis by blast
  next
    case (object w h nm r)
    have l: "length r < length s" using object(1) by simp
    obtain t o1 st1 r1 where i: "r = t @ CHR ''}'' # r1" "visits_members v (maxDepth - Suc (length p - flr)) p nm st t st1 o1"
      "walk v True flr p st1 ((out @ w @ CHR ''{'' # h) @ o1 @ ''}'') r1 = Inr R" by (rule reads_membersD [OF me [OF l] fl object(5)])
    then have "?R w (''{'' @ h @ t @ ''}'') (''{'' @ h @ o1 @ ''}'') st1 r1" unfolding d [OF object(4)]
      using object(1,2) rw_object [OF object(3) i(2)] by simp
    then show ?thesis by blast
  qed
qed

lemma reads_items_step:
  assumes val: "reads_value v flr R s" and it: "\<And>t. length t < length s \<Longrightarrow> reads_items v flr R t"
  shows "reads_items v flr R s"
  unfolding reads_items_def
proof (intro allI impI)
  fix p st out i assume fl: "flr \<le> length p" and w: "walk v False flr (p @ [Index i]) st out s = Inr R"
  let ?R = "\<lambda>t o1 st1 r. s = t @ CHR '']'' # r \<and> visits_items v (maxDepth - Suc (length p - flr)) p i st t st1 o1
        \<and> walk v True flr p st1 (out @ o1 @ '']'') r = Inr R"
  have d: "length (p @ [Index i]) - flr = Suc (length p - flr)" and fl1: "flr \<le> length (p @ [Index i])" using fl by auto
  from reads_valueD [OF val fl1 w, unfolded d] obtain w1 t o1 st1 r where
    e: "s = w1 @ t @ r" "spaces w1" "visits v (maxDepth - Suc (length p - flr)) (p @ [Index i]) st t st1 o1"
    "walk v True flr (p @ [Index i]) st1 (out @ w1 @ o1) r = Inr R" .
  from walk_item_inv [OF e(4) fl] obtain w2 c x where f: "r = w2 @ c # x" "spaces w2"
    "c = CHR '','' \<and> walk v False flr (p @ [Index (i + 1)]) st1 ((out @ w1 @ o1) @ w2 @ '','') x = Inr R
     \<or> c = CHR '']'' \<and> walk v True flr p st1 ((out @ w1 @ o1) @ w2 @ '']'') x = Inr R" .
  from f(3) show "\<exists>t o1 st1 r. ?R t o1 st1 r"
  proof (elim disjE conjE)
    assume c: "c = CHR '','' " and n: "walk v False flr (p @ [Index (i + 1)]) st1 ((out @ w1 @ o1) @ w2 @ '','') x = Inr R"
    have l: "length x < length s" using e(1) f(1) by simp
    obtain u o2 st2 r2 where g: "x = u @ CHR '']'' # r2" "visits_items v (maxDepth - Suc (length p - flr)) p (i + 1) st1 u st2 o2"
      "walk v True flr p st2 (((out @ w1 @ o1) @ w2 @ '','') @ o2 @ '']'') r2 = Inr R" by (rule reads_itemsD [OF it [OF l] fl n])
    then have "?R (w1 @ t @ w2 @ '','' @ u) (w1 @ o1 @ w2 @ '','' @ o2) st2 r2"
      using e(1) f(1) c rw_items [OF e(2,3) f(2) g(2)] by simp
    then show ?thesis by blast
  next
    assume "c = CHR '']'' " and "walk v True flr p st1 ((out @ w1 @ o1) @ w2 @ '']'') x = Inr R"
    then have "?R (w1 @ t @ w2) (w1 @ o1 @ w2) st1 x" using e(1) f(1) rw_item [OF e(2,3) f(2)] by simp
    then show ?thesis by blast
  qed
qed

lemma reads_members_step:
  assumes val: "reads_value v flr R s" and me: "\<And>t. length t < length s \<Longrightarrow> reads_members v flr R t"
  shows "reads_members v flr R s"
  unfolding reads_members_def
proof (intro allI impI)
  fix p st out nm assume fl: "flr \<le> length p" and w: "walk v False flr (p @ [Key nm]) st out s = Inr R"
  let ?R = "\<lambda>t o1 st1 r. s = t @ CHR ''}'' # r \<and> visits_members v (maxDepth - Suc (length p - flr)) p nm st t st1 o1
        \<and> walk v True flr p st1 (out @ o1 @ ''}'') r = Inr R"
  have d: "length (p @ [Key nm]) - flr = Suc (length p - flr)" and fl1: "flr \<le> length (p @ [Key nm])" using fl by auto
  from reads_valueD [OF val fl1 w, unfolded d] obtain w1 t o1 st1 r where
    e: "s = w1 @ t @ r" "spaces w1" "visits v (maxDepth - Suc (length p - flr)) (p @ [Key nm]) st t st1 o1"
    "walk v True flr (p @ [Key nm]) st1 (out @ w1 @ o1) r = Inr R" .
  from e(4) fl show "\<exists>t o1 st1 r. ?R t o1 st1 r"
  proof (cases rule: walk_member_inv)
    case (comma w2 h nm2 x)
    have l: "length x < length s" using e(1) comma(1) by simp
    obtain u o2 st2 r2 where g: "x = u @ CHR ''}'' # r2" "visits_members v (maxDepth - Suc (length p - flr)) p nm2 st1 u st2 o2"
      "walk v True flr p st2 (((out @ w1 @ o1) @ w2 @ CHR '','' # h) @ o2 @ ''}'') r2 = Inr R"
      by (rule reads_membersD [OF me [OF l] fl comma(4)])
    then have "?R (w1 @ t @ w2 @ '','' @ h @ u) (w1 @ o1 @ w2 @ '','' @ h @ o2) st2 r2"
      using e(1) comma(1) rw_members [OF e(2,3) comma(2,3) g(2)] by simp
    then show ?thesis by blast
  next
    case (brace w2 x)
    then have "?R (w1 @ t @ w2) (w1 @ o1 @ w2) st1 x" using e(1) rw_member [OF e(2,3) brace(2)] by simp
    then show ?thesis by blast
  qed
qed

lemma reads_all: "reads_value v flr R s \<and> reads_items v flr R s \<and> reads_members v flr R s"
proof (induction s rule: length_induct)
  case (1 s)
  then have v: "reads_value v flr R s" by (intro reads_value_step) auto
  with 1 show ?case by (auto intro: reads_items_step reads_members_step)
qed

lemma walk_top:
  assumes "visits v maxDepth p st t st' o1" and "spaces w" and "delimiter r"
  shows "walk v False (length p) p st out (w @ t @ r) = Inr (out @ w @ o1, st', r)"
  using visits_walk(1) [OF assms(1) le_refl _ assms(2,3), of out] by (simp add: walk_done)

lemma walk_reads:
  assumes "walk v False (length p) p st out s = Inr (out', st', r)"
  obtains w t o1 where "s = w @ t @ r" and "spaces w" and "visits v maxDepth p st t st' o1" and "out' = out @ w @ o1"
proof (rule reads_valueD [OF conjunct1 [OF reads_all] le_refl assms])
  fix w t o1 st1 r1
  assume a: "s = w @ t @ r1" "spaces w" "visits v (maxDepth - (length p - length p)) p st t st1 o1"
    "walk v True (length p) p st1 (out @ w @ o1) r1 = Inr (out', st', r)"
  then show thesis by (intro that [of w t o1]) (auto simp: walk_done)
qed

lemma finish_space_iff: "finish_space r = Inr w \<longleftrightarrow> r = w \<and> spaces w"
  by (auto simp: finish_space_def spaces_def dropWhile_eq_Nil_conv list_all_iff)

lemma rewrite_iff:
  "json_Rewrite v pre st s = Inr (out, st') \<longleftrightarrow>
     (\<exists>w1 t w2 o1. s = w1 @ t @ w2 \<and> spaces w1 \<and> spaces w2 \<and> visits v maxDepth pre st t st' o1 \<and> out = w1 @ o1 @ w2)"
proof
  assume "json_Rewrite v pre st s = Inr (out, st')"
  then obtain o2 r where w: "walk v False (length pre) pre st [] s = Inr (o2, st', r)" "spaces r" "out = o2 @ r"
    by (auto simp: json_Rewrite_def finish_space_iff split: sum.splits prod.splits)
  from walk_reads [OF w(1)] obtain w1 t o1 where "s = w1 @ t @ r" "spaces w1" "visits v maxDepth pre st t st' o1" "o2 = [] @ w1 @ o1" .
  with w(2,3) show "\<exists>w1 t w2 o1. s = w1 @ t @ w2 \<and> spaces w1 \<and> spaces w2 \<and> visits v maxDepth pre st t st' o1 \<and> out = w1 @ o1 @ w2"
    by auto
next
  assume "\<exists>w1 t w2 o1. s = w1 @ t @ w2 \<and> spaces w1 \<and> spaces w2 \<and> visits v maxDepth pre st t st' o1 \<and> out = w1 @ o1 @ w2"
  then obtain w1 t w2 o1 where e: "s = w1 @ t @ w2" "spaces w1" "spaces w2" "visits v maxDepth pre st t st' o1" "out = w1 @ o1 @ w2"
    by blast
  have "delimiter w2" using delimiter_spaces [OF e(3), of "[]"] by (simp add: delimiter_def)
  then have "walk v False (length pre) pre st [] s = Inr (w1 @ o1, st', w2)" using walk_top [OF e(4,2)] e(1) by simp
  moreover have "finish_space w2 = Inr w2" using e(3) by (simp add: finish_space_iff)
  ultimately show "json_Rewrite v pre st s = Inr (out, st')" using e(5) by (simp add: json_Rewrite_def)
qed

section \<open>Properties\<close>

text \<open>The visitor that replaces nothing, which a nil visitor amounts to.\<close>

definition no_visit :: "'s visitor" where
  "no_visit st p k raw = (None, st)"

definition scalar_visitor :: "'s visitor \<Rightarrow> bool" where
  "scalar_visitor v \<longleftrightarrow> (\<forall>st p k raw rep st1. scalar_text k raw \<longrightarrow> v st p k raw = (Some rep, st1) \<longrightarrow>
     (\<exists>k1. scalar_text k1 rep))"

lemma visit_no_visit [simp]: "visit_scalar no_visit st p k raw = (raw, st)"
  by (simp add: visit_scalar_def no_visit_def)

lemma visit_scalar_text:
  "scalar_visitor v \<Longrightarrow> scalar_text k raw \<Longrightarrow> visit_scalar v st p k raw = (o1, st1) \<Longrightarrow> \<exists>k1. scalar_text k1 o1"
proof (cases "v st p k raw")
  fix ro st2 assume v: "scalar_visitor v" "scalar_text k raw" "visit_scalar v st p k raw = (o1, st1)" "v st p k raw = (ro, st2)"
  then show ?thesis
  proof (cases "ro = Some o1")
    case True
    with v(1,2,4) show ?thesis unfolding scalar_visitor_def by blast
  next
    case False
    with v(3,4) have "o1 = raw" by (auto simp: visit_scalar_def split: if_splits option.splits)
    with v(2) show ?thesis by blast
  qed
qed

lemma visits_output:
  "visits v d p st t st' o' \<Longrightarrow> scalar_visitor v \<Longrightarrow> visits no_visit d q u o' u o'"
  "visits_items v d p i st t st' o' \<Longrightarrow> scalar_visitor v \<Longrightarrow> visits_items no_visit d q i u o' u o'"
  "visits_members v d p nm st t st' o' \<Longrightarrow> scalar_visitor v \<Longrightarrow> visits_members no_visit d q nm u o' u o'"
proof (induction arbitrary: q and q and q rule: visits_visits_items_visits_members.inducts)
  case (rw_scalar k raw st p o1 st1 d)
  obtain k1 where "scalar_text k1 o1" using visit_scalar_text [OF rw_scalar(3,1,2)] by blast
  then show ?case by (rule visits_visits_items_visits_members.rw_scalar) simp
qed (blast intro: visits_visits_items_visits_members.intros)+

lemma visits_copy:
  "visits v d p st t st' o' \<Longrightarrow> \<forall>s q k raw. fst (v s q k raw) = None \<Longrightarrow> o' = t"
  "visits_items v d p i st t st' o' \<Longrightarrow> \<forall>s q k raw. fst (v s q k raw) = None \<Longrightarrow> o' = t"
  "visits_members v d p nm st t st' o' \<Longrightarrow> \<forall>s q k raw. fst (v s q k raw) = None \<Longrightarrow> o' = t"
proof (induction rule: visits_visits_items_visits_members.inducts)
  case (rw_scalar k raw st p o1 st1 d)
  then have "fst (v st p k raw) = None" by blast
  with rw_scalar(2) show ?case by (cases "v st p k raw") (auto simp: visit_scalar_def split: if_splits)
qed auto


text \<open>C38. \<open>Rewrite\<close> puts out JSON: when a visitor replaces JSON scalars by JSON scalars, the output is again a text
  \<open>Rewrite\<close> accepts, and it copies it unchanged when nothing is visited.\<close>

theorem rewrite_keeps_json:
  assumes "json_Rewrite v pre st s = Inr (out, st')" and "scalar_visitor v"
  shows "json_Rewrite no_visit pre1 u out = Inr (out, u)"
proof -
  obtain w1 t w2 o1 where e: "spaces w1" "spaces w2" "visits v maxDepth pre st t st' o1" "out = w1 @ o1 @ w2"
    using assms(1) unfolding rewrite_iff by blast
  have "visits no_visit maxDepth pre1 u o1 u o1" by (rule visits_output(1) [OF e(3) assms(2)])
  with e(1,2,4) show ?thesis by (intro iffD2 [OF rewrite_iff] exI conjI) auto
qed

text \<open>Every number becomes \<open>7\<close>, and the visitor counts them.\<close>

definition sevens :: "nat visitor" where
  "sevens st p k raw = (if k = KNumber then (Some ''7'', Suc st) else (None, st))"

lemma sevens_run: "json_Rewrite sevens [] 0 '' [1,{}, [true, -2.5e3]] '' = Inr ('' [7,{}, [true, 7]] '', 2)"
  by code_simp

lemma sevens_scalar: "scalar_visitor sevens"
proof -
  have "scan_scalar ''7'' = Some (KNumber, ''7'', [])" by code_simp
  then have "scalar_text KNumber ''7''" by (auto dest: scan_scalar_some)
  then show ?thesis unfolding scalar_visitor_def sevens_def by auto
qed

theorem rewrite_keeps_json_witness:
  "json_Rewrite sevens [] 0 '' [1,{}, [true, -2.5e3]] '' = Inr ('' [7,{}, [true, 7]] '', 2)
   \<and> json_Rewrite no_visit [] () '' [7,{}, [true, 7]] '' = Inr ('' [7,{}, [true, 7]] '', ())"
  using rewrite_keeps_json [OF sevens_run sevens_scalar, of "[]"] sevens_run by simp

text \<open>A visitor that replaces nothing leaves the input as it is: what \<open>Rewrite\<close> puts out is what it read.\<close>

theorem rewrite_copies:
  assumes "json_Rewrite v pre st s = Inr (out, st')" and "\<forall>s q k raw. fst (v s q k raw) = None"
  shows "out = s"
  using assms(1) unfolding rewrite_iff by (elim exE conjE) (use visits_copy(1) [OF _ assms(2)] in simp)

theorem rewrite_copies_witness: "json_Rewrite no_visit [] () '' [7,{}, [true, 7]] '' = Inr ('' [7,{}, [true, 7]] '', ())"
proof -
  have "\<not> isl (json_Rewrite no_visit [] () '' [7,{}, [true, 7]] '')" by code_simp
  then obtain out where r: "json_Rewrite no_visit [] () '' [7,{}, [true, 7]] '' = Inr (out, ())"
    by (cases "json_Rewrite no_visit [] () '' [7,{}, [true, 7]] ''") auto
  have "\<forall>(s::unit) q k raw. fst (no_visit s q k raw) = None" by (simp add: no_visit_def)
  with rewrite_copies [OF r] r show ?thesis by simp
qed

end
