(* ===== verification/Objects.thy ===== *)
theory Objects
  imports Rewrite
begin

text \<open>
  Arrays and objects of \<open>internal/jsonx\<close>: \<open>ArrayItems\<close> of \<open>rewrite.go\<close>, which copies the items of an array so
  that those of several can be spliced into one, and \<open>Members\<close>, \<open>VisitMembers\<close> and \<open>CountItems\<close> of \<open>object.go\<close>,
  which find where the members of an object lie. They run the walker of \<open>Rewrite\<close> on each item and value.
\<close>

section \<open>Items\<close>

lemma walk_shorter: "walk v False (length p) p st out s = Inr (out', st', r) \<Longrightarrow> length r < length s"
  by (erule walk_reads) (use visits_head(1) in fastforce)

lemma array_item_shorter:
  assumes "(w, c # t) = take_space s" and "walk v False (length p) p st out (c # t) = Inr (out1, st1, r)"
    and "(w2, d # t1) = take_space r"
  shows "length t1 < length s"
  using assms(2) [THEN walk_shorter] take_space_shorter' [OF assms(1)] take_space_shorter' [OF assms(3)] by simp

text \<open>The loop of \<open>array\<close>: \<open>n\<close> items are written, the next has index \<open>i\<close>. The output is off between items.\<close>

function array_loop :: "'s visitor \<Rightarrow> path_elem list \<Rightarrow> int \<Rightarrow> nat \<Rightarrow> 's \<Rightarrow> string \<Rightarrow> string
    \<Rightarrow> json_error + (nat \<times> string \<times> 's \<times> string)" where
  "array_loop v p i n st out s =
     (case take_space s of
        (w, []) \<Rightarrow> Inl ErrSyntax
      | (w, c # t) \<Rightarrow>
          (case walk v False (length (p @ [Index i])) (p @ [Index i]) st (if 0 < n then out @ '','' else out) (c # t) of
             Inl e \<Rightarrow> Inl e
           | Inr (out1, st1, r) \<Rightarrow>
               (case take_space r of
                  (w2, []) \<Rightarrow> Inl ErrSyntax
                | (w2, d # t1) \<Rightarrow>
                    if d = CHR '']'' then Inr (Suc n, out1, st1, t1)
                    else if d = CHR '','' then array_loop v p (i + 1) (Suc n) st1 out1 t1
                    else Inl ErrSyntax)))"
  by pat_completeness auto

termination
  by (relation "measure (\<lambda>(v, p, i, n, st, out, s). length s)") (auto simp del: length_append dest: array_item_shorter)

declare array_loop.simps [simp del]

definition json_array :: "'s visitor \<Rightarrow> path_elem list \<Rightarrow> int \<Rightarrow> 's \<Rightarrow> string \<Rightarrow> string
    \<Rightarrow> json_error + (nat \<times> string \<times> 's \<times> string)" where
  "json_array v p base st out s =
     (case take_space s of
        (w, []) \<Rightarrow> Inl ErrSyntax
      | (w, c # t) \<Rightarrow>
          if c \<noteq> CHR ''['' then Inl ErrSyntax
          else case take_space t of
            (w1, []) \<Rightarrow> Inl ErrSyntax
          | (w1, d # t1) \<Rightarrow> if d = CHR '']'' then Inr (0, out, st, t1) else array_loop v p base 0 st out (d # t1))"

definition ArrayItems :: "'s visitor \<Rightarrow> path_elem list \<Rightarrow> int \<Rightarrow> 's \<Rightarrow> string \<Rightarrow> json_error + (nat \<times> string \<times> 's)" where
  "ArrayItems v pre base st s =
     (case json_array v pre base st [] s of
        Inl e \<Rightarrow> Inl e
      | Inr (n, out, st1, r) \<Rightarrow> (case finish_space r of Inl e \<Rightarrow> Inl e | Inr w \<Rightarrow> Inr (n, out, st1)))"

section \<open>Their texts\<close>

text \<open>What stands between the brackets of an array that is not empty: \<open>n\<close> items, and the items as they are written,
  without the white space around them.\<close>

inductive items_text :: "'s visitor \<Rightarrow> path_elem list \<Rightarrow> int \<Rightarrow> 's \<Rightarrow> string \<Rightarrow> nat \<Rightarrow> 's \<Rightarrow> string \<Rightarrow> bool" for v p where
  it_last: "spaces w1 \<Longrightarrow> visits v maxDepth (p @ [Index i]) st t st1 o1 \<Longrightarrow> spaces w2 \<Longrightarrow>
    items_text v p i st (w1 @ t @ w2) 1 st1 o1"
| it_more: "spaces w1 \<Longrightarrow> visits v maxDepth (p @ [Index i]) st t st1 o1 \<Longrightarrow> spaces w2 \<Longrightarrow>
    items_text v p (i + 1) st1 u n st2 o2 \<Longrightarrow> items_text v p i st (w1 @ t @ w2 @ '','' @ u) (Suc n) st2 (o1 @ '','' @ o2)"

inductive array_text :: "'s visitor \<Rightarrow> path_elem list \<Rightarrow> int \<Rightarrow> 's \<Rightarrow> string \<Rightarrow> nat \<Rightarrow> 's \<Rightarrow> string \<Rightarrow> bool" for v p i st where
  at_empty: "spaces w \<Longrightarrow> array_text v p i st (''['' @ w @ '']'') 0 st []"
| at_items: "items_text v p i st t n st1 o1 \<Longrightarrow> array_text v p i st (''['' @ t @ '']'') n st1 o1"

lemma items_text_pos: "items_text v p i st t n st' o1 \<Longrightarrow> 0 < n"
  by (cases rule: items_text.cases) auto

lemma array_loop_item:
  assumes "spaces w1" and "visits v maxDepth (p @ [Index i]) st t st1 o1" and "spaces w2" and "c \<in> set '',]''"
  shows "array_loop v p i n st out (w1 @ t @ w2 @ c # r) =
    (if c = CHR '']'' then Inr (Suc n, (if 0 < n then out @ '','' else out) @ o1, st1, r)
     else array_loop v p (i + 1) (Suc n) st1 ((if 0 < n then out @ '','' else out) @ o1) r)"
proof -
  have c: "\<not> isSpace c" using assms(4) by (auto simp: isSpace_def)
  obtain a x where t: "t = a # x" "\<not> isSpace a" using visits_head(1) [OF assms(2)] by (cases t) auto
  have "take_space (w1 @ t @ w2 @ c # r) = (w1, a # x @ w2 @ c # r)"
    using take_space_spaces [OF assms(1), of "a # x @ w2 @ c # r"] t by simp
  moreover have "delimiter (w2 @ c # r)" by (rule delimiter_spaces [OF assms(3)]) (use assms(4) in \<open>auto simp: delimiter_def\<close>)
  from walk_top [OF assms(2) _ this, of "[]" "if 0 < n then out @ '','' else out"]
  have "walk v False (length (p @ [Index i])) (p @ [Index i]) st (if 0 < n then out @ '','' else out) (a # x @ w2 @ c # r)
    = Inr ((if 0 < n then out @ '','' else out) @ o1, st1, w2 @ c # r)" using t by (simp add: spaces_def)
  moreover have "take_space (w2 @ c # r) = (w2, c # r)" using take_space_spaces [OF assms(3), of "c # r"] c by simp
  ultimately show ?thesis using assms(4) by (subst array_loop.simps) auto
qed

lemma array_loop_items:
  "items_text v p i st t m st' o1 \<Longrightarrow>
     array_loop v p i n st out (t @ CHR '']'' # r) = Inr (n + m, (if 0 < n then out @ '','' else out) @ o1, st', r)"
proof (induction arbitrary: n out rule: items_text.induct)
  case (it_last w1 i st t st1 o1 w2)
  then show ?case using array_loop_item [OF it_last, of "CHR '']''" n out r] by simp
next
  case (it_more w1 i st t st1 o1 w2 u m st2 o2)
  show ?case using array_loop_item [OF it_more(1-3), of "CHR '',''" n out "u @ CHR '']'' # r"] it_more.IH [of "Suc n"] by simp
qed

lemma array_loop_inv:
  assumes "array_loop v p i n st out s = Inr R"
  obtains w1 t st1 o1 w2 c x where "s = w1 @ t @ w2 @ c # x" and "spaces w1" and "visits v maxDepth (p @ [Index i]) st t st1 o1"
    and "spaces w2" and "c \<in> set '',]''"
proof -
  obtain w s1 where ts: "take_space s = (w, s1)" by fastforce
  note a = trans [OF array_loop.simps [symmetric] assms, unfolded ts]
  obtain c0 t0 where s1: "s1 = c0 # t0" using a by (cases s1) auto
  from a [unfolded s1, simplified] obtain out1 st1 r where
    w: "walk v False (length (p @ [Index i])) (p @ [Index i]) st (if 0 < n then out @ '','' else out) (c0 # t0) = Inr (out1, st1, r)"
    by (auto split: sum.splits)
  obtain w2 y where ty: "take_space r = (w2, y)" by fastforce
  have "\<exists>c x. y = c # x \<and> c \<in> set '',]''" using a [unfolded s1] w ty by (auto split: list.splits if_splits)
  then obtain c x where y: "y = c # x" "c \<in> set '',]''" by blast
  obtain w1 t o1 where e: "c0 # t0 = w1 @ t @ r" "spaces w1" "visits v maxDepth (p @ [Index i]) st t st1 o1"
    by (rule walk_reads [OF w])
  have "s = (w @ w1) @ t @ w2 @ c # x" "spaces (w @ w1)" "spaces w2"
    using take_space_eq [OF ts] take_space_eq [OF ty] s1 y e(1,2) by (auto simp: spaces_def)
  then show ?thesis using that e(3) y(2) by blast
qed

lemma array_loop_text:
  "array_loop v p i n st out s = Inr (n', out', st', r) \<Longrightarrow>
     \<exists>t m o1. s = t @ CHR '']'' # r \<and> items_text v p i st t m st' o1 \<and> n' = n + m \<and> out' = (if 0 < n then out @ '','' else out) @ o1"
proof (induction s arbitrary: i n st out rule: measure_induct_rule [of length])
  case (less s)
  from array_loop_inv [OF less(2)] obtain w1 t st1 o1 w2 c x where e: "s = w1 @ t @ w2 @ c # x" "spaces w1"
    "visits v maxDepth (p @ [Index i]) st t st1 o1" "spaces w2" "c \<in> set '',]''" .
  note l = array_loop_item [OF e(2-5), of n out x]
  show ?case
  proof (cases "c = CHR '']''")
    case True
    then show ?thesis using l less(2) e it_last [OF e(2-4)]
      by (intro exI [of _ "w1 @ t @ w2"] exI [of _ 1] exI [of _ o1]) simp
  next
    case False
    then have c: "c = CHR '',''" using e(5) by simp
    have "array_loop v p (i + 1) (Suc n) st1 ((if 0 < n then out @ '','' else out) @ o1) x = Inr (n', out', st', r)"
      using l less(2) e(1) False by simp
    with less(1) [of x "i + 1" "Suc n" st1 "(if 0 < n then out @ '','' else out) @ o1"] e(1) obtain u m o2 where f: "x = u @ CHR '']'' # r" "items_text v p (i + 1) st1 u m st' o2" "n' = Suc n + m"
      "out' = (((if 0 < n then out @ '','' else out) @ o1) @ '','') @ o2" by auto
    then show ?thesis using e(1) c it_more [OF e(2-4) f(2)]
      by (intro exI [of _ "w1 @ t @ w2 @ '','' @ u"] exI [of _ "Suc m"] exI [of _ "o1 @ '','' @ o2"]) simp
  qed
qed

lemma items_text_head:
  "items_text v p i st t n st' o1 \<Longrightarrow> \<exists>u c x. t = u @ c # x \<and> spaces u \<and> \<not> isSpace c \<and> c \<noteq> CHR '']''"
proof (induction rule: items_text.induct)
  case (it_last w1 i st t st1 o1 w2)
  then show ?case using visits_head(1) [OF it_last(2)] by (cases t) auto
next
  case (it_more w1 i st t st1 o1 w2)
  then show ?case using visits_head(1) [OF it_more(2)] by (cases t) auto
qed

lemma json_array_text:
  assumes "array_text v p i st t n st' o1" and "spaces w"
  shows "json_array v p i st out (w @ t @ r) = Inr (n, out @ o1, st', r)"
  using assms(1)
proof cases
  case (at_empty u)
  then show ?thesis using take_space_spaces [OF assms(2), of "CHR ''['' # u @ CHR '']'' # r"] take_space_spaces [of u "CHR '']'' # r"]
    by (simp add: json_array_def isSpace_def)
next
  case (at_items t1)
  obtain u c x where t: "t1 = u @ c # x" "spaces u" "\<not> isSpace c" "c \<noteq> CHR '']''" using items_text_head [OF at_items(2)] by blast
  have s: "spaces []" by (simp add: spaces_def)
  have ts: "take_space (t1 @ CHR '']'' # r) = (u, c # x @ CHR '']'' # r)"
    using take_space_spaces [OF t(2), of "c # x @ CHR '']'' # r"] t by simp
  have "array_loop v p i 0 st out (c # x @ CHR '']'' # r) = array_loop v p i 0 st out (t1 @ CHR '']'' # r)"
    using ts take_space_spaces [OF s, of "c # x @ CHR '']'' # r"] t(3) by (subst (1 2) array_loop.simps) simp
  then show ?thesis using at_items array_loop_items [OF at_items(2), of 0 out r] ts t(4)
      take_space_spaces [OF assms(2), of "CHR ''['' # t1 @ CHR '']'' # r"]
    by (simp add: json_array_def isSpace_def)
qed

lemma items_text_space: "items_text v p i st t n st' o1 \<Longrightarrow> spaces u \<Longrightarrow> items_text v p i st (u @ t) n st' o1"
proof (induction rule: items_text.induct)
  case (it_last w1 i st t st1 o1 w2)
  then have "spaces (u @ w1)" by (simp add: spaces_def)
  from items_text.it_last [OF this it_last(2,3)] show ?case by simp
next
  case (it_more w1 i st t st1 o1 w2 x n st2 o2)
  then have "spaces (u @ w1)" by (simp add: spaces_def)
  from items_text.it_more [OF this it_more(2-4)] show ?case by simp
qed

lemma json_array_some:
  assumes "json_array v p i st out s = Inr (n, out', st', r)"
  obtains w t o1 where "s = w @ t @ r" and "spaces w" and "array_text v p i st t n st' o1" and "out' = out @ o1"
proof -
  obtain w s1 where ts: "take_space s = (w, s1)" by fastforce
  note a = assms [unfolded json_array_def ts]
  obtain t where s1: "s1 = CHR ''['' # t" using a by (auto split: list.splits if_splits)
  obtain u s2 where tt: "take_space t = (u, s2)" by fastforce
  note b = a [unfolded s1, simplified, unfolded tt]
  obtain d t1 where s2: "s2 = d # t1" using b by (cases s2) auto
  note e = take_space_eq [OF ts] take_space_eq [OF tt]
  show ?thesis
  proof (cases "d = CHR '']''")
    case True
    with b s2 have "n = 0" "out' = out" "st' = st" "r = t1" by auto
    with at_empty [of u v p i st] e s1 s2 True that [of w "''['' @ u @ '']''" "[]"] show ?thesis by simp
  next
    case False
    with b s2 have "array_loop v p i 0 st out (d # t1) = Inr (n, out', st', r)" by simp
    from array_loop_text [OF this] obtain x o1 where x: "d # t1 = x @ CHR '']'' # r" "items_text v p i st x n st' o1" "out' = out @ o1"
      by auto
    with at_items [OF items_text_space [OF x(2)], of u] e s1 s2 that [of w "''['' @ (u @ x) @ '']''" o1] show ?thesis by simp
  qed
qed

lemma array_items_iff:
  "ArrayItems v pre base st s = Inr (n, out, st') \<longleftrightarrow>
     (\<exists>w1 t w2. s = w1 @ t @ w2 \<and> spaces w1 \<and> spaces w2 \<and> array_text v pre base st t n st' out)"
proof
  assume "ArrayItems v pre base st s = Inr (n, out, st')"
  then obtain r where j: "json_array v pre base st [] s = Inr (n, out, st', r)" "spaces r"
    by (auto simp: ArrayItems_def finish_space_iff split: sum.splits)
  from json_array_some [OF j(1)] obtain w t o1 where "s = w @ t @ r" "spaces w" "array_text v pre base st t n st' o1" "out = [] @ o1" .
  with j(2) show "\<exists>w1 t w2. s = w1 @ t @ w2 \<and> spaces w1 \<and> spaces w2 \<and> array_text v pre base st t n st' out" by auto
next
  assume "\<exists>w1 t w2. s = w1 @ t @ w2 \<and> spaces w1 \<and> spaces w2 \<and> array_text v pre base st t n st' out"
  then obtain w1 t w2 where e: "s = w1 @ t @ w2" "spaces w1" "spaces w2" "array_text v pre base st t n st' out" by blast
  have "finish_space w2 = Inr w2" using e(3) by (simp add: finish_space_iff)
  with json_array_text [OF e(4,2), of "[]" w2] e(1) show "ArrayItems v pre base st s = Inr (n, out, st')"
    by (simp add: ArrayItems_def)
qed

text \<open>Items spliced together are the items of one array, whose count is the sum.\<close>

lemma items_text_output:
  "items_text v p i st t n st' o1 \<Longrightarrow> scalar_visitor v \<Longrightarrow> items_text no_visit q j u o1 n u o1"
proof (induction arbitrary: j rule: items_text.induct)
  case (it_last w1 i st t st1 o1 w2)
  have s: "spaces []" by (simp add: spaces_def)
  from items_text.it_last [OF s visits_output(1) [OF it_last(2,4)] s] show ?case by simp
next
  case (it_more w1 i st t st1 o1 w2 x n st2 o2)
  have s: "spaces []" by (simp add: spaces_def)
  from items_text.it_more [OF s visits_output(1) [OF it_more(2,6)] s it_more.IH [OF it_more(6)]] show ?case by simp
qed

lemma items_text_append:
  "items_text v q i st a m st1 o1 \<Longrightarrow> items_text v q (i + int m) st1 b n st3 o3 \<Longrightarrow>
     items_text v q i st (a @ '','' @ b) (m + n) st3 (o1 @ '','' @ o3)"
proof (induction rule: items_text.induct)
  case (it_last w1 i st t st1 o1 w2)
  from it_more [OF it_last(1-3), of b n st3 o3] it_last(4) show ?case by simp
next
  case (it_more w1 i st t st1 o1 w2 x k st2 o2)
  have "items_text v q (i + 1 + int k) st2 b n st3 o3" using it_more.prems by (simp add: algebra_simps)
  from items_text.it_more [OF it_more(1-3) it_more.IH [OF this]] show ?case by simp
qed

section \<open>Members\<close>

record member =
  mem_Name :: string
  mem_Start :: int
  mem_End :: int
  mem_Items :: int
  mem_Escaped :: bool

text \<open>The visitor of a member: \<open>visitFor\<close> chooses it by name, and nil walks the member unvisited.\<close>

definition chosen :: "(string \<Rightarrow> 's visitor option) \<Rightarrow> string \<Rightarrow> 's visitor" where
  "chosen vf nm = (case vf nm of None \<Rightarrow> no_visit | Some v \<Rightarrow> v)"

text \<open>One member's value from its first byte: the items of an array, or -1. Nothing is output.\<close>

definition member_value :: "'s visitor \<Rightarrow> string \<Rightarrow> 's \<Rightarrow> string \<Rightarrow> json_error + (int \<times> 's \<times> string)" where
  "member_value v nm st s =
     (if hd s = CHR ''['' then
        (case json_array v [Key nm] 0 st [] s of Inl e \<Rightarrow> Inl e | Inr (n, out, st1, r) \<Rightarrow> Inr (int n, st1, r))
      else (case walk v False (length [Key nm]) [Key nm] st [] s of Inl e \<Rightarrow> Inl e | Inr (out, st1, r) \<Rightarrow> Inr (-1, st1, r)))"

lemma member_value_shorter: "member_value v nm st s = Inr (n, st1, r) \<Longrightarrow> length r < length s"
proof (cases "hd s = CHR ''[''")
  case True
  assume "member_value v nm st s = Inr (n, st1, r)"
  with True obtain m out where "json_array v [Key nm] 0 st [] s = Inr (m, out, st1, r)"
    by (auto simp: member_value_def split: sum.splits)
  then obtain w t o1 where "s = w @ t @ r" "spaces w" "array_text v [Key nm] 0 st t m st1 o1" "out = [] @ o1" by (rule json_array_some)
  then show ?thesis by (auto elim: array_text.cases)
next
  case False
  assume "member_value v nm st s = Inr (n, st1, r)"
  with False show ?thesis
    by (cases "walk v False (length [Key nm]) [Key nm] st [] s") (auto simp: member_value_def dest: walk_shorter [of v "[Key nm]", simplified])
qed

lemma member_item_shorter:
  assumes "member_head s = Some (h, raw, nm, s1)" and "(w, c # t) = take_space s1"
    and "member_value v nm st (c # t) = Inr (n, st1, r)" and "(w2, d # t2) = take_space r"
  shows "length t2 < length s"
  using member_head_sum [OF assms(1)] take_space_shorter' [OF assms(2)] member_value_shorter [OF assms(3)]
    take_space_shorter' [OF assms(4)] by auto

text \<open>
  The loop of \<open>VisitMembers\<close> from a member's name; \<open>fin\<close> is the offset of the end of the input, so what is
  left of it gives the offset of any point.
\<close>

function members_loop :: "(string \<Rightarrow> 's visitor option) \<Rightarrow> int \<Rightarrow> 's \<Rightarrow> string \<Rightarrow> json_error + (member list \<times> 's)" where
  "members_loop vf fin st s =
     (case member_head s of
        None \<Rightarrow> Inl ErrSyntax
      | Some (h, raw, nm, s1) \<Rightarrow>
          (case take_space s1 of
             (w, []) \<Rightarrow> Inl ErrSyntax
           | (w, c # t) \<Rightarrow>
               (case member_value (chosen vf nm) nm st (c # t) of
                  Inl e \<Rightarrow> Inl e
                | Inr (n, st1, r) \<Rightarrow>
                    (let m = \<lparr>mem_Name = nm, mem_Start = fin - int (length (c # t)), mem_End = fin - int (length r),
                              mem_Items = n, mem_Escaped = (backslash \<in> set raw)\<rparr> in
                     case take_space r of
                       (w2, []) \<Rightarrow> Inl ErrSyntax
                     | (w2, d # t2) \<Rightarrow>
                         if d = CHR '','' then
                           (case members_loop vf fin st1 t2 of Inl e \<Rightarrow> Inl e | Inr (ms, st2) \<Rightarrow> Inr (m # ms, st2))
                         else if d = CHR ''}'' then
                           (case finish_space t2 of Inl e \<Rightarrow> Inl e | Inr w3 \<Rightarrow> Inr ([m], st1))
                         else Inl ErrSyntax))))"
  by pat_completeness auto

termination
  by (relation "measure (\<lambda>(vf, fin, st, s). length s)") (auto dest: member_item_shorter)

declare members_loop.simps [simp del]

definition VisitMembers :: "(string \<Rightarrow> 's visitor option) \<Rightarrow> string \<Rightarrow> int \<Rightarrow> int \<Rightarrow> 's \<Rightarrow> json_error + (member list \<times> 's)" where
  "VisitMembers vf ra start fin st =
     (if start < 0 \<or> fin < start then Inl BadRange
      else
        (let s = take (nat (fin - start)) (drop (nat start) ra); stop = start + int (length s) in
         case take_space s of
           (w, []) \<Rightarrow> Inl ErrSyntax
         | (w, c # t) \<Rightarrow>
             if c \<noteq> CHR ''{'' then Inl NotAnObject
             else case take_space t of
               (w1, []) \<Rightarrow> Inl ErrSyntax
             | (w1, d # t1) \<Rightarrow>
                 if d = CHR ''}'' then (case finish_space t1 of Inl e \<Rightarrow> Inl e | Inr w2 \<Rightarrow> Inr ([], st))
                 else members_loop vf stop st (d # t1)))"

definition Members :: "string \<Rightarrow> int \<Rightarrow> int \<Rightarrow> json_error + member list" where
  "Members ra start fin = map_sum id fst (VisitMembers (\<lambda>nm. None) ra start fin ())"

definition CountItems :: "string \<Rightarrow> int \<Rightarrow> int \<Rightarrow> json_error + nat" where
  "CountItems ra start fin =
     (if start < 0 \<or> fin < start then Inl BadRange
      else map_sum id fst (ArrayItems no_visit [] 0 () (take (nat (fin - start)) (drop (nat start) ra))))"

section \<open>The text of an object\<close>

definition name_head :: "string \<Rightarrow> string \<Rightarrow> string \<Rightarrow> bool" where
  "name_head h raw nm \<longleftrightarrow> (\<exists>w1 w2. h = w1 @ raw @ w2 @ '':'' \<and> spaces w1 \<and> spaces w2 \<and> string_text raw
     \<and> length raw \<le> maxNameBytes \<and> nm = name_of raw)"

lemma member_head_iff: "member_head s = Some (h, raw, nm, r) \<longleftrightarrow> s = h @ r \<and> name_head h raw nm"
proof
  assume "member_head s = Some (h, raw, nm, r)"
  then obtain w1 s1 s2 w2 where n: "take_space s = (w1, s1)" "read_name s1 = Some (raw, nm, s2)" "take_space s2 = (w2, CHR '':'' # r)"
    "h = w1 @ raw @ w2 @ [CHR '':'']"
    by (auto simp: member_head_def split: option.splits list.splits if_splits prod.splits)
  then have "scan_string s1 = Some (raw, s2)" "length raw \<le> maxNameBytes" "nm = name_of raw"
    by (auto simp: read_name_def name_of_def split: option.splits if_splits)
  then show "s = h @ r \<and> name_head h raw nm" using take_space_eq [OF n(1)] take_space_eq [OF n(3)] n(4)
    unfolding name_head_def scan_string_iff by auto
next
  assume "s = h @ r \<and> name_head h raw nm"
  then obtain w1 w2 where h: "s = w1 @ raw @ w2 @ '':'' @ r" "h = w1 @ raw @ w2 @ '':''" "spaces w1" "spaces w2" "string_text raw"
    "length raw \<le> maxNameBytes" "nm = name_of raw" by (auto simp: name_head_def)
  obtain t where t: "raw = quote # t" using string_text_head [OF h(5)] by blast
  have "take_space (w1 @ raw @ w2 @ '':'' @ r) = (w1, raw @ w2 @ '':'' @ r)"
    using t by (intro take_space_spaces [OF h(3)]) (auto simp: quote_def isSpace_def)
  moreover have "take_space (w2 @ '':'' @ r) = (w2, '':'' @ r)" by (intro take_space_spaces [OF h(4)]) (auto simp: isSpace_def)
  moreover have "read_name (raw @ w2 @ '':'' @ r) = Some (raw, nm, w2 @ '':'' @ r)"
    using scan_string_text [OF h(5)] h(6,7) by (simp add: read_name_def name_of_def)
  ultimately show "member_head s = Some (h, raw, nm, r)" using h(1,2) by (simp add: member_head_def)
qed

definition member_json :: "'s visitor \<Rightarrow> string \<Rightarrow> 's \<Rightarrow> string \<Rightarrow> int \<Rightarrow> 's \<Rightarrow> bool" where
  "member_json v nm st t n st1 \<longleftrightarrow>
     (if hd t = CHR ''['' then \<exists>k o1. array_text v [Key nm] 0 st t k st1 o1 \<and> n = int k
      else \<exists>o1. visits v maxDepth [Key nm] st t st1 o1 \<and> n = -1)"

lemma member_json_head: "member_json v nm st t n st1 \<Longrightarrow> t \<noteq> [] \<and> \<not> isSpace (hd t)"
  unfolding member_json_def by (auto simp: isSpace_def elim!: array_text.cases dest: visits_head(1) split: if_splits)

lemma member_value_iff:
  assumes "\<not> isSpace (hd s)" and "s \<noteq> []" and "delimiter r"
  shows "member_value v nm st s = Inr (n, st1, r) \<longleftrightarrow> (\<exists>t. s = t @ r \<and> member_json v nm st t n st1)"
proof
  assume a: "member_value v nm st s = Inr (n, st1, r)"
  have e: "w = []" if "s = w @ x" "spaces w" for w x using that assms(1,2) by (cases w) (auto simp: spaces_def)
  show "\<exists>t. s = t @ r \<and> member_json v nm st t n st1"
  proof (cases "hd s = CHR ''[''")
    case True
    then obtain k out where j: "json_array v [Key nm] 0 st [] s = Inr (k, out, st1, r)" "n = int k"
      using a by (auto simp: member_value_def split: sum.splits)
    obtain w t o1 where f: "s = w @ t @ r" "spaces w" "array_text v [Key nm] 0 st t k st1 o1" "out = [] @ o1" by (rule json_array_some [OF j(1)])
    have "hd t = CHR ''[''" using f(3) by cases auto
    with e [of w] f j(2) show ?thesis by (intro exI [of _ t]) (auto simp: member_json_def)
  next
    case False
    then obtain out where j: "walk v False (length [Key nm]) [Key nm] st [] s = Inr (out, st1, r)" "n = -1"
      using a by (cases "walk v False (length [Key nm]) [Key nm] st [] s") (auto simp: member_value_def)
    obtain w t o1 where f: "s = w @ t @ r" "spaces w" "visits v maxDepth [Key nm] st t st1 o1" "out = [] @ w @ o1" by (rule walk_reads [OF j(1)])
    with e [of w] False j(2) visits_head(1) [OF f(3)] show ?thesis by (intro exI [of _ t]) (auto simp: member_json_def)
  qed
next
  assume "\<exists>t. s = t @ r \<and> member_json v nm st t n st1"
  then obtain t where t: "s = t @ r" "member_json v nm st t n st1" by blast
  have hd: "hd s = hd t" using member_json_head [OF t(2)] t(1) by (cases t) auto
  have sp: "spaces []" by (simp add: spaces_def)
  show "member_value v nm st s = Inr (n, st1, r)"
  proof (cases "hd t = CHR ''[''")
    case True
    then obtain k o1 where "array_text v [Key nm] 0 st t k st1 o1" "n = int k" using t(2) by (auto simp: member_json_def)
    with json_array_text [OF this(1) sp, of "[]" r] t(1) True hd show ?thesis by (simp add: member_value_def)
  next
    case False
    then obtain o1 where "visits v maxDepth [Key nm] st t st1 o1" "n = -1" using t(2) by (auto simp: member_json_def)
    with walk_top [OF this(1) sp assms(3), of "[]"] t(1) False hd show ?thesis by (simp add: member_value_def)
  qed
qed

text \<open>The members between the braces of an object, the first of whose bytes is at the offset \<open>pos\<close>.\<close>

inductive members_text :: "(string \<Rightarrow> 's visitor option) \<Rightarrow> int \<Rightarrow> 's \<Rightarrow> string \<Rightarrow> member list \<Rightarrow> 's \<Rightarrow> bool" for vf where
  ms_last: "name_head h raw nm \<Longrightarrow> spaces w1 \<Longrightarrow> member_json (chosen vf nm) nm st t n st1 \<Longrightarrow> spaces w2 \<Longrightarrow>
    members_text vf pos st (h @ w1 @ t @ w2)
      [\<lparr>mem_Name = nm, mem_Start = pos + int (length (h @ w1)), mem_End = pos + int (length (h @ w1 @ t)), mem_Items = n,
        mem_Escaped = (backslash \<in> set raw)\<rparr>] st1"
| ms_more: "name_head h raw nm \<Longrightarrow> spaces w1 \<Longrightarrow> member_json (chosen vf nm) nm st t n st1 \<Longrightarrow> spaces w2 \<Longrightarrow>
    members_text vf (pos + int (length (h @ w1 @ t @ w2)) + 1) st1 u ms st2 \<Longrightarrow>
    members_text vf pos st (h @ w1 @ t @ w2 @ '','' @ u)
      (\<lparr>mem_Name = nm, mem_Start = pos + int (length (h @ w1)), mem_End = pos + int (length (h @ w1 @ t)), mem_Items = n,
        mem_Escaped = (backslash \<in> set raw)\<rparr> # ms) st2"

lemma members_loop_value:
  assumes "name_head h raw nm" and "spaces w1" and "member_json (chosen vf nm) nm st t n st1" and "spaces w2" and "d \<in> set '',}''"
  shows "members_loop vf fin st (h @ w1 @ t @ w2 @ d # x) =
    (let m = \<lparr>mem_Name = nm, mem_Start = fin - int (length (t @ w2 @ d # x)), mem_End = fin - int (length (w2 @ d # x)),
              mem_Items = n, mem_Escaped = (backslash \<in> set raw)\<rparr> in
     if d = CHR '','' then (case members_loop vf fin st1 x of Inl e \<Rightarrow> Inl e | Inr (ms, st2) \<Rightarrow> Inr (m # ms, st2))
     else (case finish_space x of Inl e \<Rightarrow> Inl e | Inr w3 \<Rightarrow> Inr ([m], st1)))"
proof -
  obtain a y where t: "t = a # y" "\<not> isSpace a" using member_json_head [OF assms(3)] by (cases t) auto
  have mh: "member_head (h @ w1 @ t @ w2 @ d # x) = Some (h, raw, nm, w1 @ t @ w2 @ d # x)"
    using assms(1) by (simp add: member_head_iff)
  have ts: "take_space (w1 @ t @ w2 @ d # x) = (w1, a # y @ w2 @ d # x)"
    using take_space_spaces [OF assms(2), of "a # y @ w2 @ d # x"] t by simp
  have "delimiter (w2 @ d # x)" by (rule delimiter_spaces [OF assms(4)]) (use assms(5) in \<open>auto simp: delimiter_def\<close>)
  then have mv: "member_value (chosen vf nm) nm st (a # y @ w2 @ d # x) = Inr (n, st1, w2 @ d # x)"
    using member_value_iff [of "t @ w2 @ d # x" "w2 @ d # x" "chosen vf nm" nm st n st1] assms(3) t by simp
  have "take_space (w2 @ d # x) = (w2, d # x)"
    using take_space_spaces [OF assms(4), of "d # x"] assms(5) by (auto simp: isSpace_def)
  then show ?thesis using assms(5) mh ts mv t(1) by (subst members_loop.simps) (auto simp: Let_def split: sum.split)
qed

lemma members_loop_inv:
  assumes "members_loop vf fin st s = Inr R"
  obtains h raw nm w1 t n st1 w2 d x where "s = h @ w1 @ t @ w2 @ d # x" and "name_head h raw nm" and "spaces w1"
    and "member_json (chosen vf nm) nm st t n st1" and "spaces w2" and "d \<in> set '',}''"
proof -
  note a = trans [OF members_loop.simps [symmetric] assms]
  obtain h raw nm s1 where mh: "member_head s = Some (h, raw, nm, s1)" using a by (cases "member_head s") auto
  obtain w1 s2 where ts: "take_space s1 = (w1, s2)" by fastforce
  note b = a [unfolded mh, simplified, unfolded ts]
  obtain c y where s2: "s2 = c # y" using b by (cases s2) auto
  obtain n st1 r where mv: "member_value (chosen vf nm) nm st (c # y) = Inr (n, st1, r)"
    using b s2 by (cases "member_value (chosen vf nm) nm st (c # y)") auto
  obtain w2 r1 where tr: "take_space r = (w2, r1)" by fastforce
  obtain d x where r1: "r1 = d # x" "d \<in> set '',}''" using b s2 mv tr by (cases r1) (auto simp: Let_def split: if_splits)
  note e = take_space_eq [OF ts] take_space_eq [OF tr]
  have "delimiter r" using e r1 delimiter_spaces [of w2 "d # x"] by (auto simp: delimiter_def)
  with mv e(1) s2 obtain t where "c # y = t @ r" "member_json (chosen vf nm) nm st t n st1"
    using member_value_iff [of "c # y" r "chosen vf nm" nm st n st1] by auto
  with mh e s2 r1 show ?thesis by (intro that [of h w1 t w2 d x raw nm n st1]) (auto simp: member_head_iff)
qed

lemma members_loop_text:
  "members_text vf pos st t ms st' \<Longrightarrow> spaces w3 \<Longrightarrow> pos = fin - int (length (t @ CHR ''}'' # w3)) \<Longrightarrow>
     members_loop vf fin st (t @ CHR ''}'' # w3) = Inr (ms, st')"
proof (induction rule: members_text.induct)
  case (ms_last h raw nm w1 st t n st1 w2 pos)
  then have "finish_space w3 = Inr w3" by (simp add: finish_space_iff)
  with members_loop_value [OF ms_last(1-4), of "CHR ''}''" fin w3] ms_last(6) show ?case by simp
next
  case (ms_more h raw nm w1 st t n st1 w2 pos u ms st2)
  have "members_loop vf fin st1 (u @ CHR ''}'' # w3) = Inr (ms, st2)" using ms_more(6-8) by simp
  with members_loop_value [OF ms_more(1-4), of "CHR '',''" fin "u @ CHR ''}'' # w3"] ms_more(8) show ?case by simp
qed

lemma members_loop_some:
  "members_loop vf fin st s = Inr (ms, st') \<Longrightarrow>
     \<exists>t w3. s = t @ CHR ''}'' # w3 \<and> spaces w3 \<and> members_text vf (fin - int (length s)) st t ms st'"
proof (induction s arbitrary: st ms rule: measure_induct_rule [of length])
  case (less s)
  from members_loop_inv [OF less(2)] obtain h raw nm w1 t n st1 w2 d x where e: "s = h @ w1 @ t @ w2 @ d # x"
    "name_head h raw nm" "spaces w1" "member_json (chosen vf nm) nm st t n st1" "spaces w2" "d \<in> set '',}''" .
  let ?m = "\<lparr>mem_Name = nm, mem_Start = fin - int (length (t @ w2 @ d # x)), mem_End = fin - int (length (w2 @ d # x)),
              mem_Items = n, mem_Escaped = (backslash \<in> set raw)\<rparr>"
  note l = less(2) [unfolded e(1) members_loop_value [OF e(2-6)] Let_def]
  have m: "?m = \<lparr>mem_Name = nm, mem_Start = fin - int (length s) + int (length (h @ w1)),
      mem_End = fin - int (length s) + int (length (h @ w1 @ t)), mem_Items = n, mem_Escaped = (backslash \<in> set raw)\<rparr>"
    using e(1) by simp
  show ?case
  proof (cases "d = CHR '',''")
    case True
    with l obtain ms1 where r: "members_loop vf fin st1 x = Inr (ms1, st')" "ms = ?m # ms1" by (auto split: sum.splits)
    from less(1) [OF _ r(1)] e(1) obtain u w3 where u: "x = u @ CHR ''}'' # w3" "spaces w3"
      "members_text vf (fin - int (length x)) st1 u ms1 st'" by auto
    have "fin - int (length x) = fin - int (length s) + int (length (h @ w1 @ t @ w2)) + 1" using e(1) by simp
    with ms_more [OF e(2-5), of "fin - int (length s)" u ms1 st'] u(3) r(2) m
    have "members_text vf (fin - int (length s)) st (h @ w1 @ t @ w2 @ '','' @ u) ms st'" by (simp only:)
    moreover have "s = (h @ w1 @ t @ w2 @ '','' @ u) @ CHR ''}'' # w3" using e(1) u(1) True by simp
    ultimately show ?thesis using u(2) by blast
  next
    case False
    with l have "ms = [?m]" "st' = st1" "spaces x" by (auto simp: finish_space_iff split: sum.splits)
    with ms_last [OF e(2-5), of "fin - int (length s)"] m
    have "members_text vf (fin - int (length s)) st (h @ w1 @ t @ w2) ms st'" by (simp only:)
    moreover have "s = (h @ w1 @ t @ w2) @ CHR ''}'' # x" using e(1,6) False by simp
    ultimately show ?thesis using \<open>spaces x\<close> by blast
  qed
qed

definition byte_range :: "int \<Rightarrow> int \<Rightarrow> string \<Rightarrow> string" where
  "byte_range a b ra = take (nat (b - a)) (drop (nat a) ra)"

text \<open>An object with white space around it, the first byte at the offset \<open>pos\<close>.\<close>

definition object_text :: "(string \<Rightarrow> 's visitor option) \<Rightarrow> int \<Rightarrow> 's \<Rightarrow> string \<Rightarrow> member list \<Rightarrow> 's \<Rightarrow> bool" where
  "object_text vf pos st s ms st' \<longleftrightarrow> (\<exists>w1 t w2. s = w1 @ CHR ''{'' # t @ CHR ''}'' # w2 \<and> spaces w1 \<and> spaces w2
     \<and> (spaces t \<and> ms = [] \<and> st' = st \<or> members_text vf (pos + int (length w1) + 1) st t ms st'))"

lemma name_head_space: "name_head h raw nm \<Longrightarrow> spaces u \<Longrightarrow> name_head (u @ h) raw nm"
proof -
  assume "name_head h raw nm" and u: "spaces u"
  then obtain w1 w2 where "h = w1 @ raw @ w2 @ '':''" "spaces w1" "spaces w2" "string_text raw" "length raw \<le> maxNameBytes"
    "nm = name_of raw" by (auto simp: name_head_def)
  moreover have "spaces (u @ w1)" using u calculation(2) by (simp add: spaces_def)
  ultimately show ?thesis unfolding name_head_def by (metis append.assoc)
qed

lemma members_text_space:
  assumes "members_text vf pos st t ms st'" and "spaces u"
  shows "members_text vf (pos - int (length u)) st (u @ t) ms st'"
  using assms(1)
proof cases
  case (ms_last h raw nm w1 t1 n w2)
  with members_text.ms_last [OF name_head_space [OF ms_last(3) assms(2)] ms_last(4-6), of "pos - int (length u)"] show ?thesis
    by simp
next
  case (ms_more h raw nm w1 t1 n st1 w2 x ms1)
  with members_text.ms_more [OF name_head_space [OF ms_more(3) assms(2)] ms_more(4-6), of "pos - int (length u)" x ms1 st'] show ?thesis
    by simp
qed

lemma members_text_head: "members_text vf pos st t ms st' \<Longrightarrow> \<exists>u c x. t = u @ c # x \<and> spaces u \<and> \<not> isSpace c \<and> c \<noteq> CHR ''}''"
proof -
  have h: "\<exists>u c x. h = u @ c # x \<and> spaces u \<and> \<not> isSpace c \<and> c \<noteq> CHR ''}''" if "name_head h raw nm" for h raw nm
    using that by (intro head_text_first [of h nm]) (auto simp: name_head_def head_text_def)
  assume "members_text vf pos st t ms st'"
  then show ?thesis
  proof cases
    case (ms_last h raw nm w1 t1 n w2)
    with h [OF ms_last(3)] show ?thesis by force
  next
    case (ms_more h raw nm w1 t1 n st1 w2 x ms1)
    with h [OF ms_more(3)] show ?thesis by force
  qed
qed

lemma members_loop_space:
  assumes "spaces u" and "\<not> isSpace c"
  shows "members_loop vf f st (u @ c # x) = members_loop vf f st (c # x)"
proof -
  have "take_space (u @ c # x) = (u, c # x)" "take_space (c # x) = ([], c # x)"
    using take_space_spaces [OF assms(1), of "c # x"] take_space_spaces [of "[]" "c # x"] assms(2) by (simp_all add: spaces_def)
  then have "member_head (u @ c # x) = map_option (\<lambda>(h, raw, nm, r). (u @ h, raw, nm, r)) (member_head (c # x))"
    by (simp add: member_head_def split: option.split list.split prod.split)
  then show ?thesis by (subst (1 2) members_loop.simps) (simp split: option.split)
qed

lemma visit_members_iff:
  "VisitMembers vf ra start fin st = Inr (ms, st') \<longleftrightarrow> 0 \<le> start \<and> start \<le> fin \<and> object_text vf start st (byte_range start fin ra) ms st'"
proof (cases "start < 0 \<or> fin < start")
  case True
  then show ?thesis by (auto simp: VisitMembers_def)
next
  case False
  define s where "s = byte_range start fin ra"
  note d = VisitMembers_def [of vf ra start fin st, folded byte_range_def s_def, unfolded Let_def]
  have "VisitMembers vf ra start fin st = Inr (ms, st') \<longleftrightarrow> object_text vf start st s ms st'"
  proof
    assume a: "VisitMembers vf ra start fin st = Inr (ms, st')"
    obtain w1 s1 where ts: "take_space s = (w1, s1)" by fastforce
    obtain t where s1: "s1 = CHR ''{'' # t" using a False ts by (cases s1) (auto simp: d split: if_splits)
    obtain u s2 where tt: "take_space t = (u, s2)" by fastforce
    obtain c t1 where s2: "s2 = c # t1" using a False ts s1 tt by (cases s2) (auto simp: d)
    note e = take_space_eq [OF ts] take_space_eq [OF tt]
    show "object_text vf start st s ms st'"
    proof (cases "c = CHR ''}''")
      case True
      then have "spaces t1 \<and> ms = [] \<and> st' = st" using a False ts s1 tt s2 by (auto simp: d finish_space_iff split: sum.splits)
      with e s1 s2 True show ?thesis unfolding object_text_def by (intro exI [of _ w1] exI [of _ u] exI [of _ t1]) simp
    next
      case c: False
      then have "members_loop vf (start + int (length s)) st (c # t1) = Inr (ms, st')" using a False ts s1 tt s2 by (simp add: d)
      from members_loop_some [OF this] obtain x w3 where x: "c # t1 = x @ CHR ''}'' # w3" "spaces w3"
        "members_text vf (start + int (length s) - int (length (c # t1))) st x ms st'" by blast
      have l: "start + int (length s) - int (length (c # t1)) - int (length u) = start + int (length w1) + 1"
        using e s1 s2 by simp
      have "members_text vf (start + int (length w1) + 1) st (u @ x) ms st'" using members_text_space [OF x(3), of u, unfolded l] e by blast
      moreover have "s = w1 @ CHR ''{'' # (u @ x) @ CHR ''}'' # w3" using e s1 s2 x(1) by simp
      ultimately show ?thesis using e x(2) unfolding object_text_def by blast
    qed
  next
    assume "object_text vf start st s ms st'"
    then obtain w1 t w2 where o': "s = w1 @ CHR ''{'' # t @ CHR ''}'' # w2" "spaces w1" "spaces w2"
      "spaces t \<and> ms = [] \<and> st' = st \<or> members_text vf (start + int (length w1) + 1) st t ms st'" unfolding object_text_def by blast
    have ts: "take_space s = (w1, CHR ''{'' # t @ CHR ''}'' # w2)"
      using take_space_spaces [OF o'(2), of "CHR ''{'' # t @ CHR ''}'' # w2"] o'(1) by (simp add: isSpace_def)
    from o'(4) show "VisitMembers vf ra start fin st = Inr (ms, st')"
    proof
      assume m: "spaces t \<and> ms = [] \<and> st' = st"
      then have "take_space (t @ CHR ''}'' # w2) = (t, CHR ''}'' # w2)" by (intro take_space_spaces) (auto simp: isSpace_def)
      moreover have "finish_space w2 = Inr w2" using o'(3) by (simp add: finish_space_iff)
      ultimately show ?thesis using m False ts by (simp add: d)
    next
      assume m: "members_text vf (start + int (length w1) + 1) st t ms st'"
      obtain u c x where t: "t = u @ c # x" "spaces u" "\<not> isSpace c" "c \<noteq> CHR ''}''" using members_text_head [OF m] by blast
      have tt: "take_space (t @ CHR ''}'' # w2) = (u, c # x @ CHR ''}'' # w2)"
        using take_space_spaces [OF t(2), of "c # x @ CHR ''}'' # w2"] t by simp
      have "members_loop vf (start + int (length s)) st (t @ CHR ''}'' # w2) = Inr (ms, st')"
        by (rule members_loop_text [OF m o'(3)]) (simp add: o'(1))
      moreover have "members_loop vf f st (c # x @ CHR ''}'' # w2) = members_loop vf f st (t @ CHR ''}'' # w2)" for f
        using members_loop_space [OF t(2,3), of vf f st "x @ CHR ''}'' # w2"] t(1) by simp
      ultimately show ?thesis using False ts tt t(4) by (simp add: d)
    qed
  qed
  with False show ?thesis by (simp add: s_def)
qed

section \<open>Ranges\<close>

definition member_at :: "(string \<Rightarrow> 's visitor option) \<Rightarrow> int \<Rightarrow> string \<Rightarrow> member \<Rightarrow> bool" where
  "member_at vf pos t m \<longleftrightarrow> (\<exists>x y z st1 st2. t = x @ y @ z \<and> mem_Start m = pos + int (length x) \<and> x \<noteq> []
     \<and> mem_End m = mem_Start m + int (length y) \<and> member_json (chosen vf (mem_Name m)) (mem_Name m) st1 y (mem_Items m) st2)"

lemma member_atI:
  "t = x @ y @ z \<Longrightarrow> mem_Start m = pos + int (length x) \<Longrightarrow> x \<noteq> [] \<Longrightarrow> mem_End m = mem_Start m + int (length y) \<Longrightarrow>
     member_json (chosen vf (mem_Name m)) (mem_Name m) st1 y (mem_Items m) st2 \<Longrightarrow> member_at vf pos t m"
  unfolding member_at_def by blast

lemma member_at_later: "member_at vf (pos + int (length a)) t m \<Longrightarrow> member_at vf pos (a @ t) m"
  unfolding member_at_def [of vf "pos + int (length a)"]
proof (elim exE conjE)
  fix x y z st1 st2
  assume "t = x @ y @ z" "mem_Start m = pos + int (length a) + int (length x)" "x \<noteq> []" "mem_End m = mem_Start m + int (length y)"
    "member_json (chosen vf (mem_Name m)) (mem_Name m) st1 y (mem_Items m) st2"
  then show ?thesis by (intro member_atI [of _ "a @ x" y z]) auto
qed

lemma member_at_start: "member_at vf pos t m \<Longrightarrow> pos < mem_Start m"
  by (auto simp: member_at_def)

lemma name_head_ne: "name_head h raw nm \<Longrightarrow> h \<noteq> []"
  by (auto simp: name_head_def)

lemma members_text_at:
  "members_text vf pos st t ms st' \<Longrightarrow> (\<forall>m\<in>set ms. member_at vf pos t m) \<and> sorted_wrt (\<lambda>m n. mem_End m < mem_Start n) ms"
proof (induction rule: members_text.induct)
  case (ms_last h raw nm w1 st t n st1 w2 pos)
  then show ?case using name_head_ne [OF ms_last(1)] by (auto intro!: member_atI [of _ "h @ w1" t w2])
next
  case (ms_more h raw nm w1 st t n st1 w2 pos u ms st2)
  have "member_at vf pos (h @ w1 @ t @ w2 @ '','' @ u)
    \<lparr>mem_Name = nm, mem_Start = pos + int (length (h @ w1)), mem_End = pos + int (length (h @ w1 @ t)), mem_Items = n,
      mem_Escaped = (backslash \<in> set raw)\<rparr>"
    using name_head_ne [OF ms_more(1)] ms_more(3) by (intro member_atI [of _ "h @ w1" t "w2 @ '','' @ u"]) auto
  moreover have "member_at vf pos (h @ w1 @ t @ w2 @ '','' @ u) m" if "m \<in> set ms" for m
    using member_at_later [of vf pos "h @ w1 @ t @ w2 @ '',''" u m] ms_more.IH that by (simp add: algebra_simps)
  moreover have "pos + int (length (h @ w1 @ t)) < mem_Start m" if "m \<in> set ms" for m
    using member_at_start [of vf "pos + int (length (h @ w1 @ t @ w2)) + 1" u m] ms_more.IH that by simp
  ultimately show ?case using ms_more.IH by simp
qed

lemma byte_range_mid:
  assumes "byte_range a b ra = x @ y @ z" and "0 \<le> a"
  shows "byte_range (a + int (length x)) (a + int (length x) + int (length y)) ra = y"
    and "a + int (length x) + int (length y) \<le> b \<or> y = []"
proof -
  have s: "take (nat (b - a)) (drop (nat a) ra) = x @ y @ z" using assms(1) by (simp add: byte_range_def)
  have n: "nat (a + int (length x)) = nat a + length x" using assms(2) by simp
  have l: "length x + length y \<le> nat (b - a)" using arg_cong [OF s, of length] by simp
  have "take (length y) (drop (length x) (drop (nat a) ra)) = y"
  proof -
    have "take (length y) (drop (length x) (drop (nat a) ra)) = take (length y) (drop (length x) (take (nat (b - a)) (drop (nat a) ra)))"
      using l by (simp add: drop_take min_def)
    then show ?thesis by (simp add: s)
  qed
  then show "byte_range (a + int (length x)) (a + int (length x) + int (length y)) ra = y"
    using n by (simp add: byte_range_def drop_drop add.commute)
  show "a + int (length x) + int (length y) \<le> b \<or> y = []" using l by (cases y) auto
qed

lemma visit_members_at:
  assumes "VisitMembers vf ra a b st = Inr (ms, st')" and "m \<in> set ms"
  obtains st1 st2 where "a < mem_Start m" and "mem_Start m < mem_End m" and "mem_End m < b"
    and "member_json (chosen vf (mem_Name m)) (mem_Name m) st1 (byte_range (mem_Start m) (mem_End m) ra) (mem_Items m) st2"
    and "int (length (byte_range (mem_Start m) (mem_End m) ra)) = mem_End m - mem_Start m"
proof -
  from assms have o': "object_text vf a st (byte_range a b ra) ms st'" and ab: "0 \<le> a" "a \<le> b" unfolding visit_members_iff by auto
  then obtain w1 t w2 where o'': "byte_range a b ra = w1 @ CHR ''{'' # t @ CHR ''}'' # w2" "members_text vf (a + int (length w1) + 1) st t ms st'"
    using assms(2) unfolding object_text_def by auto
  from members_text_at [OF o''(2)] assms(2) obtain x y z st1 st2 where e: "t = x @ y @ z"
    "mem_Start m = a + int (length w1) + 1 + int (length x)" "mem_End m = mem_Start m + int (length y)"
    "member_json (chosen vf (mem_Name m)) (mem_Name m) st1 y (mem_Items m) st2" unfolding member_at_def by blast
  have sl: "byte_range a b ra = (w1 @ ''{'' @ x) @ y @ (z @ CHR ''}'' # w2)" using o''(1) e(1) by simp
  have y: "y \<noteq> []" using member_json_head [OF e(4)] by simp
  have "byte_range a b ra = (w1 @ ''{'' @ x) @ (y @ z @ ''}'') @ w2" using o''(1) e(1) by simp
  from byte_range_mid(2) [OF this ab(1)] have "mem_End m < b" using e(2,3) by simp
  moreover have "byte_range (mem_Start m) (mem_End m) ra = y" using byte_range_mid(1) [OF sl ab(1)] e(2,3) by (simp add: algebra_simps)
  ultimately show ?thesis using that e y by simp
qed

section \<open>Properties\<close>

text \<open>\<open>VisitMembers\<close> succeeds on exactly the byte ranges that hold one JSON object, and the members it reports are
  that object's, in order, none lost or repeated, each with the name as decoded, whether it was escaped, and
  the offsets of its value.\<close>

theorem visit_members_spec:
  "VisitMembers vf ra start fin st = Inr (ms, st') \<longleftrightarrow> 0 \<le> start \<and> start \<le> fin \<and> object_text vf start st (byte_range start fin ra) ms st'"
  by (rule visit_members_iff)

text \<open>Every range \<open>VisitMembers\<close> reports lies strictly inside the range it was given, and the bytes of the file from
  its start to its end are exactly one JSON value without white space around it, an array of that many items
  when the count is not -1: a section reader on the range reads the member's value and nothing else.\<close>

theorem member_ranges_exact:
  assumes "VisitMembers vf ra a b st = Inr (ms, st')" and "m \<in> set ms"
  shows "a < mem_Start m \<and> mem_Start m < mem_End m \<and> mem_End m < b
    \<and> (\<exists>st1 st2. member_json (chosen vf (mem_Name m)) (mem_Name m) st1 (byte_range (mem_Start m) (mem_End m) ra) (mem_Items m) st2)"
  by (rule visit_members_at [OF assms]) blast

definition two_members :: string where
  "two_members = ''xx{'' @ [quote] @ ''a'' @ [quote] @ '': [1, 2] ,'' @ [quote] @ ''b'' @ [quote] @ '':true} y''"

lemma two_members_run:
  "VisitMembers (\<lambda>nm. None) two_members 2 25 () =
     Inr ([\<lparr>mem_Name = ''a'', mem_Start = 8, mem_End = 14, mem_Items = 2, mem_Escaped = False\<rparr>,
           \<lparr>mem_Name = ''b'', mem_Start = 20, mem_End = 24, mem_Items = -1, mem_Escaped = False\<rparr>], ())"
  by code_simp

theorem member_ranges_exact_witness:
  "2 < (8::int) \<and> (14::int) < 25 \<and> (\<exists>st1 st2. member_json (chosen (\<lambda>nm. None) ''a'') ''a'' (st1::unit) ''[1, 2]'' 2 st2)"
proof -
  have "byte_range 8 14 two_members = ''[1, 2]''" by code_simp
  with member_ranges_exact [OF two_members_run, of "\<lparr>mem_Name = ''a'', mem_Start = 8, mem_End = 14, mem_Items = 2, mem_Escaped = False\<rparr>"]
  show ?thesis by simp
qed

text \<open>\<open>ArrayItems\<close> succeeds on exactly the JSON arrays with white space around them; it puts out the items as they are
  written, the visitor's replacements made, with a comma between each two and nothing else, and counts them.\<close>

theorem array_items_spec:
  "ArrayItems v pre base st s = Inr (n, out, st') \<longleftrightarrow>
     (\<exists>w1 t w2. s = w1 @ t @ w2 \<and> spaces w1 \<and> spaces w2 \<and> array_text v pre base st t n st' out)"
  by (rule array_items_iff)

end
