(* ===== verification/Measure.thy ===== *)
theory Measure
  imports Order Objects Textunit Engine
begin

text \<open>
  Measuring the parts of a split document before they are merged: \<open>internal/merge/check.go\<close>, the data of
  \<open>merge.go\<close> and \<open>separator.go\<close>. A part's file is what \<open>fs\<close> gives for its path; opening it can fail, and then
  its bytes stay the same while the merge runs. A check failure carries its message without the values
  the code prints into it.
\<close>

section \<open>Data\<close>

record profile =
  pf_di :: bool
  pf_pageArray :: string
  pf_pageKey :: string
  pf_agree :: "string list"

definition diProfile :: profile where
  "diProfile = \<lparr>pf_di = True, pf_pageArray = ''pages'', pf_pageKey = ''pageNumber'',
     pf_agree = [''apiVersion'', ''modelId'', ''stringIndexType'', ''contentFormat'']\<rparr>"

definition readProfile :: profile where
  "readProfile = \<lparr>pf_di = False, pf_pageArray = ''readResults'', pf_pageKey = ''page'',
     pf_agree = [''version'', ''modelVersion'']\<rparr>"

definition pointerMembers :: "string list" where
  "pointerMembers = [''paragraphs'', ''tables'', ''figures'', ''sections'', ''keyValuePairs'']"

datatype lt_style = LtUnseen | LtRaw | LtLower | LtUpper

record merge_input =
  in_Path :: string
  in_Start :: int
  in_End :: int
  in_Pages :: "int list"

text \<open>One part as measured: \<open>isArray\<close> and \<open>counts\<close> follow from its members (\<open>is_array\<close>, \<open>part_count\<close>).\<close>

record mpart = merge_input +
  mp_k :: nat
  mp_members :: "member list"
  mp_pages :: "int list"
  mp_pageEnd :: int
  mp_local :: bool
  mp_length :: int
  mp_endsCR :: bool
  mp_lt :: lt_style
  mp_heads :: "int list"
  mp_secDrop :: nat
  mp_rootDrop :: nat
  mp_rootMoved :: bool
  mp_char :: int
  mp_ptrBase :: "int list"
  mp_secBase :: int

definition is_array :: "member \<Rightarrow> bool" where
  "is_array m \<longleftrightarrow> 0 \<le> mem_Items m"

definition part_member :: "mpart \<Rightarrow> string \<Rightarrow> member option" where
  "part_member p nm = find (\<lambda>m. mem_Name m = nm) (mp_members p)"

definition part_count :: "mpart \<Rightarrow> string \<Rightarrow> int" where
  "part_count p nm = (case part_member p nm of None \<Rightarrow> 0 | Some m \<Rightarrow> if is_array m then mem_Items m else 0)"

text \<open>A page number as the part's result gives it, as the original page.\<close>

definition mapPage :: "mpart \<Rightarrow> int \<Rightarrow> int option" where
  "mapPage p n =
     (if mp_local p then
        (if n < 1 \<or> int (length (in_Pages p)) < n then None else Some (in_Pages p ! nat (n - 1)))
      else if n \<in> set (in_Pages p) then Some n else None)"

definition checkf :: "string \<Rightarrow> merge_error + 'a" where
  "checkf msg = Inl (MergeCheck msg)"

text \<open>Input that is not well-formed JSON is a check failure.\<close>

definition jsonErr :: "json_error \<Rightarrow> merge_error" where
  "jsonErr e = (if e = BadRange then MergeOther ''invalid range'' else MergeCheck ''malformed JSON'')"

definition withFile :: "(string \<Rightarrow> string option) \<Rightarrow> string \<Rightarrow> (string \<Rightarrow> merge_error + 'a) \<Rightarrow> merge_error + 'a" where
  "withFile fs path f = (case fs path of None \<Rightarrow> Inl (MergeOther ''open'') | Some b \<Rightarrow> f b)"

text \<open>A member's raw value.\<close>

definition raw_of :: "string \<Rightarrow> member \<Rightarrow> string" where
  "raw_of file m = byte_range (mem_Start m) (mem_End m) file"

text \<open>\<open>json.Unmarshal\<close> of a well-formed value without white space around it into a string that is empty: \<open>null\<close>
  leaves it so.\<close>

definition unmarshal_string :: "string \<Rightarrow> string option" where
  "unmarshal_string b =
     (if b = ''null'' then Some []
      else if b \<noteq> [] \<and> hd b = quote then Some (unquote (butlast (tl b)))
      else None)"

section \<open>Walking a part\<close>

definition parseIndex :: "string \<Rightarrow> int option" where
  "parseIndex b =
     (if b = [] \<or> 18 < length b \<or> 1 < length b \<and> hd b = CHR ''0'' then None
      else if list_all is_digit b then Some (int (digits_val b))
      else None)"

fun isKey :: "path_elem \<Rightarrow> string \<Rightarrow> bool" where
  "isKey (Key k) key \<longleftrightarrow> k = key"
| "isKey (Index i) key \<longleftrightarrow> False"

fun is_index :: "path_elem \<Rightarrow> bool" where
  "is_index (Index i) \<longleftrightarrow> True"
| "is_index (Key k) \<longleftrightarrow> False"

fun index_at :: "path_elem \<Rightarrow> int" where
  "index_at (Index i) = i"
| "index_at (Key k) = 0"

record page_state =
  ps_pages :: "int list"
  ps_bad :: bool
  ps_spanEnd :: int
  ps_at :: "int \<times> int"
  ps_off :: int
  ps_n :: int
  ps_have :: "bool \<times> bool"

definition new_pages :: page_state where
  "new_pages = \<lparr>ps_pages = [], ps_bad = False, ps_spanEnd = -1, ps_at = (0, 0), ps_off = 0, ps_n = 0, ps_have = (False, False)\<rparr>"

definition page_span :: "path_elem list \<Rightarrow> json_kind \<Rightarrow> string \<Rightarrow> page_state \<Rightarrow> page_state" where
  "page_span path kind raw c =
     (let here = (index_at (path ! 1), index_at (path ! 3));
          c1 = (if here \<noteq> ps_at c then c\<lparr>ps_at := here, ps_have := (False, False)\<rparr> else c) in
      case parseIndex raw of
        None \<Rightarrow> c1
      | Some v \<Rightarrow>
          if kind \<noteq> KNumber then c1
          else
            (let c2 = (if isKey (path ! 4) ''offset'' then c1\<lparr>ps_off := v, ps_have := (True, snd (ps_have c1))\<rparr>
                       else if isKey (path ! 4) ''length'' then c1\<lparr>ps_n := v, ps_have := (fst (ps_have c1), True)\<rparr>
                       else c1) in
             if ps_have c2 = (True, True) then
               c2\<lparr>ps_spanEnd := max (ps_spanEnd c2) (ps_off c2 + ps_n c2), ps_have := (False, False)\<rparr>
             else c2))"

definition page_visit :: "string \<Rightarrow> path_elem list \<Rightarrow> json_kind \<Rightarrow> string \<Rightarrow> page_state \<Rightarrow> page_state" where
  "page_visit key path kind raw c =
     (if length path = 5 \<and> is_index (path ! 1) \<and> isKey (path ! 2) ''spans'' \<and> is_index (path ! 3) then page_span path kind raw c
      else if ps_bad c \<or> length path \<noteq> 3 \<or> \<not> is_index (path ! 1) \<or> \<not> isKey (path ! 2) key then c
      else
        (case parseIndex raw of
           None \<Rightarrow> c\<lparr>ps_bad := True\<rparr>
         | Some v \<Rightarrow>
             if kind \<noteq> KNumber \<or> v < 1 then c\<lparr>ps_bad := True\<rparr>
             else if index_at (path ! 1) \<noteq> int (length (ps_pages c)) then c\<lparr>ps_bad := True\<rparr>
             else c\<lparr>ps_pages := ps_pages c @ [v]\<rparr>))"

definition heading_visit :: "path_elem list \<Rightarrow> json_kind \<Rightarrow> string \<Rightarrow> int list \<Rightarrow> int list" where
  "heading_visit path kind raw hs =
     (if length path = 3 \<and> is_index (path ! 1) \<and> isKey (path ! 2) ''role'' \<and> kind = KString
         \<and> (raw = [quote] @ ''title'' @ [quote] \<or> raw = [quote] @ ''sectionHeading'' @ [quote])
      then List.insert (index_at (path ! 1)) hs else hs)"

definition measure_visitor :: "profile \<Rightarrow> string \<Rightarrow> (page_state \<times> int list) visitor option" where
  "measure_visitor prof nm =
     (if nm = pf_pageArray prof then
        Some (\<lambda>st path kind raw. (None, (page_visit (pf_pageKey prof) path kind raw (fst st), snd st)))
      else if pf_di prof \<and> nm = ''paragraphs'' then
        Some (\<lambda>st path kind raw. (None, (fst st, heading_visit path kind raw (snd st))))
      else None)"

section \<open>Content\<close>

fun lt_scan :: "string \<Rightarrow> lt_style" where
  "lt_scan (c # d # r) =
     (if c = CHR ''<'' \<or> c = CHR ''>'' then LtRaw
      else if c = backslash then
        (if d = CHR ''u'' \<and> 4 \<le> length r then
           (if take 4 r = ''003c'' \<or> take 4 r = ''003e'' then LtLower
            else if take 4 r = ''003C'' \<or> take 4 r = ''003E'' then LtUpper
            else lt_scan r)
         else lt_scan r)
      else lt_scan (d # r))"
| "lt_scan _ = LtUnseen"

definition ltEvidence :: "string \<Rightarrow> lt_style" where
  "ltEvidence raw = lt_scan (drop 1 raw)"

definition measureContent :: "text_unit \<Rightarrow> (string \<Rightarrow> nat) \<Rightarrow> string \<Rightarrow> mpart \<Rightarrow> merge_error + mpart" where
  "measureContent u graphemes file p =
     (case part_member p ''content'' of
        None \<Rightarrow> checkf ''part has no content''
      | Some m \<Rightarrow>
          (let raw = raw_of file m in
           if raw = [] \<or> hd raw \<noteq> quote then checkf ''content is not a string''
           else case unmarshal_string raw of
             None \<Rightarrow> checkf ''content is not a string''
           | Some s \<Rightarrow> Inr (p\<lparr>mp_length := int (unit_Len graphemes s u), mp_endsCR := (s \<noteq> [] \<and> last s = CHR 0x0D),
                            mp_lt := ltEvidence raw\<rparr>)))"

section \<open>The checks on one part\<close>

definition validPages :: "int list \<Rightarrow> bool" where
  "validPages ps \<longleftrightarrow> ps \<noteq> [] \<and> list_all (\<lambda>p. 1 \<le> p) ps \<and> list_all (\<lambda>i. ps ! (i - 1) < ps ! i) [1..<length ps]"

text \<open>\<open>sameBytes\<close> compares in pieces of a fixed size.\<close>

definition cmp_size :: nat where "cmp_size = 4096"

function same_pieces :: "string \<Rightarrow> string \<Rightarrow> bool" where
  "same_pieces x y =
     (if x = [] then True
      else if take cmp_size x \<noteq> take cmp_size y then False
      else same_pieces (drop cmp_size x) (drop cmp_size y))"
  by pat_completeness auto
termination by (relation "measure (\<lambda>(x, y). length x)") (auto simp: cmp_size_def)

declare same_pieces.simps [simp del]

definition sameBytes :: "string \<Rightarrow> member \<Rightarrow> string \<Rightarrow> member \<Rightarrow> bool" where
  "sameBytes fa a fb b =
     (if mem_End a - mem_Start a \<noteq> mem_End b - mem_Start b then False else same_pieces (raw_of fa a) (raw_of fb b))"

definition same_member :: "string \<Rightarrow> mpart \<Rightarrow> string \<Rightarrow> mpart \<Rightarrow> string \<Rightarrow> bool" where
  "same_member f0 p0 f p nm =
     (case (part_member p0 nm, part_member p nm) of
        (Some a, Some b) \<Rightarrow> if is_array a \<or> is_array b then is_array a = is_array b else sameBytes f0 a f b
      | (a, b) \<Rightarrow> (a = None) = (b = None))"

definition agrees :: "profile \<Rightarrow> string \<Rightarrow> mpart \<Rightarrow> string \<Rightarrow> mpart \<Rightarrow> merge_error + mpart" where
  "agrees prof f0 p0 f p =
     (if \<not> list_all (same_member f0 p0 f p) (pf_agree prof) then checkf ''differs from part 0''
      else if \<not> list_all (\<lambda>m. is_array m \<or> pf_di prof \<and> mem_Name m = ''content'' \<or> same_member f0 p0 f p (mem_Name m))
                (mp_members p0 @ mp_members p) then checkf ''member differs from part 0''
      else Inr p)"

text \<open>A part's shape, read in one walk. On a malformed result the collector's own failure is a check failure as well.\<close>

definition measure_shape :: "profile \<Rightarrow> text_unit \<Rightarrow> (string \<Rightarrow> nat) \<Rightarrow> mpart \<Rightarrow> string \<Rightarrow> merge_error + mpart" where
  "measure_shape prof u graphemes p file =
     (case VisitMembers (measure_visitor prof) file (in_Start p) (in_End p) (new_pages, []) of
        Inl e \<Rightarrow> Inl (jsonErr e)
      | Inr (ms, pages, hs) \<Rightarrow>
          (let p1 = p\<lparr>mp_members := ms\<rparr> in
           if list_ex mem_Escaped ms then checkf ''member name is written with an escape''
           else if \<not> distinct (map mem_Name ms) then checkf ''member appears twice''
           else case part_member p1 (pf_pageArray prof) of
             None \<Rightarrow> checkf ''no page array''
           | Some pm \<Rightarrow>
               if \<not> is_array pm then checkf ''no page array''
               else if ps_bad pages then checkf ''not a page number''
               else if int (length (ps_pages pages)) \<noteq> mem_Items pm then checkf ''an item has no page number''
               else
                 (let p2 = p1\<lparr>mp_pages := ps_pages pages, mp_pageEnd := ps_spanEnd pages, mp_heads := hs\<rparr> in
                  if pf_di prof then measureContent u graphemes file p2 else Inr p2)))"

definition measurePart :: "profile \<Rightarrow> text_unit \<Rightarrow> (string \<Rightarrow> nat) \<Rightarrow> string \<Rightarrow> mpart option \<Rightarrow> mpart \<Rightarrow> string \<Rightarrow> merge_error + mpart" where
  "measurePart prof u graphemes f0 p0 p file =
     (case measure_shape prof u graphemes p file of
        Inl e \<Rightarrow> Inl e
      | Inr p1 \<Rightarrow> (case p0 of None \<Rightarrow> Inr p1 | Some q \<Rightarrow> agrees prof f0 q file p1))"

section \<open>All parts\<close>

definition new_part :: "nat \<Rightarrow> merge_input \<Rightarrow> mpart" where
  "new_part k i =
     merge_input.extend i
       \<lparr>mp_k = k, mp_members = [], mp_pages = [], mp_pageEnd = 0, mp_local = False, mp_length = 0, mp_endsCR = False,
        mp_lt = LtUnseen, mp_heads = [], mp_secDrop = 0, mp_rootDrop = 0, mp_rootMoved = False, mp_char = 0,
        mp_ptrBase = replicate (length pointerMembers) 0, mp_secBase = 0\<rparr>"

text \<open>The parts after the first, each compared with part 0.\<close>

fun measure_rest :: "profile \<Rightarrow> text_unit \<Rightarrow> (string \<Rightarrow> nat) \<Rightarrow> (string \<Rightarrow> string option) \<Rightarrow> string \<Rightarrow> mpart \<Rightarrow> nat \<Rightarrow> merge_input list
    \<Rightarrow> merge_error + mpart list" where
  "measure_rest prof u g fs f0 p0 k [] = Inr []"
| "measure_rest prof u g fs f0 p0 k (i # rest) =
     (case withFile fs (in_Path i) (measurePart prof u g f0 (Some p0) (new_part k i)) of
        Inl e \<Rightarrow> Inl e
      | Inr p \<Rightarrow> (case measure_rest prof u g fs f0 p0 (Suc k) rest of Inl e \<Rightarrow> Inl e | Inr ps \<Rightarrow> Inr (p # ps)))"

text \<open>The array map of \<open>plan\<close>: a member is an array in every part or in none.\<close>

fun plan_arrays :: "(string \<times> bool) list \<Rightarrow> (string \<Rightarrow> bool option) \<Rightarrow> (string \<Rightarrow> bool option) option" where
  "plan_arrays [] arr = Some arr"
| "plan_arrays ((nm, a) # ms) arr =
     (if arr nm = Some (\<not> a) then None else plan_arrays ms (arr(nm \<mapsto> a)))"

record merger =
  mg_prof :: profile
  mg_unit :: text_unit
  mg_parts :: "mpart list"
  mg_order :: "string list"
  mg_array :: "string \<Rightarrow> bool option"
  mg_sep :: string

definition newMerger :: "profile \<Rightarrow> text_unit \<Rightarrow> merger" where
  "newMerger prof u = \<lparr>mg_prof = prof, mg_unit = u, mg_parts = [], mg_order = [], mg_array = (\<lambda>nm. None), mg_sep = []\<rparr>"

definition merge_plan :: "merger \<Rightarrow> merge_error + merger" where
  "merge_plan m =
     (case plan_arrays (concat (map (\<lambda>p. map (\<lambda>mb. (mem_Name mb, is_array mb)) (mp_members p)) (mg_parts m))) (mg_array m) of
        None \<Rightarrow> checkf ''member is an array in one part and not in another''
      | Some arr \<Rightarrow>
          (case mergeOrder (map (\<lambda>p. map mem_Name (mp_members p)) (mg_parts m)) of
             None \<Rightarrow> checkf ''conflicting orders''
           | Some order \<Rightarrow> Inr (m\<lparr>mg_array := arr, mg_order := order\<rparr>)))"

definition merge_measure :: "(string \<Rightarrow> nat) \<Rightarrow> (string \<Rightarrow> string option) \<Rightarrow> merge_input list \<Rightarrow> merger \<Rightarrow> merge_error + merger" where
  "merge_measure g fs parts m =
     (case parts of
        [] \<Rightarrow> checkf ''no parts''
      | i0 # rest \<Rightarrow>
          if \<not> list_all (validPages \<circ> in_Pages) parts then checkf ''planned pages are not ascending page numbers''
          else withFile fs (in_Path i0) (\<lambda>f0.
            (case measurePart (mg_prof m) (mg_unit m) g f0 None (new_part 0 i0) f0 of
               Inl e \<Rightarrow> Inl e
             | Inr p0 \<Rightarrow>
                 (case measure_rest (mg_prof m) (mg_unit m) g fs f0 p0 1 rest of
                    Inl e \<Rightarrow> Inl e
                  | Inr ps \<Rightarrow> merge_plan (m\<lparr>mg_parts := p0 # ps\<rparr>)))))"

text \<open>The unit's own check: the pages' spans end where the content does.\<close>

definition checkPageSpans :: "merger \<Rightarrow> merge_error + unit" where
  "checkPageSpans m =
     (if list_ex (\<lambda>p. mp_pageEnd p < 0 \<and> 0 < mp_length p \<or> 0 \<le> mp_pageEnd p \<and> mp_pageEnd p \<noteq> mp_length p) (mg_parts m)
      then checkf ''the service counts differently'' else Inr ())"

definition checkUnit :: "(string \<Rightarrow> string option) \<Rightarrow> merger \<Rightarrow> merge_error + unit" where
  "checkUnit fs m =
     (let p0 = hd (mg_parts m);
          got = (case part_member p0 ''stringIndexType'' of
                   None \<Rightarrow> Inr TextElements
                 | Some mb \<Rightarrow> withFile fs (in_Path p0) (\<lambda>f.
                     (case unmarshal_string (raw_of f mb) of
                        None \<Rightarrow> checkf ''stringIndexType is not a string''
                      | Some nm \<Rightarrow> (case unit_Parse nm of None \<Rightarrow> checkf ''unknown stringIndexType'' | Some u \<Rightarrow> Inr u)))) in
      case got of
        Inl e \<Rightarrow> Inl e
      | Inr u \<Rightarrow> if u \<noteq> mg_unit m then checkf ''not the requested unit'' else Inr ())"

end
