(* ===== verification/Merge.thy ===== *)
theory Merge
  imports Measure
begin

text \<open>
  Renumbering and writing: the rest of \<open>internal/merge/check.go\<close> and \<open>separator.go\<close>, the visitors of \<open>di.go\<close> and
  \<open>read.go\<close>, and the parts of \<open>merge.go\<close> and \<open>di.go\<close> that write a member of the merged result. A visitor's state is
  whether it has met a value it cannot renumber; the code keeps the first such failure and stops there.
\<close>

section \<open>Pages\<close>

definition map_part :: "mpart \<Rightarrow> merge_error + mpart" where
  "map_part p =
     (let p1 = p\<lparr>mp_local := list_all (\<lambda>n. n \<le> int (length (in_Pages p))) (mp_pages p)\<rparr> in
      if length (mp_pages p1) \<noteq> length (in_Pages p1) then checkf ''not the planned number of pages''
      else if list_all2 (\<lambda>n q. mapPage p1 n = Some q) (mp_pages p1) (in_Pages p1) then Inr p1
      else checkf ''not the planned page'')"

fun map_parts :: "int \<Rightarrow> mpart list \<Rightarrow> merge_error + mpart list" where
  "map_parts prev [] = Inr []"
| "map_parts prev (p # ps) =
     (if hd (in_Pages p) \<le> prev then checkf ''part starts too early''
      else case map_part p of
        Inl e \<Rightarrow> Inl e
      | Inr p1 \<Rightarrow> (case map_parts (last (in_Pages p)) ps of Inl e \<Rightarrow> Inl e | Inr qs \<Rightarrow> Inr (p1 # qs)))"

definition mapPages :: "merger \<Rightarrow> merge_error + merger" where
  "mapPages m = (case map_parts 0 (mg_parts m) of Inl e \<Rightarrow> Inl e | Inr ps \<Rightarrow> Inr (m\<lparr>mg_parts := ps\<rparr>))"

section \<open>Shifts\<close>

fun shift_parts :: "int \<Rightarrow> int \<Rightarrow> int \<Rightarrow> int list \<Rightarrow> mpart list \<Rightarrow> mpart list" where
  "shift_parts sepLen char sec ptr [] = []"
| "shift_parts sepLen char sec ptr (p # ps) =
     p\<lparr>mp_char := char, mp_ptrBase := ptr, mp_secBase := sec\<rparr>
     # shift_parts sepLen (char + mp_length p + sepLen)
         (if 0 < part_count p ''sections'' then sec + part_count p ''sections'' - 1 - int (mp_secDrop p) else sec)
         (map2 (\<lambda>b nm. b + part_count p nm) ptr pointerMembers) ps"

definition merge_shift :: "int \<Rightarrow> merger \<Rightarrow> merger" where
  "merge_shift sepLen m = m\<lparr>mg_parts := shift_parts sepLen 0 1 (replicate (length pointerMembers) 0) (mg_parts m)\<rparr>"

section \<open>The separator\<close>

definition bracket_code :: "lt_style \<Rightarrow> char \<Rightarrow> string" where
  "bracket_code style c =
     [backslash] @ (if style = LtLower then (if c = CHR ''<'' then ''u003c'' else ''u003e'')
                    else (if c = CHR ''<'' then ''u003C'' else ''u003E''))"

definition encodeSeparator :: "string \<Rightarrow> lt_style \<Rightarrow> string" where
  "encodeSeparator text style =
     concat (map (\<lambda>c. if c = CHR 0x0A then [backslash, CHR ''n'']
                      else if (c = CHR ''<'' \<or> c = CHR ''>'') \<and> (style = LtLower \<or> style = LtUpper) then bracket_code style c
                      else [c]) text)"

definition text_separator :: string where "text_separator = [CHR 0x0A]"
definition markdown_separator :: string where "markdown_separator = [CHR 0x0A] @ ''<!-- PageBreak -->'' @ [CHR 0x0A]"

definition separator :: "(string \<Rightarrow> nat) \<Rightarrow> (string \<Rightarrow> string option) \<Rightarrow> merger \<Rightarrow> merge_error + (string \<times> int)" where
  "separator g fs m =
     (let p0 = hd (mg_parts m);
          text = (case part_member p0 ''contentFormat'' of
                    None \<Rightarrow> Inr text_separator
                  | Some mb \<Rightarrow> withFile fs (in_Path p0) (\<lambda>f.
                      (case unmarshal_string (raw_of f mb) of
                         None \<Rightarrow> checkf ''contentFormat is not a string''
                       | Some fmt \<Rightarrow>
                           if fmt = ''text'' then Inr text_separator
                           else if fmt = ''markdown'' then Inr markdown_separator
                           else checkf ''contentFormat has no known page separator'')));
          style = (case find (\<lambda>p. mp_lt p \<noteq> LtUnseen) (mg_parts m) of None \<Rightarrow> LtUnseen | Some p \<Rightarrow> mp_lt p) in
      case text of
        Inl e \<Rightarrow> Inl e
      | Inr t \<Rightarrow> Inr (encodeSeparator t style, int (unit_Len g t (mg_unit m))))"

section \<open>Visitors\<close>

text \<open>What a visitor does with one scalar: keep it, replace it, or fail.\<close>

datatype renumbered = Keep | Replace string | Fail

definition renumber :: "int \<Rightarrow> int \<Rightarrow> renumbered" where
  "renumber x was = (if x = was then Keep else Replace (itoa x))"

definition visit_offset :: "mpart \<Rightarrow> json_kind \<Rightarrow> string \<Rightarrow> renumbered" where
  "visit_offset p kind raw =
     (case parseIndex raw of
        None \<Rightarrow> Fail
      | Some off \<Rightarrow> if kind \<noteq> KNumber then Fail else renumber (off + mp_char p) off)"

definition visit_page :: "mpart \<Rightarrow> json_kind \<Rightarrow> string \<Rightarrow> renumbered" where
  "visit_page p kind raw =
     (case parseIndex raw of
        None \<Rightarrow> Fail
      | Some n \<Rightarrow>
          if kind \<noteq> KNumber then Fail
          else case mapPage p n of None \<Rightarrow> Fail | Some orig \<Rightarrow> renumber orig n)"

text \<open>The part before the last slash of a body and the part after it.\<close>

definition cut_last :: "char \<Rightarrow> string \<Rightarrow> string \<times> string" where
  "cut_last c s = (let tl1 = takeWhile (\<lambda>x. x \<noteq> c) (rev s) in (rev (drop (Suc (length tl1)) (rev s)), rev tl1))"

text \<open>An index in a pointer's member, renumbered: sections lose the parts' own roots and what was folded away.\<close>

definition renumber_pointer :: "mpart \<Rightarrow> nat \<Rightarrow> int \<Rightarrow> int option" where
  "renumber_pointer p which i =
     (if pointerMembers ! which = ''sections'' then
        (if 0 < i \<and> i \<le> int (mp_secDrop p) then None
         else if 0 < i then Some (mp_secBase p + i - 1 - int (mp_secDrop p))
         else Some 0)
      else Some (i + mp_ptrBase p ! which))"

definition visit_pointer :: "mpart \<Rightarrow> json_kind \<Rightarrow> string \<Rightarrow> renumbered" where
  "visit_pointer p kind raw =
     (if kind \<noteq> KString then Fail
      else
        (let body = butlast (tl raw); (front, digits) = cut_last (CHR ''/'') body; nm = tl front in
         if length body < 3 \<or> hd body \<noteq> CHR ''/'' \<or> front = [] then Fail
         else
           (case parseIndex digits of
              None \<Rightarrow> Fail
            | Some i \<Rightarrow>
                if nm \<notin> set pointerMembers then Fail
                else if part_count p nm \<le> i then Fail
                else
                  (case renumber_pointer p (index_of nm pointerMembers) i of
                     None \<Rightarrow> Fail
                   | Some j \<Rightarrow>
                       if j = i then Keep
                       else Replace ([quote] @ ''/'' @ nm @ ''/'' @ itoa j @ [quote])))))"

definition visit_figureID :: "mpart \<Rightarrow> json_kind \<Rightarrow> string \<Rightarrow> renumbered" where
  "visit_figureID p kind raw =
     (if kind \<noteq> KString then Fail
      else
        (let body = butlast (tl raw); (pg, rest, found) = go_cut (CHR ''.'') body in
         if \<not> found \<or> pg = [] \<or> rest = [] then Fail
         else
           (case parseIndex pg of
              None \<Rightarrow> Fail
            | Some page \<Rightarrow>
                (case mapPage p page of
                   None \<Rightarrow> Fail
                 | Some orig \<Rightarrow>
                     if orig = page then Keep else Replace ([quote] @ itoa orig @ ''.'' @ rest @ [quote])))))"

text \<open>The places a Document Intelligence result is numbered from; every other scalar is kept.\<close>

definition at_end :: "path_elem list \<Rightarrow> nat \<Rightarrow> path_elem" where
  "at_end path i = path ! (length path - i)"

definition di_scalar :: "mpart \<Rightarrow> path_elem list \<Rightarrow> json_kind \<Rightarrow> string \<Rightarrow> renumbered" where
  "di_scalar p path kind raw =
     (let n = length path in
      if n = 0 then Keep
      else case last path of
        Index i \<Rightarrow> if 2 \<le> n \<and> isKey (at_end path 2) ''elements'' then visit_pointer p kind raw else Keep
      | Key key \<Rightarrow>
          if key = ''offset'' then
            (if 2 \<le> n \<and> isKey (at_end path 2) ''span''
                \<or> 3 \<le> n \<and> is_index (at_end path 2) \<and> isKey (at_end path 3) ''spans'' then visit_offset p kind raw
             else Keep)
          else if key = ''pageNumber'' then
            (if 3 \<le> n \<and> is_index (at_end path 2)
                \<and> (n = 3 \<and> isKey (path ! 0) ''pages'' \<or> isKey (at_end path 3) ''boundingRegions'') then visit_page p kind raw
             else Keep)
          else if key = ''id'' then
            (if n = 3 \<and> isKey (path ! 0) ''figures'' \<and> is_index (path ! 1) then visit_figureID p kind raw else Keep)
          else Keep)"

text \<open>The visitor's state is whether it has failed; once it has, it does nothing.\<close>

definition diVisitor :: "mpart \<Rightarrow> bool visitor" where
  "diVisitor p failed path kind raw =
     (if failed then (None, True)
      else case di_scalar p path kind raw of
        Keep \<Rightarrow> (None, False)
      | Replace r \<Rightarrow> (Some r, False)
      | Fail \<Rightarrow> (None, True))"

definition readVisitor :: "mpart \<Rightarrow> bool visitor" where
  "readVisitor p failed path kind raw =
     (if failed \<or> length path \<noteq> 3 \<or> \<not> isKey (path ! 0) ''readResults'' \<or> \<not> is_index (path ! 1) \<or> \<not> isKey (path ! 2) ''page''
      then (None, failed)
      else
        (case parseIndex raw of
           None \<Rightarrow> (None, True)
         | Some n \<Rightarrow>
             (case mapPage p n of
                None \<Rightarrow> (None, True)
              | Some orig \<Rightarrow>
                  if kind \<noteq> KNumber then (None, True)
                  else if orig = n then (None, False)
                  else (Some (itoa orig), False))))"

definition part_visitor :: "profile \<Rightarrow> mpart \<Rightarrow> bool visitor" where
  "part_visitor prof p = (if pf_di prof then diVisitor p else readVisitor p)"

section \<open>Writing\<close>

definition writeName :: "string \<Rightarrow> string" where
  "writeName nm = [quote] @ nm @ [quote]"

text \<open>\<open>items\<close>: the items of an array through the part's visitor, with its first failure.\<close>

definition merge_items :: "profile \<Rightarrow> mpart \<Rightarrow> string \<Rightarrow> path_elem list \<Rightarrow> int \<Rightarrow> merge_error + (nat \<times> string)" where
  "merge_items prof p s pre base =
     (case ArrayItems (part_visitor prof p) pre base False s of
        Inl e \<Rightarrow> Inl (jsonErr e)
      | Inr (n, out, failed) \<Rightarrow> if failed then checkf ''cannot be renumbered'' else Inr (n, out))"

fun write_items :: "(string \<Rightarrow> string option) \<Rightarrow> profile \<Rightarrow> string \<Rightarrow> int \<Rightarrow> mpart list \<Rightarrow> merge_error + (int \<times> string)" where
  "write_items fs prof nm done_n [] = Inr (done_n, [])"
| "write_items fs prof nm done_n (p # ps) =
     (case part_member p nm of
        None \<Rightarrow> write_items fs prof nm done_n ps
      | Some mb \<Rightarrow>
          if part_count p nm = 0 then write_items fs prof nm done_n ps
          else
            (case withFile fs (in_Path p) (\<lambda>f. merge_items prof p (raw_of f mb) [Key nm] done_n) of
               Inl e \<Rightarrow> Inl e
             | Inr (n, out) \<Rightarrow>
                 if int n \<noteq> part_count p nm then checkf ''not the items counted''
                 else (case write_items fs prof nm (done_n + int n) ps of
                         Inl e \<Rightarrow> Inl e
                       | Inr (t, rest) \<Rightarrow> Inr (t, (if 0 < done_n then '','' else []) @ out @ rest))))"

definition writeArray :: "(string \<Rightarrow> string option) \<Rightarrow> merger \<Rightarrow> string \<Rightarrow> merge_error + (int \<times> string)" where
  "writeArray fs m nm =
     (case write_items fs (mg_prof m) nm 0 (mg_parts m) of
        Inl e \<Rightarrow> Inl e
      | Inr (t, s) \<Rightarrow> Inr (t, ''['' @ s @ '']''))"

text \<open>The bodies of the parts' content strings, the separator between two.\<close>

fun content_bodies :: "(string \<Rightarrow> string option) \<Rightarrow> string \<Rightarrow> nat \<Rightarrow> mpart list \<Rightarrow> merge_error + string" where
  "content_bodies fs sep k [] = Inr []"
| "content_bodies fs sep k (p # ps) =
     (case withFile fs (in_Path p) (\<lambda>f.
              (case part_member p ''content'' of
                 None \<Rightarrow> Inr []
               | Some mb \<Rightarrow> Inr (byte_range (mem_Start mb + 1) (mem_End mb - 1) f))) of
        Inl e \<Rightarrow> Inl e
      | Inr body \<Rightarrow>
          (case content_bodies fs sep (Suc k) ps of
             Inl e \<Rightarrow> Inl e
           | Inr rest \<Rightarrow> Inr ((if 0 < k then sep else []) @ body @ rest)))"

definition writeContent :: "(string \<Rightarrow> string option) \<Rightarrow> merger \<Rightarrow> merge_error + string" where
  "writeContent fs m =
     (case content_bodies fs (mg_sep m) 0 (mg_parts m) of Inl e \<Rightarrow> Inl e | Inr s \<Rightarrow> Inr ([quote] @ s @ [quote]))"

definition copyMember :: "(string \<Rightarrow> string option) \<Rightarrow> mpart \<Rightarrow> string \<Rightarrow> merge_error + string" where
  "copyMember fs p nm =
     withFile fs (in_Path p) (\<lambda>f. case part_member p nm of None \<Rightarrow> Inr [] | Some mb \<Rightarrow> Inr (raw_of f mb))"

end
