(* ===== verification/Sections.thy ===== *)
theory Sections
  imports Merge
begin

text \<open>
  Section trees: \<open>internal/merge/sections.go\<close> and \<open>continue.go\<close>. Every part has a root section; the merged document
  has one, built from all of them, and a part whose leading content has no heading is folded into the sections
  the parts before it left open. \<open>encoding/json\<close> is used on values the walker has accepted, so decoding an array
  into its items' raw values is the walker run item by item.
\<close>

section \<open>Decoding\<close>

record jspan =
  sp_offset :: int
  sp_length :: int

record jobject =
  jo_keys :: "string list"
  jo_values :: "string list"

definition obj_get :: "jobject \<Rightarrow> string \<Rightarrow> string option" where
  "obj_get o1 key = map_of (zip (jo_keys o1) (jo_values o1)) key"

lemmas json_item_shorter = array_item_shorter [of _ _ _ _ no_visit "[]" "()" "[]", simplified]

text \<open>The items of an array from its first item on, and the input after the array.\<close>

function json_items_loop :: "string \<Rightarrow> (string list \<times> string) option" where
  "json_items_loop s =
     (case take_space s of
        (w, []) \<Rightarrow> None
      | (w, c # t) \<Rightarrow>
          (case walk no_visit False (length ([] :: path_elem list)) [] () [] (c # t) of
             Inl e \<Rightarrow> None
           | Inr (item, u, r) \<Rightarrow>
               (case take_space r of
                  (w2, []) \<Rightarrow> None
                | (w2, d # t1) \<Rightarrow>
                    if d = CHR '']'' then Some ([item], t1)
                    else if d = CHR '','' then map_option (\<lambda>(xs, r1). (item # xs, r1)) (json_items_loop t1)
                    else None)))"
  by pat_completeness auto
termination
  by (relation "measure length") (auto dest: json_item_shorter)

declare json_items_loop.simps [simp del]

text \<open>\<open>json.Unmarshal\<close> into a slice of raw messages.\<close>

definition json_items :: "string \<Rightarrow> string list option" where
  "json_items s =
     (case take_space s of
        (w, []) \<Rightarrow> None
      | (w, c # t) \<Rightarrow>
          if c \<noteq> CHR ''['' then None
          else case take_space t of
            (w1, []) \<Rightarrow> None
          | (w1, d # t1) \<Rightarrow>
              if d = CHR '']'' then (if isl (finish_space t1) then None else Some [])
              else (case json_items_loop (d # t1) of
                      None \<Rightarrow> None
                    | Some (xs, r) \<Rightarrow> if isl (finish_space r) then None else Some xs))"

text \<open>An object's members in order with their raw values; no name escaped, none given twice.\<close>

definition readObject :: "string \<Rightarrow> merge_error + jobject" where
  "readObject raw =
     (if raw = [] \<or> hd raw \<noteq> CHR ''{'' then checkf ''not an object''
      else case Members raw 0 (int (length raw)) of
        Inl e \<Rightarrow> Inl (jsonErr e)
      | Inr ms \<Rightarrow>
          if list_ex mem_Escaped ms then checkf ''member name is written with an escape''
          else if \<not> distinct (map mem_Name ms) then checkf ''member given twice''
          else Inr \<lparr>jo_keys = map mem_Name ms, jo_values = map (raw_of raw) ms\<rparr>)"

text \<open>\<open>readSpans\<close>: an array of objects, each with \<open>offset\<close> and \<open>length\<close> once and nothing else, both canonical integers.
  The token decoder gives names decoded and numbers as written.\<close>

definition readSpan :: "string \<Rightarrow> merge_error + jspan" where
  "readSpan raw =
     (if raw = [] \<or> hd raw \<noteq> CHR ''{'' then checkf ''span is not an object''
      else case Members raw 0 (int (length raw)) of
        Inl e \<Rightarrow> Inl (jsonErr e)
      | Inr ms \<Rightarrow>
          if \<not> list_all (\<lambda>m. mem_Name m \<in> {''offset'', ''length''}) ms \<or> \<not> distinct (map mem_Name ms) then checkf ''span members''
          else
            (case (find (\<lambda>m. mem_Name m = ''offset'') ms, find (\<lambda>m. mem_Name m = ''length'') ms) of
               (Some a, Some b) \<Rightarrow>
                 (case (parseIndex (raw_of raw a), parseIndex (raw_of raw b)) of
                    (Some x, Some y) \<Rightarrow> Inr \<lparr>sp_offset = x, sp_length = y\<rparr>
                  | _ \<Rightarrow> checkf ''not a non-negative integer'')
             | _ \<Rightarrow> checkf ''span has no member''))"

fun map_all :: "('a \<Rightarrow> 'e + 'b) \<Rightarrow> 'a list \<Rightarrow> 'e + 'b list" where
  "map_all f [] = Inr []"
| "map_all f (x # xs) =
     (case f x of Inl e \<Rightarrow> Inl e | Inr y \<Rightarrow> (case map_all f xs of Inl e \<Rightarrow> Inl e | Inr ys \<Rightarrow> Inr (y # ys)))"

definition readSpans :: "string \<Rightarrow> merge_error + jspan list" where
  "readSpans v = (case json_items v of None \<Rightarrow> checkf ''spans are not an array'' | Some xs \<Rightarrow> map_all readSpan xs)"

text \<open>\<open>pointers\<close>: \<open>json.Unmarshal\<close> into a slice of strings; \<open>null\<close> is the empty string, and a null array is empty.\<close>

definition pointers :: "string \<Rightarrow> merge_error + string list" where
  "pointers raw =
     (if raw = ''null'' then Inr []
      else case json_items raw of
        None \<Rightarrow> checkf ''not an array of pointers''
      | Some xs \<Rightarrow> map_all (\<lambda>x. case unmarshal_string x of None \<Rightarrow> checkf ''not an array of pointers'' | Some s \<Rightarrow> Inr s) xs)"

definition cut_prefix_of :: "string \<Rightarrow> string \<Rightarrow> string option" where
  "cut_prefix_of pre s = (if starts_with pre s then Some (drop (length pre) s) else None)"

definition sectionIndex :: "string \<Rightarrow> int option" where
  "sectionIndex ptr = (case cut_prefix_of ''/sections/'' ptr of None \<Rightarrow> None | Some n \<Rightarrow> parseIndex n)"

definition isHeading :: "mpart \<Rightarrow> string \<Rightarrow> bool" where
  "isHeading p ptr =
     (case cut_prefix_of ''/paragraphs/'' ptr of
        None \<Rightarrow> False
      | Some n \<Rightarrow> (case parseIndex n of None \<Rightarrow> False | Some i \<Rightarrow> i \<in> set (mp_heads p)))"

fun leaf_loop :: "string list \<Rightarrow> string \<Rightarrow> (string \<times> int) option" where
  "leaf_loop [] ptr = None"
| "leaf_loop (nm # nms) ptr =
     (case cut_prefix_of (''/'' @ nm @ ''/'') ptr of
        Some n \<Rightarrow> if nm \<noteq> ''sections'' then map_option (Pair nm) (parseIndex n) else leaf_loop nms ptr
      | None \<Rightarrow> leaf_loop nms ptr)"

definition leafPointer :: "string \<Rightarrow> (string \<times> int) option" where
  "leafPointer ptr = leaf_loop pointerMembers ptr"

text \<open>\<open>splitArray\<close>: an array's first \<open>n\<close> items and the rest, each as an array.\<close>

definition join_items :: "string list \<Rightarrow> string" where
  "join_items xs = ''['' @ join_comma xs @ '']''"

definition splitArray :: "string \<Rightarrow> nat \<Rightarrow> merge_error + (string \<times> string)" where
  "splitArray raw n =
     (case (if raw = ''null'' then Some [] else json_items raw) of
        None \<Rightarrow> checkf ''elements are not an array''
      | Some xs \<Rightarrow> Inr (join_items (take n xs), join_items (drop n xs)))"

definition readSections :: "(string \<Rightarrow> string option) \<Rightarrow> mpart \<Rightarrow> merge_error + string list" where
  "readSections fs p =
     withFile fs (in_Path p) (\<lambda>f.
       (case json_items (case part_member p ''sections'' of None \<Rightarrow> [] | Some mb \<Rightarrow> raw_of f mb) of
          None \<Rightarrow> checkf ''sections is not an array''
        | Some xs \<Rightarrow> if int (length xs) \<noteq> part_count p ''sections'' then checkf ''not the sections counted'' else Inr xs))"

section \<open>Roots\<close>

record root =
  rt_obj :: jobject
  rt_spans :: "jspan list"

definition readRoot :: "string \<Rightarrow> member \<Rightarrow> merge_error + root" where
  "readRoot file mb =
     (case json_items (raw_of file mb) of
        None \<Rightarrow> checkf ''sections is not an array''
      | Some [] \<Rightarrow> checkf ''no root section''
      | Some (raw # rest) \<Rightarrow>
          (case readObject raw of Inl e \<Rightarrow> Inl e | Inr o1 \<Rightarrow> Inr \<lparr>rt_obj = o1, rt_spans = []\<rparr>))"

definition span_end :: "jspan \<Rightarrow> int" where
  "span_end s = sp_offset s + sp_length s"

definition root_end :: "jspan list \<Rightarrow> int" where
  "root_end ss = fold (\<lambda>s e. max e (span_end s)) (tl ss) (span_end (hd ss))"

definition checkRootSpans :: "mpart \<Rightarrow> root \<Rightarrow> merge_error + root" where
  "checkRootSpans p r =
     (case (case obj_get (rt_obj r) ''spans'' of None \<Rightarrow> Inr [] | Some v \<Rightarrow> readSpans v) of
        Inl e \<Rightarrow> Inl e
      | Inr ss \<Rightarrow>
          if ss = [] then (if 0 < mp_length p then checkf ''content but no span'' else Inr r)
          else if mp_length p < root_end ss then checkf ''spans reach past the content''
          else Inr (r\<lparr>rt_spans := ss\<rparr>))"

text \<open>The parts with sections, each with its root.\<close>

definition checkSections :: "(string \<Rightarrow> string option) \<Rightarrow> merger \<Rightarrow> merge_error + (mpart \<times> root) list" where
  "checkSections fs m =
     (if list_all (\<lambda>p. part_count p ''sections'' = 0) (mg_parts m) then Inr []
      else if list_ex (\<lambda>p. part_count p ''sections'' = 0 \<and> 0 < mp_length p) (mg_parts m) then checkf ''content but no sections''
      else map_all (\<lambda>p. case part_member p ''sections'' of
               None \<Rightarrow> checkf ''no sections''
             | Some mb \<Rightarrow>
                 (case withFile fs (in_Path p) (\<lambda>f. readRoot f mb) of
                    Inl e \<Rightarrow> Inl e
                  | Inr r \<Rightarrow> (case checkRootSpans p r of Inl e \<Rightarrow> Inl e | Inr r1 \<Rightarrow> Inr (p, r1))))
             (filter (\<lambda>p. part_count p ''sections'' \<noteq> 0) (mg_parts m)))"

section \<open>Continuations\<close>

text \<open>Content of a part that continues a section open before it; the part is named by its number.\<close>

record continuation =
  ct_k :: nat
  ct_elements :: "string option"
  ct_spans :: "jspan list"

record lead =
  ld_conts :: "continuation option list"
  ld_into :: "nat list"

definition lead_content :: "lead \<Rightarrow> continuation \<Rightarrow> nat \<Rightarrow> lead" where
  "lead_content l c from_d =
     (let d = length (ld_conts l);
          cs = fold (\<lambda>j xs. xs[j := Some (c\<lparr>ct_elements := None\<rparr>)]) [from_d..<d - 1] (ld_conts l) in
      l\<lparr>ld_conts := cs[d - 1 := Some c]\<rparr>)"

record chain_link =
  cl_elements :: string
  cl_spans :: "jspan list"
  cl_wrapper :: bool

definition spansWithin :: "mpart \<Rightarrow> jspan list \<Rightarrow> bool" where
  "spansWithin p ss \<longleftrightarrow> list_all (\<lambda>s. span_end s \<le> mp_length p) ss"

text \<open>The chain of untitled sections a part opens with, from section \<open>i\<close>; \<open>None\<close> is no continuation.\<close>

function lead_chain :: "mpart \<Rightarrow> string list \<Rightarrow> nat \<Rightarrow> nat \<Rightarrow> merge_error + chain_link list option" where
  "lead_chain p secs depth i =
     (if length secs \<le> i then Inr None
      else
        (case readObject (secs ! i) of
           Inl e \<Rightarrow> Inl e
         | Inr s \<Rightarrow>
             (case (obj_get s ''elements'', obj_get s ''spans'') of
                (Some ev, Some sv) \<Rightarrow>
                  (case pointers ev of
                     Inl e \<Rightarrow> Inl e
                   | Inr [] \<Rightarrow> Inr None
                   | Inr (e0 # es) \<Rightarrow>
                       if isHeading p e0 then Inr (if i = 1 then None else Some [])
                       else if depth < i then Inr None
                       else
                         (case readSpans sv of
                            Inl e \<Rightarrow> Inl e
                          | Inr ss \<Rightarrow>
                              if \<not> spansWithin p ss then checkf ''spans reach past the content''
                              else
                                (case sectionIndex e0 of
                                   None \<Rightarrow> Inr (Some [\<lparr>cl_elements = ev, cl_spans = ss, cl_wrapper = False\<rparr>])
                                 | Some nxt \<Rightarrow>
                                     if nxt \<noteq> int i + 1 then Inr None
                                     else
                                       (case lead_chain p secs depth (Suc i) of
                                          Inl e \<Rightarrow> Inl e
                                        | Inr None \<Rightarrow> Inr None
                                        | Inr (Some ls) \<Rightarrow>
                                            Inr (Some (\<lparr>cl_elements = ev, cl_spans = ss, cl_wrapper = True\<rparr> # ls))))))
              | _ \<Rightarrow> Inr None)))"
  by pat_completeness auto
termination by (relation "measure (\<lambda>(p, secs, depth, i). length secs - i)") auto

declare lead_chain.simps [simp del]

text \<open>The chain's links folded into the open sections, link \<open>i\<close> at its own depth or, when it opens with content, the deepest.\<close>

fun fold_chain :: "nat \<Rightarrow> nat \<Rightarrow> chain_link list \<Rightarrow> nat \<Rightarrow> lead \<Rightarrow> merge_error + lead" where
  "fold_chain k depth [] i l = Inr l"
| "fold_chain k depth (c # cs) i l =
     (case (if cs \<noteq> [] then (case splitArray (cl_elements c) 1 of Inl e \<Rightarrow> Inl e | Inr (h, t) \<Rightarrow> Inr t) else Inr (cl_elements c)) of
        Inl e \<Rightarrow> Inl e
      | Inr el \<Rightarrow>
          (let cont = \<lparr>ct_k = k, ct_elements = Some el, ct_spans = cl_spans c\<rparr>;
               l1 = (if cl_wrapper c then l\<lparr>ld_conts := (ld_conts l)[i := Some cont], ld_into := ld_into l @ [Suc i]\<rparr>
                     else (lead_content l cont i)\<lparr>ld_into := ld_into l @ [depth]\<rparr>) in
           fold_chain k depth cs (Suc i) l1))"

definition leadingSections :: "mpart \<Rightarrow> string list \<Rightarrow> lead \<Rightarrow> merge_error + (lead option \<times> mpart)" where
  "leadingSections p secs l =
     (let depth = length (ld_conts l) in
      case lead_chain p secs depth 1 of
        Inl e \<Rightarrow> Inl e
      | Inr None \<Rightarrow> Inr (None, p)
      | Inr (Some chain) \<Rightarrow>
          (case fold_chain (mp_k p) depth chain 0 l of
             Inl e \<Rightarrow> Inl e
           | Inr l1 \<Rightarrow> Inr (Some l1, p\<lparr>mp_secDrop := length chain, mp_rootDrop := 1\<rparr>)))"

text \<open>Where the items some pointers name start and end, by their own spans; \<open>(-1, -1)\<close> when they have none.\<close>

definition item_spans :: "string \<Rightarrow> merge_error + jspan list" where
  "item_spans raw =
     (case readObject raw of
        Inl e \<Rightarrow> Inl e
      | Inr o1 \<Rightarrow> (case obj_get o1 ''spans'' of None \<Rightarrow> Inr [] | Some sv \<Rightarrow> readSpans sv))"

definition named_spans :: "(string \<Rightarrow> string option) \<Rightarrow> mpart \<Rightarrow> (string \<times> int) list \<Rightarrow> string \<Rightarrow> merge_error + jspan list" where
  "named_spans fs p want nm =
     (let idx = map snd (filter (\<lambda>w. fst w = nm) want) in
      if idx = [] then Inr []
      else withFile fs (in_Path p) (\<lambda>f.
        (case json_items (case part_member p nm of None \<Rightarrow> [] | Some mb \<Rightarrow> raw_of f mb) of
           None \<Rightarrow> checkf ''not an array''
         | Some xs \<Rightarrow>
             (case map_all item_spans (map (\<lambda>i. xs ! i) (filter (\<lambda>i. int i \<in> set idx) [0..<length xs])) of
                Inl e \<Rightarrow> Inl e
              | Inr ss \<Rightarrow> Inr (concat ss)))))"

definition part_extent :: "(string \<Rightarrow> string option) \<Rightarrow> mpart \<Rightarrow> string list \<Rightarrow> merge_error + (int \<times> int)" where
  "part_extent fs p ptrs =
     (case map_all (\<lambda>ptr. case leafPointer ptr of
                       None \<Rightarrow> checkf ''names no item of the part''
                     | Some (nm, i) \<Rightarrow> if part_count p nm \<le> i then checkf ''names no item of the part'' else Inr (nm, i)) ptrs of
        Inl e \<Rightarrow> Inl e
      | Inr want \<Rightarrow>
          (case map_all (named_spans fs p want) pointerMembers of
             Inl e \<Rightarrow> Inl e
           | Inr sss \<Rightarrow>
               Inr (fold (\<lambda>s (lo, hi). (if lo < 0 \<or> sp_offset s < lo then sp_offset s else lo, max hi (span_end s)))
                      (concat sss) (-1, -1))))"

definition clip_span :: "int \<Rightarrow> int \<Rightarrow> jspan \<Rightarrow> jspan list" where
  "clip_span lo hi s =
     (let a = max (sp_offset s) lo; b = min (span_end s) hi in
      if a < b then [\<lparr>sp_offset = a, sp_length = b - a\<rparr>] else [])"

text \<open>The run of content a root opens with, up to the first section or heading.\<close>

definition leadingRun :: "(string \<Rightarrow> string option) \<Rightarrow> mpart \<Rightarrow> root \<Rightarrow> string list \<Rightarrow> merge_error + (continuation \<times> mpart) option" where
  "leadingRun fs p r rootElems =
     (let run = takeWhile (\<lambda>e. sectionIndex e = None \<and> \<not> isHeading p e) rootElems; n = length run in
      if \<not> list_ex (\<lambda>e. sectionIndex e \<noteq> None) (drop n rootElems) then Inr None
      else
        (case part_extent fs p run of
           Inl e \<Rightarrow> Inl e
         | Inr (lo, hi) \<Rightarrow>
             if lo < 0 then Inr None
             else
               (let ss = concat (map (clip_span lo hi) (rt_spans r)) in
                if ss = [] then Inr None
                else
                  (case splitArray (case obj_get (rt_obj r) ''elements'' of None \<Rightarrow> [] | Some v \<Rightarrow> v) n of
                     Inl e \<Rightarrow> Inl e
                   | Inr (h, t) \<Rightarrow>
                       Inr (Some (\<lparr>ct_k = mp_k p, ct_elements = Some h, ct_spans = ss\<rparr>, p\<lparr>mp_rootDrop := n\<rparr>))))))"

definition leadingContinuation :: "(string \<Rightarrow> string option) \<Rightarrow> mpart \<Rightarrow> root \<Rightarrow> string list \<Rightarrow> string list \<Rightarrow> nat
    \<Rightarrow> merge_error + (lead option \<times> mpart)" where
  "leadingContinuation fs p r secs rootElems depth =
     (let l = \<lparr>ld_conts = replicate depth None, ld_into = []\<rparr> in
      if length secs = 1 then
        (if list_ex (\<lambda>e. sectionIndex e \<noteq> None) rootElems then Inr (None, p)
         else Inr (Some (lead_content l \<lparr>ct_k = mp_k p, ct_elements = obj_get (rt_obj r) ''elements'', ct_spans = rt_spans r\<rparr> 0),
                   p\<lparr>mp_rootMoved := True\<rparr>))
      else
        (case sectionIndex (hd rootElems) of
           None \<Rightarrow>
             (case leadingRun fs p r rootElems of
                Inl e \<Rightarrow> Inl e
              | Inr None \<Rightarrow> Inr (None, p)
              | Inr (Some (c, p1)) \<Rightarrow> Inr (Some (lead_content l c 0), p1))
         | Some i \<Rightarrow> if i \<noteq> 1 then Inr (None, p) else leadingSections p secs l))"

text \<open>The path down a part's tree through each last element that is a section; at most as deep as there are sections.\<close>

fun open_path :: "string list \<Rightarrow> nat \<Rightarrow> string list \<Rightarrow> nat list \<Rightarrow> merge_error + nat list" where
  "open_path secs 0 elems path = Inr path"
| "open_path secs (Suc fuel) elems path =
     (if elems = [] then Inr path
      else
        (case sectionIndex (last elems) of
           None \<Rightarrow> Inr path
         | Some i \<Rightarrow>
             if i < 1 \<or> int (length secs) \<le> i \<or> nat i \<in> set path then Inr path
             else
               (case readObject (secs ! nat i) of
                  Inl e \<Rightarrow> Inl e
                | Inr s \<Rightarrow>
                    (case (obj_get s ''elements'', obj_get s ''spans'') of
                       (Some ev, Some sv) \<Rightarrow>
                         (case pointers ev of Inl e \<Rightarrow> Inl e | Inr es \<Rightarrow> open_path secs fuel es (path @ [nat i]))
                     | _ \<Rightarrow> Inr []))))"

definition openPath :: "string list \<Rightarrow> string list \<Rightarrow> merge_error + nat list" where
  "openPath secs rootElems = open_path secs (length secs) rootElems []"

type_synonym section_at = "nat \<times> nat"

definition reopen :: "nat \<Rightarrow> section_at list \<Rightarrow> lead option \<Rightarrow> nat list \<Rightarrow> section_at list" where
  "reopen k open_at l path =
     foldl (\<lambda>nxt i.
       (case l of
          Some l1 \<Rightarrow> if i \<le> length (ld_into l1) then take (ld_into l1 ! (i - 1)) open_at else nxt @ [(k, i)]
        | None \<Rightarrow> nxt @ [(k, i)])) [] path"

definition lead_folds :: "section_at list \<Rightarrow> lead option \<Rightarrow> (section_at \<times> continuation) list" where
  "lead_folds open_at l =
     (case l of
        None \<Rightarrow> []
      | Some l1 \<Rightarrow> concat (map (\<lambda>(at1, c). case c of None \<Rightarrow> [] | Some c1 \<Rightarrow> [(at1, c1)]) (zip open_at (ld_conts l1))))"

text \<open>The plan: the parts with their marks, and the continuations each section takes, in order.\<close>

fun plan_parts :: "(string \<Rightarrow> string option) \<Rightarrow> section_at list \<Rightarrow> (mpart \<times> root) list
    \<Rightarrow> merge_error + (mpart list \<times> (section_at \<times> continuation) list)" where
  "plan_parts fs open_at [] = Inr ([], [])"
| "plan_parts fs open_at ((p, r) # rest) =
     (case readSections fs p of
        Inl e \<Rightarrow> Inl e
      | Inr secs \<Rightarrow>
          (case (case obj_get (rt_obj r) ''elements'' of None \<Rightarrow> Inr [] | Some v \<Rightarrow> pointers v) of
             Inl e \<Rightarrow> Inl e
           | Inr rootElems \<Rightarrow>
               (case (if open_at \<noteq> [] \<and> 0 < mp_k p \<and> rootElems \<noteq> [] \<and> \<not> isHeading p (hd rootElems)
                      then leadingContinuation fs p r secs rootElems (length open_at) else Inr (None, p)) of
                  Inl e \<Rightarrow> Inl e
                | Inr (l, p1) \<Rightarrow>
                    (case (if mp_rootMoved p1 then Inr open_at
                           else (case openPath secs rootElems of
                                   Inl e \<Rightarrow> Inl e
                                 | Inr path \<Rightarrow>
                                     Inr (if path \<noteq> [] then reopen (mp_k p) open_at l path
                                          else if mp_rootDrop p1 < length rootElems then []
                                          else open_at))) of
                       Inl e \<Rightarrow> Inl e
                     | Inr next_at \<Rightarrow>
                         (case plan_parts fs next_at rest of
                            Inl e \<Rightarrow> Inl e
                          | Inr (ps, fl) \<Rightarrow> Inr (p1 # ps, lead_folds open_at l @ fl))))))"

section \<open>Writing sections\<close>

text \<open>A part's spans shifted into merged offsets; its first span is joined to the last one when only the page separator
  lies between them.\<close>

fun appendSpans :: "mpart list \<Rightarrow> mpart \<Rightarrow> jspan list \<Rightarrow> jspan list \<Rightarrow> jspan list" where
  "appendSpans parts p out [] = out"
| "appendSpans parts p out (s # ss) =
     (let off = sp_offset s + mp_char p in
      if out \<noteq> [] \<and> 0 < mp_k p \<and> off = mp_char p
         \<and> span_end (last out) = mp_char (parts ! (mp_k p - 1)) + mp_length (parts ! (mp_k p - 1)) then
        appendSpans parts p (butlast out @ [(last out)\<lparr>sp_length := off + sp_length s - sp_offset (last out)\<rparr>]) ss
      else appendSpans parts p (out @ [s\<lparr>sp_offset := off\<rparr>]) ss)"

definition span_json :: "jspan \<Rightarrow> string" where
  "span_json s = ''{'' @ writeName ''offset'' @ '':'' @ itoa (sp_offset s) @ '','' @ writeName ''length'' @ '':'' @ itoa (sp_length s) @ ''}''"

definition writeSpans :: "jspan list \<Rightarrow> string" where
  "writeSpans ss = join_items (map span_json ss)"

fun write_lists :: "profile \<Rightarrow> path_elem list \<Rightarrow> nat \<Rightarrow> (mpart \<times> string option) list \<Rightarrow> merge_error + string" where
  "write_lists prof pre n [] = Inr []"
| "write_lists prof pre n ((p, el) # rest) =
     (case el of
        None \<Rightarrow> write_lists prof pre n rest
      | Some s \<Rightarrow>
          (case CountItems s 0 (int (length s)) of
             Inl e \<Rightarrow> Inl (jsonErr e)
           | Inr k \<Rightarrow>
               if k = 0 then write_lists prof pre n rest
               else
                 (case merge_items prof p s pre (int n) of
                    Inl e \<Rightarrow> Inl e
                  | Inr (_, out) \<Rightarrow>
                      (case write_lists prof pre (n + k) rest of
                         Inl e \<Rightarrow> Inl e
                       | Inr t \<Rightarrow> Inr ((if 0 < n then '','' else []) @ out @ t)))))"

definition writeElements :: "profile \<Rightarrow> (mpart \<times> string option) list \<Rightarrow> path_elem list \<Rightarrow> merge_error + string" where
  "writeElements prof ls pre =
     (case write_lists prof pre 0 ls of Inl e \<Rightarrow> Inl e | Inr s \<Rightarrow> Inr (''['' @ s @ '']''))"

definition rewrite_part :: "profile \<Rightarrow> mpart \<Rightarrow> path_elem list \<Rightarrow> string \<Rightarrow> merge_error + string" where
  "rewrite_part prof p pre raw =
     (case json_Rewrite (part_visitor prof p) pre False raw of
        Inl e \<Rightarrow> Inl (jsonErr e)
      | Inr (out, failed) \<Rightarrow> if failed then checkf ''cannot be renumbered'' else Inr out)"

text \<open>An object written member by member.\<close>

definition write_members :: "(string \<Rightarrow> merge_error + string) \<Rightarrow> string list \<Rightarrow> merge_error + string" where
  "write_members val keys =
     (case map_all (\<lambda>key. case val key of Inl e \<Rightarrow> Inl e | Inr v \<Rightarrow> Inr (writeName key @ '':'' @ v)) keys of
        Inl e \<Rightarrow> Inl e
      | Inr ms \<Rightarrow> Inr (''{'' @ join_comma ms @ ''}''))"

definition root_prefix :: "path_elem list" where
  "root_prefix = [Key ''sections'', Index 0]"

definition root_elements :: "(mpart \<times> root) \<Rightarrow> merge_error + (mpart \<times> string option)" where
  "root_elements pr =
     (let (p, r) = pr in
      case obj_get (rt_obj r) ''elements'' of
        None \<Rightarrow> Inr (p, None)
      | Some v \<Rightarrow>
          if mp_rootMoved p then Inr (p, None)
          else if 0 < mp_rootDrop p then
            (case splitArray v (mp_rootDrop p) of Inl e \<Rightarrow> Inl e | Inr (h, t) \<Rightarrow> Inr (p, Some t))
          else Inr (p, Some v))"

definition writeRootElements :: "profile \<Rightarrow> (mpart \<times> root) list \<Rightarrow> merge_error + string" where
  "writeRootElements prof prs =
     (case map_all root_elements prs of
        Inl e \<Rightarrow> Inl e
      | Inr ls \<Rightarrow> writeElements prof ls (root_prefix @ [Key ''elements'']))"

definition root_spans :: "mpart list \<Rightarrow> (mpart \<times> root) list \<Rightarrow> jspan list" where
  "root_spans parts prs = foldl (\<lambda>out (p, r). appendSpans parts p out (rt_spans r)) [] prs"

definition writeRoot :: "profile \<Rightarrow> mpart list \<Rightarrow> (mpart \<times> root) list \<Rightarrow> merge_error + string" where
  "writeRoot prof parts prs =
     (case mergeOrder (map (\<lambda>(p, r). jo_keys (rt_obj r)) prs) of
        None \<Rightarrow> checkf ''conflicting orders''
      | Some keys \<Rightarrow>
          write_members (\<lambda>key.
            if key = ''elements'' then writeRootElements prof prs
            else if key = ''spans'' then Inr (writeSpans (root_spans parts prs))
            else (case find (\<lambda>(p, r). obj_get (rt_obj r) key \<noteq> None) prs of
                    None \<Rightarrow> Inr []
                  | Some (p, r) \<Rightarrow>
                      rewrite_part prof p (root_prefix @ [Key key]) (case obj_get (rt_obj r) key of None \<Rightarrow> [] | Some v \<Rightarrow> v))) keys)"

text \<open>One section after the root, extended with what is folded into it.\<close>

definition writeSection :: "profile \<Rightarrow> mpart list \<Rightarrow> (section_at \<times> continuation) list \<Rightarrow> mpart \<Rightarrow> nat \<Rightarrow> string \<Rightarrow> nat
    \<Rightarrow> merge_error + string" where
  "writeSection prof parts fl p i raw index =
     (let pre = [Key ''sections'', Index (int index)]; cs = map snd (filter (\<lambda>(at1, c). at1 = (mp_k p, i)) fl) in
      if cs = [] then rewrite_part prof p pre raw
      else
        (case readObject raw of
           Inl e \<Rightarrow> Inl e
         | Inr s \<Rightarrow>
             write_members (\<lambda>key.
               (let v = (case obj_get s key of None \<Rightarrow> [] | Some v \<Rightarrow> v) in
                if key = ''spans'' then
                  (case readSpans v of
                     Inl e \<Rightarrow> Inl e
                   | Inr own \<Rightarrow>
                       if \<not> spansWithin p own then checkf ''spans reach past the content''
                       else Inr (writeSpans (foldl (\<lambda>out c. appendSpans parts (parts ! ct_k c) out (ct_spans c))
                                               (appendSpans parts p [] own) cs)))
                else if key = ''elements'' then
                  writeElements prof ((p, Some v) # map (\<lambda>c. (parts ! ct_k c, ct_elements c)) cs) (pre @ [Key ''elements''])
                else rewrite_part prof p (pre @ [Key key]) v)) (jo_keys s)))"

fun write_section_list :: "profile \<Rightarrow> mpart list \<Rightarrow> (section_at \<times> continuation) list \<Rightarrow> mpart \<Rightarrow> nat \<Rightarrow> string list \<Rightarrow> nat
    \<Rightarrow> merge_error + string list" where
  "write_section_list prof parts fl p i [] index = Inr []"
| "write_section_list prof parts fl p i (raw # rest) index =
     (case writeSection prof parts fl p i raw index of
        Inl e \<Rightarrow> Inl e
      | Inr s \<Rightarrow> (case write_section_list prof parts fl p (Suc i) rest (Suc index) of Inl e \<Rightarrow> Inl e | Inr ss \<Rightarrow> Inr (s # ss)))"

fun write_part_sections :: "(string \<Rightarrow> string option) \<Rightarrow> profile \<Rightarrow> mpart list \<Rightarrow> (section_at \<times> continuation) list \<Rightarrow> nat \<Rightarrow> mpart list
    \<Rightarrow> merge_error + string list" where
  "write_part_sections fs prof parts fl index [] = Inr []"
| "write_part_sections fs prof parts fl index (p # ps) =
     (if part_count p ''sections'' = 1 then write_part_sections fs prof parts fl index ps
      else
        (case readSections fs p of
           Inl e \<Rightarrow> Inl e
         | Inr secs \<Rightarrow>
             (case write_section_list prof parts fl p (1 + mp_secDrop p) (drop (1 + mp_secDrop p) secs) index of
                Inl e \<Rightarrow> Inl e
              | Inr ss \<Rightarrow>
                  (case write_part_sections fs prof parts fl (index + length ss) ps of
                     Inl e \<Rightarrow> Inl e
                   | Inr ts \<Rightarrow> Inr (ss @ ts)))))"

definition writeSections :: "(string \<Rightarrow> string option) \<Rightarrow> profile \<Rightarrow> mpart list \<Rightarrow> (mpart \<times> root) list \<Rightarrow> (section_at \<times> continuation) list
    \<Rightarrow> merge_error + (int \<times> string)" where
  "writeSections fs prof parts prs fl =
     (if prs = [] then Inr (0, ''[]'')
      else
        (case writeRoot prof parts prs of
           Inl e \<Rightarrow> Inl e
         | Inr r \<Rightarrow>
             (case write_part_sections fs prof parts fl 1 (map fst prs) of
                Inl e \<Rightarrow> Inl e
              | Inr ss \<Rightarrow> Inr (1 + int (length ss), ''['' @ join_comma (r # ss) @ '']''))))"

end
