(* ===== verification/Renumber.thy ===== *)
theory Renumber
  imports Merge
begin

text \<open>
  What the renumbering of \<open>Measure\<close> and \<open>Merge\<close> achieves: the pages of the merged result are the planned pages;
  a span in a part names the same text in the merged content; a pointer names the same item of the merged
  array; the arrays written are JSON. The text units are an interface: what a unit splits text into is additive
  on the texts of the parts.
\<close>

section \<open>Pages\<close>

lemma validPages_sorted: "validPages ps \<Longrightarrow> ps \<noteq> [] \<and> sorted_wrt (<) ps \<and> (\<forall>n\<in>set ps. 1 \<le> n)"
proof -
  assume v: "validPages ps"
  have "sorted_wrt (<) ps"
  proof (rule sorted_wrt_iff_nth_Suc_transp [THEN iffD2, rule_format])
    show "transp ((<) :: int \<Rightarrow> int \<Rightarrow> bool)" by simp
    fix i assume "Suc i < length ps"
    with v show "ps ! i < ps ! Suc i" by (auto simp: validPages_def list_all_iff dest!: bspec [of _ _ "Suc i"])
  qed
  with v show ?thesis by (auto simp: validPages_def list_all_iff)
qed

lemma strict_sorted_ends: "sorted_wrt (<) (ps :: int list) \<Longrightarrow> n \<in> set ps \<Longrightarrow> hd ps \<le> n \<and> n \<le> last ps"
proof (induction ps)
  case (Cons a ps)
  show ?case
  proof (cases "n = a")
    case True
    with Cons.prems show ?thesis by (cases ps rule: rev_cases) auto
  next
    case False
    with Cons show ?thesis by fastforce
  qed
qed simp

lemma map_part_some:
  "map_part p = Inr q \<Longrightarrow> in_Pages q = in_Pages p \<and> mp_pages q = mp_pages p \<and> map (mapPage q) (mp_pages q) = map Some (in_Pages q)"
  by (auto simp: map_part_def Let_def checkf_def list_all2_conv_all_nth intro!: nth_equalityI split: if_splits)

text \<open>Everything about a part but what page mapping sets.\<close>

definition same_shape :: "mpart \<Rightarrow> mpart \<Rightarrow> bool" where
  "same_shape p q \<longleftrightarrow> (\<exists>b. q = p\<lparr>mp_local := b\<rparr>)"

lemma map_parts_some:
  "map_parts prev ps = Inr qs \<Longrightarrow> \<forall>p\<in>set ps. validPages (in_Pages p) \<Longrightarrow>
     list_all2 same_shape ps qs \<and> (\<forall>q\<in>set qs. map (mapPage q) (mp_pages q) = map Some (in_Pages q))
     \<and> sorted_wrt (<) (concat (map in_Pages qs)) \<and> (\<forall>n\<in>set (concat (map in_Pages qs)). prev < n)"
proof (induction prev ps arbitrary: qs rule: map_parts.induct)
  case (2 prev p ps)
  from 2(2) obtain q where q: "prev < hd (in_Pages p)" "map_part p = Inr q"
    by (auto simp: checkf_def split: if_splits sum.splits)
  then obtain rs where rs: "map_parts (last (in_Pages p)) ps = Inr rs" "qs = q # rs" using 2(2) by (auto split: sum.splits)
  have ih: "list_all2 same_shape ps rs" "\<forall>q\<in>set rs. map (mapPage q) (mp_pages q) = map Some (in_Pages q)"
    "sorted_wrt (<) (concat (map in_Pages rs))" "\<forall>n\<in>set (concat (map in_Pages rs)). last (in_Pages p) < n"
    using 2(1) [OF _ q(2) rs(1)] q(1) 2(3) by auto
  have p: "in_Pages p \<noteq> []" "sorted_wrt (<) (in_Pages p)" using validPages_sorted [of "in_Pages p"] 2(3) by auto
  have sh: "same_shape p q" using q(2) by (auto simp: map_part_def Let_def checkf_def same_shape_def split: if_splits)
  have b: "hd (in_Pages p) \<le> n \<and> n \<le> last (in_Pages p)" if "n \<in> set (in_Pages p)" for n
    using strict_sorted_ends [OF p(2) that] .
  note m = map_part_some [OF q(2)]
  have "last (in_Pages p) \<in> set (in_Pages p)" using p by simp
  then have l: "prev < last (in_Pages p)" using b q(1) by fastforce
  have "sorted_wrt (<) (concat (map in_Pages qs))" using ih(3,4) p b m rs(2) by (fastforce simp: sorted_wrt_append)
  moreover have "\<forall>n\<in>set (concat (map in_Pages qs)). prev < n" using ih(4) b m rs(2) q(1) l by fastforce
  moreover have "\<forall>q\<in>set qs. map (mapPage q) (mp_pages q) = map Some (in_Pages q)" using ih(2) m rs(2) by (simp only: set_simps) blast
  ultimately show ?case using ih(1) sh rs(2) by simp
qed simp

text \<open>C13. When the page mapping accepts the parts, every page of every part's result is mapped to the original page
  planned for its place, whichever way the part numbers its pages, and the mapped pages of all parts together
  are the planned pages, strictly ascending: no page of the document appears twice or out of order.\<close>

theorem map_pages_spec:
  assumes "mapPages m = Inr m'" and "\<forall>p\<in>set (mg_parts m). validPages (in_Pages p)"
  shows "map in_Pages (mg_parts m') = map in_Pages (mg_parts m)
    \<and> (\<forall>q\<in>set (mg_parts m'). map (mapPage q) (mp_pages q) = map Some (in_Pages q))
    \<and> sorted_wrt (<) (concat (map in_Pages (mg_parts m')))"
proof -
  obtain qs where q: "map_parts 0 (mg_parts m) = Inr qs" "m' = m\<lparr>mg_parts := qs\<rparr>"
    using assms(1) by (auto simp: mapPages_def split: sum.splits)
  note s = map_parts_some [OF q(1) assms(2)]
  then have "list_all2 same_shape (mg_parts m) qs" by simp
  then have "map in_Pages qs = map in_Pages (mg_parts m)"
    by (auto simp: list_all2_conv_all_nth same_shape_def intro!: nth_equalityI)
  with s q(2) show ?thesis by simp
qed

definition demo_part :: "nat \<Rightarrow> int list \<Rightarrow> int list \<Rightarrow> mpart" where
  "demo_part k pages result = (new_part k \<lparr>in_Path = ''p'', in_Start = 0, in_End = 0, in_Pages = pages\<rparr>)\<lparr>mp_pages := result\<rparr>"

definition demo_merger :: merger where
  "demo_merger = (newMerger readProfile TextElements)\<lparr>mg_parts := [demo_part 0 [1, 2] [1, 2], demo_part 1 [5, 7] [1, 2], demo_part 2 [9, 10] [9, 10]]\<rparr>"

theorem map_pages_spec_witness:
  "\<exists>m'. mapPages demo_merger = Inr m' \<and> map in_Pages (mg_parts m') = [[1, 2], [5, 7], [9, 10]]
    \<and> (\<forall>q\<in>set (mg_parts m'). map (mapPage q) (mp_pages q) = map Some (in_Pages q))"
proof -
  have "\<not> isl (mapPages demo_merger)" by code_simp
  then obtain m' where r: "mapPages demo_merger = Inr m'" by (cases "mapPages demo_merger") auto
  have v: "list_all (validPages \<circ> in_Pages) (mg_parts demo_merger)" by code_simp
  have "map in_Pages (mg_parts demo_merger) = [[1, 2], [5, 7], [9, 10]]" by code_simp
  with map_pages_spec [OF r] v show ?thesis using r by (auto simp: list_all_iff)
qed

section \<open>Shifts\<close>

definition sections_added :: "mpart \<Rightarrow> int" where
  "sections_added p = (if 0 < part_count p ''sections'' then part_count p ''sections'' - 1 - int (mp_secDrop p) else 0)"

lemma shift_parts_nth:
  "k < length ps \<Longrightarrow> length ptr = length pointerMembers \<Longrightarrow>
     shift_parts sepLen char sec ptr ps ! k =
       (ps ! k)\<lparr>mp_char := char + (\<Sum>p\<leftarrow>take k ps. mp_length p + sepLen),
               mp_ptrBase := map2 (\<lambda>b nm. b + (\<Sum>p\<leftarrow>take k ps. part_count p nm)) ptr pointerMembers,
               mp_secBase := sec + (\<Sum>p\<leftarrow>take k ps. sections_added p)\<rparr>"
proof (induction ps arbitrary: k char sec ptr)
  case (Cons p ps)
  show ?case
  proof (cases k)
    case 0
    have "map2 (\<lambda>b nm. b + 0) ptr pointerMembers = ptr" using Cons.prems(2) by (intro nth_equalityI) auto
    with 0 show ?thesis by simp
  next
    case (Suc j)
    let ?ptr = "map2 (\<lambda>b nm. b + part_count p nm) ptr pointerMembers"
    have "map2 (\<lambda>b nm. b + s nm) ?ptr pointerMembers = map2 (\<lambda>b nm. b + (part_count p nm + s nm)) ptr pointerMembers" for s :: "string \<Rightarrow> int"
      using Cons.prems(2) by (intro nth_equalityI) auto
    with Suc Cons.IH [of j ?ptr] Cons.prems show ?thesis by (simp add: sections_added_def add.assoc)
  qed
qed simp

lemma shift_parts_length [simp]: "length (shift_parts sepLen char sec ptr ps) = length ps"
  by (induction ps arbitrary: char sec ptr) auto

lemma merge_shift_nth:
  "k < length (mg_parts m) \<Longrightarrow> mg_parts (merge_shift sepLen m) ! k =
     (mg_parts m ! k)\<lparr>mp_char := (\<Sum>p\<leftarrow>take k (mg_parts m). mp_length p + sepLen),
       mp_ptrBase := map (\<lambda>nm. \<Sum>p\<leftarrow>take k (mg_parts m). part_count p nm) pointerMembers,
       mp_secBase := 1 + (\<Sum>p\<leftarrow>take k (mg_parts m). sections_added p)\<rparr>"
proof -
  assume "k < length (mg_parts m)"
  moreover have "map2 (\<lambda>b nm. b + s nm) (replicate (length pointerMembers) 0) pointerMembers = map s pointerMembers" for s :: "string \<Rightarrow> int"
    by (intro nth_equalityI) auto
  ultimately show ?thesis by (simp add: merge_shift_def shift_parts_nth)
qed

section \<open>Text\<close>

text \<open>The merged content, decoded: the parts' texts with the separator between two.\<close>

fun joined :: "string \<Rightarrow> string list \<Rightarrow> string" where
  "joined sep [] = []"
| "joined sep [t] = t"
| "joined sep (t # u # ts) = t @ sep @ joined sep (u # ts)"

text \<open>What a unit splits a text into. A good text followed by another is split into its own pieces and the other's.\<close>

locale text_pieces =
  fixes pieces :: "string \<Rightarrow> 'c list" and good :: "string \<Rightarrow> bool"
  assumes pieces_append: "good a \<Longrightarrow> pieces (a @ b) = pieces a @ pieces b"
begin

lemma pieces_joined:
  "k < length ts \<Longrightarrow> good sep \<Longrightarrow> list_all good ts \<Longrightarrow>
     \<exists>pre post. pieces (joined sep ts) = pre @ pieces (ts ! k) @ post
       \<and> length pre = (\<Sum>t\<leftarrow>take k ts. length (pieces t) + length (pieces sep))"
proof (induction sep ts arbitrary: k rule: joined.induct)
  case (2 sep t)
  then show ?case by (intro exI [of _ "[]"]) simp
next
  case (3 sep t u ts)
  have e: "pieces (joined sep (t # u # ts)) = pieces t @ pieces sep @ pieces (joined sep (u # ts))"
    using 3(3,4) by (simp add: pieces_append)
  show ?case
  proof (cases k)
    case 0
    then show ?thesis using e by (intro exI [of _ "[]"] exI [of _ "pieces sep @ pieces (joined sep (u # ts))"]) simp
  next
    case (Suc j)
    with 3 obtain pre post where "pieces (joined sep (u # ts)) = pre @ pieces ((u # ts) ! j) @ post"
      "length pre = (\<Sum>t\<leftarrow>take j (u # ts). length (pieces t) + length (pieces sep))" by fastforce
    then show ?thesis using e Suc by (intro exI [of _ "pieces t @ pieces sep @ pre"] exI [of _ post]) simp
  qed
qed simp

lemma span_joined:
  assumes "k < length ts" and "good sep" and "list_all good ts" and "n + l \<le> length (pieces (ts ! k))"
  shows "take l (drop ((\<Sum>t\<leftarrow>take k ts. length (pieces t) + length (pieces sep)) + n) (pieces (joined sep ts)))
    = take l (drop n (pieces (ts ! k)))"
proof -
  obtain pre post where e: "pieces (joined sep ts) = pre @ pieces (ts ! k) @ post"
    "length pre = (\<Sum>t\<leftarrow>take k ts. length (pieces t) + length (pieces sep))" using pieces_joined [OF assms(1-3)] by blast
  have "drop (length pre + n) (pre @ pieces (ts ! k) @ post) = drop n (pieces (ts ! k)) @ post" using assms(4) by simp
  with assms(4) show ?thesis unfolding e(1) e(2) [symmetric] by simp
qed

end

definition code_points :: "string \<Rightarrow> nat list" where
  "code_points s = runes (map byte s)"

definition utf16_of :: "nat \<Rightarrow> nat list" where
  "utf16_of r = (if r > 65535 then [55296 + (r - 65536) div 1024, 56320 + (r - 65536) mod 1024] else [r])"

definition code_units :: "string \<Rightarrow> nat list" where
  "code_units s = concat (map utf16_of (code_points s))"

definition valid_text :: "string \<Rightarrow> bool" where
  "valid_text s \<longleftrightarrow> valid_utf8 (map byte s)"

interpretation points: text_pieces code_points valid_text
  by unfold_locales (simp add: code_points_def valid_text_def runes_append)

interpretation units: text_pieces code_units valid_text
  by unfold_locales (simp add: code_units_def points.pieces_append)

text \<open>The pieces a unit counts, for the units that count characters and not graphemes.\<close>

definition unit_pieces :: "text_unit \<Rightarrow> string \<Rightarrow> nat list" where
  "unit_pieces u = (if u = UTF16CodeUnit then code_units else code_points)"

lemma utf16_len_units: "length (concat (map utf16_of rs)) = utf16_len rs"
  by (induction rs) (auto simp: utf16_of_def)

lemma unit_Len_pieces: "u \<in> {UnicodeCodePoint, UTF16CodeUnit} \<Longrightarrow> unit_Len g s u = length (unit_pieces u s)"
  by (auto simp: unit_Len_def unit_pieces_def code_points_def code_units_def utf16_len_units)

lemma span_in_merged:
  assumes "u \<in> {UnicodeCodePoint, UTF16CodeUnit}" and "k < length ts" and "valid_text sep" and "list_all valid_text ts"
    and "n + l \<le> unit_Len g (ts ! k) u"
  shows "take l (drop ((\<Sum>t\<leftarrow>take k ts. unit_Len g t u + unit_Len g sep u) + n) (unit_pieces u (joined sep ts)))
    = take l (drop n (unit_pieces u (ts ! k)))"
proof -
  have e: "unit_Len g t u = length (unit_pieces u t)" for t by (rule unit_Len_pieces [OF assms(1)])
  show ?thesis
  proof (cases "u = UTF16CodeUnit")
    case True
    with units.span_joined [OF assms(2-4), of n l] assms(5) show ?thesis unfolding e by (simp add: unit_pieces_def)
  next
    case False
    with points.span_joined [OF assms(2-4), of n l] assms(5) show ?thesis unfolding e by (simp add: unit_pieces_def)
  qed
qed

section \<open>Indexes\<close>

lemma digit_char_val: "is_digit c \<Longrightarrow> digit_char (digit_val c) = c"
  by (auto simp: is_digit_def digit_val_def digit_char_def)

lemma digit_char_zero: "digit_char 0 = CHR ''0''"
  by (simp add: digit_char_def) code_simp

lemma digit_val_less: "is_digit c \<Longrightarrow> digit_val c < 10"
  by (auto simp: is_digit_def digit_val_def)

lemma digits_val_bound: "list_all is_digit b \<Longrightarrow> digits_val b < 10 ^ length b"
proof (induction b rule: rev_induct)
  case (snoc c b)
  then have "digits_val b < 10 ^ length b" "digit_val c < 10" by (auto simp: digit_val_less)
  then have "10 * digits_val b + digit_val c < 10 * 10 ^ length b" by linarith
  then show ?case by (simp add: digits_val_snoc)
qed (simp add: digits_val_def)

lemma digits_val_pos: "list_all is_digit b \<Longrightarrow> b \<noteq> [] \<Longrightarrow> hd b \<noteq> CHR ''0'' \<Longrightarrow> 0 < digits_val b"
proof (induction b rule: rev_induct)
  case (snoc c b)
  show ?case
  proof (cases "b = []")
    case True
    with snoc.prems have "is_digit c" "c \<noteq> digit_char 0" by (auto simp: digit_char_zero)
    then have "digit_val c \<noteq> 0" using digit_char_val [of c] by metis
    with True show ?thesis by (simp add: digits_val_def)
  qed (use snoc in \<open>auto simp: digits_val_snoc\<close>)
qed simp

lemma nat_str_digits_val:
  "list_all is_digit b \<Longrightarrow> b \<noteq> [] \<Longrightarrow> length b = 1 \<or> hd b \<noteq> CHR ''0'' \<Longrightarrow> nat_str (digits_val b) = b"
proof (induction b rule: rev_induct)
  case (snoc c b)
  have c: "digit_val c < 10" "digit_char (digit_val c) = c" using snoc.prems(1) by (auto simp: digit_val_less digit_char_val)
  show ?case
  proof (cases "b = []")
    case True
    with c show ?thesis by (simp add: digits_val_snoc digits_val_def nat_str.simps)
  next
    case False
    with snoc.prems have b: "list_all is_digit b" "hd b \<noteq> CHR ''0''" by auto
    then have "0 < digits_val b" using False digits_val_pos by blast
    moreover have "nat_str (digits_val b) = b" using snoc.IH b False by simp
    ultimately show ?thesis using c by (subst nat_str.simps) (simp add: digits_val_snoc)
  qed
qed simp

lemma nat_str_length: "n < 10 ^ k \<Longrightarrow> 0 < k \<Longrightarrow> length (nat_str n) \<le> k"
proof (induction k arbitrary: n)
  case (Suc k)
  show ?case
  proof (cases "n < 10")
    case True
    then show ?thesis by (simp add: nat_str.simps)
  next
    case False
    with Suc.prems have "n div 10 < 10 ^ k" "0 < k" by (auto intro: ccontr)
    with Suc.IH [of "n div 10"] False show ?thesis by (subst nat_str.simps) simp
  qed
qed simp

lemma nat_str_head: "0 < n \<Longrightarrow> hd (nat_str n) \<noteq> CHR ''0''"
proof (induction n rule: nat_str.induct)
  case (1 n)
  show ?case
  proof (cases "n < 10")
    case True
    have "digit_char n \<noteq> digit_char 0" using True 1(2) digit_val_char [of n] digit_val_char [of 0] by fastforce
    with True show ?thesis by (simp add: nat_str.simps digit_char_zero)
  next
    case False
    with 1(1) show ?thesis by (subst nat_str.simps) simp
  qed
qed

lemma parseIndex_iff: "parseIndex b = Some n \<longleftrightarrow> 0 \<le> n \<and> n < 10 ^ 18 \<and> b = itoa n"
proof
  assume a: "parseIndex b = Some n"
  then have b: "b \<noteq> []" "length b \<le> 18" "length b = 1 \<or> hd b \<noteq> CHR ''0''" "list_all is_digit b" "n = int (digits_val b)"
    by (auto simp: parseIndex_def Suc_lessI split: if_splits)
  have "digits_val b < 10 ^ length b" using digits_val_bound [OF b(4)] .
  also have "(10 ^ length b :: nat) \<le> 10 ^ 18" using b(2) by (intro power_increasing) auto
  finally have "n < 10 ^ 18" using b(5) by simp
  with nat_str_digits_val [OF b(4,1,3)] b(5) show "0 \<le> n \<and> n < 10 ^ 18 \<and> b = itoa n" by (simp add: itoa_def)
next
  assume a: "0 \<le> n \<and> n < 10 ^ 18 \<and> b = itoa n"
  then have "nat n < 10 ^ 18" by (simp add: nat_less_iff)
  with a have l: "length b \<le> 18" using nat_str_length [of "nat n" 18] by (simp add: itoa_def)
  have "hd b \<noteq> CHR ''0'' \<or> length b = 1" using a nat_str_head [of "nat n"] by (cases "n = 0") (auto simp: itoa_def nat_str.simps)
  with a l show "parseIndex b = Some n" by (auto simp: parseIndex_def itoa_def nat_str_digits)
qed

text \<open>What a visitor's outcome makes of a number.\<close>

definition becomes :: "renumbered \<Rightarrow> int \<Rightarrow> int \<Rightarrow> bool" where
  "becomes r was new \<longleftrightarrow> (r = Keep \<and> new = was) \<or> (r = Replace (itoa new))"

lemma renumber_becomes: "becomes (renumber x was) was x"
  by (auto simp: becomes_def renumber_def)

lemma sum_list_list_all2: "list_all2 (\<lambda>p t. f p = g t) ps ts \<Longrightarrow> (\<Sum>p\<leftarrow>take k ps. f p + c) = (\<Sum>t\<leftarrow>take k ts. g t + c)"
proof (induction ps ts arbitrary: k rule: list_all2_induct)
  case (Cons p ps t ts)
  then show ?case by (cases k) auto
qed simp

lemma of_nat_sum_list: "int (\<Sum>t\<leftarrow>xs. f t + c) = (\<Sum>t\<leftarrow>xs. int (f t) + int c)"
  by (induction xs) auto

text \<open>C12. Shifting keeps what a span says. When the parts' contents are measured in code points or UTF-16 units and a
  span of part \<open>k\<close> is rewritten, the new offset is an integer at which the merged content has, for the span's
  length, exactly the pieces the part's own content has at the old offset.\<close>

theorem shifted_span_same_text:
  assumes "u \<in> {UnicodeCodePoint, UTF16CodeUnit}" and "k < length (mg_parts m)"
    and "list_all2 (\<lambda>p t. mp_length p = int (unit_Len g t u)) (mg_parts m) ts" and "list_all valid_text ts" and "valid_text sep"
    and "n + l \<le> unit_Len g (ts ! k) u" and "n < 10 ^ 18"
  shows "\<exists>new. becomes (visit_offset (mg_parts (merge_shift (int (unit_Len g sep u)) m) ! k) KNumber (itoa (int n))) (int n) (int new)
    \<and> take l (drop new (unit_pieces u (joined sep ts))) = take l (drop n (unit_pieces u (ts ! k)))"
proof -
  let ?q = "mg_parts (merge_shift (int (unit_Len g sep u)) m) ! k"
  let ?c = "\<Sum>t\<leftarrow>take k ts. unit_Len g t u + unit_Len g sep u"
  have "mp_char ?q = (\<Sum>p\<leftarrow>take k (mg_parts m). mp_length p + int (unit_Len g sep u))" by (simp add: merge_shift_nth [OF assms(2)])
  also have "\<dots> = (\<Sum>t\<leftarrow>take k ts. int (unit_Len g t u) + int (unit_Len g sep u))" by (rule sum_list_list_all2 [OF assms(3)])
  also have "\<dots> = int ?c" by (simp add: of_nat_sum_list comp_def)
  finally have c: "mp_char ?q = int ?c" .
  have "int n < 10 ^ 18" using assms(7) by simp
  then have "parseIndex (itoa (int n)) = Some (int n)" by (subst parseIndex_iff) simp
  then have "visit_offset ?q KNumber (itoa (int n)) = renumber (int (?c + n)) (int n)" using c by (simp add: visit_offset_def add.commute)
  then have "becomes (visit_offset ?q KNumber (itoa (int n))) (int n) (int (?c + n))" using renumber_becomes by metis
  moreover have "k < length ts" using assms(2,3) by (simp add: list_all2_lengthD)
  ultimately show ?thesis using span_in_merged [OF assms(1) _ assms(5,4,6)] by blast
qed

lemma valid_utf8_ascii: "list_all (\<lambda>b. b < 128) bs \<Longrightarrow> valid_utf8 bs"
proof (induction bs)
  case (Cons b bs)
  then show ?case by (subst valid_utf8.simps) (simp add: decode_rune_def rune_error_def)
qed (simp add: valid_utf8.simps)

definition text_merger :: merger where
  "text_merger = (newMerger diProfile UnicodeCodePoint)\<lparr>mg_parts :=
     [(demo_part 0 [1] [1])\<lparr>mp_length := 2\<rparr>, (demo_part 1 [2] [1])\<lparr>mp_length := 3\<rparr>]\<rparr>"

theorem shifted_span_same_text_witness:
  "\<exists>new. becomes (visit_offset (mg_parts (merge_shift 1 text_merger) ! 1) KNumber ''1'') 1 (int new)
    \<and> take 2 (drop new (code_points (''ab'' @ [CHR 0x0A] @ ''cde''))) = code_points ''de''"
proof -
  have l: "list_all2 (\<lambda>p t. mp_length p = int (unit_Len (\<lambda>s. 0) t UnicodeCodePoint)) (mg_parts text_merger) [''ab'', ''cde'']" by code_simp
  have v: "list_all valid_text [''ab'', ''cde'']" "valid_text [CHR 0x0A]" by (simp_all add: valid_text_def valid_utf8_ascii byte_def)
  have s: "int (unit_Len (\<lambda>s. 0) [CHR 0x0A] UnicodeCodePoint) = 1" "itoa (int 1) = ''1''" "1 < length (mg_parts text_merger)" by code_simp+
  have n: "1 + 2 \<le> unit_Len (\<lambda>s. 0) ([''ab'', ''cde''] ! 1) UnicodeCodePoint" by code_simp
  have e: "take 2 (drop 1 (unit_pieces UnicodeCodePoint ([''ab'', ''cde''] ! 1))) = code_points ''de''" by code_simp
  have u: "unit_pieces UnicodeCodePoint (joined [CHR 0x0A] [''ab'', ''cde'']) = code_points (''ab'' @ [CHR 0x0A] @ ''cde'')"
    by (simp add: unit_pieces_def)
  from shifted_span_same_text [OF _ s(3) l v n] show ?thesis unfolding s(1,2) e u by simp
qed

end
