(* ===== verification/Merger.thy ===== *)
theory Merger
  imports Sections Renumber
begin

text \<open>
  The merges themselves: \<open>DI\<close> of \<open>internal/merge/di.go\<close>, \<open>Read\<close> of \<open>read.go\<close> and \<open>write\<close> of \<open>merge.go\<close>, from the parts'
  files to the merged result. On an error the code may have written part of its output, which its caller
  discards; here an error has none.
\<close>

section \<open>Writing a result\<close>

text \<open>One member's value; \<open>prs\<close> are the parts with sections, \<open>fl\<close> what is folded into them.\<close>

definition write_member :: "(string \<Rightarrow> string option) \<Rightarrow> merger \<Rightarrow> (mpart \<times> root) list \<Rightarrow> (section_at \<times> continuation) list \<Rightarrow> string
    \<Rightarrow> merge_error + string" where
  "write_member fs m prs fl nm =
     (if pf_di (mg_prof m) \<and> nm = ''content'' then writeContent fs m
      else if pf_di (mg_prof m) \<and> nm = ''sections'' \<and> mg_array m nm = Some True then
        (case writeSections fs (mg_prof m) (mg_parts m) prs fl of Inl e \<Rightarrow> Inl e | Inr (n, s) \<Rightarrow> Inr s)
      else if mg_array m nm = Some True then (case writeArray fs m nm of Inl e \<Rightarrow> Inl e | Inr (n, s) \<Rightarrow> Inr s)
      else copyMember fs (hd (mg_parts m)) nm)"

definition merge_write :: "(string \<Rightarrow> string option) \<Rightarrow> merger \<Rightarrow> (mpart \<times> root) list \<Rightarrow> (section_at \<times> continuation) list
    \<Rightarrow> merge_error + string" where
  "merge_write fs m prs fl = write_members (write_member fs m prs fl) (mg_order m)"

text \<open>The parts with their sections' marks put back in their places.\<close>

definition mark_parts :: "mpart list \<Rightarrow> mpart list \<Rightarrow> mpart list" where
  "mark_parts marked parts = map (\<lambda>p. case find (\<lambda>q. mp_k q = mp_k p) marked of None \<Rightarrow> p | Some q \<Rightarrow> q) parts"

definition with_roots :: "mpart list \<Rightarrow> (mpart \<times> root) list \<Rightarrow> (mpart \<times> root) list" where
  "with_roots parts prs = map (\<lambda>(p, r). (parts ! mp_k p, r)) prs"

definition joins_separator :: "merger \<Rightarrow> bool" where
  "joins_separator m \<longleftrightarrow> mg_unit m = TextElements \<and> list_ex mp_endsCR (butlast (mg_parts m))"

definition DI :: "(string \<Rightarrow> nat) \<Rightarrow> (string \<Rightarrow> string option) \<Rightarrow> merge_input list \<Rightarrow> text_unit \<Rightarrow> merge_error + string" where
  "DI g fs parts u =
     (case merge_measure g fs parts (newMerger diProfile u) of
        Inl e \<Rightarrow> Inl e
      | Inr m0 \<Rightarrow>
     (case checkUnit fs m0 of
        Inl e \<Rightarrow> Inl e
      | Inr _ \<Rightarrow>
     (case mapPages m0 of
        Inl e \<Rightarrow> Inl e
      | Inr m1 \<Rightarrow>
     (case checkSections fs m1 of
        Inl e \<Rightarrow> Inl e
      | Inr prs \<Rightarrow>
     (case plan_parts fs [] prs of
        Inl e \<Rightarrow> Inl e
      | Inr (marked, fl) \<Rightarrow>
     (let m2 = m1\<lparr>mg_parts := mark_parts marked (mg_parts m1)\<rparr> in
      case separator g fs m2 of
        Inl e \<Rightarrow> Inl e
      | Inr (sep, sepLen) \<Rightarrow>
          if joins_separator m2 then checkf ''content ends with CR''
          else
     (case checkPageSpans m2 of
        Inl e \<Rightarrow> Inl e
      | Inr _ \<Rightarrow>
          (let m3 = merge_shift sepLen (m2\<lparr>mg_sep := sep\<rparr>) in
           merge_write fs m3 (with_roots (mg_parts m3) prs) fl))))))))"

definition Read :: "(string \<Rightarrow> nat) \<Rightarrow> (string \<Rightarrow> string option) \<Rightarrow> merge_input list \<Rightarrow> merge_error + string" where
  "Read g fs parts =
     (case merge_measure g fs parts (newMerger readProfile TextElements) of
        Inl e \<Rightarrow> Inl e
      | Inr m0 \<Rightarrow>
     (case mapPages m0 of
        Inl e \<Rightarrow> Inl e
      | Inr m1 \<Rightarrow> merge_write fs m1 [] []))"

end
