(* ===== verification/JsonText.thy ===== *)
theory JsonText
  imports Objects
begin

text \<open>
  JSON texts as RFC 8259 has them, without the walker's limits, and how they are put together: an array or an
  object made of JSON texts is one, and so is what the walker copies with its scalars replaced by scalars. The
  writers of the merge build their output from such pieces.
\<close>

definition rfc_scalar :: "string \<Rightarrow> bool" where
  "rfc_scalar s \<longleftrightarrow> string_text s \<or> number_text s \<or> s \<in> {''true'', ''false'', ''null''}"

definition name_text :: "string \<Rightarrow> bool" where
  "name_text h \<longleftrightarrow> (\<exists>w1 raw w2. h = w1 @ raw @ w2 @ '':'' \<and> spaces w1 \<and> spaces w2 \<and> string_text raw)"

inductive json :: "string \<Rightarrow> bool" and json_elems :: "string \<Rightarrow> bool" and json_mems :: "string \<Rightarrow> bool" where
  js_scalar: "rfc_scalar s \<Longrightarrow> json s"
| js_no_elems: "spaces w \<Longrightarrow> json (''['' @ w @ '']'')"
| js_no_mems: "spaces w \<Longrightarrow> json (''{'' @ w @ ''}'')"
| js_array: "json_elems t \<Longrightarrow> json (''['' @ t @ '']'')"
| js_object: "name_text h \<Longrightarrow> json_mems t \<Longrightarrow> json (''{'' @ h @ t @ ''}'')"
| js_elem: "spaces w1 \<Longrightarrow> json t \<Longrightarrow> spaces w2 \<Longrightarrow> json_elems (w1 @ t @ w2)"
| js_elems: "spaces w1 \<Longrightarrow> json t \<Longrightarrow> spaces w2 \<Longrightarrow> json_elems u \<Longrightarrow> json_elems (w1 @ t @ w2 @ '','' @ u)"
| js_mem: "spaces w1 \<Longrightarrow> json t \<Longrightarrow> spaces w2 \<Longrightarrow> json_mems (w1 @ t @ w2)"
| js_mems: "spaces w1 \<Longrightarrow> json t \<Longrightarrow> spaces w2 \<Longrightarrow> name_text h \<Longrightarrow> json_mems u \<Longrightarrow> json_mems (w1 @ t @ w2 @ '','' @ h @ u)"

lemma spaces_Nil [simp]: "spaces []"
  by (simp add: spaces_def)

section \<open>What the walker copies\<close>

definition rfc_visitor :: "'s visitor \<Rightarrow> bool" where
  "rfc_visitor v \<longleftrightarrow> (\<forall>st p k raw rep st1. scalar_text k raw \<longrightarrow> v st p k raw = (Some rep, st1) \<longrightarrow> rfc_scalar rep)"

lemma scalar_rfc: "scalar_text k s \<Longrightarrow> rfc_scalar s"
  by (cases k) (auto simp: scalar_text_def rfc_scalar_def)

lemma head_name: "head_text h nm \<Longrightarrow> name_text h"
  unfolding head_text_def name_text_def by blast

lemma visit_scalar_rfc:
  assumes "rfc_visitor v" and "scalar_text k raw" and "visit_scalar v st p k raw = (o1, st1)"
  shows "rfc_scalar o1"
proof (cases "v st p k raw")
  case (Pair ro st2)
  show ?thesis
  proof (cases "ro = Some o1")
    case True
    with assms(1,2) Pair show ?thesis unfolding rfc_visitor_def by blast
  next
    case False
    with assms(3) Pair have "o1 = raw" by (auto simp: visit_scalar_def split: if_splits option.splits)
    with assms(2) show ?thesis by (simp add: scalar_rfc)
  qed
qed

lemma visits_json:
  "visits v d p st t st' o1 \<Longrightarrow> rfc_visitor v \<Longrightarrow> json t \<and> json o1"
  "visits_items v d p i st t st' o1 \<Longrightarrow> rfc_visitor v \<Longrightarrow> json_elems t \<and> json_elems o1"
  "visits_members v d p nm st t st' o1 \<Longrightarrow> rfc_visitor v \<Longrightarrow> json_mems t \<and> json_mems o1"
proof (induction rule: visits_visits_items_visits_members.inducts)
  case (rw_scalar k raw st p o1 st1 d)
  then show ?case using visit_scalar_rfc [OF rw_scalar(3,1,2)] by (auto intro: js_scalar scalar_rfc)
qed (blast intro: json_json_elems_json_mems.intros head_name)+

section \<open>Putting texts together\<close>

text \<open>A text with white space around it.\<close>

definition padded :: "string \<Rightarrow> bool" where
  "padded s \<longleftrightarrow> (\<exists>w1 t w2. s = w1 @ t @ w2 \<and> spaces w1 \<and> spaces w2 \<and> json t)"

lemma json_padded: "json s \<Longrightarrow> padded s"
  unfolding padded_def by (rule exI [of _ "[]"], rule exI [of _ s], rule exI [of _ "[]"]) simp

lemma json_elems_join: "xs \<noteq> [] \<Longrightarrow> list_all padded xs \<Longrightarrow> json_elems (join_comma xs)"
proof (induction xs rule: join_comma.induct)
  case (2 s)
  then show ?case by (auto simp: padded_def intro: js_elem)
next
  case (3 s t r)
  then obtain w1 x w2 where s: "s = w1 @ x @ w2" "spaces w1" "spaces w2" "json x" by (auto simp: padded_def)
  from js_elems [OF s(2,4,3), of "join_comma (t # r)"] 3 s(1) show ?case by simp
qed simp

lemma padded_array_join: "list_all padded xs \<Longrightarrow> json (''['' @ join_comma xs @ '']'')"
  using js_no_elems [of "[]"] js_array [OF json_elems_join, of xs] by (cases "xs = []") auto

lemma json_array_join: "list_all json xs \<Longrightarrow> json (''['' @ join_comma xs @ '']'')"
  by (rule padded_array_join) (auto simp: list_all_iff json_padded)

text \<open>A name as the merge writes it.\<close>

definition plain_name :: "string \<Rightarrow> bool" where
  "plain_name nm \<longleftrightarrow> string_text ([quote] @ nm @ [quote])"

definition member_of :: "string \<times> string \<Rightarrow> string" where
  "member_of kv = [quote] @ fst kv @ [quote] @ '':'' @ snd kv"

lemma plain_name_text: "plain_name nm \<Longrightarrow> name_text ([quote] @ nm @ [quote] @ '':'')"
  unfolding plain_name_def name_text_def
  by (rule exI [of _ "[]"], rule exI [of _ "[quote] @ nm @ [quote]"], rule exI [of _ "[]"]) simp

text \<open>The members after the name of the first.\<close>

fun members_after :: "string \<Rightarrow> (string \<times> string) list \<Rightarrow> string" where
  "members_after v [] = v"
| "members_after v (kv # kvs) = v @ '','' @ ([quote] @ fst kv @ [quote] @ '':'') @ members_after (snd kv) kvs"

lemma join_members: "join_comma (map member_of (kv # kvs)) = ([quote] @ fst kv @ [quote] @ '':'') @ members_after (snd kv) kvs"
  by (induction kvs arbitrary: kv) (auto simp: member_of_def)

lemma json_mems_after: "padded v \<Longrightarrow> list_all (\<lambda>kv. plain_name (fst kv) \<and> padded (snd kv)) kvs \<Longrightarrow> json_mems (members_after v kvs)"
proof (induction kvs arbitrary: v)
  case Nil
  then show ?case by (auto simp: padded_def intro: js_mem)
next
  case (Cons kv kvs)
  then obtain w1 x w2 where v: "v = w1 @ x @ w2" "spaces w1" "spaces w2" "json x" by (auto simp: padded_def)
  from js_mems [OF v(2,4,3) plain_name_text [of "fst kv"], of "members_after (snd kv) kvs"] Cons v(1) show ?case by simp
qed

lemma json_object_join: "list_all (\<lambda>kv. plain_name (fst kv) \<and> padded (snd kv)) kvs \<Longrightarrow> json (''{'' @ join_comma (map member_of kvs) @ ''}'')"
proof (cases kvs)
  case Nil
  then show ?thesis using js_no_mems [of "[]"] by simp
next
  case (Cons kv rest)
  assume a: "list_all (\<lambda>kv. plain_name (fst kv) \<and> padded (snd kv)) kvs"
  then have "json_mems (members_after (snd kv) rest)" "name_text ([quote] @ fst kv @ [quote] @ '':'')"
    using Cons json_mems_after plain_name_text by auto
  from js_object [OF this(2,1)] show ?thesis by (simp only: Cons join_members append.assoc)
qed

text \<open>What \<open>ArrayItems\<close> puts out is a list of JSON texts with commas between; what it reads is an array.\<close>

lemma items_text_json:
  "items_text v p i st t n st' o1 \<Longrightarrow> rfc_visitor v \<Longrightarrow> json_elems t \<and> (\<exists>xs. o1 = join_comma xs \<and> length xs = n \<and> list_all json xs)"
proof (induction rule: items_text.induct)
  case (it_last w1 i st t st1 o1 w2)
  note v = visits_json(1) [OF it_last(2,4)]
  then have "json_elems (w1 @ t @ w2)" using it_last(1,3) by (blast intro: js_elem)
  moreover have "o1 = join_comma [o1] \<and> length [o1] = 1 \<and> list_all json [o1]" using v by simp
  ultimately show ?case by blast
next
  case (it_more w1 i st t st1 o1 w2 u n st2 o2)
  note v = visits_json(1) [OF it_more(2,6)]
  from it_more obtain xs where xs: "o2 = join_comma xs" "length xs = n" "list_all json xs" "json_elems u" by blast
  have "xs \<noteq> []" using items_text_pos [OF it_more(4)] xs(2) by auto
  then have "o1 @ '','' @ o2 = join_comma (o1 # xs) \<and> length (o1 # xs) = Suc n \<and> list_all json (o1 # xs)"
    using xs v by (cases xs) auto
  moreover have "json_elems (w1 @ t @ w2 @ '','' @ u)" using v xs(4) it_more(1,3) by (blast intro: js_elems)
  ultimately show ?case by blast
qed

lemma array_text_json:
  assumes "array_text v p i st t n st' o1" and "rfc_visitor v"
  shows "json t" and "\<exists>xs. o1 = join_comma xs \<and> length xs = n \<and> list_all json xs"
proof -
  show "json t"
    using assms(1) by cases (auto intro: js_no_elems [simplified] js_array [simplified] dest: items_text_json [OF _ assms(2)])
  show "\<exists>xs. o1 = join_comma xs \<and> length xs = n \<and> list_all json xs"
    using assms(1)
  proof cases
    case (at_empty w)
    then show ?thesis by (intro exI [of _ "[]"]) simp
  next
    case (at_items t1)
    then show ?thesis using items_text_json [OF _ assms(2)] by blast
  qed
qed

lemma array_items_json:
  assumes "ArrayItems v pre base st s = Inr (n, out, st')" and "rfc_visitor v"
  obtains xs where "out = join_comma xs" and "length xs = n" and "list_all json xs"
proof -
  from assms(1) obtain t where "array_text v pre base st t n st' out" unfolding array_items_iff by blast
  from array_text_json(2) [OF this assms(2)] that show ?thesis by blast
qed

lemma join_comma_append: "xs \<noteq> [] \<Longrightarrow> ys \<noteq> [] \<Longrightarrow> join_comma (xs @ ys) = join_comma xs @ '','' @ join_comma ys"
proof (induction xs rule: join_comma.induct)
  case (2 s)
  then show ?case by (cases ys) auto
qed auto

section \<open>The members of an object\<close>

lemma rfc_no_visit: "rfc_visitor no_visit"
  by (simp add: rfc_visitor_def no_visit_def)

text \<open>Visitors that only look.\<close>

definition looks :: "'s visitor \<Rightarrow> bool" where
  "looks v \<longleftrightarrow> (\<forall>st p k raw. fst (v st p k raw) = None)"

lemma looks_rfc: "looks v \<Longrightarrow> rfc_visitor v"
  by (auto simp: looks_def rfc_visitor_def) (metis fst_conv option.distinct(1))

lemma looks_chosen: "(\<And>v. vf nm = Some v \<Longrightarrow> looks v) \<Longrightarrow> rfc_visitor (chosen vf nm)"
  by (auto simp: chosen_def rfc_no_visit intro: looks_rfc split: option.splits)

lemma member_json_json: "member_json v nm st t n st1 \<Longrightarrow> rfc_visitor v \<Longrightarrow> json t"
  by (auto simp: member_json_def dest: array_text_json(1) visits_json(1) split: if_splits)

lemma name_head_plain: "name_head h raw nm \<Longrightarrow> backslash \<notin> set raw \<Longrightarrow> plain_name nm"
proof -
  assume n: "name_head h raw nm" "backslash \<notin> set raw"
  then have r: "string_text raw" "nm = butlast (tl raw)" by (auto simp: name_head_def name_of_def)
  then obtain us where "raw = [quote] @ concat us @ [quote]" by (auto simp: string_text_def)
  with r show ?thesis by (simp add: plain_name_def)
qed

lemma members_text_plain: "members_text vf pos st t ms st' \<Longrightarrow> \<forall>m\<in>set ms. \<not> mem_Escaped m \<longrightarrow> plain_name (mem_Name m)"
  by (induction rule: members_text.induct) (auto dest: name_head_plain)

lemma visit_members_json:
  assumes "VisitMembers vf ra a b st = Inr (ms, st')" and "m \<in> set ms" and "\<And>nm v. vf nm = Some v \<Longrightarrow> looks v"
  shows "json (byte_range (mem_Start m) (mem_End m) ra)" and "\<not> mem_Escaped m \<Longrightarrow> plain_name (mem_Name m)"
proof -
  show "json (byte_range (mem_Start m) (mem_End m) ra)"
  proof (rule visit_members_at [OF assms(1,2)])
    fix st1 st2
    assume "member_json (chosen vf (mem_Name m)) (mem_Name m) st1 (byte_range (mem_Start m) (mem_End m) ra) (mem_Items m) st2"
    then show ?thesis by (rule member_json_json) (rule looks_chosen, rule assms(3))
  qed
  from assms(1,2) show "\<not> mem_Escaped m \<Longrightarrow> plain_name (mem_Name m)"
    unfolding visit_members_iff object_text_def using members_text_plain by fastforce
qed

lemma visit_members_length:
  assumes "VisitMembers vf ra a b st = Inr (ms, st')" and "m \<in> set ms"
  shows "0 \<le> mem_Start m \<and> int (length (byte_range (mem_Start m) (mem_End m) ra)) = mem_End m - mem_Start m"
proof (rule visit_members_at [OF assms])
  have "0 \<le> a" using assms(1) unfolding visit_members_iff by simp
  fix st1 st2
  assume "a < mem_Start m" "int (length (byte_range (mem_Start m) (mem_End m) ra)) = mem_End m - mem_Start m"
  with \<open>0 \<le> a\<close> show ?thesis by simp
qed

end
