(* ===== verification/MergedJson.thy ===== *)
theory MergedJson
  imports Merger JsonText
begin

text \<open>
  What a merge writes is one JSON text: the visitors replace scalars by scalars, the pieces copied are JSON because
  the parts were walked when they were measured, and the writers put them together as the grammar does.
\<close>

section \<open>Replacements\<close>

lemma nat_str_number: "int_text (nat_str n)"
proof -
  have f: "frac_text []" by (auto simp: frac_text_def exp_text_def)
  show ?thesis
  proof (cases "n = 0")
    case True
    then have "nat_str n = ''0''" by (simp add: nat_str.simps digit_char_zero)
    with f show ?thesis unfolding int_text_def by (intro exI [of _ "''0''"] exI [of _ "[]"]) simp
  next
    case False
    with f nat_str_digits [of n] nat_str_head [of n] show ?thesis
      unfolding int_text_def digits1_def by (intro exI [of _ "nat_str n"] exI [of _ "[]"]) simp
  qed
qed

lemma itoa_scalar: "rfc_scalar (itoa n)"
  using nat_str_number by (auto simp: rfc_scalar_def number_text_def itoa_def)

lemma renumber_scalar: "renumber x was = Replace r \<Longrightarrow> rfc_scalar r"
  by (auto simp: renumber_def itoa_scalar split: if_splits)

text \<open>A string of plain characters between quotes.\<close>

definition plain_char :: "char \<Rightarrow> bool" where
  "plain_char c \<longleftrightarrow> c \<noteq> quote \<and> c \<noteq> backslash \<and> 32 \<le> (of_char c :: nat)"

lemma plain_units: "list_all plain_char s \<Longrightarrow> list_all string_unit (map (\<lambda>c. [c]) s)"
  by (auto simp: list_all_iff plain_char_def string_unit_def)

lemma string_text_units: "list_all string_unit us \<Longrightarrow> string_text ([quote] @ concat us @ [quote])"
  unfolding string_text_def by auto

lemma concat_singles: "concat (map (\<lambda>c. [c]) s) = s"
  by (induction s) auto

lemma plain_string: "list_all plain_char s \<Longrightarrow> string_text ([quote] @ s @ [quote])"
  using string_text_units [OF plain_units] by (simp add: concat_singles)

lemma digit_plain: "is_digit c \<Longrightarrow> plain_char c"
  by (auto simp: is_digit_def plain_char_def quote_def backslash_def)

lemma itoa_plain: "list_all plain_char (itoa n)"
proof -
  have "list_all plain_char (nat_str k)" for k using nat_str_digits [of k] digit_plain by (auto simp: list_all_iff)
  then show ?thesis by (auto simp: itoa_def plain_char_def quote_def backslash_def)
qed

lemma pointer_name_plain: "nm \<in> set pointerMembers \<Longrightarrow> list_all plain_char nm"
  by (auto simp: pointerMembers_def plain_char_def quote_def backslash_def)

text \<open>After plain characters, the rest of a string's body is made of whole units.\<close>

lemma units_after: "concat us = a @ b \<Longrightarrow> list_all string_unit us \<Longrightarrow> list_all plain_char a \<Longrightarrow> \<exists>vs. b = concat vs \<and> list_all string_unit vs"
proof (induction a arbitrary: us)
  case (Cons c a)
  then obtain u vs where us: "us = u # vs" "string_unit u" "list_all string_unit vs"
    by (cases us) auto
  have "u \<noteq> []" using us(2) by (auto simp: string_unit_def)
  with Cons.prems(1) us have "hd u = c" by (cases u) auto
  with us(2) Cons.prems(3) have "u = [c]" by (auto simp: string_unit_def plain_char_def)
  with Cons us show ?case by auto
qed auto

lemma visit_figure_scalar:
  assumes "scalar_text k raw" and "visit_figureID p k raw = Replace r"
  shows "rfc_scalar r"
proof -
  have k: "k = KString" using assms(2) by (auto simp: visit_figureID_def split: if_splits)
  with assms(1) have st: "string_text raw" by (simp add: scalar_text_def)
  then obtain us where us: "raw = [quote] @ concat us @ [quote]" "list_all string_unit us" by (auto simp: string_text_def)
  obtain pg rest found where c: "go_cut (CHR ''.'') (butlast (tl raw)) = (pg, rest, found)" by (metis prod_cases3)
  note v = assms(2) [unfolded visit_figureID_def c Let_def, simplified]
  then have f: "found" by (auto split: if_splits)
  obtain pn where pn: "parseIndex pg = Some pn" using v by (auto split: if_splits option.splits)
  obtain og where r: "r = [quote] @ itoa og @ ''.'' @ rest @ [quote]" using v by (auto split: if_splits option.splits)
  have cut: "go_cut d s = (a, b, True) \<Longrightarrow> s = a @ d # b" for d s a b
    by (induction d s arbitrary: a rule: go_cut.induct) (auto split: if_splits prod.splits)
  have "concat us = pg @ CHR ''.'' # rest" using cut [of "CHR ''.''" "butlast (tl raw)" pg rest] c f us(1) by simp
  moreover have "list_all plain_char (pg @ ''.'')"
    using pn digit_plain by (auto simp: parseIndex_def list_all_iff plain_char_def quote_def backslash_def split: if_splits)
  ultimately obtain vs where vs: "rest = concat vs" "list_all string_unit vs" using units_after [of us "pg @ ''.''" rest] us(2) by auto
  have "list_all string_unit (map (\<lambda>c. [c]) (itoa og @ ''.'') @ vs)"
    using plain_units [of "itoa og @ ''.''"] itoa_plain [of og] vs(2) by (auto simp: plain_char_def quote_def backslash_def)
  from string_text_units [OF this] show ?thesis using r vs(1) by (simp add: rfc_scalar_def concat_singles del: map_append)
qed

lemma visit_pointer_scalar: "visit_pointer p k raw = Replace r \<Longrightarrow> rfc_scalar r"
proof -
  assume a: "visit_pointer p k raw = Replace r"
  obtain front digits where c: "cut_last (CHR ''/'') (butlast (tl raw)) = (front, digits)" by fastforce
  from a [unfolded visit_pointer_def c Let_def, simplified] obtain j where
    "r = [quote] @ ''/'' @ tl front @ ''/'' @ itoa j @ [quote]" "tl front \<in> set pointerMembers"
    by (auto split: if_splits option.splits)
  moreover have "list_all plain_char (''/'' @ tl front @ ''/'' @ itoa j)"
    using pointer_name_plain [OF calculation(2)] itoa_plain [of j] by (auto simp: plain_char_def quote_def backslash_def)
  ultimately show ?thesis using plain_string [of "''/'' @ tl front @ ''/'' @ itoa j"] by (simp add: rfc_scalar_def)
qed

lemma di_scalar_replaces:
  "di_scalar p path k raw = Replace r \<Longrightarrow> scalar_text k raw \<Longrightarrow> rfc_scalar r"
  unfolding di_scalar_def Let_def
  by (auto simp: visit_offset_def visit_page_def dest: visit_pointer_scalar visit_figure_scalar renumber_scalar
      split: if_splits path_elem.splits option.splits)

lemma part_visitor_rfc: "rfc_visitor (part_visitor prof p)"
  unfolding rfc_visitor_def part_visitor_def diVisitor_def readVisitor_def
  by (auto dest: di_scalar_replaces simp: itoa_scalar split: if_splits renumbered.splits option.splits)

section \<open>Measured parts\<close>

text \<open>A part was measured: its file was walked, no member's name is escaped, and for Document Intelligence its content
  is a string.\<close>

definition measured :: "profile \<Rightarrow> (string \<Rightarrow> string option) \<Rightarrow> mpart \<Rightarrow> bool" where
  "measured prof fs p \<longleftrightarrow> (\<exists>f st st' a b. fs (in_Path p) = Some f
     \<and> VisitMembers (measure_visitor prof) f a b st = Inr (mp_members p, st') \<and> \<not> list_ex mem_Escaped (mp_members p)
     \<and> (pf_di prof \<longrightarrow> (\<exists>m. part_member p ''content'' = Some m \<and> raw_of f m \<noteq> [] \<and> hd (raw_of f m) = quote)))"

lemma measure_looks: "measure_visitor prof nm = Some v \<Longrightarrow> looks v"
  by (auto simp: measure_visitor_def looks_def split: if_splits)

lemma part_member_in: "part_member p nm = Some m \<Longrightarrow> m \<in> set (mp_members p) \<and> mem_Name m = nm"
  by (auto simp: part_member_def find_Some_iff)

lemma measured_value:
  assumes "measured prof fs p" and "fs (in_Path p) = Some f" and "m \<in> set (mp_members p)"
  shows "json (raw_of f m)" and "plain_name (mem_Name m)"
proof -
  obtain st st' a b where v: "VisitMembers (measure_visitor prof) f a b st = Inr (mp_members p, st')"
    "\<not> list_ex mem_Escaped (mp_members p)" using assms(1,2) by (auto simp: measured_def)
  show "json (raw_of f m)" unfolding raw_of_def by (rule visit_members_json(1) [OF v(1) assms(3) measure_looks])
  show "plain_name (mem_Name m)"
    by (rule visit_members_json(2) [OF v(1) assms(3) measure_looks]) (use v(2) assms(3) in \<open>auto simp: list_ex_iff\<close>)
qed

lemma json_quote:
  assumes "json s" and "hd s = quote"
  shows "string_text s"
  using assms(1)
proof cases
  case js_scalar
  have "\<not> number_text s" using assms(2) number_text_head [of s] by (auto simp: quote_def is_digit_def)
  with js_scalar assms(2) show ?thesis by (auto simp: rfc_scalar_def quote_def)
qed (use assms(2) in \<open>auto simp: quote_def\<close>)

lemma measureContent_some:
  "measureContent u g f p = Inr q \<Longrightarrow> (\<exists>m. part_member p ''content'' = Some m \<and> raw_of f m \<noteq> [] \<and> hd (raw_of f m) = quote)
     \<and> in_Path q = in_Path p \<and> mp_members q = mp_members p"
  by (auto simp: measureContent_def checkf_def Let_def split: option.splits if_splits)

lemma part_member_cong: "mp_members q = mp_members p \<Longrightarrow> part_member q nm = part_member p nm"
  by (simp add: part_member_def)

lemma measure_shape_some:
  assumes "measure_shape prof u g p f = Inr q" and "fs (in_Path p) = Some f"
  shows "measured prof fs q \<and> in_Path q = in_Path p"
proof -
  obtain ms pages hs where v: "VisitMembers (measure_visitor prof) f (in_Start p) (in_End p) (new_pages, []) = Inr (ms, pages, hs)"
    using assms(1) by (auto simp: measure_shape_def split: sum.splits)
  note s = assms(1) [unfolded measure_shape_def v Let_def, simplified]
  have vx: "\<exists>st st' a b. VisitMembers (measure_visitor prof) f a b st = Inr (ms, st')" using v by blast
  have e: "\<not> list_ex mem_Escaped ms" using s by (auto simp: checkf_def split: if_splits)
  let ?p = "p\<lparr>mp_members := ms, mp_pages := ps_pages pages, mp_pageEnd := ps_spanEnd pages, mp_heads := hs\<rparr>"
  have q: "(if pf_di prof then measureContent u g f ?p else Inr ?p) = Inr q"
    using s by (auto simp: checkf_def split: if_splits option.splits)
  show ?thesis
  proof (cases "pf_di prof")
    case True
    with q measureContent_some [of u g f ?p q] have "in_Path q = in_Path p" "mp_members q = ms"
      "\<exists>m. part_member q ''content'' = Some m \<and> raw_of f m \<noteq> [] \<and> hd (raw_of f m) = quote"
      using part_member_cong [of q ?p] by auto
    with vx e assms(2) True show ?thesis unfolding measured_def by auto
  next
    case False
    with q have "q = ?p" by simp
    with vx e assms(2) False show ?thesis unfolding measured_def by auto
  qed
qed

text \<open>What \<open>agrees\<close> gives: a member that is no array, content apart, is in part 0 as well.\<close>

definition shares :: "profile \<Rightarrow> mpart \<Rightarrow> mpart \<Rightarrow> bool" where
  "shares prof p0 p \<longleftrightarrow> (\<forall>m\<in>set (mp_members p). is_array m \<or> pf_di prof \<and> mem_Name m = ''content''
     \<or> part_member p0 (mem_Name m) \<noteq> None)"

lemma shares_self: "shares prof p p"
  by (auto simp: shares_def part_member_def find_None_iff)

lemma agrees_shares: "agrees prof f0 p0 f p = Inr q \<Longrightarrow> q = p \<and> shares prof p0 p"
proof -
  assume a: "agrees prof f0 p0 f p = Inr q"
  have "part_member p0 (mem_Name m) \<noteq> None"
    if "m \<in> set (mp_members p)" "\<not> is_array m" "\<not> (pf_di prof \<and> mem_Name m = ''content'')" for m
  proof
    assume n: "part_member p0 (mem_Name m) = None"
    have "same_member f0 p0 f p (mem_Name m)" using a that by (auto simp: agrees_def checkf_def list_all_iff split: if_splits)
    with n have "part_member p (mem_Name m) = None" by (simp add: same_member_def split: option.splits)
    with that(1) show False by (auto simp: part_member_def find_None_iff)
  qed
  with a show ?thesis by (auto simp: shares_def agrees_def checkf_def split: if_splits)
qed

lemma withFile_some: "withFile fs path k = Inr x \<Longrightarrow> \<exists>f. fs path = Some f \<and> k f = Inr x"
  by (auto simp: withFile_def split: option.splits)

lemma new_part_path [simp]: "in_Path (new_part k i) = in_Path i"
  by (simp add: new_part_def merge_input.defs)

lemma measure_rest_some:
  "measure_rest prof u g fs f0 p0 k is = Inr ps \<Longrightarrow> \<forall>p\<in>set ps. measured prof fs p \<and> shares prof p0 p"
proof (induction prof u g fs f0 p0 k "is" arbitrary: ps rule: measure_rest.induct)
  case (2 prof u g fs f0 p0 k i rest)
  obtain p qs where p: "withFile fs (in_Path i) (measurePart prof u g f0 (Some p0) (new_part k i)) = Inr p"
    "measure_rest prof u g fs f0 p0 (Suc k) rest = Inr qs" "ps = p # qs" using 2(2) by (auto split: sum.splits)
  obtain f where f: "fs (in_Path i) = Some f" "measurePart prof u g f0 (Some p0) (new_part k i) f = Inr p" using withFile_some [OF p(1)] by blast
  then obtain q where q: "measure_shape prof u g (new_part k i) f = Inr q" "agrees prof f0 p0 f q = Inr p"
    by (auto simp: measurePart_def split: sum.splits)
  have "measured prof fs q" using measure_shape_some [OF q(1), of fs] f(1) by simp
  with agrees_shares [OF q(2)] 2(1) [OF p(1,2)] p(3) show ?case by simp
qed simp

text \<open>All that a merge needs of its parts; it holds of measured parts and does not depend on their marks and shifts.\<close>

definition parts_ok :: "(string \<Rightarrow> string option) \<Rightarrow> merger \<Rightarrow> bool" where
  "parts_ok fs m \<longleftrightarrow> mg_parts m \<noteq> [] \<and> (\<forall>p\<in>set (mg_parts m). measured (mg_prof m) fs p \<and> shares (mg_prof m) (hd (mg_parts m)) p)
     \<and> (\<forall>p\<in>set (mg_parts m). \<forall>mb\<in>set (mp_members p). mg_array m (mem_Name mb) = Some (is_array mb))
     \<and> (\<forall>nm\<in>set (mg_order m). \<exists>p\<in>set (mg_parts m). \<exists>mb\<in>set (mp_members p). mem_Name mb = nm)"

lemma plan_arrays_some:
  "plan_arrays ms arr = Some arr' \<Longrightarrow> (\<forall>(nm, a)\<in>set ms. arr' nm = Some a) \<and> (\<forall>nm a. arr nm = Some a \<longrightarrow> arr' nm = Some a)"
proof (induction ms arr rule: plan_arrays.induct)
  case (2 nm a ms arr)
  from 2(2) have n: "arr nm \<noteq> Some (\<not> a)" "plan_arrays ms (arr(nm \<mapsto> a)) = Some arr'" by (auto split: if_splits)
  note ih = 2(1) [OF n]
  have "arr' nm = Some a" using ih by simp
  moreover have "arr' k = Some b" if "arr k = Some b" for k b
  proof (cases "k = nm")
    case True
    with that n(1) have "b = a" by (cases a; cases b) auto
    with True \<open>arr' nm = Some a\<close> show ?thesis by simp
  qed (use that ih in auto)
  ultimately show ?case using ih by auto
qed simp

lemma merge_plan_some:
  assumes "merge_plan m = Inr m'" and "mg_parts m \<noteq> []"
    and "\<forall>p\<in>set (mg_parts m). measured (mg_prof m) fs p \<and> shares (mg_prof m) (hd (mg_parts m)) p"
  shows "parts_ok fs m' \<and> mg_prof m' = mg_prof m"
proof -
  let ?ls = "map (\<lambda>p. map mem_Name (mp_members p)) (mg_parts m)"
  obtain arr ord where a: "plan_arrays (concat (map (\<lambda>p. map (\<lambda>mb. (mem_Name mb, is_array mb)) (mp_members p)) (mg_parts m))) (mg_array m) = Some arr"
    "mergeOrder ?ls = Some ord" "m' = m\<lparr>mg_array := arr, mg_order := ord\<rparr>"
    using assms(1) by (auto simp: merge_plan_def checkf_def split: option.splits)
  have "\<forall>nm\<in>set ord. \<exists>p\<in>set (mg_parts m). \<exists>mb\<in>set (mp_members p). mem_Name mb = nm"
    using mergeOrder_some [OF a(2)] by auto
  moreover have "\<forall>p\<in>set (mg_parts m). \<forall>mb\<in>set (mp_members p). arr (mem_Name mb) = Some (is_array mb)"
    using plan_arrays_some [OF a(1)] by fastforce
  ultimately show ?thesis using assms(2,3) a(3) by (simp add: parts_ok_def)
qed

lemma merge_measure_some: "merge_measure g fs parts m = Inr m' \<Longrightarrow> parts_ok fs m' \<and> mg_prof m' = mg_prof m"
proof -
  assume a: "merge_measure g fs parts m = Inr m'"
  then obtain i0 rest where parts: "parts = i0 # rest" by (cases parts) (auto simp: merge_measure_def checkf_def)
  let ?k = "\<lambda>f0. case measurePart (mg_prof m) (mg_unit m) g f0 None (new_part 0 i0) f0 of Inl e \<Rightarrow> Inl e
     | Inr p0 \<Rightarrow> (case measure_rest (mg_prof m) (mg_unit m) g fs f0 p0 1 rest of Inl e \<Rightarrow> Inl e
                  | Inr ps \<Rightarrow> merge_plan (m\<lparr>mg_parts := p0 # ps\<rparr>))"
  have "withFile fs (in_Path i0) ?k = Inr m'" using a parts by (simp add: merge_measure_def checkf_def split: if_splits)
  then obtain f0 where f0: "fs (in_Path i0) = Some f0" "?k f0 = Inr m'" using withFile_some [of fs "in_Path i0" ?k m'] by blast
  obtain p0 where p0: "measurePart (mg_prof m) (mg_unit m) g f0 None (new_part 0 i0) f0 = Inr p0"
    using f0(2) by (cases "measurePart (mg_prof m) (mg_unit m) g f0 None (new_part 0 i0) f0") auto
  obtain ps where ps: "measure_rest (mg_prof m) (mg_unit m) g fs f0 p0 1 rest = Inr ps"
    using f0(2) p0 by (cases "measure_rest (mg_prof m) (mg_unit m) g fs f0 p0 1 rest") auto
  note f = f0(1) p0 ps f0(2) [unfolded p0 ps sum.case]
  have "measure_shape (mg_prof m) (mg_unit m) g (new_part 0 i0) f0 = Inr p0" using f(2) by (auto simp: measurePart_def split: sum.splits)
  from measure_shape_some [OF this, of fs] f(1) have "measured (mg_prof m) fs p0" by simp
  with measure_rest_some [OF f(3)] merge_plan_some [OF f(4), of fs] shares_self show ?thesis by simp
qed

text \<open>Later stages change marks and shifts only.\<close>

definition same_members :: "mpart \<Rightarrow> mpart \<Rightarrow> bool" where
  "same_members p q \<longleftrightarrow> mp_k q = mp_k p \<and> in_Path q = in_Path p \<and> mp_members q = mp_members p"

lemma measured_cong: "same_members p q \<Longrightarrow> measured prof fs q = measured prof fs p"
  by (simp add: same_members_def measured_def part_member_def)

lemma shares_cong: "same_members p0 q0 \<Longrightarrow> same_members p q \<Longrightarrow> shares prof q0 q = shares prof p0 p"
  by (simp add: same_members_def shares_def part_member_def)

lemma parts_ok_cong:
  assumes "parts_ok fs m" and "list_all2 same_members (mg_parts m) (mg_parts m')"
    and "mg_prof m' = mg_prof m" and "mg_array m' = mg_array m" and "mg_order m' = mg_order m"
  shows "parts_ok fs m'"
proof -
  have ne: "mg_parts m' \<noteq> []" using assms(1,2) by (auto simp: parts_ok_def)
  have h: "same_members (hd (mg_parts m)) (hd (mg_parts m'))" using assms(1,2) by (cases "mg_parts m"; cases "mg_parts m'") (auto simp: parts_ok_def)
  have b: "\<exists>p\<in>set (mg_parts m). same_members p q" if "q \<in> set (mg_parts m')" for q
    using assms(2) that by (metis in_set_conv_nth list_all2_conv_all_nth)
  have f: "\<exists>q\<in>set (mg_parts m'). same_members p q" if "p \<in> set (mg_parts m)" for p
    using assms(2) that by (metis in_set_conv_nth list_all2_conv_all_nth)
  show ?thesis unfolding parts_ok_def
  proof (intro conjI ballI)
    fix q assume "q \<in> set (mg_parts m')"
    then obtain p where p: "p \<in> set (mg_parts m)" "same_members p q" using b by blast
    then show "measured (mg_prof m') fs q" and "shares (mg_prof m') (hd (mg_parts m')) q"
      using assms(1,3) measured_cong [OF p(2)] shares_cong [OF h p(2)] by (auto simp: parts_ok_def)
    fix mb assume "mb \<in> set (mp_members q)"
    then show "mg_array m' (mem_Name mb) = Some (is_array mb)" using p assms(1,4) by (auto simp: parts_ok_def same_members_def)
  next
    fix nm assume "nm \<in> set (mg_order m')"
    then obtain p mb where p: "p \<in> set (mg_parts m)" "mb \<in> set (mp_members p)" "mem_Name mb = nm" using assms(1,5) by (auto simp: parts_ok_def)
    from f [OF p(1)] obtain q where "q \<in> set (mg_parts m')" "mp_members q = mp_members p" by (auto simp: same_members_def)
    with p(2,3) show "\<exists>p\<in>set (mg_parts m'). \<exists>mb\<in>set (mp_members p). mem_Name mb = nm" by (intro bexI [of _ q] bexI [of _ mb]) auto
  qed (rule ne)
qed

section \<open>Writing members\<close>

lemma map_all_some: "map_all f xs = Inr ys \<Longrightarrow> list_all2 (\<lambda>x y. f x = Inr y) xs ys"
  by (induction xs arbitrary: ys) (auto split: sum.splits)

lemma map_all_in: "map_all f xs = Inr ys \<Longrightarrow> y \<in> set ys \<Longrightarrow> \<exists>x\<in>set xs. f x = Inr y"
  by (frule map_all_some) (auto simp: in_set_conv_nth list_all2_conv_all_nth intro!: bexI [OF _ nth_mem])

lemma write_members_json:
  assumes "write_members val keys = Inr s" and "list_all plain_name keys"
    and "\<And>key v. key \<in> set keys \<Longrightarrow> val key = Inr v \<Longrightarrow> padded v"
  shows "json s"
proof -
  obtain ms where m: "map_all (\<lambda>key. case val key of Inl e \<Rightarrow> Inl e | Inr v \<Rightarrow> Inr (writeName key @ '':'' @ v)) keys = Inr ms"
    "s = ''{'' @ join_comma ms @ ''}''" using assms(1) by (auto simp: write_members_def split: sum.splits)
  have "\<exists>kvs. ms = map member_of kvs \<and> list_all (\<lambda>kv. plain_name (fst kv) \<and> padded (snd kv)) kvs"
    using m(1) assms(2,3)
  proof (induction keys arbitrary: ms)
    case (Cons key keys)
    then obtain v rest where v: "val key = Inr v" "ms = (writeName key @ '':'' @ v) # rest"
      "map_all (\<lambda>key. case val key of Inl e \<Rightarrow> Inl e | Inr v \<Rightarrow> Inr (writeName key @ '':'' @ v)) keys = Inr rest"
      by (auto split: sum.splits)
    with Cons obtain kvs where "rest = map member_of kvs" "list_all (\<lambda>kv. plain_name (fst kv) \<and> padded (snd kv)) kvs" by auto
    then show ?case using v Cons.prems(2,3) by (intro exI [of _ "(key, v) # kvs"]) (auto simp: member_of_def writeName_def)
  qed simp
  then show ?thesis using json_object_join m(2) by auto
qed

text \<open>Items of parts one after the other.\<close>

lemma merge_items_json:
  assumes "merge_items prof p s pre base = Inr (n, out)"
  obtains xs where "out = join_comma xs" and "length xs = n" and "list_all json xs"
proof -
  obtain failed where "ArrayItems (part_visitor prof p) pre base False s = Inr (n, out, failed)"
    using assms by (auto simp: merge_items_def checkf_def split: sum.splits if_splits)
  from array_items_json [OF this part_visitor_rfc] that show ?thesis by blast
qed

lemma join_comma_after:
  "length xs = n \<Longrightarrow> 0 < n \<Longrightarrow> join_comma xs @ (if ys = [] then [] else '','' @ join_comma ys) = join_comma (xs @ ys)"
  using join_comma_append [of xs ys] by auto

text \<open>What \<open>write_items\<close> gives is a list of items, with a comma before it when items came before.\<close>

lemma write_items_json:
  "write_items fs prof nm k ps = Inr (t, s) \<Longrightarrow> 0 \<le> k \<Longrightarrow>
     \<exists>xs. list_all json xs \<and> t = k + int (length xs) \<and> s = (if xs = [] then [] else (if 0 < k then '','' else []) @ join_comma xs)"
proof (induction fs prof nm k ps arbitrary: t s rule: write_items.induct)
  case (1 fs prof nm k)
  then show ?case by (intro exI [of _ "[]"]) simp
next
  case (2 fs prof nm k p ps)
  show ?case
  proof (cases "part_member p nm")
    case None
    with 2 show ?thesis by simp
  next
    case (Some mb)
    show ?thesis
    proof (cases "part_count p nm = 0")
      case True
      with 2 Some show ?thesis by simp
    next
      case False
      let ?w = "withFile fs (in_Path p) (\<lambda>f. merge_items prof p (raw_of f mb) [Key nm] k)"
      obtain n out where w: "?w = Inr (n, out)" using 2(4) Some False by (cases ?w) auto
      obtain f where "merge_items prof p (raw_of f mb) [Key nm] k = Inr (n, out)" using withFile_some [OF w] by auto
      from merge_items_json [OF this] obtain xs where xs: "out = join_comma xs" "length xs = n" "list_all json xs" .
      from 2(4) Some False w have n: "int n = part_count p nm" by (auto simp: checkf_def split: if_splits)
      with False have pos: "0 < n" by simp
      from 2(4) Some False w n obtain rest where r: "write_items fs prof nm (k + int n) ps = Inr (t, rest)"
        "s = (if 0 < k then '','' else []) @ out @ rest" by (auto split: sum.splits)
      from 2(3) [OF Some False w refl _ r(1)] n 2(5) obtain ys where ys: "list_all json ys" "t = k + int n + int (length ys)"
        "rest = (if ys = [] then [] else '','' @ join_comma ys)" using pos by auto
      have "out @ rest = join_comma (xs @ ys)" unfolding xs(1) ys(3) by (rule join_comma_after [OF xs(2) pos])
      then show ?thesis using xs ys r(2) pos by (intro exI [of _ "xs @ ys"]) auto
    qed
  qed
qed

lemma writeArray_json: "writeArray fs m nm = Inr (t, s) \<Longrightarrow> json s"
proof -
  assume "writeArray fs m nm = Inr (t, s)"
  then obtain s0 where s: "write_items fs (mg_prof m) nm 0 (mg_parts m) = Inr (t, s0)" "s = ''['' @ s0 @ '']''"
    by (auto simp: writeArray_def split: sum.splits)
  from write_items_json [OF s(1)] obtain xs where "list_all json xs" "s0 = join_comma xs" by fastforce
  with s(2) json_array_join show ?thesis by simp
qed

subsection \<open>Content\<close>

definition units_text :: "string \<Rightarrow> bool" where
  "units_text s \<longleftrightarrow> (\<exists>us. s = concat us \<and> list_all string_unit us)"

lemma units_append: "units_text a \<Longrightarrow> units_text b \<Longrightarrow> units_text (a @ b)"
proof -
  assume "units_text a" "units_text b"
  then obtain us vs where "a = concat us" "list_all string_unit us" "b = concat vs" "list_all string_unit vs" by (auto simp: units_text_def)
  then show ?thesis unfolding units_text_def by (intro exI [of _ "us @ vs"]) simp
qed

lemma units_Nil: "units_text []"
  unfolding units_text_def by (rule exI [of _ "[]"]) simp

lemma units_string: "units_text s \<longleftrightarrow> string_text ([quote] @ s @ [quote])"
  by (auto simp: units_text_def string_text_def)

lemma content_body_units:
  assumes "measured prof fs p" and "pf_di prof" and "fs (in_Path p) = Some f" and "part_member p ''content'' = Some mb"
  shows "units_text (byte_range (mem_Start mb + 1) (mem_End mb - 1) f)"
proof -
  obtain st st' a b where v: "VisitMembers (measure_visitor prof) f a b st = Inr (mp_members p, st')"
    and q: "hd (raw_of f mb) = quote"
    using assms by (auto simp: measured_def)
  have "json (raw_of f mb)" using measured_value(1) [OF assms(1,3)] part_member_in [OF assms(4)] by blast
  with q obtain us where us: "raw_of f mb = [quote] @ concat us @ [quote]" "list_all string_unit us"
    using json_quote by (auto simp: string_text_def)
  have l: "0 \<le> mem_Start mb" "int (length (raw_of f mb)) = mem_End mb - mem_Start mb"
    using visit_members_length [OF v] part_member_in [OF assms(4)] by (auto simp: raw_of_def)
  have "mem_Start mb + 1 + int (length (concat us)) = mem_End mb - 1" using l(2) us(1) by simp
  with byte_range_mid(1) [OF us(1) [unfolded raw_of_def] l(1)] us(2) show ?thesis unfolding units_text_def by auto
qed

lemma content_bodies_units:
  "content_bodies fs sep k ps = Inr s \<Longrightarrow> units_text sep \<Longrightarrow> pf_di prof \<Longrightarrow> \<forall>p\<in>set ps. measured prof fs p \<Longrightarrow> units_text s"
proof (induction fs sep k ps arbitrary: s rule: content_bodies.induct)
  case (2 fs sep k p ps)
  let ?b = "withFile fs (in_Path p) (\<lambda>f. case part_member p ''content'' of None \<Rightarrow> Inr []
      | Some mb \<Rightarrow> Inr (byte_range (mem_Start mb + 1) (mem_End mb - 1) f))"
  obtain body where b: "?b = Inr body" using 2(2) by (cases ?b) auto
  obtain rest where r: "content_bodies fs sep (Suc k) ps = Inr rest" "s = (if 0 < k then sep else []) @ body @ rest"
    using 2(2) b by (cases "content_bodies fs sep (Suc k) ps") auto
  obtain f where f: "fs (in_Path p) = Some f" "(case part_member p ''content'' of None \<Rightarrow> Inr []
      | Some mb \<Rightarrow> Inr (byte_range (mem_Start mb + 1) (mem_End mb - 1) f)) = (Inr body :: merge_error + string)" using withFile_some [OF b] by blast
  have "measured prof fs p" using 2(5) by simp
  from content_body_units [OF this 2(4) f(1)] have "units_text body" using f(2) units_Nil by (auto split: option.splits)
  moreover have "units_text rest" using 2(1) [OF b r(1) 2(3,4)] 2(5) by simp
  ultimately show ?case using r(2) 2(3) by (auto intro: units_append units_Nil)
qed (simp add: units_Nil)

lemma writeContent_json:
  assumes "writeContent fs m = Inr s" and "units_text (mg_sep m)" and "pf_di (mg_prof m)" and "parts_ok fs m"
  shows "json s"
proof -
  obtain b where b: "content_bodies fs (mg_sep m) 0 (mg_parts m) = Inr b" "s = [quote] @ b @ [quote]"
    using assms(1) by (auto simp: writeContent_def split: sum.splits)
  have "units_text b" by (rule content_bodies_units [OF b(1) assms(2,3)]) (use assms(4) in \<open>simp add: parts_ok_def\<close>)
  with b(2) show ?thesis by (auto simp: units_string rfc_scalar_def intro: js_scalar)
qed

lemma separator_units: "separator g fs m = Inr (sep, n) \<Longrightarrow> units_text sep"
proof -
  assume "separator g fs m = Inr (sep, n)"
  then obtain t style where s: "sep = encodeSeparator t style" and t: "t = text_separator \<or> t = markdown_separator"
    by (auto simp: separator_def Let_def withFile_def checkf_def split: sum.splits option.splits if_splits)
  have e: "units_text (if c = CHR 0x0A then [backslash, CHR ''n'']
      else if (c = CHR ''<'' \<or> c = CHR ''>'') \<and> (style = LtLower \<or> style = LtUpper) then bracket_code style c else [c])"
    if "c = CHR 0x0A \<or> plain_char c" for c
  proof -
    have u: "string_unit [backslash, CHR ''n'']" "string_unit (bracket_code style c)" "c \<noteq> CHR 0x0A \<Longrightarrow> string_unit [c]"
      using that by (auto simp: string_unit_def bracket_code_def escape_char_def isHex_def is_digit_def plain_char_def)
    have one: "string_unit x \<Longrightarrow> units_text x" for x unfolding units_text_def by (rule exI [of _ "[x]"]) simp
    show ?thesis using u by (auto intro: one)
  qed
  have "units_text (encodeSeparator t style)" if "list_all (\<lambda>c. c = CHR 0x0A \<or> plain_char c) t" for t
    using that
  proof (induction t)
    case (Cons c t)
    then have "units_text (encodeSeparator t style)" "c = CHR 0x0A \<or> plain_char c" by auto
    from units_append [OF e [OF this(2)] this(1)] show ?case unfolding encodeSeparator_def by (simp only: list.map concat.simps)
  qed (simp add: encodeSeparator_def units_Nil)
  moreover have "list_all (\<lambda>c. c = CHR 0x0A \<or> plain_char c) t"
    using t by (auto simp: text_separator_def markdown_separator_def plain_char_def quote_def backslash_def)
  ultimately show ?thesis using s by simp
qed

subsection \<open>Sections\<close>

lemma rewrite_part_padded: "rewrite_part prof p pre raw = Inr s \<Longrightarrow> padded s"
proof -
  assume "rewrite_part prof p pre raw = Inr s"
  then obtain failed where "json_Rewrite (part_visitor prof p) pre False raw = Inr (s, failed)"
    by (auto simp: rewrite_part_def checkf_def split: sum.splits if_splits)
  then obtain w1 t w2 o1 where r: "spaces w1" "spaces w2" "visits (part_visitor prof p) maxDepth pre False t failed o1" "s = w1 @ o1 @ w2"
    unfolding rewrite_iff by blast
  then show ?thesis using visits_json(1) [OF r(3) part_visitor_rfc] unfolding padded_def by blast
qed

text \<open>How many items an array has does not depend on who looks at them.\<close>

lemma visits_input:
  "visits v d p st t st' o1 \<Longrightarrow> visits no_visit d q u t u t"
  "visits_items v d p i st t st' o1 \<Longrightarrow> visits_items no_visit d q i u t u t"
  "visits_members v d p nm st t st' o1 \<Longrightarrow> visits_members no_visit d q nm u t u t"
proof (induction arbitrary: q and q and q rule: visits_visits_items_visits_members.inducts)
  case (rw_scalar k raw st p o1 st1 d)
  show ?case by (rule visits_visits_items_visits_members.rw_scalar [OF rw_scalar(1)]) simp
qed (blast intro: visits_visits_items_visits_members.intros)+

lemma items_text_count: "items_text v p i st t n st' o1 \<Longrightarrow> \<exists>o2. items_text no_visit q j u t n u o2"
proof (induction arbitrary: j rule: items_text.induct)
  case (it_last w1 i st t st1 o1 w2)
  from items_text.it_last [OF it_last(1) visits_input(1) [OF it_last(2), of "q @ [Index j]" u] it_last(3)] show ?case by blast
next
  case (it_more w1 i st t st1 o1 w2 x n st2 o2)
  from it_more.IH [of "j + 1"] obtain o3 where "items_text no_visit q (j + 1) u x n u o3" by blast
  from items_text.it_more [OF it_more(1) visits_input(1) [OF it_more(2), of "q @ [Index j]" u] it_more(3) this] show ?case by blast
qed

lemma array_text_count:
  assumes "array_text v p i st t n st' o1"
  shows "\<exists>o2. array_text no_visit q j u t n u o2"
  using assms
proof cases
  case (at_empty w)
  with array_text.at_empty [of w no_visit q j u] show ?thesis by auto
next
  case (at_items t1)
  from items_text_count [OF at_items(2), of q j u] obtain o2 where "items_text no_visit q j u t1 n u o2" by blast
  from array_text.at_items [OF this] at_items(1) show ?thesis by blast
qed

lemma merge_items_count:
  assumes "merge_items prof p s pre base = Inr (n, out)" and "CountItems s 0 (int (length s)) = Inr c"
  shows "n = c"
proof -
  obtain failed where "ArrayItems (part_visitor prof p) pre base False s = Inr (n, out, failed)"
    using assms(1) by (auto simp: merge_items_def checkf_def split: sum.splits if_splits)
  then obtain w1 t w2 where s: "s = w1 @ t @ w2" "spaces w1" "spaces w2" "array_text (part_visitor prof p) pre base False t n failed out"
    unfolding array_items_iff by blast
  from array_text_count [OF s(4), of "[]" 0 "()"] obtain o2 where "array_text no_visit [] 0 () t n () o2" by blast
  with s(1-3) have "ArrayItems no_visit [] 0 () s = Inr (n, o2, ())" unfolding array_items_iff by blast
  with assms(2) show ?thesis by (simp add: CountItems_def)
qed

lemma write_lists_json:
  "write_lists prof pre k ls = Inr s \<Longrightarrow>
     \<exists>xs. list_all json xs \<and> s = (if xs = [] then [] else (if 0 < k then '','' else []) @ join_comma xs)"
proof (induction prof pre k ls arbitrary: s rule: write_lists.induct)
  case (1 prof pre k)
  then show ?case by (intro exI [of _ "[]"]) simp
next
  case (2 prof pre k p el rest)
  show ?case
  proof (cases el)
    case None
    with 2 show ?thesis by simp
  next
    case (Some e)
    obtain c where c: "CountItems e 0 (int (length e)) = Inr c" using 2(4) Some by (cases "CountItems e 0 (int (length e))") auto
    show ?thesis
    proof (cases "c = 0")
      case True
      with 2 Some c show ?thesis by simp
    next
      case False
      obtain n out where m: "merge_items prof p e pre (int k) = Inr (n, out)"
        using 2(4) Some c False by (cases "merge_items prof p e pre (int k)") auto
      from merge_items_json [OF m] obtain xs where xs: "out = join_comma xs" "length xs = n" "list_all json xs" .
      obtain t where t: "write_lists prof pre (k + c) rest = Inr t" "s = (if 0 < k then '','' else []) @ out @ t"
        using 2(4) Some c False m by (cases "write_lists prof pre (k + c) rest") auto
      from 2(3) [OF Some c False m refl t(1)] False obtain ys where ys: "list_all json ys" "t = (if ys = [] then [] else '','' @ join_comma ys)" by auto
      have n: "n = c" using merge_items_count [OF m c] .
      have "out @ t = join_comma (xs @ ys)" unfolding xs(1) ys(2) by (rule join_comma_after [OF xs(2)]) (use n False in simp)
      then show ?thesis using xs ys t(2) n False by (intro exI [of _ "xs @ ys"]) auto
    qed
  qed
qed

lemma writeElements_json: "writeElements prof ls pre = Inr s \<Longrightarrow> json s"
proof -
  assume "writeElements prof ls pre = Inr s"
  then obtain s0 where s: "write_lists prof pre 0 ls = Inr s0" "s = ''['' @ s0 @ '']''" by (auto simp: writeElements_def split: sum.splits)
  from write_lists_json [OF s(1)] obtain xs where "list_all json xs" "s0 = join_comma xs" by fastforce
  with s(2) json_array_join show ?thesis by simp
qed

lemma span_json_json: "json (span_json s)"
proof -
  have n: "plain_name ''offset''" "plain_name ''length''"
    unfolding plain_name_def by (rule plain_string; simp add: plain_char_def quote_def backslash_def)+
  have "json (''{'' @ join_comma (map member_of [(''offset'', itoa (sp_offset s)), (''length'', itoa (sp_length s))]) @ ''}'')"
    using n by (intro json_object_join) (simp add: json_padded js_scalar itoa_scalar)
  then show ?thesis by (simp add: span_json_def member_of_def writeName_def)
qed

lemma writeSpans_json: "json (writeSpans ss)"
  unfolding writeSpans_def join_items_def by (rule json_array_join) (simp add: list_all_iff span_json_json)

text \<open>An object as read: its names plain, its values JSON.\<close>

definition object_ok :: "jobject \<Rightarrow> bool" where
  "object_ok o1 \<longleftrightarrow> list_all plain_name (jo_keys o1) \<and> length (jo_values o1) = length (jo_keys o1)"

lemma looks_none: "(\<lambda>nm. None) nm = Some v \<Longrightarrow> looks v"
  by simp

lemma readObject_ok: "readObject raw = Inr o1 \<Longrightarrow> object_ok o1"
proof -
  assume r: "readObject raw = Inr o1"
  then obtain ms where m: "Members raw 0 (int (length raw)) = Inr ms" "\<not> list_ex mem_Escaped ms" "jo_keys o1 = map mem_Name ms"
    "length (jo_values o1) = length (jo_keys o1)"
    by (auto simp: readObject_def checkf_def split: sum.splits if_splits)
  from m(1) obtain st' where v: "VisitMembers (\<lambda>nm. None :: unit visitor option) raw 0 (int (length raw)) () = Inr (ms, st')"
    unfolding Members_def by (cases "VisitMembers (\<lambda>nm. None :: unit visitor option) raw 0 (int (length raw)) ()") auto
  have "plain_name (mem_Name x)" if "x \<in> set ms" for x
    by (rule visit_members_json(2) [OF v that]) (use m(2) that in \<open>auto simp: list_ex_iff\<close>)
  with m(3,4) show ?thesis by (simp add: object_ok_def list_all_iff)
qed

lemma writeSection_padded: "writeSection prof parts fl p i raw n = Inr s \<Longrightarrow> padded s"
proof -
  assume a: "writeSection prof parts fl p i raw n = Inr s"
  let ?cs = "map snd (filter (\<lambda>(at1, c). at1 = (mp_k p, i)) fl)"
  show ?thesis
  proof (cases "?cs = []")
    case True
    with a show ?thesis unfolding writeSection_def Let_def by (auto intro: rewrite_part_padded)
  next
    case False
    with a obtain ob where ob: "readObject raw = Inr ob" unfolding writeSection_def Let_def by (cases "readObject raw") auto
    have "json s"
    proof (rule write_members_json)
      show "list_all plain_name (jo_keys ob)" using readObject_ok [OF ob] by (simp add: object_ok_def)
    qed (use a False ob in \<open>auto simp: writeSection_def Let_def checkf_def intro: json_padded [OF writeSpans_json] json_padded [OF writeElements_json] rewrite_part_padded split: if_splits sum.splits\<close>)
    then show ?thesis by (rule json_padded)
  qed
qed

lemma write_section_list_padded: "write_section_list prof parts fl p i raws n = Inr ss \<Longrightarrow> list_all padded ss"
  by (induction prof parts fl p i raws n arbitrary: ss rule: write_section_list.induct)
    (auto intro: writeSection_padded split: sum.splits)

lemma write_part_sections_padded: "write_part_sections fs prof parts fl n ps = Inr ss \<Longrightarrow> list_all padded ss"
proof (induction fs prof parts fl n ps arbitrary: ss rule: write_part_sections.induct)
  case (2 fs prof parts fl n p ps)
  then show ?case by (auto intro: write_section_list_padded split: sum.splits if_splits)
qed simp

definition roots_ok :: "(mpart \<times> root) list \<Rightarrow> bool" where
  "roots_ok prs \<longleftrightarrow> list_all (\<lambda>(p, r). object_ok (rt_obj r)) prs"

lemma writeRoot_json:
  assumes "writeRoot prof parts prs = Inr s" and "roots_ok prs"
  shows "json s"
proof -
  obtain keys where k: "mergeOrder (map (\<lambda>(p, r). jo_keys (rt_obj r)) prs) = Some keys"
    using assms(1) by (auto simp: writeRoot_def checkf_def split: option.splits)
  have pk: "list_all plain_name keys"
    using mergeOrder_some [OF k] assms(2) by (auto simp: roots_ok_def object_ok_def list_all_iff split_beta)
  have has: "find (\<lambda>(p, r). obj_get (rt_obj r) key \<noteq> None) prs \<noteq> None" if "key \<in> set keys" for key
  proof -
    from that mergeOrder_some [OF k] obtain p r where pr: "(p, r) \<in> set prs" "key \<in> set (jo_keys (rt_obj r))" by auto
    then have "length (jo_keys (rt_obj r)) = length (jo_values (rt_obj r))" using assms(2) by (auto simp: roots_ok_def object_ok_def list_all_iff)
    then have "obj_get (rt_obj r) key \<noteq> None" using pr(2) by (simp add: obj_get_def map_of_zip_is_None)
    with pr(1) show ?thesis unfolding find_None_iff by blast
  qed
  show ?thesis
  proof (rule write_members_json [OF _ pk])
    fix key v assume "key \<in> set keys"
    from has [OF this] show "(if key = ''elements'' then writeRootElements prof prs
            else if key = ''spans'' then Inr (writeSpans (root_spans parts prs))
            else (case find (\<lambda>(p, r). obj_get (rt_obj r) key \<noteq> None) prs of
                    None \<Rightarrow> Inr []
                  | Some (p, r) \<Rightarrow>
                      rewrite_part prof p (root_prefix @ [Key key]) (case obj_get (rt_obj r) key of None \<Rightarrow> [] | Some v \<Rightarrow> v))) = Inr v \<Longrightarrow> padded v"
      by (auto simp: writeRootElements_def intro: json_padded [OF writeSpans_json] json_padded [OF writeElements_json] rewrite_part_padded
          split: if_splits sum.splits)
  qed (use assms(1) k in \<open>simp add: writeRoot_def\<close>)
qed

lemma writeSections_json: "writeSections fs prof parts prs fl = Inr (n, s) \<Longrightarrow> roots_ok prs \<Longrightarrow> json s"
proof (cases "prs = []")
  case True
  assume "writeSections fs prof parts prs fl = Inr (n, s)"
  with True json_array_join [of "[]"] show ?thesis by (simp add: writeSections_def)
next
  case False
  assume a: "writeSections fs prof parts prs fl = Inr (n, s)" and ok: "roots_ok prs"
  with False obtain r ss where w: "writeRoot prof parts prs = Inr r" "write_part_sections fs prof parts fl 1 (map fst prs) = Inr ss"
    "s = ''['' @ join_comma (r # ss) @ '']''" by (auto simp: writeSections_def split: sum.splits)
  have "list_all padded (r # ss)" using json_padded [OF writeRoot_json [OF w(1) ok]] write_part_sections_padded [OF w(2)] by simp
  then show ?thesis unfolding w(3) by (rule padded_array_join)
qed

lemma checkSections_ok: "checkSections fs m = Inr prs \<Longrightarrow> roots_ok prs \<and> (\<forall>pr\<in>set prs. fst pr \<in> set (mg_parts m))"
proof -
  assume a: "checkSections fs m = Inr prs"
  let ?f = "\<lambda>p. case part_member p ''sections'' of
               None \<Rightarrow> checkf ''no sections''
             | Some mb \<Rightarrow>
                 (case withFile fs (in_Path p) (\<lambda>f. readRoot f mb) of
                    Inl e \<Rightarrow> Inl e
                  | Inr r \<Rightarrow> (case checkRootSpans p r of Inl e \<Rightarrow> Inl e | Inr r1 \<Rightarrow> Inr (p, r1)))"
  have one: "object_ok (rt_obj (snd pr)) \<and> fst pr = p" if fp: "?f p = Inr pr" for p pr
  proof -
    obtain mb where mb: "part_member p ''sections'' = Some mb" using fp by (cases "part_member p ''sections''") (auto simp: checkf_def)
    obtain r where r: "withFile fs (in_Path p) (\<lambda>f. readRoot f mb) = Inr r"
      using fp mb by (cases "withFile fs (in_Path p) (\<lambda>f. readRoot f mb)") auto
    obtain f where "readRoot f mb = Inr r" using withFile_some [OF r] by auto
    then have o1: "object_ok (rt_obj r)" by (auto simp: readRoot_def checkf_def dest: readObject_ok split: option.splits list.splits sum.splits)
    obtain r1 where r1: "checkRootSpans p r = Inr r1" "pr = (p, r1)" using fp mb r by (cases "checkRootSpans p r") auto
    then have "rt_obj r1 = rt_obj r" by (auto simp: checkRootSpans_def checkf_def split: sum.splits if_splits)
    with o1 r1(2) show ?thesis by simp
  qed
  show ?thesis
  proof (cases "list_all (\<lambda>p. part_count p ''sections'' = 0) (mg_parts m)")
    case True
    with a show ?thesis by (simp add: checkSections_def roots_ok_def)
  next
    case False
    with a have "map_all ?f (filter (\<lambda>p. part_count p ''sections'' \<noteq> 0) (mg_parts m)) = Inr prs"
      by (simp add: checkSections_def checkf_def split: if_splits)
    from map_all_in [OF this] have x: "\<exists>p\<in>set (mg_parts m). ?f p = Inr pr" if "pr \<in> set prs" for pr using that by fastforce
    have "object_ok (rt_obj (snd pr)) \<and> fst pr \<in> set (mg_parts m)" if pr: "pr \<in> set prs" for pr
    proof -
      from x [OF pr] obtain p where "p \<in> set (mg_parts m)" "?f p = Inr pr" by blast
      with one [of p pr] show ?thesis by simp
    qed
    then show ?thesis by (simp add: roots_ok_def list_all_iff split_beta)
  qed
qed

lemma with_roots_ok: "roots_ok prs \<Longrightarrow> roots_ok (with_roots ps prs)"
  by (auto simp: roots_ok_def with_roots_def list_all_iff)

section \<open>The whole result\<close>

lemma order_plain:
  assumes "parts_ok fs m"
  shows "list_all plain_name (mg_order m)"
proof -
  have "plain_name nm" if nm: "nm \<in> set (mg_order m)" for nm
  proof -
    obtain p mb where p: "p \<in> set (mg_parts m)" "mb \<in> set (mp_members p)" "mem_Name mb = nm" using assms nm by (auto simp: parts_ok_def)
    then have me: "measured (mg_prof m) fs p" using assms by (auto simp: parts_ok_def)
    then obtain f where "fs (in_Path p) = Some f" by (auto simp: measured_def)
    from measured_value(2) [OF me this p(2)] p(3) show ?thesis by simp
  qed
  then show ?thesis by (simp add: list_all_iff)
qed

lemma copied_json:
  assumes "parts_ok fs m" and "nm \<in> set (mg_order m)" and "mg_array m nm \<noteq> Some True" and "\<not> (pf_di (mg_prof m) \<and> nm = ''content'')"
    and "copyMember fs (hd (mg_parts m)) nm = Inr s"
  shows "json s"
proof -
  obtain p mb where p: "p \<in> set (mg_parts m)" "mb \<in> set (mp_members p)" "mem_Name mb = nm" using assms(1,2) unfolding parts_ok_def by meson
  have "\<not> is_array mb" using assms(1,3) p by (auto simp: parts_ok_def)
  moreover have "shares (mg_prof m) (hd (mg_parts m)) p" using assms(1) p(1) by (simp add: parts_ok_def)
  ultimately obtain mb0 where m0: "part_member (hd (mg_parts m)) nm = Some mb0" using assms(4) p(2,3) by (auto simp: shares_def)
  obtain f where f: "fs (in_Path (hd (mg_parts m))) = Some f" "s = raw_of f mb0"
    using withFile_some [OF assms(5) [unfolded copyMember_def]] m0 by auto
  have "hd (mg_parts m) \<in> set (mg_parts m)" using assms(1) by (simp add: parts_ok_def)
  then have "measured (mg_prof m) fs (hd (mg_parts m))" using assms(1) by (simp add: parts_ok_def)
  from measured_value(1) [OF this f(1)] part_member_in [OF m0] f(2) show ?thesis by simp
qed

lemma merge_write_json:
  assumes "merge_write fs m prs fl = Inr s" and "parts_ok fs m" and "roots_ok prs" and "pf_di (mg_prof m) \<longrightarrow> units_text (mg_sep m)"
  shows "json s"
proof (rule write_members_json [OF assms(1) [unfolded merge_write_def] order_plain [OF assms(2)]])
  fix nm v assume nm: "nm \<in> set (mg_order m)" and v: "write_member fs m prs fl nm = Inr v"
  consider (content) "pf_di (mg_prof m) \<and> nm = ''content''" | (sections) "\<not> (pf_di (mg_prof m) \<and> nm = ''content'')" "pf_di (mg_prof m) \<and> nm = ''sections'' \<and> mg_array m nm = Some True"
    | (array) "\<not> (pf_di (mg_prof m) \<and> nm = ''content'')" "\<not> (pf_di (mg_prof m) \<and> nm = ''sections'' \<and> mg_array m nm = Some True)" "mg_array m nm = Some True"
    | (copy) "\<not> (pf_di (mg_prof m) \<and> nm = ''content'')" "mg_array m nm \<noteq> Some True" by blast
  then show "padded v"
  proof cases
    case content
    with v assms(4) writeContent_json [of fs m v] assms(2) show ?thesis by (simp add: write_member_def json_padded)
  next
    case sections
    with v obtain n where "writeSections fs (mg_prof m) (mg_parts m) prs fl = Inr (n, v)" by (auto simp: write_member_def split: sum.splits)
    from json_padded [OF writeSections_json [OF this assms(3)]] show ?thesis .
  next
    case array
    with v obtain n where "writeArray fs m nm = Inr (n, v)" by (auto simp: write_member_def split: sum.splits if_splits)
    from json_padded [OF writeArray_json [OF this]] show ?thesis .
  next
    case copy
    with v have "copyMember fs (hd (mg_parts m)) nm = Inr v" by (simp add: write_member_def)
    from json_padded [OF copied_json [OF assms(2) nm copy(2,1) this]] show ?thesis .
  qed
qed


section \<open>The stages of a merge\<close>

lemma measure_shape_number: "measure_shape prof u g p f = Inr q \<Longrightarrow> mp_k q = mp_k p"
  by (auto simp: measure_shape_def measureContent_def checkf_def Let_def split: sum.splits option.splits if_splits)

lemma measurePart_number: "measurePart prof u g f0 p0 p f = Inr q \<Longrightarrow> mp_k q = mp_k p"
  by (auto simp: measurePart_def dest!: agrees_shares measure_shape_number split: sum.splits option.splits)

lemma new_part_number [simp]: "mp_k (new_part k i) = k"
  by (simp add: new_part_def merge_input.defs)

lemma measure_rest_number: "measure_rest prof u g fs f0 p0 k is = Inr ps \<Longrightarrow> map mp_k ps = [k..<k + length is]"
proof (induction prof u g fs f0 p0 k "is" arbitrary: ps rule: measure_rest.induct)
  case (2 prof u g fs f0 p0 k i rest)
  obtain p qs where p: "withFile fs (in_Path i) (measurePart prof u g f0 (Some p0) (new_part k i)) = Inr p"
    "measure_rest prof u g fs f0 p0 (Suc k) rest = Inr qs" "ps = p # qs" using 2(2) by (auto split: sum.splits)
  have "mp_k p = k" using withFile_some [OF p(1)] measurePart_number by fastforce
  with 2(1) [OF p(1,2)] p(3) show ?case by (simp del: upt_Suc add: upt_conv_Cons)
qed simp

lemma merge_measure_number: "merge_measure g fs parts m = Inr m' \<Longrightarrow> map mp_k (mg_parts m') = [0..<length parts]"
proof -
  assume a: "merge_measure g fs parts m = Inr m'"
  then obtain i0 rest where parts: "parts = i0 # rest" by (cases parts) (auto simp: merge_measure_def checkf_def)
  let ?k = "\<lambda>f0. case measurePart (mg_prof m) (mg_unit m) g f0 None (new_part 0 i0) f0 of Inl e \<Rightarrow> Inl e
     | Inr p0 \<Rightarrow> (case measure_rest (mg_prof m) (mg_unit m) g fs f0 p0 1 rest of Inl e \<Rightarrow> Inl e
                  | Inr ps \<Rightarrow> merge_plan (m\<lparr>mg_parts := p0 # ps\<rparr>))"
  have "withFile fs (in_Path i0) ?k = Inr m'" using a parts by (simp add: merge_measure_def checkf_def split: if_splits)
  then obtain f0 where f0: "?k f0 = Inr m'" using withFile_some [of fs "in_Path i0" ?k m'] by blast
  obtain p0 where p0: "measurePart (mg_prof m) (mg_unit m) g f0 None (new_part 0 i0) f0 = Inr p0"
    using f0 by (cases "measurePart (mg_prof m) (mg_unit m) g f0 None (new_part 0 i0) f0") auto
  obtain ps where ps: "measure_rest (mg_prof m) (mg_unit m) g fs f0 p0 1 rest = Inr ps"
    using f0 p0 by (cases "measure_rest (mg_prof m) (mg_unit m) g fs f0 p0 1 rest") auto
  have "mg_parts m' = p0 # ps" using f0 [unfolded p0 ps sum.case] by (auto simp: merge_plan_def checkf_def split: option.splits)
  then show ?thesis using measurePart_number [OF p0] measure_rest_number [OF ps] parts by (simp del: upt_Suc add: upt_conv_Cons)
qed

lemma mapPages_same:
  assumes "mapPages m = Inr m1"
  shows "list_all2 same_members (mg_parts m) (mg_parts m1) \<and> mg_prof m1 = mg_prof m \<and> mg_array m1 = mg_array m \<and> mg_order m1 = mg_order m"
proof -
  have "list_all2 same_members ps qs" if "map_parts prev ps = Inr qs" for prev ps qs
    using that
    by (induction prev ps arbitrary: qs rule: map_parts.induct)
      (auto simp: map_part_def same_members_def Let_def checkf_def split: if_splits sum.splits)
  with assms show ?thesis by (auto simp: mapPages_def split: sum.splits)
qed

lemma leadingContinuation_same: "leadingContinuation fs p r secs es d = Inr (l, p1) \<Longrightarrow> same_members p p1"
  by (auto simp: leadingContinuation_def leadingRun_def leadingSections_def same_members_def Let_def
      split: if_splits sum.splits option.splits prod.splits)

lemma plan_parts_same:
  "plan_parts fs open_at prs = Inr (ps, fl) \<Longrightarrow> list_all2 same_members (map fst prs) ps"
proof (induction fs open_at prs arbitrary: ps fl rule: plan_parts.induct)
  case (2 fs open_at p r rest)
  from 2(2) obtain secs where secs: "readSections fs p = Inr secs" by (cases "readSections fs p") auto
  let ?es = "case obj_get (rt_obj r) ''elements'' of None \<Rightarrow> Inr [] | Some v \<Rightarrow> pointers v"
  from 2(2) secs obtain es where es: "?es = Inr es" by (cases ?es) auto
  let ?lead = "if open_at \<noteq> [] \<and> 0 < mp_k p \<and> es \<noteq> [] \<and> \<not> isHeading p (hd es)
      then leadingContinuation fs p r secs es (length open_at) else Inr (None, p)"
  from 2(2) secs es obtain l p1 where l: "?lead = Inr (l, p1)" by (cases ?lead) auto
  let ?next = "if mp_rootMoved p1 then Inr open_at
       else (case openPath secs es of
               Inl e \<Rightarrow> Inl e
             | Inr path \<Rightarrow>
                 Inr (if path \<noteq> [] then reopen (mp_k p) open_at l path
                      else if mp_rootDrop p1 < length es then [] else open_at))"
  from 2(2) secs es l obtain nx where nx: "?next = Inr nx" by (cases ?next) auto
  from 2(2) secs es l nx obtain qs fl1 where q: "plan_parts fs nx rest = Inr (qs, fl1)" "ps = p1 # qs"
    by (cases "plan_parts fs nx rest") auto
  have "same_members p p1"
  proof (cases "open_at \<noteq> [] \<and> 0 < mp_k p \<and> es \<noteq> [] \<and> \<not> isHeading p (hd es)")
    case True
    with l show ?thesis by (simp add: leadingContinuation_same)
  next
    case False
    with l have "p1 = p" by (simp split: if_splits)
    then show ?thesis by (simp add: same_members_def)
  qed
  moreover have "list_all2 same_members (map fst rest) qs"
    by (rule 2(1) [OF secs es l refl nx q(1)])
  ultimately show ?case using q(2) by simp
qed simp

lemma find_number:
  assumes "list_all2 same_members ps marked" and "q \<in> set marked"
  shows "\<exists>p\<in>set ps. same_members p q"
  using assms by (metis in_set_conv_nth list_all2_conv_all_nth)

lemma mark_parts_same:
  assumes "list_all2 same_members ps marked" and "set ps \<subseteq> set parts" and "distinct (map mp_k parts)"
  shows "list_all2 same_members parts (mark_parts marked parts)"
proof -
  have "same_members p (case find (\<lambda>q. mp_k q = mp_k p) marked of None \<Rightarrow> p | Some q \<Rightarrow> q)" if p: "p \<in> set parts" for p
  proof (cases "find (\<lambda>q. mp_k q = mp_k p) marked")
    case None
    then show ?thesis by (simp add: same_members_def)
  next
    case (Some q)
    then have q: "q \<in> set marked" "mp_k q = mp_k p" by (auto simp: find_Some_iff)
    from find_number [OF assms(1) q(1)] obtain p' where p': "p' \<in> set ps" "same_members p' q" by blast
    then have "mp_k p' = mp_k p" "p' \<in> set parts" using q(2) assms(2) by (auto simp: same_members_def)
    with p assms(3) have "p' = p" by (metis inj_on_eq_iff distinct_map)
    with p'(2) Some show ?thesis by simp
  qed
  then show ?thesis by (auto simp: mark_parts_def list_all2_conv_all_nth)
qed

lemma merge_shift_same:
  "list_all2 same_members ps (shift_parts sepLen char sec ptr ps)"
  by (induction sepLen char sec ptr ps rule: shift_parts.induct) (simp_all add: same_members_def)

lemma di_merged:
  assumes "DI g fs parts u = Inr out"
  shows "json out"
proof -
  obtain m0 where m0: "merge_measure g fs parts (newMerger diProfile u) = Inr m0"
    using assms by (cases "merge_measure g fs parts (newMerger diProfile u)") (auto simp: DI_def)
  obtain un where un: "checkUnit fs m0 = Inr un" using assms m0 by (cases "checkUnit fs m0") (auto simp: DI_def)
  obtain m1 where m1: "mapPages m0 = Inr m1" using assms m0 un by (cases "mapPages m0") (auto simp: DI_def)
  obtain prs where prs: "checkSections fs m1 = Inr prs" using assms m0 un m1 by (cases "checkSections fs m1") (auto simp: DI_def)
  obtain marked fl where pl: "plan_parts fs [] prs = Inr (marked, fl)"
    using assms m0 un m1 prs by (cases "plan_parts fs [] prs") (auto simp: DI_def)
  define m2 where "m2 = m1\<lparr>mg_parts := mark_parts marked (mg_parts m1)\<rparr>"
  obtain sep n where sep: "separator g fs m2 = Inr (sep, n)"
    using assms m0 un m1 prs pl by (cases "separator g fs m2") (auto simp: DI_def Let_def m2_def)
  define m3 where "m3 = merge_shift n (m2\<lparr>mg_sep := sep\<rparr>)"
  have w: "merge_write fs m3 (with_roots (mg_parts m3) prs) fl = Inr out"
    using assms m0 un m1 prs pl sep
    by (auto simp: DI_def Let_def m2_def [symmetric] m3_def [symmetric] checkf_def split: if_splits sum.splits)
  have ok0: "parts_ok fs m0" and prof: "mg_prof m0 = diProfile" using merge_measure_some [OF m0] by (simp_all add: newMerger_def)
  note s1 = mapPages_same [OF m1]
  have ok1: "parts_ok fs m1" by (rule parts_ok_cong [OF ok0]) (use s1 in simp_all)
  have "map mp_k (mg_parts m1) = map mp_k (mg_parts m0)"
    using s1 by (auto simp: list_all2_conv_all_nth same_members_def intro!: nth_equalityI)
  then have d: "distinct (map mp_k (mg_parts m1))" using merge_measure_number [OF m0] by simp
  have "set (map fst prs) \<subseteq> set (mg_parts m1)" using checkSections_ok [OF prs] by auto
  then have "list_all2 same_members (mg_parts m1) (mg_parts m2)"
    unfolding m2_def using mark_parts_same [OF plan_parts_same [OF pl] _ d] by simp
  then have ok2: "parts_ok fs m2" by (rule parts_ok_cong [OF ok1]) (simp_all add: m2_def)
  have ok3: "parts_ok fs m3" by (rule parts_ok_cong [OF ok2]) (simp_all add: m3_def merge_shift_def merge_shift_same)
  show ?thesis
    by (rule merge_write_json [OF w ok3])
      (use checkSections_ok [OF prs] separator_units [OF sep] with_roots_ok in \<open>auto simp: m3_def merge_shift_def\<close>)
qed

lemma read_merged:
  assumes "Read g fs parts = Inr out"
  shows "json out"
proof -
  obtain m0 where m0: "merge_measure g fs parts (newMerger readProfile TextElements) = Inr m0"
    using assms by (cases "merge_measure g fs parts (newMerger readProfile TextElements)") (auto simp: Read_def)
  obtain m1 where m1: "mapPages m0 = Inr m1" using assms m0 by (cases "mapPages m0") (auto simp: Read_def)
  have w: "merge_write fs m1 [] [] = Inr out" using assms m0 m1 by (simp add: Read_def)
  have ok0: "parts_ok fs m0" and prof: "mg_prof m0 = readProfile" using merge_measure_some [OF m0] by (simp_all add: newMerger_def)
  note s1 = mapPages_same [OF m1]
  have ok1: "parts_ok fs m1" by (rule parts_ok_cong [OF ok0]) (use s1 in simp_all)
  show ?thesis by (rule merge_write_json [OF w ok1]) (use s1 prof in \<open>simp_all add: roots_ok_def readProfile_def\<close>)
qed

text \<open>C4. The safety of a merge, over the whole pipeline of \<open>DI\<close> and \<open>Read\<close>. Whatever bytes the parts' files hold, and
  however the parts were cut: when the merge returns a result, that result is one JSON value of RFC 8259's grammar. A merge of
  broken files, of parts whose members disagree or of sections that cannot be joined is an error, never an output that does not
  parse; the code itself never parses what it writes.\<close>

theorem merged_is_json:
  assumes "DI g fs parts u = Inr out \<or> Read g fs parts = Inr out"
  shows "json out"
  using assms di_merged read_merged by blast

definition tiny_result :: "char \<Rightarrow> string" where
  "tiny_result n = [CHR ''{'', quote, CHR ''r'', CHR ''e'', CHR ''a'', CHR ''d'', CHR ''R'', CHR ''e'', CHR ''s'', CHR ''u'',
     CHR ''l'', CHR ''t'', CHR ''s'', quote, CHR '':'', CHR ''['', CHR ''{'', quote, CHR ''p'', CHR ''a'', CHR ''g'', CHR ''e'', quote,
     CHR '':'', n, CHR ''}'', CHR '']'', CHR ''}'']"

definition tiny_files :: "string \<Rightarrow> string option" where
  "tiny_files path = (if path = ''a'' \<or> path = ''b'' then Some (tiny_result (CHR ''1'')) else None)"

definition tiny_parts :: "merge_input list" where
  "tiny_parts = [\<lparr>in_Path = ''a'', in_Start = 0, in_End = 28, in_Pages = [1]\<rparr>, \<lparr>in_Path = ''b'', in_Start = 0, in_End = 28, in_Pages = [4]\<rparr>]"

definition tiny_merged :: string where
  "tiny_merged = butlast (butlast (tiny_result (CHR ''1''))) @ CHR '','' # drop 16 (tiny_result (CHR ''4''))"

theorem merged_is_json_witness: "Read length tiny_files tiny_parts = Inr tiny_merged \<and> json tiny_merged"
proof -
  have r: "Read length tiny_files tiny_parts = Inr tiny_merged" by code_simp
  then show ?thesis using merged_is_json [OF disjI2 [OF r]] by simp
qed

end
