(* ===== verification/Migrate.thy ===== *)
theory Migrate
  imports GoJson "HOL-Library.Multiset"
begin

text \<open>
  Schema migrations (\<open>internal/store/migrate.go\<close>): the numbered files and their statements, the backup taken before an
  existing database is changed, and the one transaction that changes it. SQLite is a parameter, a record of what
  its connection does; the data directory is a list of its entries with distinct names. Errors are their texts,
  without some of the values the code prints into them; \<open>ToLower\<close> is that of ASCII.
\<close>

section \<open>Migration files\<close>

record migration =
  mi_version :: int
  mi_name :: string
  mi_sql :: string

text \<open>An entry of the embedded directory, with what reading it gives.\<close>

record dir_entry =
  ent_Name :: string
  ent_IsDir :: bool
  ent_body :: "string + string"

definition name_char :: "char \<Rightarrow> bool" where
  "name_char c \<longleftrightarrow> is_digit c \<or> c = CHR ''_'' \<or> c = CHR ''-''
     \<or> (let n = (of_char c :: nat) in 65 \<le> n \<and> n \<le> 90 \<or> 97 \<le> n \<and> n \<le> 122)"

text \<open>The digits of a name of the form \<open>NNNN_name.sql\<close>.\<close>

definition migration_digits :: "string \<Rightarrow> string option" where
  "migration_digits nm =
     (let r = drop 5 nm; k = length r - 4 in
      if 4 < length nm \<and> list_all is_digit (take 4 nm) \<and> nm ! 4 = CHR ''_''
         \<and> 4 < length r \<and> drop k r = ''.sql'' \<and> list_all name_char (take k r)
      then Some (take 4 nm) else None)"

fun load_loop :: "dir_entry list \<Rightarrow> (int \<times> migration) list \<Rightarrow> string + (int \<times> migration) list" where
  "load_loop [] byVersion = Inr byVersion"
| "load_loop (e # es) byVersion =
     (case migration_digits (ent_Name e) of
        None \<Rightarrow> Inl (''store: migration '' @ ent_Name e @ '' is not named NNNN_name.sql'')
      | Some ds \<Rightarrow>
          if ent_IsDir e then Inl (''store: migration '' @ ent_Name e @ '' is not named NNNN_name.sql'')
          else
            (case atoi ds of
               None \<Rightarrow> Inl (''store: migration '' @ ent_Name e)
             | Some v \<Rightarrow>
                 if v = 0 then Inl (''store: migration '' @ ent_Name e @ '': versions start at 0001'')
                 else if map_of byVersion v \<noteq> None then Inl ''store: migrations share version''
                 else
                   (case ent_body e of
                      Inl err \<Rightarrow> Inl (''store: read migration '' @ ent_Name e @ '': '' @ err)
                    | Inr body \<Rightarrow>
                        load_loop es (byVersion @ [(v, \<lparr>mi_version = v, mi_name = ent_Name e, mi_sql = body\<rparr>)]))))"

fun collect_versions :: "(int \<times> migration) list \<Rightarrow> int list \<Rightarrow> string + migration list" where
  "collect_versions byVersion [] = Inr []"
| "collect_versions byVersion (v # vs) =
     (case map_of byVersion v of
        None \<Rightarrow> Inl ''store: migration is missing; versions must run from 0001 without gaps''
      | Some m \<Rightarrow> (case collect_versions byVersion vs of Inl e \<Rightarrow> Inl e | Inr ms \<Rightarrow> Inr (m # ms)))"

definition loadMigrations :: "string + dir_entry list \<Rightarrow> string + migration list" where
  "loadMigrations entries =
     (case entries of
        Inl err \<Rightarrow> Inl (''store: read migrations: '' @ err)
      | Inr es \<Rightarrow>
          (case load_loop es [] of
             Inl e \<Rightarrow> Inl e
           | Inr byVersion \<Rightarrow>
               if byVersion = [] then Inl ''store: no migrations embedded''
               else collect_versions byVersion [1..int (length byVersion)]))"

definition SchemaVersion :: "migration list \<Rightarrow> int" where
  "SchemaVersion ms = (if ms = [] then 0 else mi_version (last ms))"

section \<open>Statements\<close>

definition newline :: char where "newline = CHR 0x0A"

text \<open>\<open>strings.SplitAfter\<close> with a newline.\<close>

fun split_after :: "string \<Rightarrow> string list" where
  "split_after [] = [[]]"
| "split_after (c # cs) =
     (if c = newline then [c] # split_after cs
      else case split_after cs of [] \<Rightarrow> [[c]] | y # ys \<Rightarrow> (c # y) # ys)"

definition comment_or_blank :: "string \<Rightarrow> bool" where
  "comment_or_blank line \<longleftrightarrow> (let l = go_trim_space line in l = [] \<or> starts_with ''--'' l)"

definition onlyComments :: "string \<Rightarrow> bool" where
  "onlyComments s \<longleftrightarrow> list_all comment_or_blank (go_split newline s)"

definition ends_statement :: "string \<Rightarrow> bool" where
  "ends_statement line \<longleftrightarrow> (let l = go_trim_space line in l \<noteq> [] \<and> last l = CHR '';'' \<and> \<not> starts_with ''--'' l)"

definition flush_piece :: "string \<Rightarrow> string list" where
  "flush_piece cur = (let s = go_trim_space cur in if onlyComments s then [] else [s])"

fun split_loop :: "string list \<Rightarrow> string \<Rightarrow> string list" where
  "split_loop [] cur = flush_piece cur"
| "split_loop (line # ls) cur =
     (if ends_statement line then flush_piece (cur @ line) @ split_loop ls [] else split_loop ls (cur @ line))"

definition splitStatements :: "string \<Rightarrow> string list" where
  "splitStatements src = split_loop (split_after src) []"

section \<open>The connection\<close>

record column =
  col_name :: string
  col_decl :: string
  col_notNull :: bool
  col_dflt :: "string option"

definition addStatement :: "column \<Rightarrow> string" where
  "addStatement c =
     ''ALTER TABLE jobs ADD COLUMN '' @ col_name c
     @ (if col_decl c \<noteq> [] then '' '' @ col_decl c else [])
     @ (if col_notNull c then '' NOT NULL'' else [])
     @ '' DEFAULT '' @ (case col_dflt c of None \<Rightarrow> [] | Some d \<Rightarrow> d)"

text \<open>
  A connection in a state of type \<open>'c\<close>: executing a statement, \<open>PRAGMA user_version\<close>, the tables of a name, the columns of
  the jobs table, \<open>VACUUM INTO\<close> with the bytes it leaves at the path, and an empty in-memory database.
\<close>

record 'c sqlite =
  sq_exec :: "string \<Rightarrow> 'c \<Rightarrow> string option \<times> 'c"
  sq_version :: "'c \<Rightarrow> string + int"
  sq_tables :: "string \<Rightarrow> 'c \<Rightarrow> string + nat"
  sq_columns :: "'c \<Rightarrow> string + column list"
  sq_vacuum :: "string \<Rightarrow> 'c \<Rightarrow> (string option \<times> string option) \<times> 'c"
  sq_scratch :: "string + 'c"

fun exec_all :: "'c sqlite \<Rightarrow> string list \<Rightarrow> 'c \<Rightarrow> string option \<times> 'c" where
  "exec_all q [] c = (None, c)"
| "exec_all q (s # ss) c = (case sq_exec q s c of (Some e, c1) \<Rightarrow> (Some e, c1) | (None, c1) \<Rightarrow> exec_all q ss c1)"

definition tableExists :: "'c sqlite \<Rightarrow> string \<Rightarrow> 'c \<Rightarrow> string + bool" where
  "tableExists q nm c = (case sq_tables q nm c of Inl e \<Rightarrow> Inl (''store: inspect schema: '' @ e) | Inr n \<Rightarrow> Inr (0 < n))"

definition v1Columns :: "'c sqlite \<Rightarrow> migration list \<Rightarrow> string + column list" where
  "v1Columns q ms =
     (case sq_scratch q of
        Inl e \<Rightarrow> Inl (''store: open scratch database: '' @ e)
      | Inr s \<Rightarrow>
          (case exec_all q (splitStatements (mi_sql (hd ms))) s of
             (Some e, s1) \<Rightarrow> Inl (''store: apply to a scratch database: '' @ e)
           | (None, s1) \<Rightarrow> sq_columns q s1))"

text \<open>The statements that add the columns a legacy table lacks; a column without a default cannot be added.\<close>

definition legacy_columns :: "column list \<Rightarrow> column list \<Rightarrow> string + string list" where
  "legacy_columns want have_cols =
     (let present = map (go_lower \<circ> col_name) have_cols;
          lacking = filter (\<lambda>c. go_lower (col_name c) \<notin> set present) want in
      if list_ex (\<lambda>c. col_dflt c = None) lacking
      then Inl ''store: jobs table from before versioning lacks a column declared without a default''
      else Inr (map addStatement lacking))"

definition completeLegacyTable :: "'c sqlite \<Rightarrow> migration list \<Rightarrow> 'c \<Rightarrow> string option \<times> 'c" where
  "completeLegacyTable q ms c =
     (case v1Columns q ms of
        Inl e \<Rightarrow> (Some e, c)
      | Inr want \<Rightarrow>
     (case sq_columns q c of
        Inl e \<Rightarrow> (Some e, c)
      | Inr have_cols \<Rightarrow>
     (case legacy_columns want have_cols of
        Inl e \<Rightarrow> (Some e, c)
      | Inr adds \<Rightarrow>
          (case exec_all q adds c of
             (Some e, c1) \<Rightarrow> (Some e, c1)
           | (None, c1) \<Rightarrow> exec_all q (splitStatements (mi_sql (hd ms))) c1))))"

section \<open>One transaction\<close>

record migration_plan =
  pl_seen :: int
  pl_legacy :: bool
  pl_pending :: "migration list"
  pl_target :: int

definition stamp :: "int \<Rightarrow> string" where
  "stamp v = ''PRAGMA user_version = '' @ itoa v"

definition rolled_back :: "'c sqlite \<Rightarrow> string \<Rightarrow> 'c \<Rightarrow> string option \<times> 'c" where
  "rolled_back q e c =
     (case sq_exec q ''ROLLBACK'' c of
        (Some rb, c1) \<Rightarrow> (Some (e @ '' (the rollback failed too: '' @ rb @ '')''), c1)
      | (None, c1) \<Rightarrow> (Some e, c1))"

definition pending_statements :: "migration_plan \<Rightarrow> string list" where
  "pending_statements p = concat (map (\<lambda>m. splitStatements (mi_sql m)) (pl_pending p))"

text \<open>What runs under the write lock.\<close>

definition apply_locked :: "'c sqlite \<Rightarrow> migration list \<Rightarrow> migration_plan \<Rightarrow> 'c \<Rightarrow> string option \<times> 'c" where
  "apply_locked q ms p c =
     (case sq_version q c of
        Inl e \<Rightarrow> (Some (''store: re-read schema version: '' @ e), c)
      | Inr now \<Rightarrow>
          if now \<noteq> pl_seen p then (Some ''store: another gateway process is migrating this volume'', c)
          else
     (case (if pl_legacy p then completeLegacyTable q ms c else (None, c)) of
        (Some e, c1) \<Rightarrow> (Some e, c1)
      | (None, c1) \<Rightarrow>
     (case exec_all q (pending_statements p) c1 of
        (Some e, c2) \<Rightarrow> (Some (''store: migration: '' @ e), c2)
      | (None, c2) \<Rightarrow>
     (case sq_exec q (stamp (pl_target p)) c2 of
        (Some e, c3) \<Rightarrow> (Some (''store: set schema version: '' @ e), c3)
      | (None, c3) \<Rightarrow>
          (case sq_exec q ''COMMIT'' c3 of
             (Some e, c4) \<Rightarrow> (Some (''store: commit migration: '' @ e), c4)
           | (None, c4) \<Rightarrow> (None, c4))))))"

definition apply_plan :: "'c sqlite \<Rightarrow> migration list \<Rightarrow> migration_plan \<Rightarrow> 'c \<Rightarrow> string option \<times> 'c" where
  "apply_plan q ms p c =
     (case sq_exec q ''BEGIN IMMEDIATE'' c of
        (Some e, c1) \<Rightarrow> (Some (''store: begin migration: '' @ e), c1)
      | (None, c1) \<Rightarrow>
          (case apply_locked q ms p c1 of
             (Some e, c2) \<Rightarrow> rolled_back q e c2
           | (None, c2) \<Rightarrow> (None, c2)))"

section \<open>Backups\<close>

datatype dir_item = DDir | DFile string

type_synonym data_dir = "(string \<times> dir_item) list"

definition dir_remove :: "string \<Rightarrow> data_dir \<Rightarrow> data_dir" where
  "dir_remove nm d = filter (\<lambda>(n, i). n \<noteq> nm) d"

definition dir_put :: "string \<Rightarrow> dir_item \<Rightarrow> data_dir \<Rightarrow> data_dir" where
  "dir_put nm i d = (nm, i) # dir_remove nm d"

definition dbName :: string where "dbName = ''gateway.db''"

definition backup_name :: "int \<Rightarrow> string" where
  "backup_name v = dbName @ ''.v'' @ itoa v @ ''.bak''"

definition backupPath :: "string \<Rightarrow> int \<Rightarrow> string" where
  "backupPath dataDir v = dataDir @ ''/'' @ backup_name v"

text \<open>The names \<open>backup\<close> writes.\<close>

definition backupFile :: "string \<Rightarrow> bool" where
  "backupFile nm \<longleftrightarrow>
     (let pre = dbName @ ''.v''; r = drop (length pre) nm in
      starts_with pre nm \<and> takeWhile is_digit r \<noteq> []
      \<and> (dropWhile is_digit r = ''.bak'' \<or> dropWhile is_digit r = ''.bak.partial''))"

definition isPartial :: "string \<Rightarrow> bool" where
  "isPartial nm \<longleftrightarrow> drop (length nm - 8) nm = ''.partial''"

datatype rm_result = RmOk | RmNotExist | RmErr string

text \<open>The outcomes of the system calls; \<open>ReadDir\<close> and \<open>Remove\<close> are made in two passes and once more on the way out.\<close>

record backup_env =
  be_list :: "bool \<Rightarrow> string option"
  be_rm :: "bool \<Rightarrow> string \<Rightarrow> rm_result"
  be_rm_partial :: rm_result
  be_sync :: "string option"
  be_read :: "string option"
  be_rename :: "string option"
  be_syncDir :: "string option"

fun remove_loop :: "(string \<Rightarrow> rm_result) \<Rightarrow> (string \<Rightarrow> bool) \<Rightarrow> (string \<times> dir_item) list \<Rightarrow> data_dir \<Rightarrow> string option \<times> data_dir" where
  "remove_loop rm drop_it [] d = (None, d)"
| "remove_loop rm drop_it ((nm, i) # es) d =
     (if i = DDir \<or> \<not> backupFile nm \<or> \<not> drop_it nm then remove_loop rm drop_it es d
      else case rm nm of
        RmErr e \<Rightarrow> (Some (''store: remove old backup '' @ nm @ '': '' @ e), d)
      | _ \<Rightarrow> remove_loop rm drop_it es (dir_remove nm d))"

definition removeBackups :: "string option \<Rightarrow> (string \<Rightarrow> rm_result) \<Rightarrow> (string \<Rightarrow> bool) \<Rightarrow> data_dir \<Rightarrow> string option \<times> data_dir" where
  "removeBackups list_err rm drop_it d =
     (case list_err of
        Some e \<Rightarrow> (Some (''store: list old backups: '' @ e), d)
      | None \<Rightarrow> remove_loop rm drop_it d d)"

text \<open>\<open>user_version\<close> in a database file's header: a big-endian 32-bit integer at offset 60.\<close>

definition be32 :: "string \<Rightarrow> int" where
  "be32 b =
     (let n = foldl (\<lambda>v c. 256 * v + (of_char c :: int)) 0 b in if n < 2 ^ 31 then n else n - 2 ^ 32)"

definition fileUserVersion :: "string option \<Rightarrow> dir_item option \<Rightarrow> string + int" where
  "fileUserVersion read_err f =
     (case read_err of
        Some e \<Rightarrow> Inl (''store: read the header: '' @ e)
      | None \<Rightarrow>
          (case f of
             Some (DFile b) \<Rightarrow> if length b < 64 then Inl ''store: read the header: EOF'' else Inr (be32 (take 4 (drop 60 b)))
           | _ \<Rightarrow> Inl ''store: open''))"

definition syncFile :: "string option \<Rightarrow> dir_item option \<Rightarrow> string option" where
  "syncFile sync_err f =
     (case f of
        Some (DFile b) \<Rightarrow> (case sync_err of Some e \<Rightarrow> Some (''store: sync: '' @ e) | None \<Rightarrow> None)
      | _ \<Rightarrow> Some ''store: open for sync'')"

text \<open>The deferred removal of the partial copy when \<open>backup\<close> fails; its own error is dropped.\<close>

definition drop_partial :: "backup_env \<Rightarrow> string \<Rightarrow> data_dir \<Rightarrow> data_dir" where
  "drop_partial v partial d = (case be_rm_partial v of RmErr e \<Rightarrow> d | _ \<Rightarrow> dir_remove partial d)"

definition install :: "backup_env \<Rightarrow> int \<Rightarrow> string \<Rightarrow> string \<Rightarrow> data_dir \<Rightarrow> string option \<times> data_dir" where
  "install v seen partial bak d =
     (case syncFile (be_sync v) (map_of d partial) of
        Some e \<Rightarrow> (Some e, d)
      | None \<Rightarrow>
     (case fileUserVersion (be_read v) (map_of d partial) of
        Inl e \<Rightarrow> (Some e, d)
      | Inr copied \<Rightarrow>
          if copied \<noteq> seen then (Some ''store: the backup copy holds another schema version'', d)
          else
     (case (be_rename v, map_of d partial) of
        (None, Some f) \<Rightarrow>
          (let d1 = dir_put bak f (dir_remove partial d) in
           case be_syncDir v of
             Some e \<Rightarrow> (Some e, d1)
           | None \<Rightarrow> removeBackups (be_list v True) (be_rm v True) (\<lambda>nm. nm \<noteq> bak) d1)
      | (r, f) \<Rightarrow> (Some ''store: install backup'', d))))"

text \<open>\<open>dataDir\<close> only goes into the path of the copy; its entries are \<open>d\<close>.\<close>

definition backup :: "'c sqlite \<Rightarrow> backup_env \<Rightarrow> string \<Rightarrow> int \<Rightarrow> int \<Rightarrow> 'c \<Rightarrow> data_dir \<Rightarrow> (string + string) \<times> 'c \<times> data_dir" where
  "backup q v dataDir from seen c d =
     (case removeBackups (be_list v False) (be_rm v False) isPartial d of
        (Some e, d1) \<Rightarrow> (Inl e, c, d1)
      | (None, d1) \<Rightarrow>
          (let bak = backup_name from; partial = bak @ ''.partial'' in
           case sq_vacuum q (dataDir @ ''/'' @ partial) c of
             ((err, left), c1) \<Rightarrow>
               (let d2 = (case left of None \<Rightarrow> d1 | Some b \<Rightarrow> dir_put partial (DFile b) d1) in
                case err of
                  Some e \<Rightarrow> (Inl (''store: back up database: '' @ e), c1, drop_partial v partial d2)
                | None \<Rightarrow>
                    (case install v seen partial bak d2 of
                       (Some e, d3) \<Rightarrow> (Inl e, c1, drop_partial v partial d3)
                     | (None, d3) \<Rightarrow> (Inr (backupPath dataDir from), c1, d3)))))"

section \<open>migrate\<close>

record migration_report =
  mr_From :: int
  mr_To :: int
  mr_Legacy :: bool
  mr_Backup :: string

text \<open>What the version read at the start means: nothing to do, the version to migrate from and whether the table is from
  before versioning, or an error.\<close>

definition read_from :: "'c sqlite \<Rightarrow> string \<Rightarrow> int \<Rightarrow> int \<Rightarrow> 'c \<Rightarrow> string + (int \<times> bool)" where
  "read_from q dataDir target seen c =
     (if target < seen then
        Inl (''store: database schema v'' @ itoa seen @ '' is newer than this gateway (v'' @ itoa target
             @ ''); deploy the newer image, or restore '' @ backupPath dataDir target)
      else if seen < 0 then Inl (''store: database schema version '' @ itoa seen @ '' is invalid'')
      else if seen = 0 then
        (case tableExists q ''jobs'' c of Inl e \<Rightarrow> Inl e | Inr legacy \<Rightarrow> Inr (if legacy then 1 else 0, legacy))
      else Inr (seen, False))"

definition migrate :: "'c sqlite \<Rightarrow> backup_env \<Rightarrow> string option \<Rightarrow> string + migration list \<Rightarrow> string \<Rightarrow> 'c \<Rightarrow> data_dir
    \<Rightarrow> (string + migration_report) \<times> 'c \<times> data_dir" where
  "migrate q v conn_err migrations dataDir c d =
     (case migrations of
        Inl e \<Rightarrow> (Inl e, c, d)
      | Inr ms \<Rightarrow>
     (case conn_err of
        Some e \<Rightarrow> (Inl (''store: open migration connection: '' @ e), c, d)
      | None \<Rightarrow>
     (case sq_version q c of
        Inl e \<Rightarrow> (Inl (''store: read schema version: '' @ e), c, d)
      | Inr seen \<Rightarrow>
          (let target = SchemaVersion ms in
           if seen = target then (Inr \<lparr>mr_From = seen, mr_To = target, mr_Legacy = False, mr_Backup = []\<rparr>, c, d)
           else case read_from q dataDir target seen c of
             Inl e \<Rightarrow> (Inl e, c, d)
           | Inr (from, legacy) \<Rightarrow>
               (let pending = filter (\<lambda>m. from < mi_version m) ms;
                    plan = \<lparr>pl_seen = seen, pl_legacy = legacy, pl_pending = pending, pl_target = target\<rparr> in
                case (if 0 < from \<and> pending \<noteq> [] then backup q v dataDir from seen c d else (Inr [], c, d)) of
                  (Inl e, c1, d1) \<Rightarrow> (Inl e, c1, d1)
                | (Inr bak, c1, d1) \<Rightarrow>
                    (case apply_plan q ms plan c1 of
                       (Some e, c2) \<Rightarrow> (Inl e, c2, d1)
                     | (None, c2) \<Rightarrow> (Inr \<lparr>mr_From = from, mr_To = target, mr_Legacy = legacy, mr_Backup = bak\<rparr>, c2, d1)))))))"

section \<open>The numbered files\<close>

text \<open>What an entry contributes: the file of a well-named, readable entry with a number above zero.\<close>

definition entry_migration :: "dir_entry \<Rightarrow> migration option" where
  "entry_migration e =
     (case (migration_digits (ent_Name e), ent_body e) of
        (Some ds, Inr body) \<Rightarrow>
          (if ent_IsDir e then None
           else case atoi ds of
             None \<Rightarrow> None
           | Some v \<Rightarrow> if v = 0 then None else Some \<lparr>mi_version = v, mi_name = ent_Name e, mi_sql = body\<rparr>)
      | _ \<Rightarrow> None)"

definition by_version :: "migration list \<Rightarrow> (int \<times> migration) list" where
  "by_version fs = map (\<lambda>m. (mi_version m, m)) fs"

lemma by_version_shape [simp]: "length (by_version fs) = length fs" "by_version fs = [] \<longleftrightarrow> fs = []"
  by (simp_all add: by_version_def)

lemma load_loop_Cons:
  "load_loop (e # es) bv = Inr bv' \<longleftrightarrow>
     (\<exists>m. entry_migration e = Some m \<and> map_of bv (mi_version m) = None \<and> load_loop es (bv @ by_version [m]) = Inr bv')"
  by (auto simp: entry_migration_def by_version_def split: option.splits sum.splits)

lemma load_loop_iff:
  "load_loop es bv = Inr bv' \<longleftrightarrow>
     (\<exists>fs. map entry_migration es = map Some fs \<and> bv' = bv @ by_version fs
        \<and> distinct (map mi_version fs) \<and> (\<forall>m\<in>set fs. map_of bv (mi_version m) = None))"
proof (induction es arbitrary: bv)
  case Nil
  show ?case by (auto simp: by_version_def)
next
  case (Cons e es)
  have app: "map_of (bv @ by_version [m]) v = None \<longleftrightarrow> map_of bv v = None \<and> v \<noteq> mi_version m" for m v
    by (auto simp: by_version_def map_add_def split: option.splits)
  have nil: "bv @ by_version [m] @ by_version fs = bv @ by_version (m # fs)" for m fs by (simp add: by_version_def)
  show ?case (is "?l \<longleftrightarrow> ?r")
  proof
    assume ?l
    then obtain m where m: "entry_migration e = Some m" "map_of bv (mi_version m) = None" "load_loop es (bv @ by_version [m]) = Inr bv'"
      unfolding load_loop_Cons by blast
    from m(3) [unfolded Cons.IH] obtain fs where "map entry_migration es = map Some fs" "bv' = (bv @ by_version [m]) @ by_version fs"
      "distinct (map mi_version fs)" "\<forall>n\<in>set fs. map_of (bv @ by_version [m]) (mi_version n) = None" by blast
    with m show ?r unfolding app by (intro exI [of _ "m # fs"]) (auto simp: nil)
  next
    assume ?r
    then obtain fs where fs: "map entry_migration (e # es) = map Some fs" "bv' = bv @ by_version fs" "distinct (map mi_version fs)"
      "\<forall>n\<in>set fs. map_of bv (mi_version n) = None" by blast
    then obtain m gs where g: "fs = m # gs" "entry_migration e = Some m" "map entry_migration es = map Some gs" by (cases fs) auto
    have "\<forall>n\<in>set gs. mi_version n \<noteq> mi_version m" using fs(3) g(1) by (auto simp: image_iff eq_commute)
    then have "load_loop es (bv @ by_version [m]) = Inr bv'"
      unfolding Cons.IH app by (intro exI [of _ gs]) (use fs g in \<open>simp add: nil\<close>)
    with g(1,2) fs(4) show ?l unfolding load_loop_Cons by auto
  qed
qed

lemma collect_versions_iff: "collect_versions bv vs = Inr ms \<longleftrightarrow> map (map_of bv) vs = map Some ms"
proof (induction vs arbitrary: ms)
  case (Cons v vs)
  show ?case by (cases "map_of bv v"; cases "collect_versions bv vs"; cases ms) (auto simp: Cons.IH [symmetric])
qed auto

lemma map_of_by_version:
  "distinct (map mi_version fs) \<Longrightarrow> map_of (by_version fs) v = Some m \<longleftrightarrow> m \<in> set fs \<and> mi_version m = v"
  by (auto simp: by_version_def map_of_eq_Some_iff comp_def)

lemma collect_all:
  assumes "distinct (map mi_version fs)"
  shows "map (map_of (by_version fs)) [1..int (length fs)] = map Some ms \<longleftrightarrow>
    mset ms = mset fs \<and> map mi_version ms = [1..int (length ms)]" (is "?l \<longleftrightarrow> ?r")
proof
  assume l: ?l
  then have len: "length ms = length fs" by (metis length_map length_upto diff_add_cancel nat_int)
  have nth: "ms ! i \<in> set fs \<and> mi_version (ms ! i) = 1 + int i" if "i < length ms" for i
  proof -
    have "map_of (by_version fs) ([1..int (length fs)] ! i) = Some (ms ! i)" using l that len by (metis length_map nth_map)
    then show ?thesis using that len by (simp add: map_of_by_version [OF assms])
  qed
  have vs: "map mi_version ms = [1..int (length ms)]" by (intro nth_equalityI) (auto simp: nth)
  have "distinct (map mi_version ms)" unfolding vs by simp
  then have d: "distinct ms" "distinct fs" using assms by (auto simp: distinct_map)
  have sub: "set ms \<subseteq> set fs" using nth by (auto simp: in_set_conv_nth)
  have "set ms = set fs" by (rule card_subset_eq [OF _ sub]) (use d len in \<open>auto simp: distinct_card\<close>)
  with d vs show ?r by (simp add: set_eq_iff_mset_eq_distinct)
next
  assume r: ?r
  then have len: "length ms = length fs" by (metis mset_eq_length)
  show ?l
  proof (rule nth_equalityI)
    fix i assume "i < length (map (map_of (by_version fs)) [1..int (length fs)])"
    then have i: "i < length ms" using len by simp
    have "mi_version (ms ! i) = map mi_version ms ! i" using i by simp
    also have "\<dots> = 1 + int i" unfolding conjunct2 [OF r] using i by simp
    finally have "mi_version (ms ! i) = 1 + int i" .
    moreover have "ms ! i \<in> set fs" using r i by (metis mset_eq_setD nth_mem)
    ultimately show "map (map_of (by_version fs)) [1..int (length fs)] ! i = map Some ms ! i"
      using i len by (simp add: map_of_by_version [OF assms])
  qed (use len in simp)
qed

text \<open>C16. The migrations a binary carries. Loading succeeds exactly when the directory can be read, is not empty, and every
  entry is a readable file named \<open>NNNN_name.sql\<close>, and the result is those files and no others, in the order of their
  numbers, which are 1, 2, 3 and so on without a gap: a misnamed, repeated, zero or missing number is an error, never
  skipped.\<close>

theorem load_migrations_spec:
  "loadMigrations entries = Inr ms \<longleftrightarrow>
     (\<exists>es fs. entries = Inr es \<and> es \<noteq> [] \<and> map entry_migration es = map Some fs
        \<and> mset ms = mset fs \<and> map mi_version ms = [1..int (length ms)])"
proof (cases entries)
  case (Inr es)
  have d: "distinct (map mi_version fs)" if "mset ms = mset fs" "map mi_version ms = [1..int (length ms)]" for fs
    using that by (metis distinct_upto mset_map mset_eq_imp_distinct_iff)
  have "loadMigrations entries = Inr ms \<longleftrightarrow> (\<exists>fs. map entry_migration es = map Some fs \<and> distinct (map mi_version fs) \<and> fs \<noteq> []
      \<and> map (map_of (by_version fs)) [1..int (length fs)] = map Some ms)"
  proof (cases "load_loop es []")
    case (Inl e)
    then have "\<not> (\<exists>fs. map entry_migration es = map Some fs \<and> distinct (map mi_version fs))"
      using load_loop_iff [of es "[]"] by (metis append_Nil map_of.simps(1) sum.distinct(1))
    with Inl Inr show ?thesis by (auto simp: loadMigrations_def)
  next
    case (Inr bv)
    then obtain fs where fs: "map entry_migration es = map Some fs" "bv = by_version fs" "distinct (map mi_version fs)"
      unfolding load_loop_iff by auto
    have u: "gs = fs" if "map entry_migration es = map Some gs" for gs
      using that fs(1) by (metis inj_map_eq_map inj_Some)
    have "loadMigrations entries = Inr ms \<longleftrightarrow> fs \<noteq> [] \<and> map (map_of (by_version fs)) [1..int (length fs)] = map Some ms"
      using Inr \<open>entries = Inr es\<close> fs(2) by (simp add: loadMigrations_def collect_versions_iff)
    with fs(1,3) u show ?thesis by blast
  qed
  with d Inr show ?thesis by (auto simp: collect_all)
qed (simp add: loadMigrations_def)

section \<open>All or nothing\<close>

text \<open>
  What SQLite documents of one connection's transactions, over a view of its state: the content a new connection would
  read, and the transaction's own content while one is open. \<open>BEGIN IMMEDIATE\<close> starts from what is committed once it has
  the lock; plain statements change the transaction only, \<open>run\<close> says how; \<open>COMMIT\<close> makes its content the committed one or,
  with an error, changes nothing; \<open>ROLLBACK\<close> never changes what is committed; a backup leaves no
  transaction open or closed; the version is a 32-bit number.
\<close>

definition sql_transactions ::
  "'c sqlite \<Rightarrow> ('c \<Rightarrow> 'db) \<Rightarrow> ('c \<Rightarrow> 'db option) \<Rightarrow> (string \<Rightarrow> bool) \<Rightarrow> (string \<Rightarrow> 'db \<Rightarrow> 'db option) \<Rightarrow> ('db \<Rightarrow> int) \<Rightarrow> bool" where
  "sql_transactions q committed tx plain run version \<longleftrightarrow>
     (\<forall>c e c'. sq_exec q ''BEGIN IMMEDIATE'' c = (e, c') \<and> tx c = None \<longrightarrow> tx c' = (if e = None then Some (committed c') else None))
     \<and> (\<forall>s c e c' d. sq_exec q s c = (e, c') \<and> plain s \<and> tx c = Some d \<longrightarrow>
          committed c' = committed c \<and> (e = None \<longrightarrow> run s d \<noteq> None \<and> tx c' = run s d))
     \<and> (\<forall>c e c' d. sq_exec q ''COMMIT'' c = (e, c') \<and> tx c = Some d \<longrightarrow>
          (if e = None then committed c' = d \<and> tx c' = None else committed c' = committed c))
     \<and> (\<forall>c e c'. sq_exec q ''ROLLBACK'' c = (e, c') \<longrightarrow> committed c' = committed c)
     \<and> (\<forall>path c r c'. sq_vacuum q path c = (r, c') \<longrightarrow> tx c' = tx c)
     \<and> (\<forall>c d v. tx c = Some d \<and> sq_version q c = Inr v \<longrightarrow> v = version d)
     \<and> (\<forall>n d d'. 0 \<le> n \<and> n < 2 ^ 31 \<and> run (stamp n) d = Some d' \<longrightarrow> version d' = n)"

lemma tx_laws:
  assumes "sql_transactions q committed tx plain run version"
  shows tx_begin: "sq_exec q ''BEGIN IMMEDIATE'' c = (e, c') \<Longrightarrow> tx c = None \<Longrightarrow> tx c' = (if e = None then Some (committed c') else None)"
    and tx_plain: "sq_exec q s c = (e, c') \<Longrightarrow> plain s \<Longrightarrow> tx c = Some d \<Longrightarrow>
      committed c' = committed c \<and> (e = None \<longrightarrow> run s d \<noteq> None \<and> tx c' = run s d)"
    and tx_commit: "sq_exec q ''COMMIT'' c = (e, c') \<Longrightarrow> tx c = Some d \<Longrightarrow>
      if e = None then committed c' = d \<and> tx c' = None else committed c' = committed c"
    and tx_rollback: "sq_exec q ''ROLLBACK'' c = (e, c') \<Longrightarrow> committed c' = committed c"
    and tx_vacuum: "sq_vacuum q path c = (r, c') \<Longrightarrow> tx c' = tx c"
    and tx_version: "tx c = Some d \<Longrightarrow> sq_version q c = Inr v \<Longrightarrow> v = version d"
    and tx_stamp: "0 \<le> n \<Longrightarrow> n < 2 ^ 31 \<Longrightarrow> run (stamp n) d = Some d' \<Longrightarrow> version d' = n"
  using assms [unfolded sql_transactions_def]
  by - (elim conjE; metis)+

fun run_all :: "(string \<Rightarrow> 'db \<Rightarrow> 'db option) \<Rightarrow> string list \<Rightarrow> 'db \<Rightarrow> 'db option" where
  "run_all run [] d = Some d"
| "run_all run (s # ss) d = (case run s d of None \<Rightarrow> None | Some d1 \<Rightarrow> run_all run ss d1)"

lemma run_all_append: "run_all run (xs @ ys) d = (case run_all run xs d of None \<Rightarrow> None | Some d1 \<Rightarrow> run_all run ys d1)"
  by (induction xs arbitrary: d) (auto split: option.splits)

lemma exec_all_tx:
  assumes "sql_transactions q committed tx plain run version" and "list_all plain ss" and "tx c = Some d"
    and "exec_all q ss c = (e, c')"
  shows "committed c' = committed c \<and> (e = None \<longrightarrow> (\<exists>d'. run_all run ss d = Some d' \<and> tx c' = Some d'))"
  using assms(2-4)
proof (induction ss arbitrary: c d)
  case (Cons s ss)
  obtain e1 c1 where x: "sq_exec q s c = (e1, c1)" by (cases "sq_exec q s c")
  have y: "committed c1 = committed c \<and> (e1 = None \<longrightarrow> run s d \<noteq> None \<and> tx c1 = run s d)"
    using tx_plain [OF assms(1) x _ Cons.prems(2)] Cons.prems(1) by simp
  show ?case
  proof (cases e1)
    case None
    then obtain d1 where d1: "run s d = Some d1" "tx c1 = Some d1" using y by auto
    from Cons.IH [OF _ d1(2)] Cons.prems(1,3) x None have "committed c' = committed c1 \<and>
      (e = None \<longrightarrow> (\<exists>d'. run_all run ss d1 = Some d' \<and> tx c' = Some d'))" by simp
    with y d1 show ?thesis by simp
  next
    case (Some x1)
    with x y Cons.prems(3) show ?thesis by auto
  qed
qed simp

text \<open>The statements that bring a legacy table to version 1, as the two listings of columns decide them.\<close>

definition legacy_plain :: "'c sqlite \<Rightarrow> migration list \<Rightarrow> (string \<Rightarrow> bool) \<Rightarrow> bool" where
  "legacy_plain q ms plain \<longleftrightarrow> list_all plain (splitStatements (mi_sql (hd ms)))
     \<and> (\<forall>c want have_cols adds. v1Columns q ms = Inr want \<and> sq_columns q c = Inr have_cols \<and> legacy_columns want have_cols = Inr adds
          \<longrightarrow> list_all plain adds)"

lemma completeLegacyTable_tx:
  assumes "sql_transactions q committed tx plain run version" and "legacy_plain q ms plain" and "tx c = Some d"
    and "completeLegacyTable q ms c = (e, c')"
  shows "committed c' = committed c \<and> (e = None \<longrightarrow> (\<exists>ss d'. run_all run ss d = Some d' \<and> tx c' = Some d'))"
proof -
  consider (err) "c' = c" "e \<noteq> None"
    | (adds) want cols adds where "v1Columns q ms = Inr want" "sq_columns q c = Inr cols" "legacy_columns want cols = Inr adds"
    using assms(4) unfolding completeLegacyTable_def by (auto split: sum.splits)
  then show ?thesis
  proof cases
    case adds
    obtain e1 c1 where x: "exec_all q adds c = (e1, c1)" by (cases "exec_all q adds c")
    have "list_all plain adds" using assms(2) adds unfolding legacy_plain_def by blast
    from exec_all_tx [OF assms(1) this assms(3) x]
    have y: "committed c1 = committed c" "e1 = None \<longrightarrow> (\<exists>d1. run_all run adds d = Some d1 \<and> tx c1 = Some d1)" by auto
    show ?thesis
    proof (cases e1)
      case None
      then obtain d1 where d1: "run_all run adds d = Some d1" "tx c1 = Some d1" using y(2) by auto
      have pl: "list_all plain (splitStatements (mi_sql (hd ms)))" using assms(2) unfolding legacy_plain_def by blast
      have z: "exec_all q (splitStatements (mi_sql (hd ms))) c1 = (e, c')"
        using assms(4) adds x None by (simp add: completeLegacyTable_def)
      from exec_all_tx [OF assms(1) pl d1(2) z] y(1) d1(1) show ?thesis
        by (auto intro: exI [of _ "adds @ splitStatements (mi_sql (hd ms))"] simp: run_all_append)
    next
      case (Some x1)
      with assms(4) adds x y show ?thesis by (auto simp: completeLegacyTable_def)
    qed
  qed auto
qed

lemma apply_locked_tx:
  assumes "sql_transactions q committed tx plain run version" and "list_all plain (pending_statements p @ [stamp (pl_target p)])"
    and "legacy_plain q ms plain" and "tx c = Some (committed c)" and "apply_locked q ms p c = (e, c')"
    and "0 \<le> pl_target p \<and> pl_target p < 2 ^ 31"
  shows "if e = None
    then version (committed c) = pl_seen p \<and> version (committed c') = pl_target p \<and> tx c' = None
      \<and> (\<exists>pre. (\<not> pl_legacy p \<longrightarrow> pre = [])
          \<and> run_all run (pre @ pending_statements p @ [stamp (pl_target p)]) (committed c) = Some (committed c'))
    else committed c' = committed c"
proof (cases "sq_version q c = Inr (pl_seen p)")
  case False
  with assms(5) show ?thesis by (auto simp: apply_locked_def split: sum.splits)
next
  case True
  have v: "version (committed c) = pl_seen p" using tx_version [OF assms(1,4) True] by simp
  let ?l = "if pl_legacy p then completeLegacyTable q ms c else (None, c)"
  obtain e1 c1 where l: "?l = (e1, c1)" by (cases ?l)
  have y: "committed c1 = committed c" "e1 = None \<longrightarrow> (\<exists>pre d1. (\<not> pl_legacy p \<longrightarrow> pre = []) \<and> run_all run pre (committed c) = Some d1 \<and> tx c1 = Some d1)"
    using completeLegacyTable_tx [OF assms(1,3,4)] l assms(4)
    by (cases "pl_legacy p"; fastforce intro: exI [of _ "[]"])+
  obtain e2 c2 where p: "exec_all q (pending_statements p) c1 = (e2, c2)" by (cases "exec_all q (pending_statements p) c1")
  obtain e3 c3 where st: "sq_exec q (stamp (pl_target p)) c2 = (e3, c3)" by (cases "sq_exec q (stamp (pl_target p)) c2")
  obtain e4 c4 where cm: "sq_exec q ''COMMIT'' c3 = (e4, c4)" by (cases "sq_exec q ''COMMIT'' c3")
  note run = assms(5) [unfolded apply_locked_def True sum.case l, simplified]
  show ?thesis
  proof (cases e1)
    case (Some x)
    with run y show ?thesis by auto
  next
    case n1: None
    then obtain pre d1 where d1: "\<not> pl_legacy p \<longrightarrow> pre = []" "run_all run pre (committed c) = Some d1" "tx c1 = Some d1" using y(2) by blast
    from exec_all_tx [OF assms(1) _ d1(3) p] assms(2)
    have z: "committed c2 = committed c" "e2 = None \<longrightarrow> (\<exists>d2. run_all run (pending_statements p) d1 = Some d2 \<and> tx c2 = Some d2)"
      using y(1) by auto
    show ?thesis
    proof (cases e2)
      case (Some x)
      with run n1 p z show ?thesis by auto
    next
      case n2: None
      then obtain d2 where d2: "run_all run (pending_statements p) d1 = Some d2" "tx c2 = Some d2" using z(2) by blast
      have "plain (stamp (pl_target p))" using assms(2) by simp
      then have w: "committed c3 = committed c" "e3 = None \<longrightarrow> run (stamp (pl_target p)) d2 \<noteq> None \<and> tx c3 = run (stamp (pl_target p)) d2"
        using tx_plain [OF assms(1) st _ d2(2)] z(1) by auto
      show ?thesis
      proof (cases e3)
        case (Some x)
        with run n1 p n2 st w show ?thesis by auto
      next
        case n3: None
        then obtain d3 where d3: "run (stamp (pl_target p)) d2 = Some d3" "tx c3 = Some d3" using w(2) by auto
        have v3: "version d3 = pl_target p" by (rule tx_stamp [OF assms(1) _ _ d3(1)]) (use assms(6) in auto)
        have u: "if e4 = None then committed c4 = d3 \<and> tx c4 = None else committed c4 = committed c3"
          by (rule tx_commit [OF assms(1) cm d3(2)])
        have c': "c' = c4" "e = None \<longleftrightarrow> e4 = None" using run n1 p n2 st n3 cm by (auto split: option.splits)
        have "run_all run (pre @ pending_statements p @ [stamp (pl_target p)]) (committed c) = Some d3"
          using d1(2) d2(1) d3(1) by (simp add: run_all_append)
        with u c' v v3 w(1) d1(1) show ?thesis by auto
      qed
    qed
  qed
qed

lemma apply_plan_tx:
  assumes "sql_transactions q committed tx plain run version" and "list_all plain (pending_statements p @ [stamp (pl_target p)])"
    and "legacy_plain q ms plain" and "tx c = None" and "apply_plan q ms p c = (e, c')"
    and "0 \<le> pl_target p \<and> pl_target p < 2 ^ 31"
  shows "if e = None
    then version (committed (snd (sq_exec q ''BEGIN IMMEDIATE'' c))) = pl_seen p \<and> version (committed c') = pl_target p \<and> tx c' = None
      \<and> (\<exists>pre. (\<not> pl_legacy p \<longrightarrow> pre = [])
          \<and> run_all run (pre @ pending_statements p @ [stamp (pl_target p)]) (committed (snd (sq_exec q ''BEGIN IMMEDIATE'' c)))
              = Some (committed c'))
    else committed c' = committed (snd (sq_exec q ''BEGIN IMMEDIATE'' c))"
proof -
  let ?b = "sq_exec q ''BEGIN IMMEDIATE'' c"
  obtain e0 c0 where b: "?b = (e0, c0)" by (cases ?b)
  show ?thesis
  proof (cases e0)
    case (Some x)
    with b assms(5) show ?thesis by (auto simp: apply_plan_def)
  next
    case None
    have t0: "tx c0 = Some (committed c0)" using tx_begin [OF assms(1) b assms(4)] None by simp
    obtain e1 c1 where l: "apply_locked q ms p c0 = (e1, c1)" by (cases "apply_locked q ms p c0")
    note k = apply_locked_tx [OF assms(1-3) t0 l assms(6)]
    have r: "committed c' = committed c1" if "sq_exec q ''ROLLBACK'' c1 = (x, c')" for x
      by (rule tx_rollback [OF assms(1) that])
    show ?thesis
    proof (cases e1)
      case e1: None
      with k b None l assms(5) show ?thesis by (auto simp: apply_plan_def)
    next
      case (Some x)
      then have "rolled_back q x c1 = (e, c')" using b None l assms(5) by (simp add: apply_plan_def)
      then have "e \<noteq> None" "committed c' = committed c1" by (auto simp: rolled_back_def r split: prod.splits option.splits)
      with k b Some show ?thesis by auto
    qed
  qed
qed

text \<open>C8. The schema changes all at once or not at all. Given what SQLite documents of a transaction, applying a plan either
  fails and leaves the committed database as the write lock found it, or succeeds, and then the version was still the one
  the plan was made from, the committed database is that one with every pending statement run once and in order (after
  those that complete a legacy table), it carries the target version, and no transaction is left open.\<close>

theorem apply_all_or_nothing:
  assumes "sql_transactions q committed tx plain run version" and "list_all plain (pending_statements p @ [stamp (pl_target p)])"
    and "legacy_plain q ms plain" and "tx c = None" and "apply_plan q ms p c = (e, c')"
    and "0 \<le> pl_target p \<and> pl_target p < 2 ^ 31"
  shows "if e = None
    then version (committed (snd (sq_exec q ''BEGIN IMMEDIATE'' c))) = pl_seen p \<and> version (committed c') = pl_target p \<and> tx c' = None
      \<and> (\<exists>pre. (\<not> pl_legacy p \<longrightarrow> pre = [])
          \<and> run_all run (pre @ pending_statements p @ [stamp (pl_target p)]) (committed (snd (sq_exec q ''BEGIN IMMEDIATE'' c)))
              = Some (committed c'))
    else committed c' = committed (snd (sq_exec q ''BEGIN IMMEDIATE'' c))"
  by (rule apply_plan_tx [OF assms])

section \<open>The backups in the data directory\<close>

lemma map_of_without: "map_of (filter (\<lambda>(n, i). n \<notin> R) d) x = (if x \<in> R then None else map_of d x)"
  by (induction d) auto

lemma dir_remove_filter: "dir_remove nm d = filter (\<lambda>(n, i). n \<notin> {nm}) d"
  by (simp add: dir_remove_def)

lemma map_of_remove [simp]: "map_of (dir_remove nm d) x = (if x = nm then None else map_of d x)"
  unfolding dir_remove_filter map_of_without by simp

lemma map_of_put [simp]: "map_of (dir_put nm i d) x = (if x = nm then Some i else map_of d x)"
  by (simp add: dir_put_def)

definition chosen_names :: "(string \<Rightarrow> bool) \<Rightarrow> (string \<times> dir_item) list \<Rightarrow> string set" where
  "chosen_names drop_it es = {n. \<exists>i. (n, i) \<in> set es \<and> i \<noteq> DDir \<and> backupFile n \<and> drop_it n}"

lemma remove_loop_shape:
  "remove_loop rm drop_it es d = (r, d') \<Longrightarrow> \<exists>R. d' = filter (\<lambda>(n, i). n \<notin> R) d \<and> R \<subseteq> chosen_names drop_it es
     \<and> (r = None \<longrightarrow> R = chosen_names drop_it es)"
proof (induction es arbitrary: d)
  case Nil
  then show ?case by (auto simp: chosen_names_def intro!: exI [of _ "{}"])
next
  case (Cons e es)
  obtain nm i where e: "e = (nm, i)" by fastforce
  show ?case
  proof (cases "i = DDir \<or> \<not> backupFile nm \<or> \<not> drop_it nm")
    case True
    then have "chosen_names drop_it (e # es) = chosen_names drop_it es" by (auto simp: chosen_names_def e)
    with Cons.IH [of d] Cons.prems True show ?thesis by (simp add: e)
  next
    case False
    then have ch: "chosen_names drop_it (e # es) = insert nm (chosen_names drop_it es)" by (auto simp: chosen_names_def e)
    show ?thesis
    proof (cases "\<exists>x. rm nm = RmErr x")
      case True
      with Cons.prems False show ?thesis by (auto simp: e intro!: exI [of _ "{}"])
    next
      case ok: False
      then have "remove_loop rm drop_it es (dir_remove nm d) = (r, d')" using Cons.prems False by (cases "rm nm") (auto simp: e)
      from Cons.IH [OF this] obtain R where R: "d' = filter (\<lambda>(n, i). n \<notin> R) (dir_remove nm d)" "R \<subseteq> chosen_names drop_it es"
        "r = None \<longrightarrow> R = chosen_names drop_it es" by blast
      have "d' = filter (\<lambda>(n, i). n \<notin> insert nm R) d" unfolding R(1) dir_remove_filter filter_filter by (rule filter_cong) auto
      with R ch show ?thesis by (intro exI [of _ "insert nm R"]) auto
    qed
  qed
qed

lemma removeBackups_shape:
  assumes "removeBackups list_err rm drop_it d = (r, d')"
  shows "\<exists>R. (\<forall>x. map_of d' x = (if x \<in> R then None else map_of d x)) \<and> R \<subseteq> {n. backupFile n \<and> drop_it n}
    \<and> (r = None \<longrightarrow> R = chosen_names drop_it d)"
proof (cases list_err)
  case None
  with assms remove_loop_shape [of rm drop_it d d r d'] obtain R where "d' = filter (\<lambda>(n, i). n \<notin> R) d"
    "R \<subseteq> chosen_names drop_it d" "r = None \<longrightarrow> R = chosen_names drop_it d" by (auto simp: removeBackups_def)
  then show ?thesis by (intro exI [of _ R]) (auto simp: map_of_without chosen_names_def)
next
  case (Some e)
  with assms show ?thesis by (intro exI [of _ "{}"]) (auto simp: removeBackups_def)
qed

lemma isPartial_last: "isPartial nm \<Longrightarrow> last nm = CHR ''l''"
proof -
  assume "isPartial nm"
  then have e: "drop (length nm - 8) nm = ''.partial''" by (simp add: isPartial_def)
  then have "length nm - 8 < length nm" by (cases "length nm - 8 < length nm") auto
  then have "last nm = last (drop (length nm - 8) nm)" by simp
  with e show ?thesis by simp
qed

lemma backup_name_file:
  assumes "0 \<le> v"
  shows "backupFile (backup_name v)" "\<not> isPartial (backup_name v)"
    "backupFile (backup_name v @ ''.partial'')" "isPartial (backup_name v @ ''.partial'')"
proof -
  have d: "list_all is_digit (itoa v)" using assms by (simp add: itoa_def nat_str_digits)
  have dot: "\<not> is_digit (CHR ''.'')" by (simp add: is_digit_def)
  have tw: "takeWhile is_digit (itoa v @ CHR ''.'' # t) = itoa v" "dropWhile is_digit (itoa v @ CHR ''.'' # t) = CHR ''.'' # t" for t
    using d dot by (simp_all add: takeWhile_tail list_all_iff dropWhile_append3)
  have ne: "itoa v \<noteq> []" by (simp add: itoa_def)
  have sw: "starts_with (dbName @ ''.v'') (dbName @ ''.v'' @ t)" for t by (auto simp: starts_with_iff)
  show "backupFile (backup_name v)" "backupFile (backup_name v @ ''.partial'')"
    using tw [of "''bak''"] tw [of "''bak.partial''"] ne sw [of "itoa v @ ''.bak''"] sw [of "itoa v @ ''.bak.partial''"]
    by (simp_all add: backupFile_def backup_name_def Let_def)
  show "\<not> isPartial (backup_name v)" using isPartial_last [of "backup_name v"] by (auto simp: backup_name_def)
  show "isPartial (backup_name v @ ''.partial'')" by (simp add: isPartial_def)
qed

text \<open>A complete copy: all that \<open>VACUUM INTO\<close> wrote when it succeeded, at the version that was read.\<close>

definition complete_copy :: "'c sqlite \<Rightarrow> string \<Rightarrow> int \<Rightarrow> int \<Rightarrow> 'c \<Rightarrow> string \<Rightarrow> bool" where
  "complete_copy q dataDir from seen c b \<longleftrightarrow>
     fst (sq_vacuum q (dataDir @ ''/'' @ backup_name from @ ''.partial'') c) = (None, Some b)
     \<and> 64 \<le> length b \<and> be32 (take 4 (drop 60 b)) = seen"

lemma install_shape:
  assumes "install v seen partial bak d = (r, d')" and "partial \<noteq> bak"
  shows "(r \<noteq> None \<and> d' = d)
    \<or> (\<exists>f. map_of d partial = Some (DFile f) \<and> 64 \<le> length f \<and> be32 (take 4 (drop 60 f)) = seen
        \<and> (\<exists>R. R \<subseteq> {n. backupFile n \<and> n \<noteq> bak} \<and> (\<forall>x. map_of d' x = (if x \<in> R \<or> x = partial then None else if x = bak then Some (DFile f) else map_of d x))
          \<and> (r = None \<longrightarrow> R = chosen_names (\<lambda>nm. nm \<noteq> bak) (dir_put bak (DFile f) (dir_remove partial d)))))"
proof (cases "syncFile (be_sync v) (map_of d partial)")
  case (Some e)
  with assms(1) show ?thesis by (auto simp: install_def)
next
  case None
  then obtain f where f: "map_of d partial = Some (DFile f)" by (auto simp: syncFile_def split: option.splits dir_item.splits)
  let ?d1 = "dir_put bak (DFile f) (dir_remove partial d)"
  show ?thesis
  proof (cases "be_read v = None \<and> 64 \<le> length f \<and> be32 (take 4 (drop 60 f)) = seen \<and> be_rename v = None")
    case False
    then consider (read) e where "be_read v = Some e" | (short) "be_read v = None" "length f < 64"
      | (other) "be_read v = None" "64 \<le> length f" "be32 (take 4 (drop 60 f)) \<noteq> seen"
      | (ren) e where "be_read v = None" "64 \<le> length f" "be32 (take 4 (drop 60 f)) = seen" "be_rename v = Some e"
      by (metis not_None_eq linorder_not_le)
    then have "r \<noteq> None \<and> d' = d" using assms(1) None f by cases (auto simp: install_def fileUserVersion_def)
    then show ?thesis by simp
  next
    case True
    have d1: "map_of ?d1 x = (if x = partial then None else if x = bak then Some (DFile f) else map_of d x)" for x
      using assms(2) by simp
    have r: "(case be_syncDir v of Some e \<Rightarrow> (Some e, ?d1)
        | None \<Rightarrow> removeBackups (be_list v True) (be_rm v True) (\<lambda>nm. nm \<noteq> bak) ?d1) = (r, d')"
      using assms(1) None f True by (simp add: install_def fileUserVersion_def Let_def)
    have "\<exists>R. R \<subseteq> {n. backupFile n \<and> n \<noteq> bak} \<and> (\<forall>x. map_of d' x = (if x \<in> R then None else map_of ?d1 x))
        \<and> (r = None \<longrightarrow> R = chosen_names (\<lambda>nm. nm \<noteq> bak) ?d1)"
    proof (cases "be_syncDir v")
      case None
      with r have rb: "removeBackups (be_list v True) (be_rm v True) (\<lambda>nm. nm \<noteq> bak) ?d1 = (r, d')" by simp
      show ?thesis using removeBackups_shape [OF rb] by (elim exE conjE) (intro exI conjI)
    next
      case (Some e)
      with r show ?thesis by (intro exI [of _ "{}"]) auto
    qed
    then obtain R where R: "R \<subseteq> {n. backupFile n \<and> n \<noteq> bak}" "\<forall>x. map_of d' x = (if x \<in> R then None else map_of ?d1 x)"
      "r = None \<longrightarrow> R = chosen_names (\<lambda>nm. nm \<noteq> bak) ?d1" by blast
    have "\<forall>x. map_of d' x = (if x \<in> R \<or> x = partial then None else if x = bak then Some (DFile f) else map_of d x)"
      unfolding R(2) [rule_format] d1 by simp
    with R(1,3) have "\<exists>R. R \<subseteq> {n. backupFile n \<and> n \<noteq> bak} \<and> (\<forall>x. map_of d' x = (if x \<in> R \<or> x = partial then None else if x = bak then Some (DFile f) else map_of d x))
          \<and> (r = None \<longrightarrow> R = chosen_names (\<lambda>nm. nm \<noteq> bak) ?d1)" by blast
    with f True show ?thesis by blast
  qed
qed

lemma map_of_drop_partial: "map_of (drop_partial v partial d) x =
    (if x = partial \<and> (\<forall>e. be_rm_partial v \<noteq> RmErr e) then None else map_of d x)"
  by (cases "be_rm_partial v") (auto simp: drop_partial_def)

lemma backup_files:
  assumes "backup q v dataDir from seen c d = (r, c', d')" and "0 \<le> from"
  shows "(\<forall>nm. \<not> backupFile nm \<longrightarrow> map_of d' nm = map_of d nm)
    \<and> ((\<forall>nm. backupFile nm \<and> \<not> isPartial nm \<longrightarrow> map_of d' nm = map_of d nm) \<and> isl r
       \<or> (\<exists>b. complete_copy q dataDir from seen c b \<and> map_of d' (backup_name from) = Some (DFile b)))
    \<and> (\<not> isl r \<longrightarrow> (\<forall>nm i. map_of d' nm = Some i \<and> backupFile nm \<and> i \<noteq> DDir \<longrightarrow> nm = backup_name from))"
proof -
  let ?bak = "backup_name from" and ?partial = "backup_name from @ ''.partial''"
  note nm = backup_name_file [OF assms(2)]
  obtain e1 d1 where p1: "removeBackups (be_list v False) (be_rm v False) isPartial d = (e1, d1)"
    by (cases "removeBackups (be_list v False) (be_rm v False) isPartial d")
  from removeBackups_shape [OF p1] obtain R where R: "\<forall>x. map_of d1 x = (if x \<in> R then None else map_of d x)"
    "R \<subseteq> {n. backupFile n \<and> isPartial n}" "e1 = None \<longrightarrow> R = chosen_names isPartial d" by blast
  have keep1: "map_of d1 x = map_of d x" if "\<not> (backupFile x \<and> isPartial x)" for x using R that by auto
  show ?thesis
  proof (cases e1)
    case (Some e)
    with assms(1) p1 keep1 show ?thesis by (auto simp: backup_def)
  next
    case n1: None
    obtain err left c1 where vac: "sq_vacuum q (dataDir @ ''/'' @ ?partial) c = ((err, left), c1)" by (metis prod.exhaust)
    define d2 where "d2 = (case left of None \<Rightarrow> d1 | Some b \<Rightarrow> dir_put ?partial (DFile b) d1)"
    have keep2: "map_of d2 x = map_of d1 x" if "x \<noteq> ?partial" for x using that by (auto simp: d2_def split: option.splits)
    have keep: "map_of d2 x = map_of d x" if "\<not> (backupFile x \<and> isPartial x)" for x
      using keep1 [OF that] keep2 [of x] nm(3,4) that by auto
    have untouched: "(\<forall>x. \<not> backupFile x \<longrightarrow> map_of (drop_partial v ?partial d2) x = map_of d x)
      \<and> (\<forall>x. backupFile x \<and> \<not> isPartial x \<longrightarrow> map_of (drop_partial v ?partial d2) x = map_of d x)"
      using keep nm by (auto simp: map_of_drop_partial)
    show ?thesis
    proof (cases err)
      case (Some e)
      with assms(1) p1 n1 vac have "d' = drop_partial v ?partial d2" "isl r" by (auto simp: backup_def Let_def d2_def)
      with untouched show ?thesis by blast
    next
      case n2: None
      obtain e3 d3 where ins: "install v seen ?partial ?bak d2 = (e3, d3)" by (cases "install v seen ?partial ?bak d2")
      have res: "d' = (if e3 = None then d3 else drop_partial v ?partial d3)" "isl r \<longleftrightarrow> e3 \<noteq> None"
        using assms(1) p1 n1 vac n2 ins by (auto simp: backup_def Let_def d2_def split: option.splits)
      from install_shape [OF ins] consider (same) "e3 \<noteq> None" "d3 = d2"
        | (new) f S where "map_of d2 ?partial = Some (DFile f)" "64 \<le> length f" "be32 (take 4 (drop 60 f)) = seen"
          "S \<subseteq> {n. backupFile n \<and> n \<noteq> ?bak}"
          "\<forall>x. map_of d3 x = (if x \<in> S \<or> x = ?partial then None else if x = ?bak then Some (DFile f) else map_of d2 x)"
          "e3 = None \<longrightarrow> S = chosen_names (\<lambda>nm. nm \<noteq> ?bak) (dir_put ?bak (DFile f) (dir_remove ?partial d2))" by auto
      then show ?thesis
      proof cases
        case same
        with res untouched show ?thesis by auto
      next
        case new
        have "left = Some f"
        proof (cases left)
          case None
          then have "map_of d1 ?partial = Some (DFile f)" using new(1) by (simp add: d2_def)
          then have "?partial \<notin> R" "map_of d ?partial = Some (DFile f)" using R(1) by (metis option.distinct(1))+
          then show ?thesis using R(3) n1 nm(3,4) by (auto simp: chosen_names_def dest: map_of_SomeD)
        qed (use new(1) in \<open>simp add: d2_def\<close>)
        then have copy: "complete_copy q dataDir from seen c f" using vac n2 new(2,3) by (simp add: complete_copy_def)
        have d': "map_of d' x = map_of d3 x" for x using res(1) new(5) by (simp add: map_of_drop_partial)
        have bak: "map_of d' ?bak = Some (DFile f)" using d' new(4,5) nm by auto
        have other: "map_of d' x = map_of d x" if "\<not> backupFile x" for x
          using d' new(4,5) nm keep [of x] that by auto
        have only: "x = ?bak" if x: "map_of d' x = Some i" "backupFile x" "i \<noteq> DDir" "e3 = None" for x i
        proof (rule ccontr)
          assume ne: "x \<noteq> ?bak"
          from x(1) d' new(5) have "x \<notin> S" "x \<noteq> ?partial" "map_of d2 x = Some i" using ne by (auto split: if_splits)
          then have "map_of (dir_put ?bak (DFile f) (dir_remove ?partial d2)) x = Some i" using ne by simp
          then have "(x, i) \<in> set (dir_put ?bak (DFile f) (dir_remove ?partial d2))" by (rule map_of_SomeD)
          then have "x \<in> S" unfolding new(6) [rule_format, OF x(4)] chosen_names_def using x(2,3) ne by blast
          with \<open>x \<notin> S\<close> show False by simp
        qed
        have ex: "\<exists>b. complete_copy q dataDir from seen c b \<and> map_of d' ?bak = Some (DFile b)" using copy bak by blast
        show ?thesis by (intro conjI disjI2 ex) (use other only res(2) in blast)+
      qed
    qed
  qed
qed

text \<open>C7. Backups are never mistaken for what they are not. Whatever system call fails: no file of another name is touched, and
  the copy under the backup's own name is either what was there before or a complete copy of the database at the version
  that was read. On an error every older backup is still there, or the new one is complete; on success the new one is the
  only backup file left.\<close>

theorem backup_safe:
  assumes "backup q v dataDir from seen c d = (r, c', d')" and "0 \<le> from"
  shows "(\<forall>nm. \<not> backupFile nm \<longrightarrow> map_of d' nm = map_of d nm)
    \<and> ((\<forall>nm. backupFile nm \<and> \<not> isPartial nm \<longrightarrow> map_of d' nm = map_of d nm) \<and> isl r
       \<or> (\<exists>b. complete_copy q dataDir from seen c b \<and> map_of d' (backup_name from) = Some (DFile b)))
    \<and> (\<not> isl r \<longrightarrow> (\<forall>nm i. map_of d' nm = Some i \<and> backupFile nm \<and> i \<noteq> DDir \<longrightarrow> nm = backup_name from))"
  by (rule backup_files [OF assms])

section \<open>A start\<close>

text \<open>No other process writes to the database while this one starts, and outside a transaction the version read is the committed
  one.\<close>

definition alone :: "'c sqlite \<Rightarrow> ('c \<Rightarrow> 'db) \<Rightarrow> ('c \<Rightarrow> 'db option) \<Rightarrow> ('db \<Rightarrow> int) \<Rightarrow> bool" where
  "alone q committed tx version \<longleftrightarrow>
     (\<forall>c e c'. sq_exec q ''BEGIN IMMEDIATE'' c = (e, c') \<longrightarrow> committed c' = committed c)
     \<and> (\<forall>path c r c'. sq_vacuum q path c = (r, c') \<longrightarrow> committed c' = committed c)
     \<and> (\<forall>c v. tx c = None \<and> sq_version q c = Inr v \<longrightarrow> v = version (committed c))"

lemma alone_laws:
  assumes "alone q committed tx version"
  shows alone_begin: "committed (snd (sq_exec q ''BEGIN IMMEDIATE'' c)) = committed c"
    and alone_vacuum: "sq_vacuum q path c = (r, c') \<Longrightarrow> committed c' = committed c"
    and alone_version: "tx c = None \<Longrightarrow> sq_version q c = Inr v \<Longrightarrow> v = version (committed c)"
  using assms [unfolded alone_def] by - (elim conjE; metis prod.collapse)+

lemma backup_state:
  assumes "backup q v dataDir from seen c d = (r, c', d')"
  shows "c' = c \<or> (\<exists>path x. sq_vacuum q path c = (x, c'))"
proof -
  obtain e1 d1 where p1: "removeBackups (be_list v False) (be_rm v False) isPartial d = (e1, d1)"
    by (cases "removeBackups (be_list v False) (be_rm v False) isPartial d")
  obtain err left c1 where vac: "sq_vacuum q (dataDir @ ''/'' @ backup_name from @ ''.partial'') c = ((err, left), c1)" by (metis prod.exhaust)
  show ?thesis
  proof (cases e1)
    case None
    with assms p1 vac have "c' = c1" by (auto simp: backup_def Let_def split: option.splits prod.splits)
    with vac show ?thesis by blast
  next
    case (Some e)
    with assms p1 show ?thesis by (simp add: backup_def)
  qed
qed

lemma backup_alone:
  assumes "alone q committed tx version" and "sql_transactions q committed tx plain run version" and "backup q v dataDir from seen c d = (r, c', d')"
  shows "committed c' = committed c \<and> tx c' = tx c"
  using backup_state [OF assms(3)] alone_vacuum [OF assms(1)] tx_vacuum [OF assms(2)] by blast

text \<open>An up-to-date database is only read.\<close>

lemma migrate_current:
  assumes "alone q committed tx version" and "tx c = None" and "version (committed c) = SchemaVersion ms"
  shows "snd (migrate q v conn_err (Inr ms) dataDir c d) = (c, d)"
  using alone_version [OF assms(1,2)] assms(3)
  by (cases conn_err; cases "sq_version q c") (auto simp: migrate_def Let_def)

lemma version_number:
  assumes "map mi_version ms = [1..int (length ms)]"
  shows "SchemaVersion ms = int (length ms)" and "filter (\<lambda>m. from < mi_version m) ms = [] \<longleftrightarrow> int (length ms) \<le> from \<or> ms = []"
proof -
  have "mi_version (last ms) = last (map mi_version ms)" if "ms \<noteq> []" using that by (simp add: last_map)
  then show sv: "SchemaVersion ms = int (length ms)" unfolding assms by (cases ms) (auto simp: SchemaVersion_def last_conv_nth)
  have "set (map mi_version ms) = {1..int (length ms)}" unfolding assms by simp
  then have "(\<exists>m\<in>set ms. from < mi_version m) \<longleftrightarrow> (\<exists>v\<in>{1..int (length ms)}. from < v)" by (metis (no_types, lifting) imageE imageI list.set_map)
  also have "\<dots> \<longleftrightarrow> from < int (length ms) \<and> ms \<noteq> []"
  proof
    assume a: "from < int (length ms) \<and> ms \<noteq> []"
    then have "1 \<le> int (length ms)" by (cases ms) auto
    with a show "\<exists>v\<in>{1..int (length ms)}. from < v" by (intro bexI [of _ "int (length ms)"]) auto
  qed auto
  finally show "filter (\<lambda>m. from < mi_version m) ms = [] \<longleftrightarrow> int (length ms) \<le> from \<or> ms = []"
    by (auto simp: filter_empty_conv)
qed


section \<open>Instances\<close>

text \<open>A connection that meets the laws: a database is its version and the statements it has run.\<close>

type_synonym log_db = "int \<times> string list"
type_synonym log_conn = "log_db \<times> log_db option"

definition unstamp :: "string \<Rightarrow> int option" where
  "unstamp s = (if starts_with ''PRAGMA user_version = '' s then atoi (drop 22 s) else None)"

definition log_run :: "string \<Rightarrow> log_db \<Rightarrow> log_db option" where
  "log_run s d = Some (case unstamp s of Some n \<Rightarrow> (n, snd d) | None \<Rightarrow> (fst d, snd d @ [s]))"

definition log_exec :: "string \<Rightarrow> log_conn \<Rightarrow> string option \<times> log_conn" where
  "log_exec s c =
     (if s = ''BEGIN IMMEDIATE'' then (None, (fst c, Some (fst c)))
      else if s = ''ROLLBACK'' then (None, (fst c, None))
      else case snd c of
        None \<Rightarrow> (Some ''no transaction'', c)
      | Some d \<Rightarrow> if s = ''COMMIT'' then (None, (d, None)) else (None, (fst c, log_run s d)))"

definition log_version :: "log_conn \<Rightarrow> int" where
  "log_version c = (case snd c of None \<Rightarrow> fst (fst c) | Some d \<Rightarrow> fst d)"

definition log_sqlite :: "log_conn sqlite" where
  "log_sqlite = \<lparr>sq_exec = log_exec, sq_version = (\<lambda>c. Inr (log_version c)), sq_tables = (\<lambda>nm c. Inr 1), sq_columns = (\<lambda>c. Inr []),
     sq_vacuum = (\<lambda>path c. ((None, Some (replicate 63 (CHR 0x00) @ [char_of (log_version c)])), c)), sq_scratch = Inr ((0, []), None)\<rparr>"

definition log_plain :: "string \<Rightarrow> bool" where
  "log_plain s \<longleftrightarrow> s \<noteq> ''BEGIN IMMEDIATE'' \<and> s \<noteq> ''ROLLBACK'' \<and> s \<noteq> ''COMMIT''"

lemma atoi_itoa: "0 \<le> n \<Longrightarrow> n < 2 ^ 31 \<Longrightarrow> atoi (itoa n) = Some n"
proof -
  assume n: "0 \<le> n" "n < 2 ^ 31"
  then have "atoi_digits (itoa n) = Some n" by (intro atoi_digits_itoa) (auto simp: max_int_def)
  moreover have "list_all is_digit (itoa n)" using n by (simp add: itoa_def nat_str_digits)
  moreover have "\<not> is_digit (CHR ''-'')" "\<not> is_digit (CHR ''+'')" by (simp_all add: is_digit_def)
  ultimately show ?thesis by (cases "itoa n") (auto simp: atoi_def)
qed

lemma unstamp_stamp: "0 \<le> n \<Longrightarrow> n < 2 ^ 31 \<Longrightarrow> unstamp (stamp n) = Some n"
  by (simp add: unstamp_def stamp_def atoi_itoa starts_with_iff)

lemma log_laws: "sql_transactions log_sqlite fst snd log_plain log_run fst"
  unfolding sql_transactions_def
  by (intro conjI) (auto simp: log_sqlite_def log_exec_def log_plain_def log_version_def log_run_def unstamp_stamp split: option.splits)

lemma log_alone: "alone log_sqlite fst snd fst"
  by (auto simp: alone_def log_sqlite_def log_exec_def log_version_def split: option.splits)

lemma log_plain_stamp: "log_plain (stamp n)"
  by (simp add: log_plain_def stamp_def)

definition two_migrations :: "migration list" where
  "two_migrations = [\<lparr>mi_version = 1, mi_name = ''0001_initial.sql'', mi_sql = ''A;''\<rparr>,
     \<lparr>mi_version = 2, mi_name = ''0002_prefix.sql'', mi_sql = ''B;''\<rparr>]"

lemma trim_nothing:
  assumes "list_all (\<lambda>p. \<not> starts_with p s) space_seqs" and "list_all (\<lambda>p. \<not> starts_with p (rev s)) (map rev space_seqs)"
  shows "go_trim_space s = s"
proof -
  have "trim_seqs space_seqs s = s" by (rule trim_seqs_id) (use assms(1) in \<open>simp add: list_all_iff\<close>)
  moreover have "trim_seqs (map rev space_seqs) (rev s) = rev s" by (rule trim_seqs_id) (use assms(2) in \<open>unfold list_all_iff, blast\<close>)
  ultimately show ?thesis by (simp add: go_trim_space_def)
qed

lemma one_statement: "splitStatements ''A;'' = [''A;'']" "splitStatements ''B;'' = [''B;'']"
proof -
  have t: "go_trim_space [] = []" "go_trim_space ''A;'' = ''A;''" "go_trim_space ''B;'' = ''B;''"
    by (rule trim_nothing; simp add: space_seqs_def upt_rec)+
  show "splitStatements ''A;'' = [''A;'']" "splitStatements ''B;'' = [''B;'']"
    by (simp_all add: splitStatements_def newline_def ends_statement_def flush_piece_def onlyComments_def comment_or_blank_def t)
qed

lemma two_plain: "list_all (\<lambda>m. list_all log_plain (splitStatements (mi_sql m))) two_migrations"
  by (simp add: two_migrations_def one_statement log_plain_def)

lemma log_sqlite_simps: "sq_exec log_sqlite = log_exec" "sq_version log_sqlite c = Inr (log_version c)"
  by (simp_all add: log_sqlite_def)

lemmas log_run_simps = log_sqlite_simps log_exec_def log_run_def log_version_def two_migrations_def one_statement apply_plan_def apply_locked_def
  pending_statements_def rolled_back_def unstamp_stamp

lemma log_legacy: "legacy_plain log_sqlite two_migrations log_plain"
proof -
  have "list_all log_plain (splitStatements (mi_sql (hd two_migrations)))" by (simp add: two_migrations_def one_statement log_plain_def)
  moreover have "v1Columns log_sqlite two_migrations = Inr want \<Longrightarrow> want = []" for want
    by (auto simp: v1Columns_def log_sqlite_def split: prod.splits option.splits)
  ultimately show ?thesis by (auto simp: legacy_plain_def legacy_columns_def Let_def)
qed

definition second_plan :: migration_plan where
  "second_plan = \<lparr>pl_seen = 1, pl_legacy = False, pl_pending = tl two_migrations, pl_target = 2\<rparr>"

theorem apply_all_or_nothing_witness:
  "fst (apply_plan log_sqlite two_migrations second_plan ((1, []), None)) = None
    \<and> fst (fst (snd (apply_plan log_sqlite two_migrations second_plan ((1, []), None)))) = 2"
proof -
  have e: "fst (apply_plan log_sqlite two_migrations second_plan ((1, []), None)) = None"
    by (simp add: second_plan_def log_run_simps stamp_def)
  have pl: "list_all log_plain (pending_statements second_plan @ [stamp (pl_target second_plan)])"
    by (simp add: second_plan_def log_run_simps log_plain_stamp) (simp add: log_plain_def)
  have "0 \<le> pl_target second_plan \<and> pl_target second_plan < 2 ^ 31" by (simp add: second_plan_def)
  from apply_all_or_nothing [OF log_laws pl log_legacy _ prod.collapse [symmetric] this, of "((1, []), None)"] e
  show ?thesis by (simp add: second_plan_def)
qed

definition calm_dir :: backup_env where
  "calm_dir = \<lparr>be_list = (\<lambda>b. None), be_rm = (\<lambda>b nm. RmOk), be_rm_partial = RmNotExist, be_sync = None, be_read = None, be_rename = None,
     be_syncDir = None\<rparr>"

definition old_volume :: data_dir where
  "old_volume = [(''gateway.db'', DFile ''jobs''), (''gateway.db.v0.bak'', DFile ''old''), (''notes.bak'', DFile ''mine'')]"

theorem backup_safe_witness:
  "\<not> isl (fst (backup log_sqlite calm_dir ''/data'' 1 1 ((1, []), None) old_volume))
    \<and> map_of (snd (snd (backup log_sqlite calm_dir ''/data'' 1 1 ((1, []), None) old_volume))) ''notes.bak'' = Some (DFile ''mine'')"
proof -
  let ?b = "backup log_sqlite calm_dir ''/data'' 1 1 ((1, []), None) old_volume"
  have e: "\<not> isl (fst ?b)" by code_simp
  have n: "\<not> backupFile ''notes.bak''" "map_of old_volume ''notes.bak'' = Some (DFile ''mine'')" by code_simp+
  have "?b = (fst ?b, fst (snd ?b), snd (snd ?b))" by simp
  from backup_safe [OF this] e n show ?thesis by auto
qed

lemma calm_backup: "\<exists>bak d'. backup log_sqlite calm_dir ''/data'' 1 1 ((1, []), None) old_volume = (Inr bak, ((1, []), None), d')"
proof -
  let ?b = "backup log_sqlite calm_dir ''/data'' 1 1 ((1, []), None) old_volume"
  have "\<not> isl (fst ?b) \<and> fst (snd ?b) = ((1, []), None)" by code_simp
  then show ?thesis by (cases ?b; cases "fst ?b") auto
qed


end
