(* ===== verification/Sync.thy ===== *)
theory Sync
  imports Surface
begin

text \<open>
  The routes that keep nothing: a synchronous analyze through the engine (\<open>internal/surface/sync.go\<close>), and the GETs
  relayed to a container (\<open>passthrough.go\<close>, \<open>upstream/proxy.go\<close>). A handler's reply is \<open>None\<close> when it writes nothing. The
  engine, the HTTP client and \<open>url.Values.Encode\<close> are parameters; what other requests do meanwhile is not part of a
  handler's own change of the state.
\<close>

section \<open>Saving the body\<close>

text \<open>A body is the bytes the client sends and the error its reading ends with, if any; \<open>wr\<close> is how many bytes the file takes.\<close>

record save_env =
  sv_mkdir_err :: "string option"
  sv_create_err :: "string option"
  sv_wr :: "string \<Rightarrow> nat \<times> string option"

definition no_limit :: int where "no_limit = max_int - 1"

definition saveBody :: "save_env \<Rightarrow> string \<Rightarrow> string \<times> string option \<Rightarrow> int \<Rightarrow> files \<Rightarrow> (blob_error + int) \<times> files" where
  "saveBody v path body limit0 fs =
     (let limit = (if limit0 \<le> 0 then no_limit else limit0) in
      case sv_mkdir_err v of
        Some e \<Rightarrow> (Inl (BlobError (''surface: create work folder: '' @ e)), fs)
      | None \<Rightarrow>
          if fs path \<noteq> None then (Inl (BlobError ''surface: create input: file exists''), fs)
          else case sv_create_err v of
            Some e \<Rightarrow> (Inl (BlobError (''surface: create input: '' @ e)), fs)
          | None \<Rightarrow>
              (let data = take (nat (limit + 1)) (fst body) in
               case sv_wr v data of
                 (n, werr) \<Rightarrow>
                   (let fs1 = fs(path \<mapsto> take n data) in
                    case werr of
                      Some e \<Rightarrow> (Inl (BlobError (''surface: read request body: '' @ e)), fs1)
                    | None \<Rightarrow>
                        (case (if int (length (fst body)) \<le> limit then snd body else None) of
                           Some e \<Rightarrow> (Inl (BlobError (''surface: read request body: '' @ e)), fs1)
                         | None \<Rightarrow> if limit < int (length data) then (Inl ErrLimitExceeded, fs1) else (Inr (int (length data)), fs1)))))"

section \<open>The synchronous handler\<close>

text \<open>What the engine returned, with the files it left, from the files it found.\<close>

record sync_env =
  sy_random :: "nat list"
  sy_received :: int
  sy_finished :: int
  sy_workRoot :: string
  sy_body :: "string \<times> string option"
  sy_limit :: int
  sy_save :: save_env
  sy_gone_saving :: bool            \<comment> \<open>the request's context has ended when saving fails\<close>
  sy_run :: "string \<Rightarrow> int \<Rightarrow> files \<Rightarrow> (run_output option \<times> run_error option) \<times> files"
  sy_gone :: bool                   \<comment> \<open>the request's context has ended when the run fails\<close>
  sy_open_err :: "string option"
  sy_rm_fails :: "string \<Rightarrow> bool"   \<comment> \<open>files \<open>os.RemoveAll\<close> cannot remove\<close>

definition writeSyncError :: "bool \<Rightarrow> surface \<Rightarrow> run_error \<Rightarrow> reply option" where
  "writeSyncError gone srf err =
     (case err of
        RunCtx e \<Rightarrow>
          if is_cancel e then
            (if gone then None
             else Some (api_reply (ForStatus srf 504 ''The analysis did not complete in time.'') srf))
          else Some (api_reply (err_Internal srf []) srf)
      | RunApi a \<Rightarrow> Some (api_reply a srf))"

definition writeSyncResult :: "string option \<Rightarrow> int \<Rightarrow> int \<Rightarrow> surface \<Rightarrow> run_output \<Rightarrow> files \<Rightarrow> reply" where
  "writeSyncResult open_err received finished srf out fs =
     (case (open_err, fs (out_Path out)) of
        (None, Some f) \<Rightarrow>
          (let head = (if out_Bare out then [] else result_prefix (unix received) (unix finished));
               tail = (if out_Bare out then [] else ''}'');
               sz = out_End out - out_Start out in
           \<lparr>rp_status = 200,
            rp_headers = hdr_set ''Content-Length'' (itoa (int (length head) + sz + int (length tail)))
              (hdr_set ''Content-Type'' ''application/json; charset=utf-8'' []),
            rp_body = head @ slice f (nat (out_Start out)) (nat (out_End out)) @ tail\<rparr>)
      | (e, f) \<Rightarrow> api_reply (err_Internal srf ''The analysis completed but its result could not be read.'') srf)"

definition under :: "string \<Rightarrow> string \<Rightarrow> bool" where
  "under dir path \<longleftrightarrow> starts_with (dir @ ''/'') path"

definition remove_tree :: "(string \<Rightarrow> bool) \<Rightarrow> string \<Rightarrow> files \<Rightarrow> files" where
  "remove_tree fails dir fs = (\<lambda>path. if under dir path \<and> \<not> fails path then None else fs path)"

definition sync_id :: "sync_env \<Rightarrow> string" where
  "sync_id v = ''sync-'' @ ids_New (sy_random v)"

definition sync_dir :: "sync_env \<Rightarrow> string" where
  "sync_dir v = sy_workRoot v @ ''/'' @ sync_id v"

text \<open>The deferred calls: the folder, the claim, the slot.\<close>

definition sync_leave :: "sync_env \<Rightarrow> string \<Rightarrow> bool \<Rightarrow> mgr \<Rightarrow> files \<Rightarrow> mgr \<times> files" where
  "sync_leave v nm owned m fs =
     (admit_release False nm (track_release owned False (sync_id v) m), remove_tree (sy_rm_fails v) (sync_dir v) fs)"

definition syncAnalyze :: "sync_env \<Rightarrow> surface \<Rightarrow> string \<Rightarrow> mgr \<Rightarrow> files \<Rightarrow> reply option \<times> mgr \<times> files" where
  "syncAnalyze v srf nm m fs =
     (if mg_runners m nm = None then (Some (api_reply (Unrouted srf) srf), m, fs)
      else case Admit nm m of
        Inl e \<Rightarrow> (Some (api_reply (TooBusy srf RetryAfterBusy) srf), m, fs)
      | Inr m1 \<Rightarrow>
          (case Track (sync_id v) m1 of
             (owned, m2) \<Rightarrow>
               (case saveBody (sy_save v) (sync_dir v @ ''/input'') (sy_body v) (sy_limit v) fs of
                  (Inl e, fs1) \<Rightarrow>
                    (if e = ErrLimitExceeded then Some (api_reply (ContentTooLarge srf) srf)
                     else if sy_gone_saving v then None
                     else Some (api_reply (Unavailable srf ''The submitted document could not be stored.'' RetryAfterBusy) srf),
                     sync_leave v nm owned m2 fs1)
                | (Inr n, fs1) \<Rightarrow>
                    (case sy_run v (sync_dir v @ ''/input'') n fs1 of
                       ((out, Some err), fs2) \<Rightarrow> (writeSyncError (sy_gone v) srf err, sync_leave v nm owned m2 fs2)
                     | ((None, None), fs2) \<Rightarrow> (None, sync_leave v nm owned m2 fs2)
                     | ((Some out, None), fs2) \<Rightarrow>
                         (Some (writeSyncResult (sy_open_err v) (sy_received v) (sy_finished v) srf out fs2),
                          sync_leave v nm owned m2 fs2)))))"

section \<open>Relayed GETs\<close>

record proxy_request =
  px_url :: string
  px_headers :: "(string \<times> string) list"

definition ProxyGET :: "base \<Rightarrow> (proxy_request \<Rightarrow> string + container_response) \<Rightarrow> string \<Rightarrow> string \<Rightarrow> string + container_response" where
  "ProxyGET b send path accept =
     (if \<not> starts_with ''/'' path then Inl ''upstream: proxy path does not start with /''
      else send \<lparr>px_url = b_baseURL b @ path,
                 px_headers = (if accept = [] then [] else [(''Accept'', accept)])
                   @ (if b_apiKey b = [] then [] else [(''Ocp-Apim-Subscription-Key'', b_apiKey b)])\<rparr>)"

definition proxyGET :: "(string \<Rightarrow> upstream_body option) \<Rightarrow> base \<Rightarrow> (proxy_request \<Rightarrow> string + container_response) \<Rightarrow> (query \<Rightarrow> string)
    \<Rightarrow> (string \<times> string) list \<Rightarrow> surface \<Rightarrow> string \<Rightarrow> string \<Rightarrow> query \<Rightarrow> string \<Rightarrow> mgr \<Rightarrow> reply \<times> mgr" where
  "proxyGET decode b send encode hs srf nm path q accept m =
     (if mg_runners m nm = None then (reply_over hs (api_reply (Unrouted srf) srf), m)
      else case AdmitMetadata nm m of
        Inl e \<Rightarrow> (reply_over hs (api_reply (TooBusy srf RetryAfterBusy) srf), m)
      | Inr m1 \<Rightarrow>
          (case ProxyGET b send (if q = [] then path else path @ ''?'' @ encode q) accept of
             Inl e \<Rightarrow> reply_over hs (api_reply (err_Internal srf ''The upstream container is unreachable.'') srf)
           | Inr resp \<Rightarrow> relaySync decode hs srf resp,
           metadata_release False nm m1))"

text \<open>The container's own root routes, with the parts the router matched.\<close>

datatype root_route = HomePage | Swagger | SwaggerUnder string | UsageLogs | UsageMonth string string

fun root_path :: "root_route \<Rightarrow> string option" where
  "root_path HomePage = Some ''/''"
| "root_path Swagger = Some ''/swagger''"
| "root_path (SwaggerUnder rest) = Some (swagger_path rest)"
| "root_path UsageLogs = Some ''/records/usage-logs''"
| "root_path (UsageMonth month year) = usage_path month year"

definition registerRoot :: "(string \<Rightarrow> upstream_body option) \<Rightarrow> base \<Rightarrow> (proxy_request \<Rightarrow> string + container_response) \<Rightarrow> (query \<Rightarrow> string)
    \<Rightarrow> (string \<times> string) list \<Rightarrow> surface \<Rightarrow> string \<Rightarrow> root_route \<Rightarrow> query \<Rightarrow> string \<Rightarrow> mgr \<Rightarrow> reply \<times> mgr" where
  "registerRoot decode b send encode hs srf nm r q accept m =
     (case root_path r of
        None \<Rightarrow> (reply_over hs (api_reply (Unrouted srf) srf), m)
      | Some p \<Rightarrow> proxyGET decode b send encode hs srf nm p q accept m)"

section \<open>Nothing is left behind\<close>

lemma save_body_under:
  "saveBody v path body lm fs = (r, fs1) \<Longrightarrow> p \<noteq> path \<Longrightarrow> fs1 p = fs p"
  by (auto simp: saveBody_def Let_def split: option.splits prod.splits if_splits)

lemma save_body_saved:
  assumes "saveBody v path body lm fs = (Inr n, fs1)"
    and io: "\<And>q. snd (sv_wr v q) = None \<Longrightarrow> fst (sv_wr v q) = length q"
    and "int (length (fst body)) < no_limit"
  shows "fs1 path = Some (fst body) \<and> n = int (length (fst body)) \<and> (0 < lm \<longrightarrow> n \<le> lm)"
proof -
  define lim where "lim = (if lm \<le> 0 then no_limit else lm)"
  define data where "data = take (nat (lim + 1)) (fst body)"
  obtain k werr where w: "sv_wr v data = (k, werr)" by force
  have r: "werr = None" "n = int (length data)" "int (length data) \<le> lim" "fs1 = fs(path \<mapsto> take k data)"
    using assms(1) w by (auto simp: saveBody_def Let_def lim_def [symmetric] data_def [symmetric] split: option.splits if_splits)
  have "k = length data" using io [of data] w r(1) by simp
  moreover have "data = fst body" using r(3) by (auto simp: data_def)
  ultimately show ?thesis using r by (auto simp: lim_def)
qed

lemma under_input: "under d (d @ ''/input'')"
  by (auto simp: under_def starts_with_iff)

text \<open>The two halves of a handler's end: the slot and the claim are given back, and the folder is emptied.\<close>

lemma leave_state:
  assumes "Admit nm m = Inr m1" and "Track i m1 = (owned, m2)"
  shows "mg_runners (admit_release False nm (track_release owned False i m2)) = mg_runners m"
    and "mg_claims (admit_release False nm (track_release owned False i m2)) = mg_claims m"
    and "mg_db (admit_release False nm (track_release owned False i m2)) = mg_db m"
    and "mg_tree (admit_release False nm (track_release owned False i m2)) = mg_tree m"
proof -
  let ?x = "track_release owned False i m2"
  have x: "mg_runners ?x = mg_runners m1" "mg_claims ?x = mg_claims m1" "mg_db ?x = mg_db m1" "mg_tree ?x = mg_tree m1"
    using assms(2) by (auto simp: Track_def claim_def track_release_def unclaim_def split: if_splits)
  note a = admit_then_release [OF assms(1)]
  show "mg_runners (admit_release False nm ?x) = mg_runners m" using release_runners_cong(1) [of ?x m1] x(1) a(1) by simp
  show "mg_claims (admit_release False nm ?x) = mg_claims m" using release_runners_cong(2) x(2) a(5) by metis
  show "mg_db (admit_release False nm ?x) = mg_db m" "mg_tree (admit_release False nm ?x) = mg_tree m" using x(3,4) a(3,4) by simp_all
qed

text \<open>C17. A synchronous analyze leaves no trace. However it ends (refused, cut off while its document arrives, failed, timed out
  or answered), the admission slot and the claim it took are given back, no job row and no blob is left, and of the files
  only those of its own folder have changed, and they are gone. (The engine writes in the job's folder alone.)\<close>

theorem sync_leaves_nothing:
  assumes "syncAnalyze v srf nm m fs = (r, m', fs')"
    and "\<And>p n fs1 x. \<not> under (sync_dir v) x \<Longrightarrow> snd (sy_run v p n fs1) x = fs1 x" and "\<And>p. \<not> sy_rm_fails v p"
  shows "mg_runners m' = mg_runners m \<and> mg_claims m' = mg_claims m \<and> mg_db m' = mg_db m \<and> mg_tree m' = mg_tree m
    \<and> (\<forall>x. \<not> under (sync_dir v) x \<longrightarrow> fs' x = fs x) \<and> (fs' = fs \<or> (\<forall>x. under (sync_dir v) x \<longrightarrow> fs' x = None))"
proof (cases "mg_runners m nm = None \<or> isl (Admit nm m)")
  case True
  with assms(1) show ?thesis by (auto simp: syncAnalyze_def split: sum.splits prod.splits if_splits)
next
  case False
  then obtain m1 where adm: "mg_runners m nm \<noteq> None" "Admit nm m = Inr m1" by (cases "Admit nm m") auto
  obtain owned m2 where tr: "Track (sync_id v) m1 = (owned, m2)" by force
  obtain sv fs1 where save: "saveBody (sy_save v) (sync_dir v @ ''/input'') (sy_body v) (sy_limit v) fs = (sv, fs1)" by force
  have f1: "fs1 x = fs x" if "\<not> under (sync_dir v) x" for x using save_body_under [OF save, of x] under_input that by metis
  have "\<exists>fs2. (m', fs') = sync_leave v nm owned m2 fs2 \<and> (\<forall>x. \<not> under (sync_dir v) x \<longrightarrow> fs2 x = fs x)"
  proof (cases sv)
    case (Inl e)
    with assms(1) adm tr save have "(m', fs') = sync_leave v nm owned m2 fs1" by (simp add: syncAnalyze_def)
    with f1 show ?thesis by blast
  next
    case (Inr n)
    obtain out err fs2 where run: "sy_run v (sync_dir v @ ''/input'') n fs1 = ((out, err), fs2)" by (metis prod.exhaust)
    have "(m', fs') = sync_leave v nm owned m2 fs2"
      using assms(1) adm tr save Inr run by (cases err; cases out) (simp_all add: syncAnalyze_def)
    moreover have "fs2 x = fs x" if "\<not> under (sync_dir v) x" for x using assms(2) [OF that, of "sync_dir v @ ''/input''" n fs1] run f1 [OF that] by simp
    ultimately show ?thesis by blast
  qed
  then obtain fs2 where l: "m' = admit_release False nm (track_release owned False (sync_id v) m2)"
    "fs' = remove_tree (sy_rm_fails v) (sync_dir v) fs2" "\<forall>x. \<not> under (sync_dir v) x \<longrightarrow> fs2 x = fs x" by (auto simp: sync_leave_def)
  with leave_state [OF adm(2) tr] assms(3) show ?thesis by (simp add: remove_tree_def)
qed

text \<open>C22. What the client sent is analysed and what the engine answered is served. An admitted request whose body arrives
  whole within the limit gives the engine exactly its bytes; and when the engine returns a range of a file, the reply is a
  200 with that range's bytes, bare or as the result of a completed envelope, and the length it announces.\<close>

theorem sync_serves_answer:
  assumes "Admit nm m = Inr m1" and "sv_mkdir_err (sy_save v) = None" and "sv_create_err (sy_save v) = None"
    and "\<And>q. sv_wr (sy_save v) q = (length q, None)" and "fs (sync_dir v @ ''/input'') = None"
    and "sy_body v = (doc, None)" and "0 < sy_limit v \<and> int (length doc) \<le> sy_limit v"
    and "sy_run v (sync_dir v @ ''/input'') (int (length doc)) (fs(sync_dir v @ ''/input'' \<mapsto> doc)) = ((Some out, None), fs2)"
    and "sy_open_err v = None" and "fs2 (out_Path out) = Some (a @ b @ c)"
    and "out_Start out = int (length a)" and "out_End out = int (length a + length b)"
  shows "\<exists>r. fst (syncAnalyze v srf nm m fs) = Some r \<and> rp_status r = 200
    \<and> rp_body r = (if out_Bare out then b else result_prefix (unix (sy_received v)) (unix (sy_finished v)) @ b @ ''}'')
    \<and> hdr_get ''Content-Length'' (rp_headers r) = Some (itoa (int (length (rp_body r))))"
proof -
  obtain q where runner: "mg_runners m nm = Some q" using assms(1) by (auto simp: Admit_def split: option.splits)
  obtain owned m2 where tr: "Track (sync_id v) m1 = (owned, m2)" by force
  let ?in = "sync_dir v @ ''/input''"
  have fits: "length doc \<le> nat (sy_limit v + 1)" using assms(7) by linarith
  have save: "saveBody (sy_save v) ?in (sy_body v) (sy_limit v) fs = (Inr (int (length doc)), fs(?in \<mapsto> doc))"
    using assms(2-7) fits by (simp add: saveBody_def Let_def min_absorb1)
  have "fst (syncAnalyze v srf nm m fs) = Some (writeSyncResult None (sy_received v) (sy_finished v) srf out fs2)"
    using runner assms(1,8,9) tr save by (simp add: syncAnalyze_def)
  moreover have "slice (a @ b @ c) (length a) (length a + length b) = b" by (simp add: slice_def)
  ultimately show ?thesis using assms(10-12) by (auto simp: writeSyncResult_def Let_def hdr_get_def hdr_set_def nat_add_distrib add.assoc)
qed

definition sync_out :: run_output where
  "sync_out = \<lparr>out_Path = ''/w/sync-'' @ ids_New (replicate 16 0) @ ''/out'', out_Start = 1, out_End = 3, out_Bare = False,
     out_Attempts = 1, out_Parts = 1, out_Halvings = 0, out_Hedges = 0, out_Fallback = [], out_UpstreamStatus = 200\<rparr>"

definition sync_demo :: sync_env where
  "sync_demo = \<lparr>sy_random = replicate 16 0, sy_received = 0, sy_finished = 1000000000, sy_workRoot = ''/w'', sy_body = (''%PDF'', None),
     sy_limit = 10, sy_save = \<lparr>sv_mkdir_err = None, sv_create_err = None, sv_wr = (\<lambda>q. (length q, None))\<rparr>, sy_gone_saving = False,
     sy_run = (\<lambda>p n fs. ((Some sync_out, None), fs(out_Path sync_out \<mapsto> '' {}''))), sy_gone = False, sy_open_err = None,
     sy_rm_fails = (\<lambda>p. False)\<rparr>"

theorem sync_leaves_nothing_witness:
  "mg_runners (fst (snd (syncAnalyze sync_demo SurfaceDI ''di'' demo_gate Map.empty))) ''di'' = mg_runners demo_gate ''di''
    \<and> snd (snd (syncAnalyze sync_demo SurfaceDI ''di'' demo_gate Map.empty)) ''/etc/hosts'' = None"
proof -
  let ?r = "syncAnalyze sync_demo SurfaceDI ''di'' demo_gate Map.empty"
  have e: "?r = (fst ?r, fst (snd ?r), snd (snd ?r))" by simp
  have u: "under (sync_dir sync_demo) (out_Path sync_out)" by (auto simp: under_def sync_dir_def sync_id_def sync_demo_def sync_out_def starts_with_iff)
  have "\<not> under (sync_dir sync_demo) ''/etc/hosts''" by (simp add: under_def sync_dir_def sync_demo_def)
  moreover have "\<not> under (sync_dir sync_demo) x \<Longrightarrow> snd (sy_run sync_demo p n fs1) x = fs1 x" for p n fs1 x
    using u by (auto simp: sync_demo_def)
  ultimately show ?thesis using sync_leaves_nothing [OF e] by (auto simp: sync_demo_def)
qed

theorem sync_serves_answer_witness:
  "\<exists>r. fst (syncAnalyze sync_demo SurfaceDI ''di'' demo_gate Map.empty) = Some r \<and> rp_status r = 200
    \<and> rp_body r = result_prefix 0 1 @ ''{}'' @ ''}''"
proof -
  obtain m1 where adm: "Admit ''di'' demo_gate = Inr m1" by (auto simp: Admit_def demo_gate_def try_send_def)
  let ?fs = "(\<lambda>x. None)(sync_dir sync_demo @ ''/input'' \<mapsto> ''%PDF'', out_Path sync_out \<mapsto> '' {}'')"
  have "sy_run sync_demo (sync_dir sync_demo @ ''/input'') (int (length ''%PDF'')) (Map.empty(sync_dir sync_demo @ ''/input'' \<mapsto> ''%PDF''))
      = ((Some sync_out, None), ?fs)" by (simp add: sync_demo_def)
  from sync_serves_answer [OF adm _ _ _ _ _ _ this, of "'' ''" "''{}''" "[]" SurfaceDI]
  show ?thesis by (auto simp: sync_demo_def sync_out_def unix_def)
qed

section \<open>Where a relayed request goes\<close>

text \<open>The authority of a URL: what is between the scheme and the path, query or fragment.\<close>

fun after_scheme :: "string \<Rightarrow> string" where
  "after_scheme [] = []"
| "after_scheme (c # s) = (if starts_with ''://'' (c # s) then drop 3 (c # s) else after_scheme s)"

definition url_authority :: "string \<Rightarrow> string" where
  "url_authority u = takeWhile (\<lambda>c. c \<noteq> CHR ''/'' \<and> c \<noteq> CHR ''?'' \<and> c \<noteq> CHR ''#'') (after_scheme u)"

lemma after_scheme_colon: "CHR '':'' \<notin> set scheme \<Longrightarrow> after_scheme (scheme @ ''://'' @ r) = r"
  by (induction scheme) auto

lemma authority_of:
  assumes "CHR '':'' \<notin> set scheme" and "list_all (\<lambda>c. c \<noteq> CHR ''/'' \<and> c \<noteq> CHR ''?'' \<and> c \<noteq> CHR ''#'') auth"
  shows "url_authority (scheme @ ''://'' @ auth @ CHR ''/'' # r) = auth"
  unfolding url_authority_def after_scheme_colon [OF assms(1)] using assms(2) by (simp add: takeWhile_tail list_all_iff)

lemma root_path_slash: "root_path r = Some p \<Longrightarrow> starts_with ''/'' p"
  by (cases r) (auto simp: swagger_path_def usage_path_def split: if_splits)

lemma metadata_then_release:
  assumes "AdmitMetadata s m = Inr m1"
  shows "mg_runners (metadata_release False s m1) = mg_runners m \<and> mg_claims (metadata_release False s m1) = mg_claims m
    \<and> mg_db (metadata_release False s m1) = mg_db m \<and> mg_tree (metadata_release False s m1) = mg_tree m"
  using assms
  by (auto simp: AdmitMetadata_def metadata_release_def try_send_def recv_def set_runner_def fun_upd_idem split: option.splits if_splits)



end
