(* ===== verification/Config.thy ===== *)
theory Config
  imports Jobs Httpx Sched
begin

text \<open>
  The configuration (\<open>internal/config/config.go\<close>): reading the environment, its validation, the warnings and the redacted
  view, and the pools \<open>cmd/gateway/main.go\<close> and \<open>app.NewEngines\<close> size with it. \<open>url.Parse\<close>,
  \<open>time.ParseDuration\<close> and \<open>strconv.ParseFloat\<close> are parameters, as the environment is; durations are nanoseconds, and
  \<open>ToLower\<close> is that of ASCII. An error is its text, without the cause it wraps and the
  values printed into it.
\<close>

section \<open>The environment\<close>

text \<open>A \<open>float64\<close> as the checks see it: NaN compares as false with every number.\<close>

datatype go_float = NaN | PosInf | NegInf | Fin real

fun float_le :: "go_float \<Rightarrow> go_float \<Rightarrow> bool" where
  "float_le NaN y = False"
| "float_le x NaN = False"
| "float_le NegInf y = True"
| "float_le x PosInf = True"
| "float_le (Fin a) (Fin b) = (a \<le> b)"
| "float_le x y = False"

definition float_less :: "go_float \<Rightarrow> go_float \<Rightarrow> bool" where
  "float_less x y \<longleftrightarrow> float_le x y \<and> x \<noteq> y"

text \<open>What \<open>url.Parse\<close> gives: \<open>ur_User\<close> says whether there is userinfo, \<open>ur_Redacted\<close> is \<open>URL.Redacted\<close>.\<close>

record url_parts =
  ur_Scheme :: string
  ur_Host :: string
  ur_Hostname :: string
  ur_Path :: string
  ur_RawQuery :: string
  ur_Fragment :: string
  ur_User :: bool
  ur_Redacted :: string

record env_io =
  ev_lookup :: "string \<Rightarrow> string option"
  ev_url :: "string \<Rightarrow> url_parts option"
  ev_duration :: "string \<Rightarrow> int option"
  ev_float :: "string \<Rightarrow> go_float option"

definition env :: "env_io \<Rightarrow> string \<Rightarrow> string \<Rightarrow> string" where
  "env io key dflt = (case ev_lookup io key of None \<Rightarrow> dflt | Some v \<Rightarrow> if v \<noteq> [] then v else dflt)"

text \<open>The four typed readers differ in the parser and the noun of the error.\<close>

definition env_value :: "(string \<Rightarrow> 'a option) \<Rightarrow> string \<Rightarrow> env_io \<Rightarrow> string \<Rightarrow> 'a \<Rightarrow> 'a \<times> string option" where
  "env_value parse noun io key dflt =
     (case ev_lookup io key of
        None \<Rightarrow> (dflt, None)
      | Some v \<Rightarrow>
          if v = [] then (dflt, None)
          else case parse (go_trim_space v) of
            None \<Rightarrow> (dflt, Some (key @ '' is not a valid '' @ noun))
          | Some x \<Rightarrow> (x, None))"

definition envInt :: "env_io \<Rightarrow> string \<Rightarrow> int \<Rightarrow> int \<times> string option" where
  "envInt = env_value atoi ''integer''"

definition envInt64 :: "env_io \<Rightarrow> string \<Rightarrow> int \<Rightarrow> int \<times> string option" where
  "envInt64 = env_value atoi ''integer''"

definition envFloat :: "env_io \<Rightarrow> string \<Rightarrow> go_float \<Rightarrow> go_float \<times> string option" where
  "envFloat io = env_value (ev_float io) ''number'' io"

definition envDuration :: "env_io \<Rightarrow> string \<Rightarrow> int \<Rightarrow> int \<times> string option" where
  "envDuration io = env_value (ev_duration io) ''duration'' io"

section \<open>The configuration\<close>

record upstream_conf =
  uc_BaseURL :: string
  uc_APIKey :: string
  uc_MaxInflight :: int
  uc_Timeout :: int

definition Enabled :: "upstream_conf \<Rightarrow> bool" where
  "Enabled u \<longleftrightarrow> uc_BaseURL u \<noteq> []"

record config =
  cf_Addr :: string
  cf_PublicBaseURL :: string
  cf_DataDir :: string
  cf_DI :: upstream_conf
  cf_Read :: upstream_conf
  cf_QueueDepth :: int
  cf_SplitPages :: int
  cf_UploadTimeout :: int
  cf_ResultTTL :: int
  cf_GCInterval :: int
  cf_DiskHighWatermark :: go_float
  cf_MaxRequestBytes :: int
  cf_MaxResultBytes :: int
  cf_ShutdownGrace :: int
  cf_LogLevel :: string
  cf_LogFormat :: string
  cf_removedSet :: "string list"

definition removedSettings :: "string list" where
  "removedSettings = [''ERROR_COMPAT'', ''TRUST_FORWARDED_HEADERS'', ''TRUSTED_FORWARDED_HOSTS'', ''ALLOW_NETWORK_FS'',
     ''POLL_RETRY_AFTER'', ''BUSY_RETRY_AFTER'', ''DI_SYNC_ANALYZE'', ''DI_SYNC_PROBE_TIMEOUT'', ''DI_BLIND_POLL_BUDGET'',
     ''READ_BLIND_POLL_BUDGET'', ''ARTIFACT_FETCH_TIMEOUT'']"

definition second :: int where "second = 1000000000"
definition minute :: int where "minute = 60 * second"
definition hour :: int where "hour = 60 * minute"

definition opt_list :: "'a option \<Rightarrow> 'a list" where
  "opt_list x = (case x of None \<Rightarrow> [] | Some a \<Rightarrow> [a])"

text \<open>The values read, with the errors of those that do not parse, in the order of the source.\<close>

definition read_config :: "env_io \<Rightarrow> config \<times> string list" where
  "read_config io =
     (let di_url = trim_right (CHR ''/'') (env io ''DI_UPSTREAM_URL'' []);
          read_url = trim_right (CHR ''/'') (env io ''READ_UPSTREAM_URL'' []);
          depth = envInt io ''QUEUE_DEPTH'' 0;
          pages = envInt io ''SPLIT_PAGES'' 5;
          mark = envFloat io ''DISK_HIGH_WATERMARK'' (Fin (9 / 10));
          req = envInt64 io ''MAX_REQUEST_BYTES'' (500 * 1024 * 1024);
          res = envInt64 io ''MAX_RESULT_BYTES'' (512 * 1024 * 1024);
          di_n = envInt io ''DI_MAX_INFLIGHT'' 4;
          read_n = envInt io ''READ_MAX_INFLIGHT'' 4;
          ttl = envDuration io ''RESULT_TTL'' (24 * hour);
          gc = envDuration io ''GC_INTERVAL'' (5 * minute);
          upl = envDuration io ''UPLOAD_TIMEOUT'' (10 * minute);
          di_t = envDuration io ''DI_UPSTREAM_TIMEOUT'' (15 * minute);
          read_t = envDuration io ''READ_SYNC_TIMEOUT'' (10 * minute);
          grace = envDuration io ''SHUTDOWN_GRACE'' (30 * second) in
      (\<lparr>cf_Addr = env io ''GATEWAY_ADDR'' '':8080'',
        cf_PublicBaseURL = trim_right (CHR ''/'') (env io ''PUBLIC_BASE_URL'' []),
        cf_DataDir = env io ''DATA_DIR'' ''/data'',
        cf_DI = \<lparr>uc_BaseURL = di_url, uc_APIKey = env io ''DI_UPSTREAM_API_KEY'' [], uc_MaxInflight = fst di_n,
                 uc_Timeout = fst di_t\<rparr>,
        cf_Read = \<lparr>uc_BaseURL = read_url, uc_APIKey = env io ''READ_UPSTREAM_API_KEY'' [], uc_MaxInflight = fst read_n,
                   uc_Timeout = fst read_t\<rparr>,
        cf_QueueDepth = fst depth, cf_SplitPages = fst pages, cf_UploadTimeout = fst upl, cf_ResultTTL = fst ttl,
        cf_GCInterval = fst gc, cf_DiskHighWatermark = fst mark, cf_MaxRequestBytes = fst req,
        cf_MaxResultBytes = fst res, cf_ShutdownGrace = fst grace,
        cf_LogLevel = go_lower (env io ''LOG_LEVEL'' ''info''), cf_LogFormat = go_lower (env io ''LOG_FORMAT'' ''json''),
        cf_removedSet = filter (\<lambda>nm. env io nm [] \<noteq> []) removedSettings\<rparr>,
       concat (map opt_list
         [snd depth, snd pages, snd mark, snd req, snd res,
          (if di_url \<noteq> [] then snd di_n else None), (if read_url \<noteq> [] then snd read_n else None),
          snd ttl, snd gc, snd upl,
          (if di_url \<noteq> [] then snd di_t else None), (if read_url \<noteq> [] then snd read_t else None), snd grace])))"

definition validateUpstream :: "env_io \<Rightarrow> string \<Rightarrow> upstream_conf \<Rightarrow> string option" where
  "validateUpstream io nm u =
     (case ev_url io (uc_BaseURL u) of
        None \<Rightarrow> Some (nm @ ''_UPSTREAM_URL is not a valid URL'')
      | Some p \<Rightarrow>
          if ur_Scheme p \<noteq> ''http'' \<and> ur_Scheme p \<noteq> ''https'' then Some (nm @ ''_UPSTREAM_URL must use http or https'')
          else if ur_Host p = [] then Some (nm @ ''_UPSTREAM_URL must include a host'')
          else if uc_MaxInflight u < 1 then Some (nm @ ''_MAX_INFLIGHT must be at least 1'')
          else if uc_Timeout u < 0 then Some (nm @ '' upstream timeout must not be negative'')
          else None)"

definition public_url_error :: "env_io \<Rightarrow> string \<Rightarrow> string option" where
  "public_url_error io raw =
     (if raw = [] then None
      else case ev_url io raw of
        None \<Rightarrow> Some ''PUBLIC_BASE_URL must be an absolute URL with scheme and host''
      | Some u \<Rightarrow>
          if ur_Scheme u = [] \<or> ur_Host u = [] then Some ''PUBLIC_BASE_URL must be an absolute URL with scheme and host''
          else if ur_Path u \<noteq> [] \<or> ur_RawQuery u \<noteq> [] \<or> ur_Fragment u \<noteq> [] then
            Some ''PUBLIC_BASE_URL must be scheme and host only, with no path, query or fragment''
          else None)"

definition config_errors :: "env_io \<Rightarrow> config \<Rightarrow> string list" where
  "config_errors io c =
     concat (map opt_list
       [(if \<not> Enabled (cf_DI c) \<and> \<not> Enabled (cf_Read c) then
           Some ''at least one of DI_UPSTREAM_URL and READ_UPSTREAM_URL must be set'' else None),
        (if Enabled (cf_DI c) then validateUpstream io ''DI'' (cf_DI c) else None),
        (if Enabled (cf_Read c) then validateUpstream io ''READ'' (cf_Read c) else None),
        public_url_error io (cf_PublicBaseURL c),
        (if cf_DataDir c = [] then Some ''DATA_DIR must be set'' else None),
        (if cf_QueueDepth c < 0 then Some ''QUEUE_DEPTH must not be negative'' else None),
        (if cf_SplitPages c < 0 then Some ''SPLIT_PAGES must not be negative'' else None),
        (if float_le (cf_DiskHighWatermark c) (Fin 0) \<or> float_less (Fin 1) (cf_DiskHighWatermark c) then
           Some ''DISK_HIGH_WATERMARK must be in (0,1]'' else None),
        (if cf_MaxRequestBytes c \<le> 0 then Some ''MAX_REQUEST_BYTES must be positive'' else None),
        (if cf_MaxResultBytes c \<le> 0 then Some ''MAX_RESULT_BYTES must be positive'' else None),
        (if cf_ResultTTL c \<le> 0 then Some ''RESULT_TTL must be positive'' else None),
        (if cf_GCInterval c \<le> 0 then Some ''GC_INTERVAL must be positive'' else None),
        (if cf_UploadTimeout c \<le> 0 then Some ''UPLOAD_TIMEOUT must be positive'' else None)])"

definition Load :: "env_io \<Rightarrow> string list + config" where
  "Load io =
     (case read_config io of
        (c, errs) \<Rightarrow> (let all_errs = errs @ config_errors io c in if all_errs \<noteq> [] then Inl all_errs else Inr c))"

section \<open>Warnings and the redacted view\<close>

definition ErrReadHostContainsVision :: string where
  "ErrReadHostContainsVision =
     ''READ_UPSTREAM_URL host contains '' @ [CHR 0x22] @ ''vision'' @ [CHR 0x22] @ '', which triggers a container bug that corrupts its ''
     @ ''own Operation-Location header (port and /vision segment are stripped). The gateway does ''
     @ ''not follow that header so it still works, but rename the upstream service to avoid ''
     @ ''confusing anyone who calls the container directly''"

definition Warnings :: "env_io \<Rightarrow> config \<Rightarrow> string list" where
  "Warnings io c =
     map (\<lambda>nm. nm @ '' is no longer used'') (cf_removedSet c)
     @ (case ev_url io (uc_BaseURL (cf_Read c)) of
          None \<Rightarrow> []
        | Some u \<Rightarrow> if ur_Host u \<noteq> [] \<and> go_contains ''vision'' (go_lower (ur_Hostname u))
                    then [ErrReadHostContainsVision] else [])
     @ (if Enabled (cf_DI c) \<and> uc_APIKey (cf_DI c) = [] then
          [''DI_UPSTREAM_API_KEY is empty; upstream calls will be unauthenticated''] else [])
     @ (if Enabled (cf_Read c) \<and> uc_APIKey (cf_Read c) = [] then
          [''READ_UPSTREAM_API_KEY is empty; upstream calls will be unauthenticated''] else [])
     @ (if cf_PublicBaseURL c = [] then
          [''PUBLIC_BASE_URL is unset; Operation-Location will be derived from the request Host header, which any caller can set. Set PUBLIC_BASE_URL'']
        else [])"

definition SafeURL :: "env_io \<Rightarrow> string \<Rightarrow> string" where
  "SafeURL io raw =
     (case ev_url io raw of None \<Rightarrow> raw | Some u \<Rightarrow> if ur_User u then ur_Redacted u else raw)"

definition redact :: "string \<Rightarrow> string" where
  "redact s = (if s = [] then [] else ''***'')"

definition inflight :: "upstream_conf \<Rightarrow> int" where
  "inflight u = (if \<not> Enabled u then 0 else uc_MaxInflight u)"

text \<open>The values of the view; durations are given as such.\<close>

datatype view_value = VStr string | VInt int | VBool bool | VFloat go_float | VDuration int

definition Redacted :: "env_io \<Rightarrow> config \<Rightarrow> (string \<times> view_value) list" where
  "Redacted io c =
     [(''addr'', VStr (cf_Addr c)), (''publicBaseUrl'', VStr (cf_PublicBaseURL c)), (''dataDir'', VStr (cf_DataDir c)),
      (''splitPages'', VInt (cf_SplitPages c)),
      (''diEnabled'', VBool (Enabled (cf_DI c))), (''diUpstreamUrl'', VStr (SafeURL io (uc_BaseURL (cf_DI c)))),
      (''diUpstreamApiKey'', VStr (redact (uc_APIKey (cf_DI c)))), (''diMaxInflight'', VInt (inflight (cf_DI c))),
      (''diUpstreamTimeout'', VDuration (uc_Timeout (cf_DI c))),
      (''readEnabled'', VBool (Enabled (cf_Read c))), (''readUpstreamUrl'', VStr (SafeURL io (uc_BaseURL (cf_Read c)))),
      (''readUpstreamApiKey'', VStr (redact (uc_APIKey (cf_Read c)))), (''readMaxInflight'', VInt (inflight (cf_Read c))),
      (''readSyncTimeout'', VDuration (uc_Timeout (cf_Read c))),
      (''queueDepth'', VInt (cf_QueueDepth c)), (''resultTtl'', VDuration (cf_ResultTTL c)),
      (''gcInterval'', VDuration (cf_GCInterval c)), (''diskHighWatermark'', VFloat (cf_DiskHighWatermark c)),
      (''maxRequestBytes'', VInt (cf_MaxRequestBytes c)), (''maxResultBytes'', VInt (cf_MaxResultBytes c)),
      (''uploadTimeout'', VDuration (cf_UploadTimeout c)), (''shutdownGrace'', VDuration (cf_ShutdownGrace c)),
      (''logLevel'', VStr (cf_LogLevel c)), (''logFormat'', VStr (cf_LogFormat c))]"

section \<open>What is built from it\<close>

text \<open>\<open>app.NewEngines\<close> gives a configured surface a scheduler of \<open>MaxInflight\<close> slots; the manager gets a runner for it.\<close>

definition engine_sched :: "upstream_conf \<Rightarrow> sched option" where
  "engine_sched u = (if Enabled u then Some (New (uc_MaxInflight u)) else None)"

definition runner_limit :: "upstream_conf \<Rightarrow> int option" where
  "runner_limit u = (if Enabled u then Some (uc_MaxInflight u) else None)"

definition serve_manager :: "config \<Rightarrow> db \<Rightarrow> blob_file list \<Rightarrow> mgr option" where
  "serve_manager c d t = mgr_New (runner_limit (cf_DI c)) (runner_limit (cf_Read c)) (cf_QueueDepth c) d t"

section \<open>What validation promises\<close>

text \<open>The value of a setting: the default when the variable is unset or empty, otherwise what it parses as.\<close>

definition setting_is :: "(string \<Rightarrow> 'a option) \<Rightarrow> env_io \<Rightarrow> string \<Rightarrow> 'a \<Rightarrow> 'a \<Rightarrow> bool" where
  "setting_is parse io key dflt x \<longleftrightarrow>
     (case ev_lookup io key of
        None \<Rightarrow> x = dflt
      | Some v \<Rightarrow> if v = [] then x = dflt else parse (go_trim_space v) = Some x)"

lemma env_value_setting: "snd (env_value parse noun io key dflt) = None \<Longrightarrow> setting_is parse io key dflt (fst (env_value parse noun io key dflt))"
  by (auto simp: env_value_def setting_is_def split: option.splits if_splits)

lemma opt_list_empty [simp]: "opt_list x = [] \<longleftrightarrow> x = None"
  by (cases x) (simp_all add: opt_list_def)

definition upstream_ok :: "env_io \<Rightarrow> upstream_conf \<Rightarrow> bool" where
  "upstream_ok io u \<longleftrightarrow>
     (\<exists>p. ev_url io (uc_BaseURL u) = Some p \<and> ur_Scheme p \<in> {''http'', ''https''} \<and> ur_Host p \<noteq> [])
     \<and> 1 \<le> uc_MaxInflight u \<and> 0 \<le> uc_Timeout u"

lemma validate_upstream_ok: "validateUpstream io nm u = None \<longleftrightarrow> upstream_ok io u"
  by (cases "ev_url io (uc_BaseURL u)") (auto simp: validateUpstream_def upstream_ok_def)

lemma load_inversion:
  "Load io = Inr c \<longleftrightarrow> c = fst (read_config io) \<and> snd (read_config io) = [] \<and> config_errors io c = []"
  by (auto simp: Load_def Let_def split: prod.splits if_splits)

lemma read_config_settings:
  assumes "snd (read_config io) = []" and "c = fst (read_config io)"
  shows "setting_is atoi io ''QUEUE_DEPTH'' 0 (cf_QueueDepth c)"
    and "setting_is atoi io ''SPLIT_PAGES'' 5 (cf_SplitPages c)"
    and "setting_is (ev_float io) io ''DISK_HIGH_WATERMARK'' (Fin (9 / 10)) (cf_DiskHighWatermark c)"
    and "setting_is atoi io ''MAX_REQUEST_BYTES'' 524288000 (cf_MaxRequestBytes c)"
    and "setting_is atoi io ''MAX_RESULT_BYTES'' 536870912 (cf_MaxResultBytes c)"
    and "Enabled (cf_DI c) \<Longrightarrow> setting_is atoi io ''DI_MAX_INFLIGHT'' 4 (uc_MaxInflight (cf_DI c))"
    and "Enabled (cf_Read c) \<Longrightarrow> setting_is atoi io ''READ_MAX_INFLIGHT'' 4 (uc_MaxInflight (cf_Read c))"
    and "setting_is (ev_duration io) io ''RESULT_TTL'' (24 * hour) (cf_ResultTTL c)"
    and "setting_is (ev_duration io) io ''GC_INTERVAL'' (5 * minute) (cf_GCInterval c)"
    and "setting_is (ev_duration io) io ''UPLOAD_TIMEOUT'' (10 * minute) (cf_UploadTimeout c)"
    and "Enabled (cf_DI c) \<Longrightarrow> setting_is (ev_duration io) io ''DI_UPSTREAM_TIMEOUT'' (15 * minute) (uc_Timeout (cf_DI c))"
    and "Enabled (cf_Read c) \<Longrightarrow> setting_is (ev_duration io) io ''READ_SYNC_TIMEOUT'' (10 * minute) (uc_Timeout (cf_Read c))"
    and "setting_is (ev_duration io) io ''SHUTDOWN_GRACE'' (30 * second) (cf_ShutdownGrace c)"
  using assms(1) env_value_setting
  by (auto simp: assms(2) read_config_def Let_def Enabled_def envInt_def envInt64_def envFloat_def envDuration_def split: if_splits)

definition sized_runner :: "surface \<Rightarrow> int \<Rightarrow> int \<Rightarrow> runner" where
  "sized_runner srf n depth =
     \<lparr>rn_surface = srf, rn_admits = \<lparr>ch_cap = nat (n + depth), ch_len = 0\<rparr>, rn_queue = [],
      rn_qcap = nat (n + depth), rn_workers = nat n, rn_metadata = \<lparr>ch_cap = 4, ch_len = 0\<rparr>\<rparr>"

lemma add_runner_sized:
  assumes "Enabled u \<Longrightarrow> 1 \<le> uc_MaxInflight u" and "0 \<le> depth"
  shows "add_runner nm srf (runner_limit u) depth m
    = Some (if Enabled u then set_runner nm (sized_runner srf (uc_MaxInflight u) depth) m else m)"
  using assms by (cases "Enabled u") (simp_all add: add_runner_def runner_limit_def newRunner_def sized_runner_def Let_def)

lemma serve_manager_runners:
  assumes "Enabled (cf_DI c) \<Longrightarrow> 1 \<le> uc_MaxInflight (cf_DI c)" and "Enabled (cf_Read c) \<Longrightarrow> 1 \<le> uc_MaxInflight (cf_Read c)"
    and "0 \<le> cf_QueueDepth c"
  shows "\<exists>m. serve_manager c d t = Some m
    \<and> mg_runners m SurfaceDI_name
        = (if Enabled (cf_DI c) then Some (sized_runner SurfaceDI (uc_MaxInflight (cf_DI c)) (cf_QueueDepth c)) else None)
    \<and> mg_runners m SurfaceRead_name
        = (if Enabled (cf_Read c) then Some (sized_runner SurfaceRead (uc_MaxInflight (cf_Read c)) (cf_QueueDepth c)) else None)"
  by (simp add: serve_manager_def mgr_New_def add_runner_sized assms set_runner_def SurfaceDI_name_def SurfaceRead_name_def)

lemma sized_runner_pools:
  assumes "1 \<le> uc_MaxInflight u" and "0 \<le> depth" and "Enabled u"
  shows "int (rn_workers (sized_runner srf (uc_MaxInflight u) depth)) = uc_MaxInflight u
    \<and> int (ch_cap (rn_admits (sized_runner srf (uc_MaxInflight u) depth))) = uc_MaxInflight u + depth
    \<and> int (rn_qcap (sized_runner srf (uc_MaxInflight u) depth)) = uc_MaxInflight u + depth
    \<and> engine_sched u = Some (New (uc_MaxInflight u)) \<and> Sched.limit (New (uc_MaxInflight u)) = uc_MaxInflight u"
  using assms by (simp add: sized_runner_def engine_sched_def New_def)



section \<open>Instances\<close>

text \<open>A volume with one variable set beside the address, and a parser of addresses that accepts all.\<close>

definition demo_env :: "string \<Rightarrow> string \<Rightarrow> env_io" where
  "demo_env key v =
     \<lparr>ev_lookup = (\<lambda>x. if x = ''DI_UPSTREAM_URL'' then Some ''http://di:5000/'' else if x = key then Some v else None),
      ev_url = (\<lambda>x. Some \<lparr>ur_Scheme = ''http'', ur_Host = ''di:5000'', ur_Hostname = ''di'', ur_Path = [], ur_RawQuery = [],
        ur_Fragment = [], ur_User = False, ur_Redacted = x\<rparr>),
      ev_duration = (\<lambda>x. None), ev_float = (\<lambda>x. if x = ''NaN'' then Some NaN else None)\<rparr>"

lemma trim_space_letters:
  assumes "s \<noteq> []" and "\<And>p. p \<in> set space_seqs \<Longrightarrow> hd p \<noteq> hd s" and "\<And>p. p \<in> set space_seqs \<Longrightarrow> last p \<noteq> last s"
  shows "go_trim_space s = s"
proof -
  have a: "\<not> starts_with p s" if "p \<in> set space_seqs" "p \<noteq> []" for p
    using assms(1) assms(2) [OF that(1)] that(2) by (cases p; cases s) (auto simp: starts_with_iff)
  have b: "\<not> starts_with (rev p) (rev s)" if "p \<in> set space_seqs" "p \<noteq> []" for p
  proof -
    have "hd (rev p) \<noteq> hd (rev s)" using assms(3) [OF that(1)] by (simp add: hd_rev)
    then show ?thesis using that(2) assms(1) by (cases "rev p"; cases "rev s") (auto simp: starts_with_iff)
  qed
  have "trim_seqs space_seqs s = s" by (rule trim_seqs_id) (rule a)
  moreover have "trim_seqs (map rev space_seqs) (rev s) = rev s" by (rule trim_seqs_id) (use b in auto)
  ultimately show ?thesis by (simp add: go_trim_space_def)
qed

lemma trim_nan: "go_trim_space ''NaN'' = ''NaN''"
proof -
  have "list_all (\<lambda>p. hd p \<noteq> CHR ''N'' \<and> last p \<noteq> CHR ''N'') space_seqs" by code_simp
  then show ?thesis by (intro trim_space_letters) (auto simp: list_all_iff)
qed

lemma demo_env_loads:
  assumes "v \<noteq> []" and "ev_float (demo_env ''DISK_HIGH_WATERMARK'' v) (go_trim_space v) = Some x"
    and "\<not> float_le x (Fin 0)" and "\<not> float_less (Fin 1) x"
  shows "\<exists>c. Load (demo_env ''DISK_HIGH_WATERMARK'' v) = Inr c \<and> cf_DiskHighWatermark c = x"
proof -
  let ?io = "demo_env ''DISK_HIGH_WATERMARK'' v"
  have "trim_right (CHR ''/'') ''http://di:5000/'' = ''http://di:5000''" "trim_right (CHR ''/'') [] = []"
    by (simp_all add: trim_right_def)
  then have "snd (read_config ?io) = [] \<and> config_errors ?io (fst (read_config ?io)) = []
      \<and> cf_DiskHighWatermark (fst (read_config ?io)) = x"
    using assms
    by (simp add: read_config_def Let_def envInt_def envInt64_def envFloat_def envDuration_def env_value_def env_def demo_env_def
        config_errors_def Enabled_def validateUpstream_def public_url_error_def second_def minute_def hour_def opt_list_def)
  then show ?thesis unfolding load_inversion by blast
qed

text \<open>The range check of the watermark does not hold off NaN, which \<open>strconv.ParseFloat\<close> accepts: it compares as false both
  times. Every sweep then evicts results, since the volume's use is never below such a mark.\<close>

theorem nan_watermark_loads: "\<exists>c. Load (demo_env ''DISK_HIGH_WATERMARK'' ''NaN'') = Inr c \<and> cf_DiskHighWatermark c = NaN"
  by (rule demo_env_loads) (simp_all add: trim_nan demo_env_def float_less_def)



end
