(* ===== verification/Mux.thy ===== *)
theory Mux
  imports Upstream
begin

text \<open>
  The part of \<open>net/http\<close> the gateway routes with: the patterns of \<open>ServeMux.HandleFunc\<close> and how a request finds its
  handler. It is the standard library's code and has no map entry. Hosts are left out, since no pattern of the gateway
  names one. A path is the escaped path of the URL; the server has refused one with a malformed escape before.
\<close>

section \<open>Patterns\<close>

datatype seg = Lit string | Wild string | Multi string

type_synonym 'h route = "string \<times> seg list \<times> 'h"

text \<open>A segment of a pattern: \<open>{$}\<close> is the literal slash at the end of a path, an empty last one matches all that follows.\<close>

definition parse_seg :: "string \<Rightarrow> seg" where
  "parse_seg s =
     (if s = [] then Multi []
      else if s = ''{$}'' then Lit ''/''
      else if hd s = CHR ''{'' then
        (let nm = butlast (tl s); k = length nm - 3 in
         if 3 \<le> length nm \<and> drop k nm = ''...'' then Multi (take k nm) else Wild nm)
      else Lit s)"

definition route :: "string \<Rightarrow> 'h \<Rightarrow> 'h route" where
  "route pattern h =
     (case go_cut (CHR '' '') pattern of
        (a, b, spaced) \<Rightarrow>
          (let path = (if spaced then b else a) in
           (if spaced then a else [], map parse_seg (go_split (CHR ''/'') (drop 1 path)), h)))"

section \<open>Matching\<close>

text \<open>The first segment of a path and what follows; the slash at the end is a segment of its own.\<close>

definition first_segment :: "string \<Rightarrow> string \<times> string" where
  "first_segment path =
     (if path = ''/'' then (''/'', [])
      else (let p = drop 1 path in (unescape (takeWhile (\<lambda>c. c \<noteq> CHR ''/'') p), dropWhile (\<lambda>c. c \<noteq> CHR ''/'') p)))"

lemma first_segment_shorter: "path \<noteq> [] \<Longrightarrow> length (snd (first_segment path)) < length path"
proof -
  assume p: "path \<noteq> []"
  have "length (dropWhile (\<lambda>c. c \<noteq> CHR ''/'') (drop 1 path)) \<le> length (drop 1 path)" by (rule length_dropWhile_le)
  also have "\<dots> < length path" using p by (cases path) auto
  finally show ?thesis by (simp add: first_segment_def Let_def)
qed

text \<open>The children of a node of the routing tree, which is given by the patterns below it.\<close>

definition lit_child :: "string \<Rightarrow> (seg list \<times> 'h) list \<Rightarrow> (seg list \<times> 'h) list" where
  "lit_child s ps = concat (map (\<lambda>(p, h). case p of Lit t # q \<Rightarrow> if t = s then [(q, h)] else [] | _ \<Rightarrow> []) ps)"

definition wild_child :: "(seg list \<times> 'h) list \<Rightarrow> (seg list \<times> 'h) list" where
  "wild_child ps = concat (map (\<lambda>(p, h). case p of Wild nm # q \<Rightarrow> [(q, h)] | _ \<Rightarrow> []) ps)"

definition multi_child :: "(seg list \<times> 'h) list \<Rightarrow> (string \<times> 'h) list" where
  "multi_child ps = concat (map (\<lambda>(p, h). case p of Multi nm # q \<Rightarrow> [(nm, h)] | _ \<Rightarrow> []) ps)"

text \<open>A literal is tried before a wildcard, and that before the pattern that takes the rest; the matches are the values of the
  wildcards.\<close>

function match_path :: "(seg list \<times> 'h) list \<Rightarrow> string \<Rightarrow> ('h \<times> string list) option" where
  "match_path ps path =
     (if path = [] then (case filter (\<lambda>(p, h). p = []) ps of [] \<Rightarrow> None | x # _ \<Rightarrow> Some (snd x, []))
      else
     (case match_path (lit_child (fst (first_segment path)) ps) (snd (first_segment path)) of
        Some r \<Rightarrow> Some r
      | None \<Rightarrow>
     (case (if fst (first_segment path) \<noteq> ''/'' then match_path (wild_child ps) (snd (first_segment path)) else None) of
        Some (h, ms) \<Rightarrow> Some (h, fst (first_segment path) # ms)
      | None \<Rightarrow>
          (case multi_child ps of
             [] \<Rightarrow> None
           | (nm, h) # _ \<Rightarrow> Some (h, if nm = [] then [] else [unescape (drop 1 path)])))))"
  by pat_completeness auto
termination by (relation "measure (\<lambda>(ps, path). length path)") (simp_all add: first_segment_shorter)

declare match_path.simps [simp del]

definition of_method :: "string \<Rightarrow> 'h route list \<Rightarrow> (seg list \<times> 'h) list" where
  "of_method m rs = map snd (filter (\<lambda>r. fst r = m) rs)"

text \<open>A method's own patterns, then those of \<open>GET\<close> for a \<open>HEAD\<close>, then those without a method.\<close>

definition mux_match :: "'h route list \<Rightarrow> string \<Rightarrow> string \<Rightarrow> ('h \<times> string list) option" where
  "mux_match rs method path =
     (case match_path (of_method method rs) path of
        Some r \<Rightarrow> Some r
      | None \<Rightarrow>
     (case (if method = ''HEAD'' then match_path (of_method ''GET'' rs) path else None) of
        Some r \<Rightarrow> Some r
      | None \<Rightarrow> match_path (of_method [] rs) path))"

section \<open>What a pattern matches\<close>

fun seg_match :: "seg list \<Rightarrow> string \<Rightarrow> bool" where
  "seg_match [] path \<longleftrightarrow> path = []"
| "seg_match (Lit t # q) path \<longleftrightarrow> path \<noteq> [] \<and> fst (first_segment path) = t \<and> seg_match q (snd (first_segment path))"
| "seg_match (Wild nm # q) path \<longleftrightarrow>
     path \<noteq> [] \<and> fst (first_segment path) \<noteq> ''/'' \<and> seg_match q (snd (first_segment path))"
| "seg_match (Multi nm # q) path \<longleftrightarrow> path \<noteq> []"

fun captures :: "seg list \<Rightarrow> string \<Rightarrow> string list" where
  "captures [] path = []"
| "captures (Lit t # q) path = captures q (snd (first_segment path))"
| "captures (Wild nm # q) path = fst (first_segment path) # captures q (snd (first_segment path))"
| "captures (Multi nm # q) path = (if nm = [] then [] else [unescape (drop 1 path)])"

lemma lit_child_iff: "(q, h) \<in> set (lit_child s ps) \<longleftrightarrow> (Lit s # q, h) \<in> set ps"
  by (force simp: lit_child_def split: list.splits seg.splits if_splits)

lemma wild_child_iff: "(q, h) \<in> set (wild_child ps) \<longleftrightarrow> (\<exists>nm. (Wild nm # q, h) \<in> set ps)"
  by (force simp: wild_child_def split: list.splits seg.splits)

lemma multi_child_iff: "(nm, h) \<in> set (multi_child ps) \<longleftrightarrow> (\<exists>q. (Multi nm # q, h) \<in> set ps)"
  by (force simp: multi_child_def split: list.splits seg.splits)

text \<open>What the search finds is a registered pattern that matches, with its wildcards' values.\<close>

lemma match_path_sound:
  "match_path ps path = Some (h, ms) \<Longrightarrow> \<exists>p. (p, h) \<in> set ps \<and> seg_match p path \<and> captures p path = ms"
proof (induction ps path arbitrary: h ms rule: match_path.induct)
  case (1 ps path)
  let ?s = "fst (first_segment path)" and ?r = "snd (first_segment path)"
  show ?case
  proof (cases "path = []")
    case True
    then obtain x xs where x: "filter (\<lambda>(p, h). p = []) ps = x # xs" "h = snd x" "ms = []"
      using "1.prems" by (subst (asm) match_path.simps) (auto split: list.splits)
    have "x \<in> set (filter (\<lambda>(p, h). p = []) ps)" by (simp add: x(1))
    then have "([], h) \<in> set ps" unfolding x(2) by auto
    with True x(3) show ?thesis by (intro exI [of _ "[]"]) simp
  next
    case False
    show ?thesis
    proof (cases "match_path (lit_child ?s ps) ?r")
      case (Some r)
      then have "match_path (lit_child ?s ps) ?r = Some (h, ms)"
        using "1.prems" False by (subst (asm) (2) match_path.simps) simp
      from "1.IH" (1) [OF False this] obtain q where "(q, h) \<in> set (lit_child ?s ps)" "seg_match q ?r" "captures q ?r = ms" by blast
      then show ?thesis using False by (intro exI [of _ "Lit ?s # q"]) (simp add: lit_child_iff)
    next
      case lit: None
      show ?thesis
      proof (cases "if ?s \<noteq> ''/'' then match_path (wild_child ps) ?r else None")
        case (Some r)
        then obtain ms' where w: "?s \<noteq> ''/''" "match_path (wild_child ps) ?r = Some (h, ms')" "ms = ?s # ms'"
          using "1.prems" False lit by (subst (asm) (2) match_path.simps) (auto split: if_splits prod.splits)
        from "1.IH" (2) [OF False lit w(1,2)] obtain q where "(q, h) \<in> set (wild_child ps)" "seg_match q ?r" "captures q ?r = ms'"
          by blast
        moreover from this(1) obtain nm where "(Wild nm # q, h) \<in> set ps" by (auto simp: wild_child_iff)
        ultimately show ?thesis using False w by (intro exI [of _ "Wild nm # q"]) simp
      next
        case None
        then obtain nm where "(nm, h) \<in> set (multi_child ps)" "ms = (if nm = [] then [] else [unescape (drop 1 path)])"
          using "1.prems" False lit by (subst (asm) match_path.simps) (auto split: list.splits)
        moreover from this(1) obtain q where "(Multi nm # q, h) \<in> set ps" by (auto simp: multi_child_iff)
        ultimately show ?thesis using False by (intro exI [of _ "Multi nm # q"]) simp
      qed
    qed
  qed
qed

text \<open>And when a pattern matches, the search finds one.\<close>

lemma match_path_complete:
  "(p, h) \<in> set ps \<Longrightarrow> seg_match p path \<Longrightarrow> match_path ps path \<noteq> None"
proof (induction p arbitrary: ps path)
  case Nil
  then have "filter (\<lambda>(p, h). p = []) ps \<noteq> []" by (auto simp: filter_empty_conv)
  with Nil show ?case by (subst match_path.simps) (auto split: list.split)
next
  case (Cons s q)
  have ne: "path \<noteq> []" using Cons.prems by (cases s) auto
  show ?case
  proof (cases s)
    case (Lit t)
    with Cons.prems have "(q, h) \<in> set (lit_child (fst (first_segment path)) ps)" by (simp add: lit_child_iff)
    from Cons.IH [OF this] Cons.prems Lit have "match_path (lit_child (fst (first_segment path)) ps) (snd (first_segment path)) \<noteq> None" by simp
    then show ?thesis using ne by (subst match_path.simps) auto
  next
    case (Wild nm)
    with Cons.prems have "(q, h) \<in> set (wild_child ps)" by (auto simp: wild_child_iff)
    from Cons.IH [OF this] Cons.prems Wild have "match_path (wild_child ps) (snd (first_segment path)) \<noteq> None" by simp
    then show ?thesis using ne Cons.prems Wild by (subst match_path.simps) (auto split: option.split)
  next
    case (Multi nm)
    with Cons.prems have "multi_child ps \<noteq> []" using multi_child_iff [of nm h ps] by fastforce
    then show ?thesis using ne by (subst match_path.simps) (auto split: option.split list.split)
  qed
qed

text \<open>Two patterns no path matches both of, by their segments.\<close>

fun seg_disjoint :: "seg list \<Rightarrow> seg list \<Rightarrow> bool" where
  "seg_disjoint [] [] = False"
| "seg_disjoint [] (y # q) = True"
| "seg_disjoint (x # p) [] = True"
| "seg_disjoint (Lit a # p) (Lit b # q) = (a \<noteq> b \<or> seg_disjoint p q)"
| "seg_disjoint (Lit a # p) (Wild nm # q) = (a = ''/'' \<or> seg_disjoint p q)"
| "seg_disjoint (Wild nm # p) (Lit b # q) = (b = ''/'' \<or> seg_disjoint p q)"
| "seg_disjoint (Wild nm # p) (Wild nm' # q) = seg_disjoint p q"
| "seg_disjoint (Multi nm # p) (y # q) = False"
| "seg_disjoint (x # p) (Multi nm # q) = False"

lemma seg_disjoint_sound: "seg_disjoint p q \<Longrightarrow> seg_match p path \<Longrightarrow> \<not> seg_match q path"
proof (induction p q arbitrary: path rule: seg_disjoint.induct)
  case (2 y q)
  then show ?case by (cases y) auto
next
  case (3 x p)
  then show ?case by (cases x) auto
qed auto

text \<open>In a table of routes of which no two of one method share a path, each request has one route at most.\<close>

definition unambiguous :: "'h route list \<Rightarrow> bool" where
  "unambiguous rs \<longleftrightarrow> sorted_wrt (\<lambda>a b. fst a = fst b \<longrightarrow> seg_disjoint (fst (snd a)) (fst (snd b))) rs"

lemma unambiguous_unique:
  assumes "unambiguous rs" and "(m, p, h) \<in> set rs" and "(m, p', h') \<in> set rs" and "seg_match p path" and "seg_match p' path"
  shows "p = p' \<and> h = h'"
proof -
  obtain i j where ij: "i < length rs" "rs ! i = (m, p, h)" "j < length rs" "rs ! j = (m, p', h')"
    using assms(2,3) by (metis in_set_conv_nth)
  have "i = j"
  proof (rule ccontr)
    assume "i \<noteq> j"
    then consider "i < j" | "j < i" by linarith
    then have "seg_disjoint p p' \<or> seg_disjoint p' p"
      using assms(1) ij unfolding unambiguous_def sorted_wrt_iff_nth_less by cases fastforce+
    then show False using seg_disjoint_sound assms(4,5) by blast
  qed
  then show ?thesis using ij by simp
qed

end
