(* ===== verification/Gateway.thy ===== *)
theory Gateway
  imports Mux Sync
begin

text \<open>
  The gateway as one HTTP handler: the routes \<open>internal/surface\<close> and \<open>internal/admin\<close> register, the catch-all and the
  middleware of \<open>internal/app/app.go\<close> and \<open>internal/httpx/httpx.go\<close>, and the dispatch to the handlers the other theories
  model. The handlers under \<open>/_gw/\<close>, \<open>/ready\<close> and \<open>/status\<close> are a parameter; logging is left out. A request is given by its
  escaped path, its query and the headers the handlers read; the environment holds the outcomes of the calls it makes.
\<close>

section \<open>Routes\<close>

datatype handler =
  DiAction | DiPoll | DiDelete | DiPDF | DiFigure
| DiInfo | DiListModels | DiGetModel | DiListOperations | DiGetOperation
| ReadAnalyze | ReadSyncAnalyze | ReadPoll
| RootHome surface | RootSwagger surface | RootSwaggerUnder surface | RootUsageLogs surface | RootUsageMonth surface
| AdminLive | AdminReady | AdminHealth | AdminVersion | AdminConfig | AdminJobs | AdminJob | AdminMetrics
| ContainerReady | ContainerStatus
| CatchAll

definition di_family :: "string \<Rightarrow> handler route list" where
  "di_family fam =
     [route (''POST '' @ fam @ ''/documentModels/{action}'') DiAction,
      route (''GET '' @ fam @ ''/documentModels/{modelId}/analyzeResults/{resultId}'') DiPoll,
      route (''HEAD '' @ fam @ ''/documentModels/{modelId}/analyzeResults/{resultId}'') DiPoll,
      route (''DELETE '' @ fam @ ''/documentModels/{modelId}/analyzeResults/{resultId}'') DiDelete,
      route (''GET '' @ fam @ ''/documentModels/{modelId}/analyzeResults/{resultId}/pdf'') DiPDF,
      route (''GET '' @ fam @ ''/documentModels/{modelId}/analyzeResults/{resultId}/figures/{figureId}'') DiFigure]"

definition di_metadata :: "string \<Rightarrow> handler route list" where
  "di_metadata fam =
     [route (''GET '' @ fam @ ''/info'') DiInfo,
      route (''GET '' @ fam @ ''/documentModels'') DiListModels,
      route (''GET '' @ fam @ ''/documentModels/{modelId}'') DiGetModel,
      route (''GET '' @ fam @ ''/operations'') DiListOperations,
      route (''GET '' @ fam @ ''/operations/{operationId}'') DiGetOperation]"

definition registerDI :: "handler route list" where
  "registerDI = di_family DIPathPrefix @ di_family LegacyPathPrefix
     @ concat (map di_metadata [DIPathPrefix, LegacyPathPrefix])"

definition registerRead :: "handler route list" where
  "registerRead =
     [route (''POST '' @ ReadPathPrefix @ ''/analyze'') ReadAnalyze,
      route (''POST '' @ ReadPathPrefix @ ''/syncAnalyze'') ReadSyncAnalyze,
      route (''GET '' @ ReadPathPrefix @ ''/analyzeResults/{operationId}'') ReadPoll,
      route (''HEAD '' @ ReadPathPrefix @ ''/analyzeResults/{operationId}'') ReadPoll]"

definition root_routes :: "surface \<Rightarrow> handler route list" where
  "root_routes srf =
     [route ''GET /{$}'' (RootHome srf),
      route ''GET /swagger'' (RootSwagger srf),
      route ''GET /swagger/{rest...}'' (RootSwaggerUnder srf),
      route ''GET /records/usage-logs'' (RootUsageLogs srf),
      route ''GET /records/usage-logs/{month}/{year}'' (RootUsageMonth srf)]"

definition surface_Register :: "bool \<Rightarrow> bool \<Rightarrow> handler route list" where
  "surface_Register di rd =
     (if di then registerDI else []) @ (if rd then registerRead else [])
     @ (if di then root_routes SurfaceDI else if rd then root_routes SurfaceRead else [])"

definition admin_Register :: "handler route list" where
  "admin_Register =
     [route ''GET /_gw/live'' AdminLive, route ''GET /_gw/ready'' AdminReady, route ''GET /_gw/health'' AdminHealth,
      route ''GET /_gw/version'' AdminVersion, route ''GET /_gw/config'' AdminConfig, route ''GET /_gw/jobs'' AdminJobs,
      route ''GET /_gw/jobs/{id}'' AdminJob, route ''GET /_gw/metrics'' AdminMetrics,
      route ''GET /ready'' ContainerReady, route ''GET /status'' ContainerStatus]"

text \<open>The two muxes of \<open>NewHandler\<close>: the real routes, and those with the catch-all.\<close>

definition gateway_routes :: "bool \<Rightarrow> bool \<Rightarrow> handler route list" where
  "gateway_routes di rd = surface_Register di rd @ admin_Register"

definition served_routes :: "bool \<Rightarrow> bool \<Rightarrow> handler route list" where
  "served_routes di rd = gateway_routes di rd @ [route ''/'' CatchAll]"

section \<open>The catch-all\<close>

definition probeMethods :: "string list" where
  "probeMethods = [''GET'', ''HEAD'', ''POST'', ''PUT'', ''PATCH'', ''DELETE'']"

fun join_with :: "string \<Rightarrow> string list \<Rightarrow> string" where
  "join_with sep [] = []"
| "join_with sep [s] = s"
| "join_with sep (s # t # r) = s @ sep @ join_with sep (t # r)"

definition allowed_list :: "handler route list \<Rightarrow> string \<Rightarrow> string \<Rightarrow> string list" where
  "allowed_list routes method path = filter (\<lambda>m. m \<noteq> method \<and> mux_match routes m path \<noteq> None) probeMethods"

definition allowedMethods :: "handler route list \<Rightarrow> string \<Rightarrow> string \<Rightarrow> string" where
  "allowedMethods routes method path = join_with '', '' (allowed_list routes method path)"

definition surfaceFor :: "string \<Rightarrow> surface" where
  "surfaceFor path = (if starts_with ReadPathPrefix path then SurfaceRead else SurfaceDI)"

definition unrouted :: "handler route list \<Rightarrow> (string \<times> string) list \<Rightarrow> string \<Rightarrow> string \<Rightarrow> reply" where
  "unrouted routes hs method path =
     (let s = surfaceFor (unescape path); allow = allowedMethods routes method path in
      if allow \<noteq> [] then reply_over (hdr_set ''Allow'' allow hs) (api_reply (MethodNotAllowed s) s)
      else reply_over hs (api_reply (Unrouted s) s))"

section \<open>Requests\<close>

record gw_request =
  gr_method :: string
  gr_path :: string                   \<comment> \<open>escaped\<close>
  gr_query :: query
  gr_accept :: string
  gr_client_id :: string

record gw_env =
  gw_submit :: submit_env
  gw_sync :: sync_env
  gw_now :: int
  gw_decode :: "string \<Rightarrow> az_error option"
  gw_decode_body :: "string \<Rightarrow> upstream_body option"
  gw_get_err :: "string option"
  gw_del_err :: "string option"
  gw_readdir :: "string option"
  gw_rm :: "string \<Rightarrow> string option"
  gw_base :: "surface \<Rightarrow> base"
  gw_send :: "proxy_request \<Rightarrow> string + container_response"
  gw_encode :: "query \<Rightarrow> string"
  gw_admin :: "handler \<Rightarrow> string list \<Rightarrow> gw_request \<Rightarrow> mgr \<Rightarrow> reply"

text \<open>\<open>url.Values.Get\<close>, and a path value.\<close>

definition query_Get :: "query \<Rightarrow> string \<Rightarrow> string" where
  "query_Get q k = (case map_of q k of Some (v # _) \<Rightarrow> v | _ \<Rightarrow> [])"

definition path_value :: "string list \<Rightarrow> nat \<Rightarrow> string" where
  "path_value ms k = (if k < length ms then ms ! k else [])"

type_synonym gw_state = "mgr \<times> files"
type_synonym headers = "(string \<times> string) list"

definition answer :: "headers \<Rightarrow> reply \<Rightarrow> gw_state \<Rightarrow> reply option \<times> gw_state" where
  "answer hs r st = (Some (reply_over hs r), st)"

section \<open>The Document Intelligence handlers\<close>

definition diAnalyze :: "gw_env \<Rightarrow> gw_request \<Rightarrow> headers \<Rightarrow> string \<Rightarrow> gw_state \<Rightarrow> reply option \<times> gw_state" where
  "diAnalyze v rq hs modelID st =
     (case requireAPIVersion (query_Get (gr_query rq) ''api-version'') of
        Inl e \<Rightarrow> answer hs (api_reply e SurfaceDI) st
      | Inr apiVersion \<Rightarrow>
     (case checkDIParams (gr_query rq) of
        Some e \<Rightarrow> answer hs (api_reply e SurfaceDI) st
      | None \<Rightarrow>
          (let prefix = prefixOf (unescape (gr_path rq)) in
           case submit (gw_submit v)
                  \<lparr>sp_surface = SurfaceDI, sp_name = SurfaceDI_name, sp_modelID = modelID, sp_apiVersion = apiVersion,
                   sp_query = gw_encode v (upstreamQuery (gr_query rq)), sp_prefix = prefix,
                   sp_location = (\<lambda>b i. diOperationLocation b prefix modelID i apiVersion)\<rparr> (fst st) of
             (r, m) \<Rightarrow> answer hs r (m, snd st))))"

definition run_sync :: "gw_env \<Rightarrow> headers \<Rightarrow> surface \<Rightarrow> string \<Rightarrow> gw_state \<Rightarrow> reply option \<times> gw_state" where
  "run_sync v hs srf nm st =
     (case syncAnalyze (gw_sync v) srf nm (fst st) (snd st) of
        (r, m, fs) \<Rightarrow> (map_option (reply_over hs) r, (m, fs)))"

definition diSyncAnalyze :: "gw_env \<Rightarrow> gw_request \<Rightarrow> headers \<Rightarrow> gw_state \<Rightarrow> reply option \<times> gw_state" where
  "diSyncAnalyze v rq hs st =
     (case requireAPIVersion (query_Get (gr_query rq) ''api-version'') of
        Inl e \<Rightarrow> answer hs (api_reply e SurfaceDI) st
      | Inr apiVersion \<Rightarrow>
     (case checkDIParams (gr_query rq) of
        Some e \<Rightarrow> answer hs (api_reply e SurfaceDI) st
      | None \<Rightarrow> run_sync v hs SurfaceDI SurfaceDI_name st))"

definition run_diAction :: "gw_env \<Rightarrow> gw_request \<Rightarrow> headers \<Rightarrow> string \<Rightarrow> gw_state \<Rightarrow> reply option \<times> gw_state" where
  "run_diAction v rq hs action st =
     (case diAction action of
        Refused e \<Rightarrow> answer hs (api_reply e SurfaceDI) st
      | Analyze modelID \<Rightarrow> diAnalyze v rq hs modelID st
      | SyncAnalyze modelID \<Rightarrow> diSyncAnalyze v rq hs st)"

definition run_proxy :: "gw_env \<Rightarrow> gw_request \<Rightarrow> headers \<Rightarrow> string \<Rightarrow> gw_state \<Rightarrow> reply option \<times> gw_state" where
  "run_proxy v rq hs path st =
     (case proxyGET (gw_decode_body v) (gw_base v SurfaceDI) (gw_send v) (gw_encode v) hs SurfaceDI SurfaceDI_name path
             (gr_query rq) (gr_accept rq) (fst st) of
        (r, m) \<Rightarrow> (Some r, (m, snd st)))"

definition diGetModel :: "gw_env \<Rightarrow> gw_request \<Rightarrow> headers \<Rightarrow> string \<Rightarrow> gw_state \<Rightarrow> reply option \<times> gw_state" where
  "diGetModel v rq hs modelID st =
     (if \<not> validModelID modelID then
        answer hs (api_reply (InvalidParameter SurfaceDI ''modelId'' ''the value is not a valid model name'') SurfaceDI) st
      else run_proxy v rq hs (prefixOf (unescape (gr_path rq)) @ ''/documentModels/'' @ PathEscape modelID) st)"

section \<open>The Read handlers and the root routes\<close>

definition readAnalyze :: "gw_env \<Rightarrow> gw_request \<Rightarrow> headers \<Rightarrow> gw_state \<Rightarrow> reply option \<times> gw_state" where
  "readAnalyze v rq hs st =
     (case submit (gw_submit v)
             \<lparr>sp_surface = SurfaceRead, sp_name = SurfaceRead_name, sp_modelID = [],
              sp_apiVersion = query_Get (gr_query rq) ''model-version'',
              sp_query = gw_encode v (upstreamQuery (gr_query rq)), sp_prefix = [], sp_location = readOperationLocation\<rparr> (fst st) of
        (r, m) \<Rightarrow> answer hs r (m, snd st))"

definition surface_name :: "surface \<Rightarrow> string" where
  "surface_name srf = (if srf = SurfaceRead then SurfaceRead_name else SurfaceDI_name)"

definition run_root :: "gw_env \<Rightarrow> gw_request \<Rightarrow> headers \<Rightarrow> surface \<Rightarrow> root_route \<Rightarrow> gw_state \<Rightarrow> reply option \<times> gw_state" where
  "run_root v rq hs srf r st =
     (case registerRoot (gw_decode_body v) (gw_base v srf) (gw_send v) (gw_encode v) hs srf (surface_name srf) r
             (gr_query rq) (gr_accept rq) (fst st) of
        (a, m) \<Rightarrow> (Some a, (m, snd st)))"

definition run_poll :: "gw_env \<Rightarrow> gw_request \<Rightarrow> headers \<Rightarrow> surface \<Rightarrow> string \<Rightarrow> gw_state \<Rightarrow> reply option \<times> gw_state" where
  "run_poll v rq hs srf i st =
     answer hs (poll (gw_decode v) (gw_get_err v) (gr_method rq = ''HEAD'') (gw_now v) srf (surface_name srf) i (fst st)) st"

section \<open>Dispatch\<close>

fun run_handler :: "gw_env \<Rightarrow> gw_request \<Rightarrow> headers \<Rightarrow> handler \<Rightarrow> string list \<Rightarrow> gw_state \<Rightarrow> reply option \<times> gw_state" where
  "run_handler v rq hs DiAction ms st = run_diAction v rq hs (path_value ms 0) st"
| "run_handler v rq hs DiPoll ms st = run_poll v rq hs SurfaceDI (path_value ms 1) st"
| "run_handler v rq hs DiDelete ms st =
     (case deleteResult (gw_get_err v) (gw_del_err v) (gw_readdir v) (gw_rm v) SurfaceDI SurfaceDI_name (path_value ms 1) (fst st) of
        (r, m) \<Rightarrow> answer hs r (m, snd st))"
| "run_handler v rq hs DiPDF ms st = answer hs (diArtifact (gw_get_err v) (gw_now v) (path_value ms 1) (fst st)) st"
| "run_handler v rq hs DiFigure ms st = answer hs (diArtifact (gw_get_err v) (gw_now v) (path_value ms 1) (fst st)) st"
| "run_handler v rq hs DiInfo ms st = run_proxy v rq hs (prefixOf (unescape (gr_path rq)) @ ''/info'') st"
| "run_handler v rq hs DiListModels ms st = run_proxy v rq hs (prefixOf (unescape (gr_path rq)) @ ''/documentModels'') st"
| "run_handler v rq hs DiGetModel ms st = diGetModel v rq hs (path_value ms 0) st"
| "run_handler v rq hs DiListOperations ms st = run_proxy v rq hs (prefixOf (unescape (gr_path rq)) @ ''/operations'') st"
| "run_handler v rq hs DiGetOperation ms st =
     run_proxy v rq hs (prefixOf (unescape (gr_path rq)) @ ''/operations/'' @ PathEscape (path_value ms 0)) st"
| "run_handler v rq hs ReadAnalyze ms st = readAnalyze v rq hs st"
| "run_handler v rq hs ReadSyncAnalyze ms st = run_sync v hs SurfaceRead SurfaceRead_name st"
| "run_handler v rq hs ReadPoll ms st = run_poll v rq hs SurfaceRead (path_value ms 0) st"
| "run_handler v rq hs (RootHome srf) ms st = run_root v rq hs srf HomePage st"
| "run_handler v rq hs (RootSwagger srf) ms st = run_root v rq hs srf Swagger st"
| "run_handler v rq hs (RootSwaggerUnder srf) ms st = run_root v rq hs srf (SwaggerUnder (path_value ms 0)) st"
| "run_handler v rq hs (RootUsageLogs srf) ms st = run_root v rq hs srf UsageLogs st"
| "run_handler v rq hs (RootUsageMonth srf) ms st =
     run_root v rq hs srf (UsageMonth (path_value ms 0) (path_value ms 1)) st"
| "run_handler v rq hs CatchAll ms st =
     (Some (unrouted (gateway_routes (mg_runners (fst st) SurfaceDI_name \<noteq> None) (mg_runners (fst st) SurfaceRead_name \<noteq> None))
              hs (gr_method rq) (gr_path rq)), st)"
| "run_handler v rq hs h ms st = answer hs (gw_admin v h ms rq (fst st)) st"

text \<open>\<open>ServeMux\<close> sends a path that is not clean to its clean form before any handler runs.\<close>

definition clean_path :: "string \<Rightarrow> bool" where
  "clean_path p \<longleftrightarrow>
     (case go_split (CHR ''/'') p of
        [] # s # segs \<Rightarrow> (\<forall>x \<in> set (butlast (s # segs)). x \<notin> {[], ''.'', ''..''}) \<and> last (s # segs) \<notin> {''.'', ''..''}
      | _ \<Rightarrow> False)"

definition mux_serve :: "gw_env \<Rightarrow> gw_request \<Rightarrow> headers \<Rightarrow> gw_state \<Rightarrow> reply option \<times> gw_state" where
  "mux_serve v rq hs st =
     (if \<not> clean_path (gr_path rq) then (Some (reply_over hs \<lparr>rp_status = 301, rp_headers = [], rp_body = []\<rparr>), st)
      else case mux_match (served_routes (mg_runners (fst st) SurfaceDI_name \<noteq> None) (mg_runners (fst st) SurfaceRead_name \<noteq> None))
                  (gr_method rq) (gr_path rq) of
        Some (h, ms) \<Rightarrow> run_handler v rq hs h ms st
      | None \<Rightarrow> (Some (reply_over hs \<lparr>rp_status = 404, rp_headers = [], rp_body = ''404 page not found''\<rparr>), st))"

section \<open>Middleware\<close>

text \<open>What a handler leaves: a reply, nothing written with the headers set so far, or a panic before it wrote anything.\<close>

datatype http_outcome = Written reply | Unwritten headers | Panicked headers

type_synonym 's middleware_next = "headers \<Rightarrow> 's \<Rightarrow> http_outcome \<times> 's"

definition Chain :: "'s middleware_next \<Rightarrow> ('s middleware_next \<Rightarrow> 's middleware_next) list \<Rightarrow> 's middleware_next" where
  "Chain h mw = foldr (\<lambda>f g. f g) mw h"

definition RequestID :: "string \<Rightarrow> 's middleware_next \<Rightarrow> 's middleware_next" where
  "RequestID cid next_h hs s = next_h (if cid \<noteq> [] then hdr_set ''X-Ms-Client-Request-Id'' cid hs else hs) s"

definition adminPrefix :: string where "adminPrefix = ''/_gw/''"

definition ServerHeader :: "string \<Rightarrow> 's middleware_next \<Rightarrow> 's middleware_next" where
  "ServerHeader path next_h hs s =
     next_h (if \<not> starts_with adminPrefix path then hdr_set ''Server'' ''Kestrel'' hs else hs) s"

definition NoCache :: "'s middleware_next \<Rightarrow> 's middleware_next" where
  "NoCache next_h hs s = next_h (hdr_set ''Cache-Control'' ''no-store'' hs) s"

definition onPanic :: "string \<Rightarrow> headers \<Rightarrow> reply" where
  "onPanic path hs = (let s = surfaceFor path in reply_over hs (api_reply (err_Internal s []) s))"

definition Recover_mw :: "(headers \<Rightarrow> reply) \<Rightarrow> 's middleware_next \<Rightarrow> 's middleware_next" where
  "Recover_mw on_panic next_h hs s =
     (case next_h hs s of (Panicked hs', s') \<Rightarrow> (Written (on_panic hs'), s') | (r, s') \<Rightarrow> (r, s'))"

text \<open>\<open>AccessLog\<close> only logs and is left out of the chain.\<close>

definition NewHandler :: "gw_request \<Rightarrow> 's middleware_next \<Rightarrow> 's middleware_next" where
  "NewHandler rq mux =
     (let path = unescape (gr_path rq) in
      Chain mux [RequestID (gr_client_id rq), ServerHeader path, Recover_mw (onPanic path), NoCache])"

text \<open>What the client gets: a handler that writes nothing is answered 200 with no body by the server.\<close>

definition gateway :: "gw_env \<Rightarrow> gw_request \<Rightarrow> gw_state \<Rightarrow> reply \<times> gw_state" where
  "gateway v rq st =
     (case NewHandler rq (\<lambda>hs s. case mux_serve v rq hs s of
             (Some r, s') \<Rightarrow> (Written r, s') | (None, s') \<Rightarrow> (Unwritten hs, s')) [] st of
        (Written r, st') \<Rightarrow> (r, st')
      | (Unwritten hs, st') \<Rightarrow> (\<lparr>rp_status = 200, rp_headers = hs, rp_body = []\<rparr>, st')
      | (Panicked hs, st') \<Rightarrow> (\<lparr>rp_status = 200, rp_headers = hs, rp_body = []\<rparr>, st'))"
end
