(* ===== verification/Routing.thy ===== *)
theory Routing
  imports Gateway
begin

text \<open>
  Which handler answers a request: no two routes of the gateway share a path, so each path it matches reaches its handler,
  and the catch-all answers what no route matches, with 405 and the other verbs of the path or with a bodyless 404.
\<close>

section \<open>The table\<close>

lemma routes_unambiguous: "unambiguous (served_routes di rd)"
  by (cases di; cases rd; simp only:) code_simp+

lemma gateway_unambiguous: "unambiguous (gateway_routes di rd)"
  using routes_unambiguous [of di rd] by (simp add: unambiguous_def served_routes_def sorted_wrt_append)

text \<open>Every \<open>HEAD\<close> route repeats the \<open>GET\<close> route of its path, and no method is empty.\<close>

definition well_shaped :: "handler route list \<Rightarrow> bool" where
  "well_shaped rs \<longleftrightarrow> list_all (\<lambda>(m, p, h). m \<noteq> [] \<and> (m = ''HEAD'' \<longrightarrow> (''GET'', p, h) \<in> set rs)) rs"

lemma routes_well_shaped: "well_shaped (gateway_routes di rd)"
  by (cases di; cases rd; simp only:) code_simp+

lemma routes_shape:
  "list_all (\<lambda>(m, p, h). m \<noteq> [] \<and> (m = ''HEAD'' \<longrightarrow> (''GET'', p, h) \<in> set (gateway_routes di rd))) (gateway_routes di rd)"
  using routes_well_shaped by (simp add: well_shaped_def)

lemma catch_all_route: "route ''/'' CatchAll = ([], [Multi []], CatchAll)"
  by code_simp

lemma table_hit:
  assumes "unambiguous rs" and "(m, p, h) \<in> set rs" and "seg_match p path"
  shows "match_path (of_method m rs) path = Some (h, captures p path)"
proof -
  have "(p, h) \<in> set (of_method m rs)" using assms(2) by (force simp: of_method_def)
  with assms(3) obtain h' ms where f: "match_path (of_method m rs) path = Some (h', ms)"
    using match_path_complete by (metis option.exhaust surj_pair)
  from match_path_sound [OF f] obtain p' where p': "(p', h') \<in> set (of_method m rs)" "seg_match p' path" "captures p' path = ms"
    by blast
  then have "(m, p', h') \<in> set rs" by (auto simp: of_method_def)
  with assms p'(2) have "p' = p \<and> h' = h" by (metis unambiguous_unique)
  with f p'(3) show ?thesis by simp
qed

lemma table_miss:
  assumes "\<And>p h. (m, p, h) \<in> set rs \<Longrightarrow> \<not> seg_match p path"
  shows "match_path (of_method m rs) path = None"
proof (rule ccontr)
  assume "match_path (of_method m rs) path \<noteq> None"
  then obtain h ms where "match_path (of_method m rs) path = Some (h, ms)" by auto
  from match_path_sound [OF this] assms show False by (auto simp: of_method_def)
qed

definition answers :: "handler route list \<Rightarrow> string \<Rightarrow> string \<Rightarrow> bool" where
  "answers rs m path \<longleftrightarrow> (\<exists>m' p h. (m', p, h) \<in> set rs \<and> (m' = m \<or> m = ''HEAD'' \<and> m' = ''GET'') \<and> seg_match p path)"

lemma route_found:
  assumes "(m, p, h) \<in> set (gateway_routes di rd)" and "seg_match p path" and "rs = gateway_routes di rd \<or> rs = served_routes di rd"
  shows "mux_match rs m path = Some (h, captures p path)"
    and "m = ''GET'' \<Longrightarrow> mux_match rs ''HEAD'' path = Some (h, captures p path)"
proof -
  have u: "unambiguous rs" using assms(3) routes_unambiguous gateway_unambiguous by blast
  have mem: "(m, p, h) \<in> set rs" using assms(1,3) by (auto simp: served_routes_def)
  show "mux_match rs m path = Some (h, captures p path)" by (simp add: mux_match_def table_hit [OF u mem assms(2)])
  assume m: "m = ''GET''"
  have get: "match_path (of_method ''GET'' rs) path = Some (h, captures p path)" using table_hit [OF u mem assms(2)] m by simp
  show "mux_match rs ''HEAD'' path = Some (h, captures p path)"
  proof (cases "match_path (of_method ''HEAD'' rs) path")
    case None
    then show ?thesis by (simp add: mux_match_def get)
  next
    case (Some r)
    obtain h' ms where r: "r = (h', ms)" by (cases r)
    from match_path_sound [OF Some [unfolded r]] obtain q where
      q: "(''HEAD'', q, h') \<in> set rs" "seg_match q path" "captures q path = ms" by (auto simp: of_method_def)
    then have "(''HEAD'', q, h') \<in> set (gateway_routes di rd)" using assms(3) by (auto simp: served_routes_def catch_all_route)
    then have "(''GET'', q, h') \<in> set (gateway_routes di rd)" using routes_shape [of di rd] by (force simp: list_all_iff)
    then have "q = p \<and> h' = h" using unambiguous_unique [OF gateway_unambiguous] assms(1,2) q(2) m by blast
    with Some q(3) r show ?thesis by (simp add: mux_match_def)
  qed
qed

lemma route_missed:
  assumes "\<not> answers (gateway_routes di rd) m path" and "m \<noteq> []"
  shows "mux_match (gateway_routes di rd) m path = None"
    and "path \<noteq> [] \<Longrightarrow> mux_match (served_routes di rd) m path = Some (CatchAll, [])"
proof -
  have none: "match_path (of_method m' (gateway_routes di rd)) path = None"
    if "m' = m \<or> m = ''HEAD'' \<and> m' = ''GET''" for m'
    using assms(1) that by (intro table_miss) (auto simp: answers_def)
  have free: "(m', p, h) \<notin> set (gateway_routes di rd)" if "m' = []" for m' p h
    using that routes_shape [of di rd] by (force simp: list_all_iff)
  have "match_path (of_method [] (gateway_routes di rd)) path = None" by (intro table_miss) (use free in blast)
  then show "mux_match (gateway_routes di rd) m path = None" using none by (auto simp: mux_match_def)
  assume ne: "path \<noteq> []"
  have same: "of_method m' (served_routes di rd) = of_method m' (gateway_routes di rd)" if "m' \<noteq> []" for m'
    using that by (simp add: of_method_def served_routes_def catch_all_route)
  have "match_path (of_method [] (served_routes di rd)) path = Some (CatchAll, captures [Multi []] path)"
    by (rule table_hit [OF routes_unambiguous]) (simp_all add: served_routes_def catch_all_route ne)
  then show "mux_match (served_routes di rd) m path = Some (CatchAll, [])"
    using none assms(2) by (auto simp: mux_match_def same)
qed



section \<open>The catch-all's answer\<close>

lemma join_with_empty: "(\<And>s. s \<in> set ss \<Longrightarrow> s \<noteq> []) \<Longrightarrow> join_with sep ss = [] \<longleftrightarrow> ss = []"
  by (cases "(sep, ss)" rule: join_with.cases) auto

lemma reply_over_get:
  "hdr_get k (rp_headers (reply_over hs r)) = (case map_of (rev (rp_headers r)) k of Some v \<Rightarrow> Some v | None \<Rightarrow> hdr_get k hs)"
proof -
  have "hdr_get k (foldl (\<lambda>h (k, v). hdr_set k v h) hs xs) = (case map_of (rev xs) k of Some v \<Rightarrow> Some v | None \<Rightarrow> hdr_get k hs)" for xs
    by (induction xs rule: rev_induct) (auto simp: hdr_get_set map_add_def split: option.split)
  then show ?thesis by (simp add: reply_over_def)
qed

lemma reply_over_simps [simp]: "rp_status (reply_over hs r) = rp_status r" "rp_body (reply_over hs r) = rp_body r"
  by (simp_all add: reply_over_def)

lemma unrouted_replies:
  "err_Status (Unrouted s) = 404" "rp_body (api_reply (Unrouted s) s) = []"
  "err_Status (MethodNotAllowed s) = 405"
  by (cases s; simp add: api_reply_def reply_of_def WriteTo_def Unrouted_def MethodNotAllowed_def mk_error_def err_New_def Let_def api_error0_def)+

text \<open>The headers the middleware sets before a handler runs, and the handler's answer under them.\<close>

definition marked :: "gw_request \<Rightarrow> headers" where
  "marked rq =
     (let cid = gr_client_id rq; admin = starts_with adminPrefix (unescape (gr_path rq));
          h1 = (if cid \<noteq> [] then hdr_set ''X-Ms-Client-Request-Id'' cid [] else []);
          h2 = (if \<not> admin then hdr_set ''Server'' ''Kestrel'' h1 else h1) in
      hdr_set ''Cache-Control'' ''no-store'' h2)"

lemma gateway_is_marked:
  "gateway v rq st =
     (case mux_serve v rq (marked rq) st of
        (Some r, st') \<Rightarrow> (r, st')
      | (None, st') \<Rightarrow> (\<lparr>rp_status = 200, rp_headers = marked rq, rp_body = []\<rparr>, st'))"
  by (simp add: gateway_def NewHandler_def Chain_def Let_def RequestID_def ServerHeader_def Recover_mw_def NoCache_def marked_def
      split: prod.splits option.splits)

text \<open>The verbs of a path that answer it, in the order they are tried.\<close>

definition verbs :: "handler route list \<Rightarrow> string \<Rightarrow> string list" where
  "verbs rs path = filter (\<lambda>m. answers rs m path) probeMethods"

lemma allowed_verbs:
  assumes "\<not> answers (gateway_routes di rd) m path"
  shows "allowed_list (gateway_routes di rd) m path = verbs (gateway_routes di rd) path"
proof -
  have "x \<noteq> m \<and> mux_match (gateway_routes di rd) x path \<noteq> None \<longleftrightarrow> answers (gateway_routes di rd) x path" if "x \<in> set probeMethods" for x
  proof (cases "answers (gateway_routes di rd) x path")
    case True
    then obtain m' p h where r: "(m', p, h) \<in> set (gateway_routes di rd)" "m' = x \<or> x = ''HEAD'' \<and> m' = ''GET''" "seg_match p path"
      by (auto simp: answers_def)
    then have "mux_match (gateway_routes di rd) x path \<noteq> None" using route_found [OF r(1,3), of "gateway_routes di rd"] by auto
    with True assms show ?thesis by auto
  next
    case False
    have "x \<noteq> []" using that by (auto simp: probeMethods_def)
    with False route_missed(1) [OF False] show ?thesis by simp
  qed
  then show ?thesis unfolding allowed_list_def verbs_def by (rule filter_cong [OF refl])
qed

lemma unrouted_answer:
  assumes "rs = gateway_routes (mg_runners (fst st) SurfaceDI_name \<noteq> None) (mg_runners (fst st) SurfaceRead_name \<noteq> None)"
    and "\<not> answers rs (gr_method rq) (gr_path rq)" and "clean_path (gr_path rq)" and "gr_method rq \<noteq> []"
  shows "snd (gateway v rq st) = st \<and>
    (if verbs rs (gr_path rq) = [] then
       rp_status (fst (gateway v rq st)) = 404 \<and> rp_body (fst (gateway v rq st)) = [] \<and> hdr_get ''Allow'' (rp_headers (fst (gateway v rq st))) = None
     else rp_status (fst (gateway v rq st)) = 405
       \<and> hdr_get ''Allow'' (rp_headers (fst (gateway v rq st))) = Some (join_with '', '' (verbs rs (gr_path rq))))"
proof -
  have ne: "gr_path rq \<noteq> []" using assms(3) by (auto simp: clean_path_def)
  let ?r = "unrouted rs (marked rq) (gr_method rq) (gr_path rq)" and ?s = "surfaceFor (unescape (gr_path rq))"
  have g: "gateway v rq st = (?r, st)"
    using route_missed(2) [OF assms(2) [unfolded assms(1)] assms(4) ne] assms(1,3) by (simp add: gateway_is_marked mux_serve_def)
  have allow: "allowedMethods rs (gr_method rq) (gr_path rq) = join_with '', '' (verbs rs (gr_path rq))"
    using allowed_verbs [OF assms(2) [unfolded assms(1)]] assms(1) by (simp add: allowedMethods_def)
  have empty: "join_with '', '' (verbs rs (gr_path rq)) = [] \<longleftrightarrow> verbs rs (gr_path rq) = []"
  proof (rule join_with_empty)
    fix x assume "x \<in> set (verbs rs (gr_path rq))"
    then have "x \<in> set probeMethods" by (simp add: verbs_def)
    then show "x \<noteq> []" by (auto simp: probeMethods_def)
  qed
  have mk: "hdr_get ''Allow'' (marked rq) = None" by (simp add: marked_def Let_def hdr_get_set) (simp add: hdr_get_def)
  have none: "map_of (rev (rp_headers (api_reply e s))) ''Allow'' = None" for e s
    by (auto simp: map_of_eq_None_iff api_reply_def reply_of_def WriteTo_def Let_def split: option.splits)
  show ?thesis
    by (simp add: g unrouted_def Let_def allow empty unrouted_replies reply_over_get none hdr_get_set mk)
qed

text \<open>C19. What no route answers. A request on a clean path that no route matches changes nothing and gets what a container
  gives: 404 with no body when the path is not routed at all; otherwise 405 with an \<open>Allow\<close> header that lists exactly the
  verbs of the six a client may use that the path does answer, \<open>HEAD\<close> wherever \<open>GET\<close> is.\<close>

theorem unrouted_contract:
  assumes "rs = gateway_routes (mg_runners (fst st) SurfaceDI_name \<noteq> None) (mg_runners (fst st) SurfaceRead_name \<noteq> None)"
    and "\<not> answers rs (gr_method rq) (gr_path rq)" and "clean_path (gr_path rq)" and "gr_method rq \<noteq> []"
  shows "snd (gateway v rq st) = st \<and>
    (if verbs rs (gr_path rq) = [] then
       rp_status (fst (gateway v rq st)) = 404 \<and> rp_body (fst (gateway v rq st)) = [] \<and> hdr_get ''Allow'' (rp_headers (fst (gateway v rq st))) = None
     else rp_status (fst (gateway v rq st)) = 405
       \<and> hdr_get ''Allow'' (rp_headers (fst (gateway v rq st))) = Some (join_with '', '' (verbs rs (gr_path rq))))"
  by (rule unrouted_answer [OF assms])

lemma answers_code [code]:
  "answers rs m path \<longleftrightarrow> list_ex (\<lambda>(m', p, h). (m' = m \<or> m = ''HEAD'' \<and> m' = ''GET'') \<and> seg_match p path) rs"
  by (force simp: answers_def list_ex_iff)

definition put_info :: gw_request where
  "put_info = \<lparr>gr_method = ''PUT'', gr_path = ''/documentintelligence/info'', gr_query = [], gr_accept = [], gr_client_id = []\<rparr>"

theorem unrouted_contract_witness:
  "\<forall>v. rp_status (fst (gateway v put_info (demo_gate, Map.empty))) = 405
    \<and> hdr_get ''Allow'' (rp_headers (fst (gateway v put_info (demo_gate, Map.empty)))) = Some ''GET, HEAD''"
proof
  fix v
  have run: "(mg_runners (fst (demo_gate, Map.empty)) SurfaceDI_name \<noteq> None) = True"
    "(mg_runners (fst (demo_gate, Map.empty)) SurfaceRead_name \<noteq> None) = False"
    by (simp_all add: demo_gate_def SurfaceDI_name_def SurfaceRead_name_def)
  have eval: "\<not> answers (gateway_routes True False) ''PUT'' ''/documentintelligence/info''"
    "verbs (gateway_routes True False) ''/documentintelligence/info'' = [''GET'', ''HEAD'']" "clean_path ''/documentintelligence/info''"
    by code_simp+
  have "rp_status (fst (gateway v put_info (demo_gate, Map.empty))) = 405
    \<and> hdr_get ''Allow'' (rp_headers (fst (gateway v put_info (demo_gate, Map.empty)))) = Some (join_with '', '' [''GET'', ''HEAD''])"
    using unrouted_contract [where st = "(demo_gate, Map.empty)" and rq = put_info and v = v, OF refl] eval run by (simp add: put_info_def)
  then show "rp_status (fst (gateway v put_info (demo_gate, Map.empty))) = 405
    \<and> hdr_get ''Allow'' (rp_headers (fst (gateway v put_info (demo_gate, Map.empty)))) = Some ''GET, HEAD''" by simp
qed

end
