(* ===== verification/Service.thy ===== *)
theory Service
  imports Routing
begin

text \<open>
  What a client sees of the whole gateway: the headers every reply carries, and a submit followed by a poll of the address
  it was given, through the middleware, the router and the handlers.
\<close>

section \<open>Marks\<close>

text \<open>The gateway's own replies set these headers and no others.\<close>

definition own_headers :: "reply \<Rightarrow> bool" where
  "own_headers r \<longleftrightarrow>
     list_all (\<lambda>h. fst h \<in> {''Content-Type'', ''Content-Length'', ''Retry-After'', ''Operation-Location''}) (rp_headers r)"

named_theorems own "replies of the gateway's own"

lemma own_over:
  assumes "own_headers r" and "k \<notin> {''Content-Type'', ''Content-Length'', ''Retry-After'', ''Operation-Location''}"
  shows "hdr_get k (rp_headers (reply_over hs r)) = hdr_get k hs"
proof -
  have "map_of (rev (rp_headers r)) k = None" using assms by (auto simp: own_headers_def list_all_iff map_of_eq_None_iff)
  then show ?thesis by (simp add: reply_over_get)
qed

lemma own_set: "own_headers r \<Longrightarrow> k \<in> {''Content-Type'', ''Content-Length'', ''Retry-After'', ''Operation-Location''}
    \<Longrightarrow> rp_headers r' = hdr_set k x (rp_headers r) \<Longrightarrow> own_headers r'"
  by (auto simp: own_headers_def hdr_set_def list_all_iff)

lemma own_api [own]: "own_headers (api_reply e s)"
  by (auto simp: own_headers_def api_reply_def reply_of_def WriteTo_def Let_def split: option.splits)

lemma own_json [own]: "own_headers (WriteJSON [] st w)" "own_headers (WriteJSON (SetRetryAfter n []) st w)"
  by (simp_all add: own_headers_def WriteJSON_def SetRetryAfter_def hdr_set_def Let_def)

lemma own_accepted [own]: "own_headers (accepted loc)"
  by (simp add: own_headers_def accepted_def SetRetryAfter_def hdr_set_def)

lemma own_plain [own]:
  "own_headers \<lparr>rp_status = st, rp_headers = [], rp_body = b\<rparr>"
  "own_headers \<lparr>rp_status = st, rp_headers = [(''Content-Length'', n)], rp_body = b\<rparr>"
  "own_headers \<lparr>rp_status = st, rp_headers = hdr_set ''Content-Length'' n (hdr_set ''Content-Type'' c []), rp_body = b\<rparr>"
  by (simp_all add: own_headers_def hdr_set_def)

lemma own_poll [own]: "own_headers (poll decode ge head now srf nm i m)"
  by (auto simp: poll_def streamResult_def own split: option.split sum.split get_error.split job_status.split)

lemma own_delete [own]: "own_headers (fst (deleteResult ge de rd rm srf nm i m))"
  by (auto simp: deleteResult_def own split: option.split sum.split prod.split)

lemma own_artifact [own]: "own_headers (diArtifact ge now i m)"
  by (auto simp: diArtifact_def own split: option.split sum.split)

lemma own_submit [own]: "own_headers (fst (submit v p m))"
  by (auto simp: submit_def Let_def own split: option.split sum.split prod.split)

lemma own_sync: "fst (syncAnalyze v srf nm m fs) = Some r \<Longrightarrow> own_headers r"
  by (auto simp: syncAnalyze_def writeSyncError_def writeSyncResult_def Let_def own
      split: option.splits sum.splits prod.splits if_splits run_error.splits)

text \<open>A relayed answer keeps the correlation id the middleware echoed.\<close>

lemma relayed_id:
  "hdr_get ''X-Ms-Client-Request-Id'' (foldl (\<lambda>d (k, vs). if P k then d else relayHeader k vs d) hs xs)
    = hdr_get ''X-Ms-Client-Request-Id'' hs"
proof (induction xs arbitrary: hs)
  case (Cons x xs)
  obtain k vs where x: "x = (k, vs)" by (cases x)
  have "hdr_get ''X-Ms-Client-Request-Id'' (relayHeader k vs hs) = hdr_get ''X-Ms-Client-Request-Id'' hs"
    by (cases "k = ''X-Ms-Client-Request-Id''") (simp add: relayHeader_def, simp add: relayHeader_other)
  then show ?case by (simp add: Cons.IH x)
qed simp

lemma relay_id: "hdr_get ''X-Ms-Client-Request-Id'' (rp_headers (relaySync decode hs srf r)) = hdr_get ''X-Ms-Client-Request-Id'' hs"
proof -
  have "hdr_get ''X-Ms-Client-Request-Id'' (rp_headers (reply_over hs (api_reply e srf))) = hdr_get ''X-Ms-Client-Request-Id'' hs" for e
    by (rule own_over [OF own_api]) simp
  moreover have "hdr_get ''X-Ms-Client-Request-Id'' (rp_headers (copyResponse hs r)) = hdr_get ''X-Ms-Client-Request-Id'' hs"
    by (simp add: copyResponse_def relayed_id)
  ultimately show ?thesis
    using relayed_id [of "\<lambda>k. skipRelayHeader k \<or> k = ''Content-Length'' \<or> k = ''Retry-After''" hs "cr_headers r"]
    by (simp add: relaySync_def Let_def hdr_get_set split: option.split)
qed

lemma proxy_id:
  "hdr_get ''X-Ms-Client-Request-Id'' (rp_headers (fst (proxyGET decode b send encode hs srf nm p q accept m)))
    = hdr_get ''X-Ms-Client-Request-Id'' hs"
  by (simp add: proxyGET_def relay_id own_over own split: sum.split)

lemma root_id:
  "hdr_get ''X-Ms-Client-Request-Id'' (rp_headers (fst (registerRoot decode b send encode hs srf nm r q accept m)))
    = hdr_get ''X-Ms-Client-Request-Id'' hs"
  by (simp add: registerRoot_def proxy_id own_over own split: option.split)

definition relayed :: "handler \<Rightarrow> bool" where
  "relayed h \<longleftrightarrow> h \<in> {DiInfo, DiListModels, DiGetModel, DiListOperations, DiGetOperation}
     \<union> range RootHome \<union> range RootSwagger \<union> range RootSwaggerUnder \<union> range RootUsageLogs \<union> range RootUsageMonth"

text \<open>A handler keeps a header it was given.\<close>

definition keeps :: "string \<Rightarrow> headers \<Rightarrow> reply option \<times> gw_state \<Rightarrow> bool" where
  "keeps k hs x \<longleftrightarrow> (\<forall>r. fst x = Some r \<longrightarrow> hdr_get k (rp_headers r) = hdr_get k hs)"

definition mark :: "string \<Rightarrow> bool" where
  "mark k \<longleftrightarrow> k \<in> {''X-Ms-Client-Request-Id'', ''Cache-Control'', ''Server''}"

lemma keeps_answer: "mark k \<Longrightarrow> own_headers r \<Longrightarrow> keeps k hs (answer hs r st)"
  by (auto simp: keeps_def answer_def mark_def intro!: own_over)

lemma keeps_sync: "mark k \<Longrightarrow> keeps k hs (run_sync v hs srf nm st)"
  unfolding keeps_def
proof (intro allI impI)
  fix r assume k: "mark k" and r: "fst (run_sync v hs srf nm st) = Some r"
  obtain x m' fs' where x: "syncAnalyze (gw_sync v) srf nm (fst st) (snd st) = (x, m', fs')" by (metis prod_cases3)
  with r obtain r0 where "x = Some r0" "r = reply_over hs r0" by (auto simp: run_sync_def)
  with own_sync [of "gw_sync v" srf nm "fst st" "snd st" r0] x k show "hdr_get k (rp_headers r) = hdr_get k hs"
    by (auto simp: mark_def intro!: own_over)
qed

lemma keeps_action: "mark k \<Longrightarrow> keeps k hs (run_diAction v rq hs action st)"
  by (simp add: run_diAction_def diAnalyze_def diSyncAnalyze_def Let_def split_beta keeps_answer keeps_sync own
      split: di_action.split sum.split option.split)

lemma keeps_read: "mark k \<Longrightarrow> keeps k hs (readAnalyze v rq hs st)"
  by (simp add: readAnalyze_def split_beta keeps_answer own)

lemma keeps_proxy: "keeps ''X-Ms-Client-Request-Id'' hs (run_proxy v rq hs path st)"
  by (simp add: keeps_def run_proxy_def split_beta proxy_id)

lemma keeps_root: "keeps ''X-Ms-Client-Request-Id'' hs (run_root v rq hs srf r st)"
  by (simp add: keeps_def run_root_def split_beta root_id)

lemma keeps_unrouted: "mark k \<Longrightarrow> hdr_get k (rp_headers (unrouted rs hs m p)) = hdr_get k hs"
  by (auto simp: unrouted_def Let_def mark_def own_over own hdr_get_set)

lemma handler_keeps:
  assumes "\<And>h ms rq m. own_headers (gw_admin v h ms rq m)" and "mark k" and "k = ''X-Ms-Client-Request-Id'' \<or> \<not> relayed h"
  shows "keeps k hs (run_handler v rq hs h ms st)"
proof (cases "relayed h")
  case True
  with assms(3) have "k = ''X-Ms-Client-Request-Id''" by simp
  with True keeps_answer [of k, OF assms(2)] show ?thesis
    by (cases h) (simp_all add: relayed_def image_iff keeps_proxy keeps_root diGetModel_def own)
next
  case False
  then show ?thesis
    using assms(1) keeps_answer [OF assms(2)] keeps_sync [OF assms(2)] keeps_action [OF assms(2)] keeps_read [OF assms(2)]
    by (cases h) (simp_all add: relayed_def run_poll_def split_beta own keeps_def [of k hs "(Some _, _)"] keeps_unrouted [OF assms(2)])
qed


section \<open>Paths\<close>

lemma unescape_plain_append: "CHR ''%'' \<notin> set s \<Longrightarrow> unescape (s @ t) = s @ unescape t"
  by (induction s) (auto simp: unescape_plain)

lemma unescape_PathEscape: "unescape (PathEscape s) = s"
proof (induction s)
  case (Cons c s)
  have per: "unescape (percent c @ t) = c # unescape t" for t
    by (simp add: percent_def Let_def hex_val_upper less_mult_imp_div_less)
  have "path_safe c \<Longrightarrow> c \<noteq> CHR ''%''" by (auto simp: path_safe_def)
  with Cons per show ?case by (simp add: PathEscape_def unescape_plain)
qed (simp add: PathEscape_def)

lemma first_segment_step:
  assumes "CHR ''/'' \<notin> set s" and "s \<noteq> []" and "rest = [] \<or> (\<exists>r. rest = CHR ''/'' # r)"
  shows "first_segment (CHR ''/'' # s @ rest) = (unescape s, rest)"
proof -
  have s: "c \<in> set s \<Longrightarrow> c \<noteq> CHR ''/''" for c using assms(1) by blast
  have rest: "takeWhile (\<lambda>c. c \<noteq> CHR ''/'') rest = []" "dropWhile (\<lambda>c. c \<noteq> CHR ''/'') rest = rest" using assms(3) by auto
  have "takeWhile (\<lambda>c. c \<noteq> CHR ''/'') (s @ rest) = s" "dropWhile (\<lambda>c. c \<noteq> CHR ''/'') (s @ rest) = rest"
    using takeWhile_append2 [of s "\<lambda>c. c \<noteq> CHR ''/''" rest, OF s] dropWhile_append2 [of s "\<lambda>c. c \<noteq> CHR ''/''" rest, OF s]
    by (simp_all only: rest append_Nil2)
  with assms(2) show ?thesis by (simp add: first_segment_def)
qed

text \<open>A path of given segments.\<close>

definition path_of :: "string list \<Rightarrow> string" where
  "path_of segs = concat (map (\<lambda>s. CHR ''/'' # s) segs)"

definition good_segment :: "string \<Rightarrow> bool" where
  "good_segment s \<longleftrightarrow> CHR ''/'' \<notin> set s \<and> s \<notin> {[], ''.'', ''..''}"

lemma path_of_step:
  assumes "good_segment s"
  shows "first_segment (path_of (s # segs)) = (unescape s, path_of segs)" and "path_of (s # segs) \<noteq> []"
proof -
  have "path_of segs = [] \<or> (\<exists>r. path_of segs = CHR ''/'' # r)" by (cases segs) (simp_all add: path_of_def)
  with assms show "first_segment (path_of (s # segs)) = (unescape s, path_of segs)"
    using first_segment_step [of s "path_of segs"] by (simp add: good_segment_def path_of_def)
  show "path_of (s # segs) \<noteq> []" by (simp add: path_of_def)
qed

lemma clean_path_of:
  assumes "segs \<noteq> []" and "list_all good_segment segs"
  shows "clean_path (path_of segs)"
proof -
  have "go_split (CHR ''/'') (s @ path_of segs) = s # segs" if "CHR ''/'' \<notin> set s" "list_all good_segment segs" for s segs
    using that
  proof (induction segs arbitrary: s)
    case Nil
    then show ?case by (simp add: path_of_def go_split_no_sep)
  next
    case (Cons t segs)
    then have "go_split (CHR ''/'') (s @ CHR ''/'' # t @ path_of segs) = s # t # segs"
      using Cons.IH [of t] by (simp add: go_split_append good_segment_def)
    then show ?case by (simp add: path_of_def)
  qed
  from this [of "[]"] assms have "go_split (CHR ''/'') (path_of segs) = [] # segs" by simp
  moreover have "x \<notin> {[], ''.'', ''..''}" if "x \<in> set segs" for x
    using assms(2) that unfolding list_all_iff good_segment_def by blast
  moreover obtain t ts where "segs = t # ts" using assms(1) by (cases segs) auto
  ultimately show ?thesis
    unfolding clean_path_def by (simp only: list.case) (metis in_set_butlastD insertCI last_in_set list.distinct(1))
qed

section \<open>From a submit to its poll\<close>

definition submit_pattern :: "string \<Rightarrow> seg list" where
  "submit_pattern fam = [Lit (tl fam), Lit ''documentModels'', Wild ''action'']"

definition poll_pattern :: "string \<Rightarrow> seg list" where
  "poll_pattern fam = [Lit (tl fam), Lit ''documentModels'', Wild ''modelId'', Lit ''analyzeResults'', Wild ''resultId'']"

lemma family_routes:
  assumes "fam \<in> {DIPathPrefix, LegacyPathPrefix}"
  shows "(''POST'', submit_pattern fam, DiAction) \<in> set (gateway_routes True rd)"
    and "(''GET'', poll_pattern fam, DiPoll) \<in> set (gateway_routes True rd)"
proof -
  have "(''POST'', submit_pattern fam, DiAction) \<in> set (di_family fam)" "(''GET'', poll_pattern fam, DiPoll) \<in> set (di_family fam)"
    if "fam = DIPathPrefix \<or> fam = LegacyPathPrefix" for fam
    using that by (elim disjE; simp only:; code_simp)+
  with assms show "(''POST'', submit_pattern fam, DiAction) \<in> set (gateway_routes True rd)"
    "(''GET'', poll_pattern fam, DiPoll) \<in> set (gateway_routes True rd)"
    by (auto simp: gateway_routes_def surface_Register_def registerDI_def)
qed

lemma family_segment:
  assumes "fam \<in> {DIPathPrefix, LegacyPathPrefix}"
  shows "good_segment (tl fam)" and "unescape (tl fam) = tl fam" and "fam = CHR ''/'' # tl fam" and "CHR ''%'' \<notin> set fam"
    and "CHR ''?'' \<notin> set fam"
  using assms by (auto simp: DIPathPrefix_def LegacyPathPrefix_def good_segment_def)

lemma prefix_of_family:
  assumes "fam \<in> {DIPathPrefix, LegacyPathPrefix}"
  shows "prefixOf (unescape (fam @ CHR ''/'' # rest)) = fam"
proof -
  have "unescape (fam @ CHR ''/'' # rest) = fam @ CHR ''/'' # unescape rest"
    using family_segment(4) [OF assms] by (simp add: unescape_plain_append unescape_plain)
  with assms show ?thesis by (auto simp: prefixOf_def DIPathPrefix_def LegacyPathPrefix_def)
qed

text \<open>An analyze request reaches \<open>diAnalyze\<close> with the model its path names.\<close>

lemma analyze_reached:
  assumes fam: "fam \<in> {DIPathPrefix, LegacyPathPrefix}" and di: "mg_runners (fst st) SurfaceDI_name \<noteq> None"
    and rq: "gr_method rq = ''POST''" "gr_path rq = fam @ ''/documentModels/'' @ a" "CHR ''/'' \<notin> set a"
    and a: "unescape a = modelID @ '':analyze''" and m: "CHR '':'' \<notin> set modelID" "modelID \<noteq> []"
  shows "mux_serve v rq hs st = diAnalyze v rq hs modelID st" and "prefixOf (unescape (gr_path rq)) = fam"
proof -
  have "a \<noteq> [] \<and> a \<noteq> ''.'' \<and> a \<noteq> ''..''"
  proof (intro conjI notI)
    assume "a = []"
    with a show False by simp
  next
    assume "a = ''.''"
    with a have "length (modelID @ '':analyze'') = 1" by simp
    then show False by simp
  next
    assume "a = ''..''"
    with a have "length (modelID @ '':analyze'') = 2" by simp
    then show False by simp
  qed
  then have good: "good_segment a" "good_segment ''documentModels''" using rq(3) by (simp_all add: good_segment_def)
  have path: "gr_path rq = path_of [tl fam, ''documentModels'', a]"
    using family_segment(3) [OF fam] rq(2) by (simp add: path_of_def)
  note fs = path_of_step [OF family_segment(1) [OF fam]] path_of_step [OF good(1)] path_of_step [OF good(2)]
  have plain: "unescape ''documentModels'' = ''documentModels''" by simp
  have "unescape a \<noteq> ''/''"
  proof
    assume "unescape a = ''/''"
    with a have "length (modelID @ '':analyze'') = 1" by simp
    then show False by simp
  qed
  then have sm: "seg_match (submit_pattern fam) (gr_path rq)"
    by (simp add: submit_pattern_def path fs family_segment(2) [OF fam] plain) (simp add: path_of_def)
  have cap: "captures (submit_pattern fam) (gr_path rq) = [modelID @ '':analyze'']"
    by (simp add: submit_pattern_def path fs a)
  have "clean_path (gr_path rq)" unfolding path by (rule clean_path_of) (simp_all add: good family_segment(1) [OF fam])
  moreover have "mux_match (served_routes True (mg_runners (fst st) SurfaceRead_name \<noteq> None)) ''POST'' (gr_path rq)
      = Some (DiAction, [modelID @ '':analyze''])"
    using route_found(1) [OF family_routes(1) [OF fam] sm disjI2 [OF refl]] cap by simp
  ultimately have "mux_serve v rq hs st = run_diAction v rq hs (modelID @ '':analyze'') st"
    using di rq(1) by (simp add: mux_serve_def path_value_def)
  moreover have "diAction (modelID @ '':analyze'') = Analyze modelID"
    using go_cut_found [OF m(1), of "''analyze''"] m(2) by (simp add: diAction_def)
  ultimately show "mux_serve v rq hs st = diAnalyze v rq hs modelID st" by (simp add: run_diAction_def)
  show "prefixOf (unescape (gr_path rq)) = fam" using prefix_of_family [OF fam, of "''documentModels/'' @ a"] rq(2) by simp
qed

lemma refused_statuses:
  "requireAPIVersion x = Inl e \<Longrightarrow> err_Status e = 400"
  "checkDIParams q = Some e \<Longrightarrow> err_Status e = 400"
  by (auto simp: requireAPIVersion_def checkDIParams_def invalidParam_def WithInner_def err_New_def mk_error_def Let_def api_error0_def
      split: if_splits option.splits)

lemma analyze_accepted:
  assumes "diAnalyze v rq hs modelID st = (Some r, st')" and "rp_status r = 202"
  shows "\<exists>ver r0. r = reply_over hs r0 \<and> rp_status r0 = 202 \<and> snd st' = snd st
    \<and> submit (gw_submit v)
        \<lparr>sp_surface = SurfaceDI, sp_name = SurfaceDI_name, sp_modelID = modelID, sp_apiVersion = ver,
         sp_query = gw_encode v (upstreamQuery (gr_query rq)), sp_prefix = prefixOf (unescape (gr_path rq)),
         sp_location = (\<lambda>b i. diOperationLocation b (prefixOf (unescape (gr_path rq))) modelID i ver)\<rparr> (fst st) = (r0, fst st')"
  using assms refused_statuses
  by (fastforce simp: diAnalyze_def answer_def Let_def split: sum.splits option.splits prod.splits)

text \<open>A poll of the address of a Document Intelligence operation reaches its handler.\<close>

lemma poll_reached:
  assumes fam: "fam \<in> {DIPathPrefix, LegacyPathPrefix}" and di: "mg_runners (fst st) SurfaceDI_name \<noteq> None"
    and rq: "gr_method rq \<in> {''GET'', ''HEAD''}"
      "gr_path rq = fam @ ''/documentModels/'' @ PathEscape modelID @ ''/analyzeResults/'' @ PathEscape i"
    and m: "modelID \<notin> {[], ''/'', ''.'', ''..''}" and i: "ids_Normalize i = Some i"
  shows "mux_serve v rq hs st = run_poll v rq hs SurfaceDI i st"
proof -
  have i1: "i \<noteq> []" "i \<noteq> ''.''" "i \<noteq> ''..''" "i \<noteq> ''/''" using i by (auto simp: ids_Normalize_def ids_Valid_def ids_Len_def split: if_splits)
  have good: "good_segment (PathEscape s)" if "s \<notin> {[], ''.'', ''..''}" for s
  proof -
    have "unescape (PathEscape s) \<notin> {[], ''.'', ''..''}" using that by (simp add: unescape_PathEscape)
    then have "PathEscape s \<notin> {[], ''.'', ''..''}" by auto
    moreover have "CHR ''/'' \<notin> set (PathEscape s)" using PathEscape_no_sep [of s] by blast
    ultimately show ?thesis by (simp add: good_segment_def)
  qed
  have segs: "good_segment (PathEscape modelID)" "good_segment (PathEscape i)" "good_segment ''documentModels''"
    "good_segment ''analyzeResults''" using good [of modelID] good [of i] m i1 by (simp_all add: good_segment_def)
  let ?segs = "[tl fam, ''documentModels'', PathEscape modelID, ''analyzeResults'', PathEscape i]"
  have path: "gr_path rq = path_of ?segs"
    using family_segment(3) [OF fam] rq(2) by (simp add: path_of_def)
  note fs = path_of_step [OF family_segment(1) [OF fam]] path_of_step [OF segs(1)] path_of_step [OF segs(2)]
    path_of_step [OF segs(3)] path_of_step [OF segs(4)]
  have plain: "unescape ''documentModels'' = ''documentModels''" "unescape ''analyzeResults'' = ''analyzeResults''" by simp_all
  have sm: "seg_match (poll_pattern fam) (gr_path rq)"
    using m i1 by (simp add: poll_pattern_def path fs family_segment(2) [OF fam] plain unescape_PathEscape) (simp add: path_of_def)
  have cap: "captures (poll_pattern fam) (gr_path rq) = [modelID, i]"
    by (simp add: poll_pattern_def path fs unescape_PathEscape)
  have "clean_path (gr_path rq)" unfolding path by (rule clean_path_of) (simp_all add: segs family_segment(1) [OF fam])
  moreover have "mux_match (served_routes True (mg_runners (fst st) SurfaceRead_name \<noteq> None)) (gr_method rq) (gr_path rq)
      = Some (DiPoll, [modelID, i])"
    using route_found [OF family_routes(2) [OF fam] sm disjI2 [OF refl]] cap rq(1) by auto
  ultimately show ?thesis using di by (simp add: mux_serve_def path_value_def)
qed


section \<open>Instances\<close>

definition demo_service :: gw_env where
  "demo_service = \<lparr>gw_submit = demo_submit, gw_sync = sync_demo, gw_now = 0, gw_decode = (\<lambda>x. None), gw_decode_body = (\<lambda>x. None),
     gw_get_err = None, gw_del_err = None, gw_readdir = None, gw_rm = (\<lambda>x. None),
     gw_base = (\<lambda>s. \<lparr>b_name = ''di'', b_baseURL = ''http://di:5000'', b_apiKey = [], b_timeout = 1, b_surface = SurfaceDI, b_maxBytes = 1\<rparr>),
     gw_send = (\<lambda>rq. Inl ''down''), gw_encode = (\<lambda>q. []),
     gw_admin = (\<lambda>h ms rq m. \<lparr>rp_status = 200, rp_headers = [], rp_body = []\<rparr>)\<rparr>"

definition analyze_request :: "string \<Rightarrow> gw_request" where
  "analyze_request action = \<lparr>gr_method = ''POST'', gr_path = ''/documentintelligence/documentModels/'' @ action,
     gr_query = [(''api-version'', [''1''])], gr_accept = [], gr_client_id = ''c-1''\<rparr>"

definition get_request :: "string \<Rightarrow> gw_request" where
  "get_request path = \<lparr>gr_method = ''GET'', gr_path = path, gr_query = [], gr_accept = [], gr_client_id = []\<rparr>"

lemma demo_reached:
  assumes "CHR ''/'' \<notin> set modelID" "CHR '':'' \<notin> set modelID" "CHR ''%'' \<notin> set modelID" "modelID \<noteq> []"
  shows "gateway demo_service (analyze_request (modelID @ '':analyze'')) (demo_gate, fs)
    = (let rq = analyze_request (modelID @ '':analyze'') in
       case diAnalyze demo_service rq (marked rq) modelID (demo_gate, fs) of
         (Some r, st') \<Rightarrow> (r, st')
       | (None, st') \<Rightarrow> (\<lparr>rp_status = 200, rp_headers = marked rq, rp_body = []\<rparr>, st'))"
proof -
  have "unescape (modelID @ '':analyze'') = modelID @ unescape '':analyze''" by (rule unescape_plain_append [OF assms(3)])
  then have a: "unescape (modelID @ '':analyze'') = modelID @ '':analyze''" by simp
  show ?thesis
    unfolding gateway_is_marked Let_def
    by (subst analyze_reached(1) [where fam = DIPathPrefix, OF _ _ _ _ _ a assms(2,4)])
       (simp_all add: analyze_request_def DIPathPrefix_def assms(1) demo_gate_def SurfaceDI_name_def)
qed

definition demo_call_params :: "string \<Rightarrow> submit_params" where
  "demo_call_params modelID = \<lparr>sp_surface = SurfaceDI, sp_name = SurfaceDI_name, sp_modelID = modelID, sp_apiVersion = ''1'',
     sp_query = [], sp_prefix = DIPathPrefix, sp_location = (\<lambda>b i. diOperationLocation b DIPathPrefix modelID i ''1'')\<rparr>"

lemma demo_analyze:
  assumes "CHR ''/'' \<notin> set modelID" "CHR '':'' \<notin> set modelID" "CHR ''%'' \<notin> set modelID" "modelID \<noteq> []"
  shows "gateway demo_service (analyze_request (modelID @ '':analyze'')) (demo_gate, fs)
    = (case submit demo_submit (demo_call_params modelID) demo_gate of
         (r, m) \<Rightarrow> (reply_over (marked (analyze_request (modelID @ '':analyze''))) r, (m, fs)))"
proof -
  have pre: "prefixOf (unescape (gr_path (analyze_request (modelID @ '':analyze'')))) = DIPathPrefix"
    using prefix_of_family [of DIPathPrefix "''documentModels/'' @ modelID @ '':analyze''"] by (simp add: analyze_request_def DIPathPrefix_def)
  have "requireAPIVersion (query_Get (gr_query (analyze_request (modelID @ '':analyze''))) ''api-version'') = Inr ''1''"
    by (simp add: requireAPIVersion_def query_Get_def analyze_request_def)
  moreover have "checkDIParams (gr_query (analyze_request (modelID @ '':analyze''))) = None"
    unfolding analyze_request_def gw_request.simps by code_simp
  moreover have "gw_submit demo_service = demo_submit" "gw_encode demo_service q = []" for q by (simp_all add: demo_service_def)
  ultimately show ?thesis
    by (simp add: demo_reached [OF assms] diAnalyze_def pre answer_def demo_call_params_def Let_def split: prod.split)
qed

lemma demo_calls:
  "rp_status (fst (submit demo_submit (demo_call_params ''prebuilt-layout'') demo_gate)) = 202"
  "let g = submit demo_submit (demo_call_params ''..'') demo_gate in
    fst g = accepted (''https://g/documentintelligence/documentModels/../analyzeResults/'' @ ids_New (replicate 16 0) @ ''?api-version=1'')
    \<and> (case mg_runners (snd g) SurfaceDI_name of None \<Rightarrow> False | Some q \<Rightarrow> True)
    \<and> (case mg_runners (snd g) SurfaceRead_name of None \<Rightarrow> True | Some q \<Rightarrow> False)"
  by code_simp+

lemma demo_submits: "rp_status (fst (gateway demo_service (analyze_request ''prebuilt-layout:analyze'') (demo_gate, fs))) = 202"
  using demo_analyze [of "''prebuilt-layout''" fs] demo_calls(1) by (simp add: split_beta)



text \<open>The model name of an analyze request is not held to the form \<open>validModelID\<close> checks: a request for the model \<open>..\<close> is
  accepted, and the address it is told to poll is not the path of any result: a client that resolves the dots, as the
  redirect of \<open>ServeMux\<close> does, gets the 404 that ends a poller.\<close>

theorem dotted_model_cannot_be_polled:
  "let g = gateway demo_service (analyze_request ''..:analyze'') (demo_gate, (\<lambda>x. None)) in
    rp_status (fst g) = 202
    \<and> hdr_get ''Operation-Location'' (rp_headers (fst g))
      = Some (''https://g/documentintelligence/documentModels/../analyzeResults/'' @ ids_New (replicate 16 0) @ ''?api-version=1'')
    \<and> \<not> clean_path (''/documentintelligence/documentModels/../analyzeResults/'' @ ids_New (replicate 16 0))
    \<and> rp_status (fst (gateway demo_service (get_request (''/documentintelligence/analyzeResults/'' @ ids_New (replicate 16 0))) (snd g))) = 404"
proof -
  let ?p = "''/documentintelligence/analyzeResults/'' @ ids_New (replicate 16 0)"
  have eval: "\<not> answers (gateway_routes True False) ''GET'' ?p" "verbs (gateway_routes True False) ?p = []" "clean_path ?p"
    "\<not> clean_path (''/documentintelligence/documentModels/../analyzeResults/'' @ ids_New (replicate 16 0))"
    by code_simp+
  obtain r0 m where sub: "submit demo_submit (demo_call_params ''..'') demo_gate = (r0, m)" by (metis surj_pair)
  have r0: "r0 = accepted (''https://g/documentintelligence/documentModels/../analyzeResults/'' @ ids_New (replicate 16 0) @ ''?api-version=1'')"
    and run: "(mg_runners (fst (m, \<lambda>x. None)) SurfaceDI_name \<noteq> None) = True" "(mg_runners (fst (m, \<lambda>x. None)) SurfaceRead_name \<noteq> None) = False"
    using demo_calls(2) by (auto simp: sub Let_def split: option.splits)
  have g: "gateway demo_service (analyze_request ''..:analyze'') (demo_gate, (\<lambda>x. None))
      = (reply_over (marked (analyze_request ''..:analyze'')) r0, (m, (\<lambda>x. None)))"
    using demo_analyze [of "''..''" "\<lambda>x. None"] by (simp add: sub)
  have loc: "hdr_get ''Operation-Location'' (rp_headers (reply_over hs (accepted l))) = Some l" "rp_status (accepted l) = 202" for hs l
    by (simp_all add: reply_over_get accepted_def SetRetryAfter_def hdr_set_def)
  have "rp_status (fst (gateway demo_service (get_request ?p) (m, (\<lambda>x. None)))) = 404"
    using unrouted_answer [where st = "(m, \<lambda>x. None)" and rq = "get_request ?p" and v = demo_service, OF refl, unfolded run] eval
    by (simp add: get_request_def)
  with eval(4) show ?thesis by (simp add: g r0 loc)
qed

end
