(* ===== verification/Spec2Isabelle.thy ===== *)
theory Spec2Isabelle
  imports Pages Sched Azerr Jsonx Upstream Splitter Metrics Hedge Whole Parts Textunit Engine
    Blobs Store Jobs Recover Traffic Httpx Surface Order Rewrite Objects Measure Merge Sections
    Renumber Merger JsonText MergedJson Migrate Sync Config Mux Gateway Routing Service
begin

text \<open>
  A model of the gateway in \<open>src/internal\<close>: a server that accepts Azure document analyses, keeps each as a
  durable job, runs it against a container that only answers synchronously, and serves the result to
  polls. The definitions are translated from the Go sources; names are kept where Isabelle allows it.

  \<^bold>\<open>How the program works.\<close> A submit (\<open>surface/surface.go\<close>) takes an admission slot, stores the document
  (\<open>store/blob.go\<close>), commits a row (\<open>store/db.go\<close>), queues the id and answers 202 with a poll address. A
  worker (\<open>jobs/manager.go\<close>) takes the id and calls the engine (\<open>engine/engine.go\<close>), which sends the
  document whole or, when it is a large PDF, cuts it (\<open>pdfsplit\<close>) into balanced parts and runs them
  (\<open>engine/parts.go\<close>) through the fair scheduler (\<open>sched/sched.go\<close>), each attempt possibly raced by a
  duplicate (\<open>engine/hedge.go\<close>), each call classified and retried with backoff (\<open>upstream\<close>). The parts
  that succeed are merged, and the worker stores the envelope that polls stream. Recovery and sweeps
  (\<open>jobs/recover.go\<close>) rerun what a dead process left and remove what nobody needs.

  \<^bold>\<open>The theories.\<close>
  \<^item> \<open>Prelude\<close>: strings as Go handles them (splitting, trimming, decimal numbers), list lemmas.
  \<^item> \<open>GoJson\<close>: JSON values as they are marshalled. \<open>Azerr\<close>: \<open>azerr/azerr.go\<close>, error bodies, retry headers,
    the parsing of a container's error.
  \<^item> \<open>Slots\<close>: channels used as semaphores and the locale \<open>slot_pool\<close> of a bounded pool of slots, with its
    invariant; it is interpreted on the buffered channel, which the splitter and the admission gate use.
  \<^item> \<open>Sched\<close>: \<open>sched/sched.go\<close>, one definition per critical section and a step relation for all callers.
  \<^item> \<open>Pages\<close>: \<open>pdfsplit/pages.go\<close>, \<open>plan.go\<close>, \<open>detect.go\<close>. \<open>Splitter\<close>: \<open>pdfsplit/split.go\<close>; pdfcpu is a parameter.
  \<^item> \<open>Jsonx\<close>: \<open>jsonx/jsonx.go\<close>, the byte scanner that finds a member of an answer without decoding it.
  \<^item> \<open>Upstream\<close>: \<open>upstream/*.go\<close>, one call: route, transport errors, classification, result file, backoff. The
    HTTP transport is a parameter.
  \<^item> \<open>Metrics\<close>, \<open>Hedge\<close>, \<open>Whole\<close>, \<open>Parts\<close>, \<open>Engine\<close>: \<open>engine/*.go\<close>. The fan-out and the hedge are step relations,
    since their goroutines interleave; merging is a parameter here, modelled by the theories of \<open>merge\<close> below.
  \<^item> \<open>Textunit\<close>: \<open>textunit/textunit.go\<close> and \<open>ids/ids.go\<close>.
  \<^item> \<open>Blobs\<close>: \<open>store/blob.go\<close> on a tree of files; every system call that can fail is a parameter.
    \<open>Store\<close>: \<open>store/db.go\<close>, each SQL statement as a function of the list of rows.
    \<open>Migrate\<close>: \<open>store/migrate.go\<close>, schema changes over a record of what SQLite's connection does.
  \<^item> \<open>Jobs\<close>: \<open>jobs/manager.go\<close>. \<open>Recover\<close>: \<open>jobs/recover.go\<close>. \<open>Traffic\<close>: submits, workers and the feeder of one
    surface interleaved in any order.
  \<^item> \<open>Httpx\<close>: \<open>httpx/httpx.go\<close>. \<open>Surface\<close>: \<open>surface/*.go\<close>, the handlers.
    \<open>Sync\<close>: \<open>surface/sync.go\<close>, \<open>passthrough.go\<close> and \<open>upstream/proxy.go\<close>, the requests that keep nothing.
  \<^item> \<open>Config\<close>: \<open>config/config.go\<close> and the pools sized with it. \<open>Mux\<close>: the routing of \<open>net/http\<close>. \<open>Gateway\<close>: the routes of
    \<open>surface\<close> and \<open>admin\<close>, the middleware of \<open>httpx\<close> and \<open>app.NewHandler\<close>, as one function from a request and a state to a
    reply and a state. \<open>Routing\<close> and \<open>Service\<close> prove what a client sees of it.
  \<^item> \<open>Rewrite\<close>: \<open>jsonx/rewrite.go\<close>, the streaming walker that copies a JSON text and lets a visitor replace scalars, and
    its equivalence with a grammar of the texts it accepts. \<open>Objects\<close>: \<open>jsonx/object.go\<close> and the array and member
    loops. \<open>JsonText\<close>: RFC 8259's grammar, and that what the walker accepts is of it.
  \<^item> \<open>Order\<close>: \<open>merge/order.go\<close>. \<open>Measure\<close>: \<open>merge/check.go\<close> and the parts' data. \<open>Merge\<close>: page mapping, shifts,
    the separator, the visitors of \<open>di.go\<close> and \<open>read.go\<close>, the writer. \<open>Sections\<close>: \<open>sections.go\<close> and \<open>continue.go\<close>.
    \<open>Merger\<close>: \<open>DI\<close> and \<open>Read\<close>. \<open>Renumber\<close> and \<open>MergedJson\<close> prove what the renumbering and the whole merge keep.

  \<^bold>\<open>What the lemmas show.\<close> \<open>Parts\<close> and \<open>Engine\<close>: the parts that make up an answer cover the selected pages
  once and in order, every answer of a job is the container's answer for exactly those pages or an error,
  a fan-out ends, and a job whose parts all succeed succeeds. \<open>Sched\<close>: never more slots than the limit,
  no slot idle while a caller waits, turns shared between jobs. \<open>Upstream\<close>, \<open>Whole\<close>: what every outcome of a
  call becomes, how often it is tried, and that only a success leaves a file. \<open>Blobs\<close>, \<open>Jobs\<close>, \<open>Surface\<close>: a
  202 means the document and its row are stored, the poll address parses and polls, and the bytes
  polled are the bytes the worker stored. \<open>Traffic\<close>, \<open>Recover\<close>: admission holds whatever is interleaved,
  nothing is run twice, the sweeps delete nothing live; and \<open>Recover.recover_race\<close> shows how a finished job
  can still be failed by a recovery pass that read it before. \<open>Order\<close>, \<open>Renumber\<close>: the merged member order keeps every
  part's own, pages are mapped to the planned ones, and a shifted span covers the same text. \<open>Rewrite\<close>, \<open>Objects\<close>,
  \<open>MergedJson\<close>: the walker accepts exactly its grammar, and whatever a merge returns is well-formed JSON.
  \<open>Migrate\<close>: a schema change happens whole or not at all, after a complete backup. \<open>Sync\<close>: a synchronous analyze serves
  what the engine answered and leaves nothing behind, and a relayed GET goes to the configured host only.
  \<open>Config\<close>: what loads is in range and sizes every pool as it says. \<open>Routing\<close>: no route hides another, and the catch-all
  answers the rest. \<open>Service\<close>: the marks on every reply, and a submit whose poll address, taken through the router again,
  finds its job; \<open>Service.dotted_model_cannot_be_polled\<close> is the model name for which it does not.

  \<^bold>\<open>Bounds and fuel.\<close> Go's \<open>int\<close> values (sizes, counts, times) are \<open>int\<close> or \<open>nat\<close>: the sizes are bounded by
  configuration far below \<open>2 ^ 63\<close>. Saturating conversions and durations that can overflow (\<open>Backoff\<close>, the
  page numbers of \<open>ParsePages\<close>) write their clamps out. Loops are structural or have a measure; no
  definition takes fuel. Times are nanoseconds, and seconds where the database keeps them.

  \<^bold>\<open>Not modelled.\<close> The third-party packages (pdfcpu, SQLite, the Go HTTP client and server) are parameters.
  Writers and readers of \<open>jsonx\<close> and \<open>merge\<close> are strings: buffering and I/O errors in the middle of a file are left out,
  and so is the output a failed merge leaves behind, which its caller discards.
  The replies under \<open>/_gw/\<close> are a parameter of \<open>Gateway\<close>. Start-up wiring, logging, metrics text and platform calls hold no
  logic of this kind. The mock container, probes and generators are test tooling.
\<close>

end
